(* ===== verification/Prelude.thy ===== *)
theory Prelude
  imports Complex_Main "HOL-Library.List_Lexorder" "HOL-Library.Char_ord"
    "HOL-Library.Product_Lexorder"
begin

text \<open>
  The vocabulary every component shares: the exceptions the services raise and catch, results
  that are either an exception or a value, Python's \<open>datetime\<close> with and without a time zone,
  the bounds of PostgreSQL's integer columns, and the decimal rendering \<open>str(n)\<close> that event
  identifiers are built from. Floats are exact rationals.
\<close>

named_theorems result_simps \<open>rewriting of results built with \<open>rbind\<close>\<close>
named_theorems table_simps \<open>lookups in updated tables\<close>

subsection \<open>Exceptions and results\<close>

text \<open>
  One constructor per exception class that some handler of the services tells apart. The
  string is the message where the code builds or forwards one. \<open>DatabaseError\<close> stands for
  every \<open>SQLAlchemyError\<close> that is not an \<open>IntegrityError\<close>; \<open>OtherError\<close> carries the class
  name of an exception no handler distinguishes.
\<close>

datatype exn =
    ValueError string
  | ValidationError string
  | IntegrityError string
  | DatabaseError string
  | TypeError string
  | TimeoutError
  | PermanentEventError string
  | MissingGraphStateError string
  | ModelInferenceError string
  | RuntimeError string
  | OtherError string string

type_synonym 'a result = "exn + 'a"

definition rbind :: "'e + 'a \<Rightarrow> ('a \<Rightarrow> 'e + 'b) \<Rightarrow> 'e + 'b" where
  "rbind m f = (case m of Inl e \<Rightarrow> Inl e | Inr x \<Rightarrow> f x)"

lemma rbind_Inl [simp, result_simps]: "rbind (Inl e) f = Inl e"
  by (simp add: rbind_def)

lemma rbind_Inr [simp, result_simps]: "rbind (Inr x) f = f x"
  by (simp add: rbind_def)

lemma rbind_eq_Inr [result_simps]: "rbind m f = Inr y \<longleftrightarrow> (\<exists>x. m = Inr x \<and> f x = Inr y)"
  by (auto simp: rbind_def split: sum.splits)

lemma rbind_eq_Inl [result_simps]:
  "rbind m f = Inl e \<longleftrightarrow> m = Inl e \<or> (\<exists>x. m = Inr x \<and> f x = Inl e)"
  by (auto simp: rbind_def split: sum.splits)

definition guard_r :: "bool \<Rightarrow> 'e \<Rightarrow> 'e + unit" where
  "guard_r b e = (if b then Inr () else Inl e)"

lemma guard_r_eq_Inr [simp, result_simps]: "guard_r b e = Inr u \<longleftrightarrow> b"
  by (simp add: guard_r_def)

lemma guard_r_eq_Inl [simp, result_simps]: "guard_r b e = Inl e' \<longleftrightarrow> \<not> b \<and> e' = e"
  by (auto simp: guard_r_def)

lemma guard_r_True [simp]: "guard_r True e = Inr ()"
  by (simp add: guard_r_def)

lemma guard_r_False [simp]: "guard_r False e = Inl e"
  by (simp add: guard_r_def)

subsection \<open>Datetimes\<close>

text \<open>
  A \<open>datetime\<close> counts microseconds and either carries a time zone (then the count is from the
  UTC epoch) or does not. Python refuses to subtract or order a value with a zone and one
  without.
\<close>

datatype datetime = Aware int | Naive int

fun is_aware :: "datetime \<Rightarrow> bool" where
  "is_aware (Aware _) = True"
| "is_aware (Naive _) = False"

fun dt_sub :: "datetime \<Rightarrow> datetime \<Rightarrow> int result" where
  "dt_sub (Aware a) (Aware b) = Inr (a - b)"
| "dt_sub (Naive a) (Naive b) = Inr (a - b)"
| "dt_sub _ _ = Inl (TypeError ''can't subtract offset-naive and offset-aware datetimes'')"

lemma dt_sub_aware: "is_aware a \<Longrightarrow> is_aware b \<Longrightarrow> \<exists>d. dt_sub a b = Inr d"
  by (cases a; cases b) auto

text \<open>
  The instant of a value bound to a \<open>timestamptz\<close> column: the driver reads a value without a zone
  in the local zone of the process, which is UTC in the containers the services run in.
\<close>

fun instant :: "datetime \<Rightarrow> int" where
  "instant (Aware t) = t"
| "instant (Naive t) = t"

text \<open>\<open>max(delta.total_seconds() * 1_000, 0)\<close>: microseconds to milliseconds, never negative.\<close>

definition clamped_ms :: "int \<Rightarrow> rat" where
  "clamped_ms us = max (of_int us / 1000) 0"

lemma clamped_ms_nonneg [simp]: "0 \<le> clamped_ms us"
  by (simp add: clamped_ms_def)

subsection \<open>Column bounds\<close>

definition int4 :: "int \<Rightarrow> bool" where
  "int4 i \<longleftrightarrow> - (2 ^ 31) \<le> i \<and> i < 2 ^ 31"

definition int8 :: "int \<Rightarrow> bool" where
  "int8 i \<longleftrightarrow> - (2 ^ 63) \<le> i \<and> i < 2 ^ 63"

subsection \<open>Decimal rendering\<close>

definition digit_char :: "nat \<Rightarrow> char" where
  "digit_char d = char_of (48 + d)"

fun str_nat :: "nat \<Rightarrow> string" where
  "str_nat n = (if n < 10 then [digit_char n] else str_nat (n div 10) @ [digit_char (n mod 10)])"

declare str_nat.simps [simp del]

definition str_int :: "int \<Rightarrow> string" where
  "str_int i = (if i < 0 then CHR ''-'' # str_nat (nat (- i)) else str_nat (nat i))"

definition digit_val :: "char \<Rightarrow> nat" where
  "digit_val c = of_char c - 48"

definition nat_of_digits :: "string \<Rightarrow> nat" where
  "nat_of_digits s = foldl (\<lambda>a c. 10 * a + digit_val c) 0 s"

lemma of_char_digit_char: "d < 10 \<Longrightarrow> of_char (digit_char d) = 48 + d"
  by (simp add: digit_char_def)

lemma digit_val_char: "d < 10 \<Longrightarrow> digit_val (digit_char d) = d"
  by (simp add: digit_val_def of_char_digit_char)

lemma nat_of_digits_str_nat: "nat_of_digits (str_nat n) = n"
proof (induction n rule: str_nat.induct)
  case (1 n)
  show ?case
  proof (cases "n < 10")
    case True
    then show ?thesis
      by (simp add: str_nat.simps [of n] nat_of_digits_def digit_val_char)
  next
    case False
    with 1 have "nat_of_digits (str_nat (n div 10)) = n div 10" by simp
    with False show ?thesis
      by (simp add: str_nat.simps [of n] nat_of_digits_def digit_val_char)
  qed
qed

lemma str_nat_inj: "str_nat m = str_nat n \<Longrightarrow> m = n"
  by (metis nat_of_digits_str_nat)

lemma str_nat_digits: "c \<in> set (str_nat n) \<Longrightarrow> \<exists>d < 10. c = digit_char d"
proof (induction n rule: str_nat.induct)
  case IH: (1 n)
  show ?case
  proof (cases "n < 10")
    case True
    with IH show ?thesis by (auto simp: str_nat.simps [of n])
  next
    case False
    from False IH(2) consider "c \<in> set (str_nat (n div 10))" | "c = digit_char (n mod 10)"
      by (auto simp: str_nat.simps [of n])
    then show ?thesis
    proof cases
      case 1
      with False IH(1) show ?thesis by blast
    next
      case 2
      moreover have "n mod 10 < 10" by simp
      ultimately show ?thesis by blast
    qed
  qed
qed

lemma digit_char_neq:
  assumes "d < 10" and "c = CHR '':'' \<or> c = CHR ''-''"
  shows "digit_char d \<noteq> c"
proof
  assume "digit_char d = c"
  with assms(1) have "(of_char c :: nat) = 48 + d" by (metis of_char_digit_char)
  with assms show False by auto
qed

lemma str_nat_no_colon: "CHR '':'' \<notin> set (str_nat n)"
  by (auto dest!: str_nat_digits simp: digit_char_neq [symmetric])

lemma str_nat_no_minus: "CHR ''-'' \<notin> set (str_nat n)"
  by (auto dest!: str_nat_digits simp: digit_char_neq [symmetric])

lemma str_int_no_colon: "CHR '':'' \<notin> set (str_int i)"
  by (simp add: str_int_def str_nat_no_colon)

lemma str_int_inj: "str_int i = str_int j \<Longrightarrow> i = j"
proof -
  have head: "str_nat m \<noteq> CHR ''-'' # s" for m s
    using str_nat_no_minus [of m] by auto
  assume "str_int i = str_int j"
  then show "i = j"
    by (auto simp: str_int_def head head [symmetric] dest!: str_nat_inj split: if_splits)
qed

text \<open>\<open>sep.join(parts)\<close>.\<close>

fun join_with :: "string \<Rightarrow> string list \<Rightarrow> string" where
  "join_with sep [] = []"
| "join_with sep [s] = s"
| "join_with sep (s # t # rest) = s @ sep @ join_with sep (t # rest)"

text \<open>Where two texts agree, their first occurrences of a separator do.\<close>

lemma split_first:
  "a @ x # p = b @ x # q \<Longrightarrow> x \<notin> set a \<Longrightarrow> x \<notin> set b \<Longrightarrow> a = b \<and> p = q"
proof (induction a arbitrary: b)
  case Nil
  then show ?case by (cases b) auto
next
  case (Cons c a)
  then show ?case by (cases b) auto
qed

end
