(* ===== verification/Tables.thy ===== *)
theory Tables
  imports Prelude
begin

text \<open>
  The SQL statements the code issues, on tables that are association lists from primary keys to
  rows: \<open>INSERT ... ON CONFLICT DO NOTHING\<close>, \<open>INSERT ... ON CONFLICT DO UPDATE ... WHERE\<close> for one
  and for several rows, and \<open>UPDATE ... WHERE\<close>. The locale \<open>versioned_upsert\<close> is the contract
  the three conditional upserts of the code share: a row is replaced only by one that is at least
  as new. It gives monotonicity, and convergence whatever the order of delivery.
\<close>

type_synonym ('k, 'v) table = "('k \<times> 'v) list"

definition table_ok :: "('k, 'v) table \<Rightarrow> bool" where
  "table_ok t \<longleftrightarrow> distinct (map fst t)"

lemma table_ok_Nil [simp]: "table_ok []"
  by (simp add: table_ok_def)

lemma map_of_eq_Some_iff_table: "table_ok t \<Longrightarrow> map_of t k = Some v \<longleftrightarrow> (k, v) \<in> set t"
  by (simp add: table_ok_def)

subsection \<open>INSERT ... ON CONFLICT DO NOTHING\<close>

definition insert_nothing :: "'k \<Rightarrow> 'v \<Rightarrow> ('k, 'v) table \<Rightarrow> ('k, 'v) table" where
  "insert_nothing k v t = (if map_of t k = None then t @ [(k, v)] else t)"

lemma table_ok_insert_nothing [simp]: "table_ok t \<Longrightarrow> table_ok (insert_nothing k v t)"
  by (auto simp: table_ok_def insert_nothing_def map_of_eq_None_iff)

lemma map_of_insert_nothing [table_simps]:
  "map_of (insert_nothing k v t) k' =
     (if k' = k \<and> map_of t k = None then Some v else map_of t k')"
  by (auto simp: insert_nothing_def map_add_def split: option.splits)

lemma dom_insert_nothing: "dom (map_of (insert_nothing k v t)) = insert k (dom (map_of t))"
  by (auto simp: map_of_insert_nothing dom_def)

text \<open>A multi-row insert treats its rows in order; a later row may conflict with an earlier one.\<close>

definition insert_rows :: "('k \<times> 'v) list \<Rightarrow> ('k, 'v) table \<Rightarrow> ('k, 'v) table" where
  "insert_rows rows t = fold (\<lambda>(k, v). insert_nothing k v) rows t"

lemma insert_rows_Nil [simp]: "insert_rows [] t = t"
  by (simp add: insert_rows_def)

lemma insert_rows_Cons [simp]:
  "insert_rows ((k, v) # rows) t = insert_rows rows (insert_nothing k v t)"
  by (simp add: insert_rows_def)

lemma table_ok_insert_rows [simp]: "table_ok t \<Longrightarrow> table_ok (insert_rows rows t)"
  by (induction rows arbitrary: t) auto

lemma map_of_insert_rows [table_simps]:
  "map_of (insert_rows rows t) k =
     (case map_of t k of Some v \<Rightarrow> Some v | None \<Rightarrow> map_of rows k)"
proof (induction rows arbitrary: t)
  case Nil
  then show ?case by (simp split: option.splits)
next
  case (Cons r rows)
  then show ?case
    by (cases r) (auto simp: map_of_insert_nothing split: option.splits)
qed

lemma dom_insert_rows:
  "dom (map_of (insert_rows rows t)) = dom (map_of t) \<union> fst ` set rows"
proof (induction rows arbitrary: t)
  case (Cons r rows)
  then show ?case by (cases r) (auto simp: dom_insert_nothing)
qed simp

lemma insert_rows_keeps: "map_of t k = Some v \<Longrightarrow> map_of (insert_rows rows t) k = Some v"
  by (simp add: map_of_insert_rows)

subsection \<open>UPDATE\<close>

definition update_row :: "'k \<Rightarrow> ('v \<Rightarrow> 'v) \<Rightarrow> ('k, 'v) table \<Rightarrow> ('k, 'v) table" where
  "update_row k f t = map (\<lambda>(k', v). (k', if k' = k then f v else v)) t"

lemma keys_update_row [simp]: "map fst (update_row k f t) = map fst t"
  by (induction t) (auto simp: update_row_def)

lemma table_ok_update_row [simp]: "table_ok (update_row k f t) = table_ok t"
  by (simp add: table_ok_def)

lemma map_of_update_row [table_simps]:
  "map_of (update_row k f t) k' = (if k' = k then map_option f (map_of t k) else map_of t k')"
  by (induction t) (auto simp: update_row_def)

lemma dom_update_row [simp]: "dom (map_of (update_row k f t)) = dom (map_of t)"
  by (auto simp: map_of_update_row dom_def)

subsection \<open>INSERT ... ON CONFLICT DO UPDATE ... WHERE\<close>

text \<open>
  \<open>wins new old\<close> is the WHERE clause over the excluded and the stored row, \<open>merge new old\<close> the SET
  clause. The second component says whether a row was inserted or updated, which is what a
  RETURNING clause reports.
\<close>

definition upsert ::
  "('v \<Rightarrow> 'v \<Rightarrow> bool) \<Rightarrow> ('v \<Rightarrow> 'v \<Rightarrow> 'v) \<Rightarrow> 'k \<Rightarrow> 'v \<Rightarrow> ('k, 'v) table \<Rightarrow> ('k, 'v) table \<times> bool"
where
  "upsert wins merge k v t =
     (case map_of t k of
        None \<Rightarrow> (t @ [(k, v)], True)
      | Some old \<Rightarrow> if wins v old then (update_row k (merge v) t, True) else (t, False))"

lemma table_ok_upsert [simp]: "table_ok t \<Longrightarrow> table_ok (fst (upsert wins merge k v t))"
  by (auto simp: upsert_def table_ok_def map_of_eq_None_iff split: option.splits)

text \<open>The row the upsert of \<open>v\<close> leaves where the row \<open>stored\<close> was.\<close>

definition upserted ::
  "('v \<Rightarrow> 'v \<Rightarrow> bool) \<Rightarrow> ('v \<Rightarrow> 'v \<Rightarrow> 'v) \<Rightarrow> 'v \<Rightarrow> 'v option \<Rightarrow> 'v"
where
  "upserted wins merge v stored =
     (case stored of None \<Rightarrow> v | Some old \<Rightarrow> if wins v old then merge v old else old)"

lemma map_of_upsert [table_simps]:
  "map_of (fst (upsert wins merge k v t)) k' =
     (if k' = k then Some (upserted wins merge v (map_of t k)) else map_of t k')"
  by (auto simp: upsert_def upserted_def map_of_update_row map_add_def split: option.splits)

lemma snd_upsert:
  "snd (upsert wins merge k v t) =
     (case map_of t k of None \<Rightarrow> True | Some old \<Rightarrow> wins v old)"
  by (auto simp: upsert_def split: option.splits)

lemma dom_upsert [simp]:
  "dom (map_of (fst (upsert wins merge k v t))) = insert k (dom (map_of t))"
  by (auto simp: map_of_upsert dom_def)

text \<open>
  With several rows PostgreSQL refuses to affect one row twice in a command: a key that an earlier
  row of the same statement inserted or updated is a cardinality violation.
\<close>

definition cardinality_violation :: exn where
  "cardinality_violation =
     DatabaseError ''ON CONFLICT DO UPDATE command cannot affect row a second time''"

fun upsert_rows ::
  "('v \<Rightarrow> 'v \<Rightarrow> bool) \<Rightarrow> ('v \<Rightarrow> 'v \<Rightarrow> 'v) \<Rightarrow> 'k set \<Rightarrow> ('k \<times> 'v) list \<Rightarrow> ('k, 'v) table
     \<Rightarrow> ('k, 'v) table result"
where
  "upsert_rows wins merge affected [] t = Inr t"
| "upsert_rows wins merge affected ((k, v) # rows) t =
     (if k \<in> affected then Inl cardinality_violation
      else (case upsert wins merge k v t of (t', hit) \<Rightarrow>
              upsert_rows wins merge (if hit then insert k affected else affected) rows t'))"

lemma upsert_rows_step:
  "upsert_rows wins merge A ((k, v) # rows) t = Inr t' \<Longrightarrow>
     k \<notin> A \<and> (\<exists>A'. upsert_rows wins merge A' rows (fst (upsert wins merge k v t)) = Inr t')"
  by (auto split: if_splits prod.splits)

lemma upsert_rows_table_ok:
  "upsert_rows wins merge A rows t = Inr t' \<Longrightarrow> table_ok t \<Longrightarrow> table_ok t'"
proof (induction rows arbitrary: A t)
  case (Cons r rows)
  obtain k v where r: "r = (k, v)" by (cases r)
  from Cons.prems(1) obtain A' where
    up: "upsert_rows wins merge A' rows (fst (upsert wins merge k v t)) = Inr t'"
    unfolding r by (blast dest: upsert_rows_step)
  from Cons.IH [OF up] Cons.prems(2) show ?case by simp
qed simp

lemma upsert_rows_dom:
  "upsert_rows wins merge A rows t = Inr t' \<Longrightarrow>
     dom (map_of t') = dom (map_of t) \<union> fst ` set rows"
proof (induction rows arbitrary: A t)
  case (Cons r rows)
  obtain k v where r: "r = (k, v)" by (cases r)
  from Cons.prems(1) obtain A' where
    "upsert_rows wins merge A' rows (fst (upsert wins merge k v t)) = Inr t'"
    unfolding r by (blast dest: upsert_rows_step)
  from Cons.IH [OF this] show ?case by (auto simp: r)
qed simp

text \<open>Rows with distinct keys always go through, and then each key sees one upsert.\<close>

lemma upsert_rows_distinct:
  "distinct (map fst rows) \<Longrightarrow> A \<inter> fst ` set rows = {} \<Longrightarrow>
     \<exists>t'. upsert_rows wins merge A rows t = Inr t'"
proof (induction rows arbitrary: A t)
  case (Cons r rows)
  obtain k v where r: "r = (k, v)" by (cases r)
  obtain t1 hit where u: "upsert wins merge k v t = (t1, hit)" by fastforce
  have "\<exists>t'. upsert_rows wins merge (if hit then insert k A else A) rows t1 = Inr t'"
    using Cons.prems by (intro Cons.IH) (auto simp: r)
  with Cons.prems show ?case by (simp add: r u)
qed simp

lemma upsert_rows_notin:
  "upsert_rows wins merge A rows t = Inr t' \<Longrightarrow> k \<notin> fst ` set rows \<Longrightarrow>
     map_of t' k = map_of t k"
proof (induction rows arbitrary: A t)
  case (Cons r rows)
  obtain j v where r: "r = (j, v)" by (cases r)
  from Cons.prems(1) obtain A' where
    "upsert_rows wins merge A' rows (fst (upsert wins merge j v t)) = Inr t'"
    unfolding r by (blast dest: upsert_rows_step)
  from Cons.IH [OF this] Cons.prems(2) show ?case by (auto simp: r map_of_upsert)
qed simp

lemma upsert_rows_lookup:
  assumes "upsert_rows wins merge A rows t = Inr t'"
    and "distinct (map fst rows)" and "(k, v) \<in> set rows"
  shows "map_of t' k = Some (upserted wins merge v (map_of t k))"
  using assms
proof (induction rows arbitrary: A t)
  case (Cons r rows)
  obtain j w where r: "r = (j, w)" by (cases r)
  from Cons.prems(1) obtain A' where
    up: "upsert_rows wins merge A' rows (fst (upsert wins merge j w t)) = Inr t'"
    unfolding r by (blast dest: upsert_rows_step)
  show ?case
  proof (cases "j = k")
    case True
    with Cons.prems have "w = v" and "k \<notin> fst ` set rows"
      by (force simp: r)+
    with upsert_rows_notin [OF up] True show ?thesis by (simp add: map_of_upsert)
  next
    case False
    with Cons.prems have "(k, v) \<in> set rows" and "distinct (map fst rows)"
      by (auto simp: r)
    from Cons.IH [OF up this(2,1)] False show ?thesis by (simp add: map_of_upsert)
  qed
qed simp

subsection \<open>Tables that only grow\<close>

text \<open>Every row of the first table is in the second, possibly replaced by a related one.\<close>

definition rows_le :: "('v \<Rightarrow> 'v \<Rightarrow> bool) \<Rightarrow> ('k, 'v) table \<Rightarrow> ('k, 'v) table \<Rightarrow> bool" where
  "rows_le leq t t' \<longleftrightarrow>
     (\<forall>k old. map_of t k = Some old \<longrightarrow> (\<exists>new. map_of t' k = Some new \<and> leq old new))"

lemma rows_leI:
  "(\<And>k old. map_of t k = Some old \<Longrightarrow> \<exists>new. map_of t' k = Some new \<and> leq old new) \<Longrightarrow>
     rows_le leq t t'"
  by (simp add: rows_le_def)

lemma rows_leD:
  "rows_le leq t t' \<Longrightarrow> map_of t k = Some old \<Longrightarrow>
     \<exists>new. map_of t' k = Some new \<and> leq old new"
  by (simp add: rows_le_def)

lemma rows_le_refl: "(\<And>v. leq v v) \<Longrightarrow> rows_le leq t t"
  by (simp add: rows_le_def)

lemma rows_le_trans:
  assumes "rows_le leq t u" and "rows_le leq u w"
    and "\<And>a b c. leq a b \<Longrightarrow> leq b c \<Longrightarrow> leq a c"
  shows "rows_le leq t w"
  using assms unfolding rows_le_def by metis

lemma rows_le_insert_rows: "(\<And>v. leq v v) \<Longrightarrow> rows_le leq t (insert_rows rows t)"
  by (auto simp: rows_le_def map_of_insert_rows)

lemma rows_le_insert_nothing: "(\<And>v. leq v v) \<Longrightarrow> rows_le leq t (insert_nothing k v t)"
  by (auto simp: rows_le_def map_of_insert_nothing)

lemma rows_le_append: "(\<And>v. leq v v) \<Longrightarrow> map_of t k = None \<Longrightarrow> rows_le leq t (t @ [(k, v)])"
  by (auto simp: rows_le_def map_add_def split: option.splits)

subsection \<open>The contract of a conditional upsert\<close>

text \<open>
  \<open>data\<close> is the part of a row the statement writes (everything but \<open>created_at\<close> and
  \<open>updated_at\<close>), \<open>older\<close> the preorder its WHERE clause tests on that part.
\<close>

locale versioned_upsert =
  fixes data :: "'v \<Rightarrow> 'd"
    and older :: "'d \<Rightarrow> 'd \<Rightarrow> bool"
    and wins :: "'v \<Rightarrow> 'v \<Rightarrow> bool"
    and merge :: "'v \<Rightarrow> 'v \<Rightarrow> 'v"
  assumes wins_iff: "wins new old \<longleftrightarrow> older (data old) (data new)"
    and data_merge: "data (merge new old) = data new"
    and older_refl: "older d d"
    and older_trans: "older a b \<Longrightarrow> older b c \<Longrightarrow> older a c"
begin

lemma upserted_newer: "older (data old) (data (upserted wins merge v (Some old)))"
  by (simp add: upserted_def wins_iff data_merge older_refl)

text \<open>The data an upsert leaves depends on the data of the two rows only.\<close>

lemma data_upserted:
  "data (upserted wins merge v stored) =
     (case map_option data stored of
        None \<Rightarrow> data v
      | Some a \<Rightarrow> if older a (data v) then data v else a)"
  by (auto simp: upserted_def wins_iff data_merge split: option.splits)

lemma upsert_monotone:
  assumes "map_of t k = Some old"
  shows "\<exists>new. map_of (fst (upsert wins merge j v t)) k = Some new \<and> older (data old) (data new)"
  using assms by (auto simp: map_of_upsert upserted_newer older_refl)

lemma upsert_rows_monotone:
  assumes "upsert_rows wins merge A rows t = Inr t'" and "map_of t k = Some old"
  shows "\<exists>new. map_of t' k = Some new \<and> older (data old) (data new)"
  using assms
proof (induction rows arbitrary: A t old)
  case Nil
  then show ?case by (simp add: older_refl)
next
  case (Cons r rows)
  obtain j v where r: "r = (j, v)" by (cases r)
  from Cons.prems(1) obtain A' where
    up: "upsert_rows wins merge A' rows (fst (upsert wins merge j v t)) = Inr t'"
    unfolding r by (blast dest: upsert_rows_step)
  from upsert_monotone [OF Cons.prems(2), of j v] obtain mid where
    mid: "map_of (fst (upsert wins merge j v t)) k = Some mid" "older (data old) (data mid)"
    by blast
  from Cons.IH [OF up mid(1)] mid(2) show ?case by (blast intro: older_trans)
qed

lemma rows_le_upsert:
  "rows_le (\<lambda>old new. older (data old) (data new)) t (fst (upsert wins merge k v t))"
  by (rule rows_leI) (rule upsert_monotone)

lemma rows_le_upsert_rows:
  "upsert_rows wins merge A rows t = Inr t' \<Longrightarrow>
     rows_le (\<lambda>old new. older (data old) (data new)) t t'"
  by (rule rows_leI) (rule upsert_rows_monotone)

text \<open>
  Of two rows of which one is strictly newer, either order of arrival leaves the same data.
\<close>

lemma upserted_commute:
  assumes "older (data v) (data w)" and "\<not> older (data w) (data v)"
  shows "data (upserted wins merge w (Some (upserted wins merge v stored))) =
    data (upserted wins merge v (Some (upserted wins merge w stored)))"
  using assms
  by (auto simp: upserted_def wins_iff data_merge older_refl split: option.splits
      intro: older_trans)

lemma upsert_commute:
  assumes "older (data v) (data w)" and "\<not> older (data w) (data v)"
  shows "map_option data (map_of (fst (upsert wins merge k w (fst (upsert wins merge k v t)))) i)
       = map_option data (map_of (fst (upsert wins merge k v (fst (upsert wins merge k w t)))) i)"
  using upserted_commute [OF assms] by (simp add: map_of_upsert)

end

end
