(* ===== verification/Ids.thy ===== *)
theory Ids
  imports Prelude
begin

text \<open>
  \<open>shared/contracts/ids.py\<close>: the identity string of a logical event and the identifier made of
  it. \<open>uuid5\<close> stands for \<open>str(uuid5(RISK_EVENT_NAMESPACE, identity))\<close>; what the lemmas show is
  that the identity strings themselves never confuse two logical events, so identifiers collide
  only where SHA-1 does.
\<close>

datatype id_part = SPart string | IPart int

fun part_str :: "id_part \<Rightarrow> string" where
  "part_str (SPart s) = s"
| "part_str (IPart i) = str_int i"

fun join_colon :: "string list \<Rightarrow> string" where
  "join_colon [] = []"
| "join_colon [s] = s"
| "join_colon (s # t # rest) = s @ CHR '':'' # join_colon (t # rest)"

definition event_identity :: "string \<Rightarrow> id_part list \<Rightarrow> string" where
  "event_identity event_type identity_parts = join_colon (event_type # map part_str identity_parts)"

definition deterministic_event_id ::
  "(string \<Rightarrow> string) \<Rightarrow> string \<Rightarrow> id_part list \<Rightarrow> string"
where
  "deterministic_event_id uuid5 event_type identity_parts =
     uuid5 (event_identity event_type identity_parts)"

subsection \<open>Splitting at a colon\<close>

lemma split_first_colon:
  assumes "a @ CHR '':'' # x = b @ CHR '':'' # y"
    and "CHR '':'' \<notin> set a" and "CHR '':'' \<notin> set b"
  shows "a = b \<and> x = y"
  using assms by (rule split_first)

lemma split_last_colon:
  assumes "x @ CHR '':'' # a = y @ CHR '':'' # b"
    and "CHR '':'' \<notin> set a" and "CHR '':'' \<notin> set b"
  shows "x = y \<and> a = b"
proof -
  have "rev (x @ CHR '':'' # a) = rev (y @ CHR '':'' # b)"
    by (simp only: assms(1))
  then have "rev a @ CHR '':'' # rev x = rev b @ CHR '':'' # rev y"
    by (simp only: rev_append rev.simps append_assoc append.simps)
  from split_first_colon [OF this] assms(2,3) show ?thesis by simp
qed

text \<open>The event type comes first and holds no colon, so types separate identities.\<close>

lemma event_identity_type:
  assumes "event_identity ty ps = event_identity ty' ps'"
    and "CHR '':'' \<notin> set ty" and "CHR '':'' \<notin> set ty'" and "ps \<noteq> []" and "ps' \<noteq> []"
  shows "ty = ty'"
proof -
  obtain p qs p' qs' where "ps = p # qs" and "ps' = p' # qs'"
    using assms(4,5) by (meson list.exhaust)
  with assms(1) have "ty @ CHR '':'' # join_colon (map part_str ps) =
      ty' @ CHR '':'' # join_colon (map part_str ps')"
    by (simp add: event_identity_def)
  from split_first_colon [OF this assms(2,3)] show ?thesis by simp
qed

subsection \<open>The identities the services use\<close>

text \<open>A graph batch: stream name and time step.\<close>

lemma batch_identity_inj:
  assumes "event_identity ty [SPart s, IPart i] = event_identity ty [SPart s', IPart i']"
  shows "s = s' \<and> i = i'"
proof -
  from assms have "s @ CHR '':'' # str_int i = s' @ CHR '':'' # str_int i'"
    by (simp add: event_identity_def)
  from split_last_colon [OF this str_int_no_colon str_int_no_colon] show ?thesis
    by (auto dest: str_int_inj)
qed

text \<open>A scoring request: batch event id, transaction and time step.\<close>

lemma request_identity_inj:
  assumes "event_identity ty [SPart e, SPart t, IPart i] =
      event_identity ty [SPart e', SPart t', IPart i']"
    and "length e = length e'"
  shows "e = e' \<and> t = t' \<and> i = i'"
proof -
  from assms have "e @ CHR '':'' # t @ CHR '':'' # str_int i =
      e' @ CHR '':'' # t' @ CHR '':'' # str_int i'"
    by (simp add: event_identity_def)
  with assms(2) have e: "e = e'"
    and rest: "t @ CHR '':'' # str_int i = t' @ CHR '':'' # str_int i'"
    by auto
  from split_last_colon [OF rest str_int_no_colon str_int_no_colon] e show ?thesis
    by (auto dest: str_int_inj)
qed

text \<open>A scoring result: request event id and model version.\<close>

lemma result_identity_inj:
  assumes "event_identity ty [SPart e, SPart m] = event_identity ty [SPart e', SPart m']"
    and "length e = length e'"
  shows "e = e' \<and> m = m'"
  using assms by (auto simp: event_identity_def)

text \<open>A dead letter: topic, partition, offset and failure stage.\<close>

lemma dead_letter_identity_inj:
  assumes "event_identity ty [SPart tp, IPart p, IPart off, SPart st] =
      event_identity ty [SPart tp', IPart p', IPart off', SPart st']"
    and "CHR '':'' \<notin> set tp" and "CHR '':'' \<notin> set tp'"
  shows "tp = tp' \<and> p = p' \<and> off = off' \<and> st = st'"
proof -
  from assms(1) have "tp @ CHR '':'' # str_int p @ CHR '':'' # str_int off @ CHR '':'' # st =
      tp' @ CHR '':'' # str_int p' @ CHR '':'' # str_int off' @ CHR '':'' # st'"
    by (simp add: event_identity_def)
  from split_first_colon [OF this assms(2,3)]
  have tp: "tp = tp'" and "str_int p @ CHR '':'' # str_int off @ CHR '':'' # st =
      str_int p' @ CHR '':'' # str_int off' @ CHR '':'' # st'" by auto
  from split_first_colon [OF this(2) str_int_no_colon str_int_no_colon]
  have p: "p = p'" and "str_int off @ CHR '':'' # st = str_int off' @ CHR '':'' # st'"
    by (auto dest: str_int_inj)
  from split_first_colon [OF this(2) str_int_no_colon str_int_no_colon] tp p show ?thesis
    by (auto dest: str_int_inj)
qed

end
