(* ===== verification/Delivery.thy ===== *)
theory Delivery
  imports Prelude
begin

text \<open>
  At-least-once delivery to a transactional consumer. A handler runs in one database transaction:
  an exception rolls the state back. \<open>deliver\<close> applies a history of deliveries, each with its own
  environment (clock readings, trace context). The locale \<open>inbox_consumer\<close> is what a handler
  promises when it claims its event in an inbox first; its lemmas say that redelivery then has no
  effect, wherever in the history it falls. The graph materializer's and the result projector's
  handlers are its instances.
\<close>

definition deliver1 ::
  "('v \<Rightarrow> 'e \<Rightarrow> 's \<Rightarrow> 'x + ('s \<times> 'r)) \<Rightarrow> 'v \<times> 'e \<Rightarrow> 's \<Rightarrow> 's"
where
  "deliver1 handle d s = (case handle (fst d) (snd d) s of Inl _ \<Rightarrow> s | Inr (s', _) \<Rightarrow> s')"

definition deliver ::
  "('v \<Rightarrow> 'e \<Rightarrow> 's \<Rightarrow> 'x + ('s \<times> 'r)) \<Rightarrow> ('v \<times> 'e) list \<Rightarrow> 's \<Rightarrow> 's"
where
  "deliver handle ds s = fold (deliver1 handle) ds s"

lemma deliver_Nil [simp]: "deliver handle [] s = s"
  by (simp add: deliver_def)

lemma deliver_Cons [simp]: "deliver handle (d # ds) s = deliver handle ds (deliver1 handle d s)"
  by (simp add: deliver_def)

lemma deliver_append [simp]:
  "deliver handle (ds @ es) s = deliver handle es (deliver handle ds s)"
  by (simp add: deliver_def)

text \<open>An invariant that every successful run of the handler keeps holds after any history.\<close>

lemma deliver_invariant:
  assumes "\<And>v e s s' r. I s \<Longrightarrow> handle v e s = Inr (s', r) \<Longrightarrow> I s'" and "I s"
  shows "I (deliver handle ds s)"
  using assms(2)
proof (induction ds arbitrary: s)
  case (Cons d ds)
  have "I (deliver1 handle d s)"
    using Cons.prems assms(1) by (auto simp: deliver1_def split: sum.splits prod.splits)
  then show ?case by (simp add: Cons.IH)
qed simp

locale inbox_consumer =
  fixes handle :: "'v \<Rightarrow> 'e \<Rightarrow> 's \<Rightarrow> 'x + ('s \<times> 'r)"
    and key :: "'e \<Rightarrow> 'k"
    and claimed :: "'s \<Rightarrow> 'k \<Rightarrow> bool"
  assumes duplicate_noop: "claimed s (key e) \<Longrightarrow> \<exists>r. handle v e s = Inr (s, r)"
    and success_claims: "handle v e s = Inr (s', r) \<Longrightarrow> claimed s' (key e)"
    and claims_kept: "handle v e s = Inr (s', r) \<Longrightarrow> claimed s k \<Longrightarrow> claimed s' k"
    and claims_only: "handle v e s = Inr (s', r) \<Longrightarrow> claimed s' k \<Longrightarrow> claimed s k \<or> k = key e"
begin

lemma deliver1_claimed: "claimed s k \<Longrightarrow> claimed (deliver1 handle d s) k"
  by (auto simp: deliver1_def split: sum.splits dest: claims_kept)

lemma deliver_claimed: "claimed s k \<Longrightarrow> claimed (deliver handle ds s) k"
  by (induction ds arbitrary: s) (auto simp: deliver1_claimed)

lemma deliver1_duplicate: "claimed s (key (snd d)) \<Longrightarrow> deliver1 handle d s = s"
  using duplicate_noop [of s "snd d" "fst d"] by (auto simp: deliver1_def)

text \<open>Any number of redeliveries of one claimed event is a no-op.\<close>

lemma redelivery_noop:
  "claimed s k \<Longrightarrow> (\<And>d. d \<in> set ds \<Longrightarrow> key (snd d) = k) \<Longrightarrow> deliver handle ds s = s"
  by (induction ds) (auto simp: deliver1_duplicate)

text \<open>A redelivery anywhere after the success may be deleted from the history.\<close>

lemma redelivery_anywhere:
  assumes "handle v e s = Inr (s', r)" and "key (snd d) = key e"
  shows "deliver handle (ds @ d # es) s' = deliver handle (ds @ es) s'"
proof -
  from assms(1) have "claimed s' (key e)" by (rule success_claims)
  then have "claimed (deliver handle ds s') (key (snd d))"
    using assms(2) by (simp add: deliver_claimed)
  then show ?thesis by (simp add: deliver1_duplicate)
qed

text \<open>Every later redelivery of one claimed event may be deleted from the history at once.\<close>

lemma deliver_drop_key:
  "claimed s k \<Longrightarrow> deliver handle (filter (\<lambda>d. key (snd d) \<noteq> k) ds) s = deliver handle ds s"
  by (induction ds arbitrary: s) (auto simp: deliver1_claimed deliver1_duplicate)

text \<open>
  A history and the one with every redelivery of a claimed event dropped leave the same state.
\<close>

lemma deliver_drop_claimed:
  "deliver handle (filter (\<lambda>d. \<not> claimed s (key (snd d))) ds) s = deliver handle ds s"
proof (induction ds arbitrary: s rule: rev_induct)
  case (snoc d ds)
  then show ?case
    by (auto simp: deliver1_duplicate deliver_claimed)
qed simp

lemma claimed_deliver_source:
  "claimed (deliver handle ds s) k \<Longrightarrow> claimed s k \<or> (\<exists>d \<in> set ds. key (snd d) = k)"
proof (induction ds arbitrary: s)
  case (Cons d ds)
  from Cons.prems have "claimed (deliver handle ds (deliver1 handle d s)) k" by simp
  from Cons.IH [OF this] show ?case
    by (auto simp: deliver1_def split: sum.splits prod.splits dest: claims_only)
qed simp

end

end
