(* ===== verification/Events.thy ===== *)
theory Events
  imports Prelude
begin

text \<open>
  \<open>shared/contracts/events.py\<close>: the versioned envelope, the payload of each event class and the
  constraints pydantic enforces on them, from the \<open>Field\<close> declarations and validators. A
  constructor call is \<open>checked valid e\<close>: the event, or a \<open>ValidationError\<close>. Text is a
  list of characters, so a length bound counts characters as pydantic's does; encoding it to bytes
  is the identity, as it is for ASCII. Decoding JSON text into an event is a parameter of the
  services that do it; what is modelled here is what a decoded event must satisfy.
\<close>

subsection \<open>JSON values and bytes\<close>

type_synonym bytes = string

datatype json =
    JNull
  | JBool bool
  | JNum rat
  | JStr string
  | JArr "json list"
  | JObj "(string \<times> json) list"

subsection \<open>The envelope\<close>

definition SCHEMA_VERSION_V1 :: string where
  "SCHEMA_VERSION_V1 = ''1.0''"

record 'p envelope =
  event_id :: string
  event_type :: string
  schema_version :: string
  occurred_at :: datetime
  produced_at :: datetime
  producer :: string
  trace_id :: string
  traceparent :: "string option"
  correlation_id :: string
  causation_id :: "string option"
  payload :: 'p

definition len_in :: "nat \<Rightarrow> nat \<Rightarrow> 'a list \<Rightarrow> bool" where
  "len_in lo hi s \<longleftrightarrow> lo \<le> length s \<and> length s \<le> hi"

fun opt_ok :: "('a \<Rightarrow> bool) \<Rightarrow> 'a option \<Rightarrow> bool" where
  "opt_ok p None = True"
| "opt_ok p (Some x) = p x"

definition hex_lower :: "char \<Rightarrow> bool" where
  "hex_lower c \<longleftrightarrow> c \<in> set ''0123456789abcdef''"

text \<open>The pattern \<open>^00-[0-9a-f]{32}-[0-9a-f]{16}-[0-9a-f]{2}$\<close>.\<close>

definition valid_traceparent :: "string \<Rightarrow> bool" where
  "valid_traceparent s \<longleftrightarrow>
     length s = 55 \<and> take 3 s = ''00-'' \<and>
     list_all hex_lower (take 32 (drop 3 s)) \<and> s ! 35 = CHR ''-'' \<and>
     list_all hex_lower (take 16 (drop 36 s)) \<and> s ! 52 = CHR ''-'' \<and>
     list_all hex_lower (drop 53 s)"

definition require_timezone :: "datetime \<Rightarrow> datetime result" where
  "require_timezone value =
     (if is_aware value then Inr value
      else Inl (ValueError ''event timestamps must be timezone-aware''))"

definition valid_envelope :: "string \<Rightarrow> 'p envelope \<Rightarrow> bool" where
  "valid_envelope ty e \<longleftrightarrow>
     length (event_id e) = 36 \<and>
     event_type e = ty \<and>
     schema_version e = SCHEMA_VERSION_V1 \<and>
     require_timezone (occurred_at e) = Inr (occurred_at e) \<and>
     require_timezone (produced_at e) = Inr (produced_at e) \<and>
     len_in 2 64 (producer e) \<and>
     len_in 16 64 (trace_id e) \<and>
     opt_ok valid_traceparent (traceparent e) \<and>
     len_in 1 128 (correlation_id e) \<and>
     opt_ok (\<lambda>c. length c \<le> 128) (causation_id e)"

lemma require_timezone_ok [simp]: "require_timezone t = Inr t' \<longleftrightarrow> is_aware t \<and> t' = t"
  by (auto simp: require_timezone_def)

text \<open>\<open>kafka_headers\<close>: the optional trace parent is left out when it is missing or empty.\<close>

definition kafka_headers :: "'p envelope \<Rightarrow> (string \<times> bytes) list" where
  "kafka_headers e =
     [(''event_type'', event_type e),
      (''schema_version'', schema_version e),
      (''event_id'', event_id e),
      (''trace_id'', trace_id e),
      (''correlation_id'', correlation_id e)] @
     (case traceparent e of
        None \<Rightarrow> []
      | Some t \<Rightarrow> if t = [] then [] else [(''traceparent'', t)])"

definition checked :: "('e \<Rightarrow> bool) \<Rightarrow> 'e \<Rightarrow> 'e result" where
  "checked valid e = (if valid e then Inr e else Inl (ValidationError ''validation error''))"

lemma checked_eq_Inr [simp]: "checked valid e = Inr e' \<longleftrightarrow> valid e \<and> e' = e"
  by (auto simp: checked_def)

lemma checked_eq_Inl [simp]:
  "checked valid e = Inl x \<longleftrightarrow> \<not> valid e \<and> x = ValidationError ''validation error''"
  by (auto simp: checked_def)

subsection \<open>Graph batches\<close>

record graph_node =
  node_tx_id :: string
  node_time_step :: int
  node_features :: "rat list"

record graph_edge =
  source_tx_id :: string
  destination_tx_id :: string

record batch_payload =
  batch_stream_name :: string
  batch_time_step :: int
  batch_sequence :: int
  batch_source_offset :: int
  batch_feature_schema_version :: string
  batch_nodes :: "graph_node list"
  batch_edges :: "graph_edge list"

type_synonym graph_batch_event = "batch_payload envelope"

definition valid_node :: "graph_node \<Rightarrow> bool" where
  "valid_node n \<longleftrightarrow>
     len_in 1 64 (node_tx_id n) \<and> 1 \<le> node_time_step n \<and> length (node_features n) = 165"

definition valid_edge :: "graph_edge \<Rightarrow> bool" where
  "valid_edge e \<longleftrightarrow> len_in 1 64 (source_tx_id e) \<and> len_in 1 64 (destination_tx_id e)"

definition valid_batch_payload :: "batch_payload \<Rightarrow> bool" where
  "valid_batch_payload p \<longleftrightarrow>
     len_in 1 64 (batch_stream_name p) \<and>
     1 \<le> batch_time_step p \<and> 1 \<le> batch_sequence p \<and> 0 \<le> batch_source_offset p \<and>
     len_in 1 64 (batch_feature_schema_version p) \<and>
     len_in 1 100000 (batch_nodes p) \<and> list_all valid_node (batch_nodes p) \<and>
     length (batch_edges p) \<le> 250000 \<and> list_all valid_edge (batch_edges p)"

definition valid_graph_batch :: "graph_batch_event \<Rightarrow> bool" where
  "valid_graph_batch e \<longleftrightarrow>
     valid_envelope ''risk.graph-batch.observed.v1'' e \<and> valid_batch_payload (payload e)"

subsection \<open>Scoring requests\<close>

record requested_payload =
  req_tx_id :: string
  req_graph_watermark :: int
  req_source_time_step :: int
  req_event_sequence :: int
  req_feature_schema_version :: string
  req_source_ingested_at :: datetime
  req_requested_at :: datetime

type_synonym scoring_requested = "requested_payload envelope"

definition valid_requested_payload :: "requested_payload \<Rightarrow> bool" where
  "valid_requested_payload p \<longleftrightarrow>
     len_in 1 64 (req_tx_id p) \<and>
     1 \<le> req_graph_watermark p \<and> 1 \<le> req_source_time_step p \<and> 1 \<le> req_event_sequence p \<and>
     len_in 1 64 (req_feature_schema_version p)"

definition valid_scoring_requested :: "scoring_requested \<Rightarrow> bool" where
  "valid_scoring_requested e \<longleftrightarrow>
     valid_envelope ''risk.scoring.requested.v1'' e \<and> valid_requested_payload (payload e)"

subsection \<open>Scoring results\<close>

record completed_payload =
  res_tx_id :: string
  res_illicit_probability :: rat
  res_model_version :: string
  res_model_checksum :: string
  res_model_deployed_at :: "datetime option"
  res_feature_schema_version :: string
  res_graph_watermark :: int
  res_source_time_step :: int
  res_event_sequence :: int
  res_source_ingested_at :: datetime
  res_queue_delay_ms :: rat
  res_inference_latency_ms :: rat
  res_end_to_end_latency_ms :: rat
  res_scored_at :: datetime

type_synonym scoring_completed = "completed_payload envelope"

text \<open>The pattern \<open>^sha256:[0-9a-f]{64}$\<close>.\<close>

definition valid_checksum :: "string \<Rightarrow> bool" where
  "valid_checksum s \<longleftrightarrow> length s = 71 \<and> take 7 s = ''sha256:'' \<and> list_all hex_lower (drop 7 s)"

definition valid_completed_payload :: "completed_payload \<Rightarrow> bool" where
  "valid_completed_payload p \<longleftrightarrow>
     len_in 1 64 (res_tx_id p) \<and>
     0 \<le> res_illicit_probability p \<and> res_illicit_probability p \<le> 1 \<and>
     len_in 1 128 (res_model_version p) \<and>
     valid_checksum (res_model_checksum p) \<and>
     len_in 1 64 (res_feature_schema_version p) \<and>
     1 \<le> res_graph_watermark p \<and> 1 \<le> res_source_time_step p \<and> 1 \<le> res_event_sequence p \<and>
     0 \<le> res_queue_delay_ms p \<and> 0 \<le> res_inference_latency_ms p \<and>
     0 \<le> res_end_to_end_latency_ms p"

definition valid_scoring_completed :: "scoring_completed \<Rightarrow> bool" where
  "valid_scoring_completed e \<longleftrightarrow>
     valid_envelope ''risk.scoring.completed.v1'' e \<and> valid_completed_payload (payload e)"

subsection \<open>Scoring failures\<close>

record failed_payload =
  failed_tx_id :: string
  failed_failure_stage :: string
  failed_error_class :: string
  failed_sanitized_error :: string
  failed_attempt_count :: int
  failed_retryable :: bool
  failed_failed_at :: datetime

type_synonym scoring_failed = "failed_payload envelope"

definition valid_failed_payload :: "failed_payload \<Rightarrow> bool" where
  "valid_failed_payload p \<longleftrightarrow>
     len_in 1 64 (failed_tx_id p) \<and> len_in 1 64 (failed_failure_stage p) \<and>
     len_in 1 128 (failed_error_class p) \<and> len_in 1 512 (failed_sanitized_error p) \<and>
     1 \<le> failed_attempt_count p"

definition valid_scoring_failed :: "scoring_failed \<Rightarrow> bool" where
  "valid_scoring_failed e \<longleftrightarrow>
     valid_envelope ''risk.scoring.failed.v1'' e \<and> valid_failed_payload (payload e)"

subsection \<open>Dead letters\<close>

text \<open>\<open>dict[str, Any] | str\<close>.\<close>

datatype original_payload = ObjectPayload "(string \<times> json) list" | TextPayload string

record dead_letter_payload =
  dl_original_topic :: string
  dl_original_partition :: int
  dl_original_offset :: int
  dl_original_key :: "string option"
  dl_original_payload :: original_payload
  dl_original_event_id :: "string option"
  dl_failure_stage :: string
  dl_exception_class :: string
  dl_sanitized_error :: string
  dl_attempt_count :: int
  dl_first_failure_at :: datetime
  dl_last_failure_at :: datetime
  dl_replayed_by :: "string option"

type_synonym dead_letter = "dead_letter_payload envelope"

definition valid_dead_letter_payload :: "dead_letter_payload \<Rightarrow> bool" where
  "valid_dead_letter_payload p \<longleftrightarrow>
     len_in 1 249 (dl_original_topic p) \<and>
     0 \<le> dl_original_partition p \<and> 0 \<le> dl_original_offset p \<and>
     opt_ok (\<lambda>k. length k \<le> 512) (dl_original_key p) \<and>
     opt_ok (\<lambda>i. length i \<le> 128) (dl_original_event_id p) \<and>
     len_in 1 64 (dl_failure_stage p) \<and> len_in 1 128 (dl_exception_class p) \<and>
     len_in 1 512 (dl_sanitized_error p) \<and> 1 \<le> dl_attempt_count p \<and>
     opt_ok (\<lambda>r. length r \<le> 128) (dl_replayed_by p)"

definition valid_dead_letter :: "dead_letter \<Rightarrow> bool" where
  "valid_dead_letter e \<longleftrightarrow>
     valid_envelope ''risk.dead-lettered.v1'' e \<and> valid_dead_letter_payload (payload e)"

subsection \<open>Decoding\<close>

text \<open>
  \<open>decode_event\<close> and \<open>model_validate_json\<close>: \<open>parse\<close> is the structural half (JSON text to the
  declared fields, unknown fields forbidden); the constraints above are the other half.
\<close>

definition decode_event :: "(bytes \<Rightarrow> 'e option) \<Rightarrow> ('e \<Rightarrow> bool) \<Rightarrow> bytes \<Rightarrow> 'e result" where
  "decode_event parse valid raw =
     (case parse raw of
        None \<Rightarrow> Inl (ValidationError ''validation error'')
      | Some e \<Rightarrow> checked valid e)"

lemma decode_event_eq_Inr [simp]:
  "decode_event parse valid raw = Inr e \<longleftrightarrow> parse raw = Some e \<and> valid e"
  by (auto simp: decode_event_def split: option.splits)

lemma decode_event_eq_Inl:
  "decode_event parse valid raw = Inl x \<Longrightarrow> x = ValidationError ''validation error''"
  by (auto simp: decode_event_def split: option.splits)

end
