(* ===== verification/Schema.thy ===== *)
theory Schema
  imports Tables Events
begin

text \<open>
  \<open>shared/database/models.py\<close> and the constraints of
  \<open>migrations/versions/0001_durable_pipeline.py\<close>: one record per table for the columns outside
  the primary key, the database as a record of tables, and the constraints as an invariant. The
  JSONB column of an outbox row holds the event that was dumped into it. Text holds no NUL
  character, which PostgreSQL does not store, and numbers are finite.
\<close>

record transaction_row =
  tx_time_step :: int
  tx_features :: "rat list"
  tx_feature_schema_version :: string
  tx_observed_at :: datetime
  tx_ingested_at :: datetime
  tx_graph_watermark :: int
  tx_created_at :: int
  tx_updated_at :: int

record score_row =
  sc_model_checksum :: string
  sc_model_deployed_at :: "datetime option"
  sc_feature_schema_version :: string
  sc_illicit_probability :: rat
  sc_queue_delay_ms :: rat
  sc_inference_latency_ms :: rat
  sc_end_to_end_latency_ms :: rat
  sc_graph_watermark :: int
  sc_source_event_id :: string
  sc_scored_at :: datetime
  sc_persisted_at :: int

datatype outbox_payload = Requested scoring_requested | Completed scoring_completed

record outbox_row =
  ob_aggregate_id :: string
  ob_topic :: string
  ob_event_key :: string
  ob_payload :: outbox_payload
  ob_schema_version :: string
  ob_created_at :: int
  ob_published_at :: "int option"
  ob_attempt_count :: int
  ob_last_error :: "string option"

record checkpoint_row =
  cp_last_completed_time_step :: int
  cp_source_offset :: int
  cp_updated_at :: int

record replay_row =
  rp_status :: string
  rp_events_per_second :: rat
  rp_updated_at :: int

type_synonym edge = "string \<times> string"

record db =
  transactions :: "(string, transaction_row) table"
  transaction_edges :: "(edge, int) table"
  risk_scores :: "(string \<times> string, score_row) table"
  consumer_inbox :: "(string \<times> string, int) table"
  outbox_events :: "(string, outbox_row) table"
  stream_checkpoints :: "(string, checkpoint_row) table"
  replay_control :: "(string, replay_row) table"

definition empty_db :: db where
  "empty_db = \<lparr>transactions = [], transaction_edges = [], risk_scores = [], consumer_inbox = [],
     outbox_events = [], stream_checkpoints = [], replay_control = []\<rparr>"

definition has_tx :: "db \<Rightarrow> string \<Rightarrow> bool" where
  "has_tx d t \<longleftrightarrow> map_of (transactions d) t \<noteq> None"

subsection \<open>Constraints\<close>

definition keys_ok :: "db \<Rightarrow> bool" where
  "keys_ok d \<longleftrightarrow>
     table_ok (transactions d) \<and> table_ok (transaction_edges d) \<and> table_ok (risk_scores d) \<and>
     table_ok (consumer_inbox d) \<and> table_ok (outbox_events d) \<and>
     table_ok (stream_checkpoints d) \<and> table_ok (replay_control d)"

text \<open>Both ends of an edge and the transaction of a score reference \<open>transactions.tx_id\<close>.\<close>

definition edges_fk :: "db \<Rightarrow> bool" where
  "edges_fk d \<longleftrightarrow> (\<forall>(s, t) \<in> fst ` set (transaction_edges d). has_tx d s \<and> has_tx d t)"

definition scores_fk :: "db \<Rightarrow> bool" where
  "scores_fk d \<longleftrightarrow> (\<forall>(t, m) \<in> fst ` set (risk_scores d). has_tx d t)"

definition source_event_unique :: "db \<Rightarrow> bool" where
  "source_event_unique d \<longleftrightarrow>
     (\<forall>(k, r) \<in> set (risk_scores d). \<forall>(k', r') \<in> set (risk_scores d).
        sc_source_event_id r = sc_source_event_id r' \<longrightarrow> k = k')"

definition probability_range :: "db \<Rightarrow> bool" where
  "probability_range d \<longleftrightarrow>
     (\<forall>(k, r) \<in> set (risk_scores d).
        0 \<le> sc_illicit_probability r \<and> sc_illicit_probability r \<le> 1)"

text \<open>\<open>ck_replay_control_status\<close> and \<open>ck_replay_positive_rate\<close>.\<close>

definition replay_row_ok :: "replay_row \<Rightarrow> bool" where
  "replay_row_ok r \<longleftrightarrow>
     rp_status r \<in> {''running'', ''paused'', ''completed''} \<and> 0 < rp_events_per_second r"

definition replay_ok :: "db \<Rightarrow> bool" where
  "replay_ok d \<longleftrightarrow> (\<forall>(k, r) \<in> set (replay_control d). replay_row_ok r)"

text \<open>Not a constraint of the schema: \<open>canonical_edge\<close> is what keeps self edges out.\<close>

definition no_self_edges :: "db \<Rightarrow> bool" where
  "no_self_edges d \<longleftrightarrow> (\<forall>(s, t) \<in> fst ` set (transaction_edges d). s \<noteq> t)"

definition db_ok :: "db \<Rightarrow> bool" where
  "db_ok d \<longleftrightarrow> keys_ok d \<and> edges_fk d \<and> scores_fk d \<and> source_event_unique d \<and>
     probability_range d \<and> replay_ok d \<and> no_self_edges d"

lemma db_ok_empty [simp]: "db_ok empty_db"
  by (simp add: db_ok_def keys_ok_def edges_fk_def scores_fk_def source_event_unique_def
      probability_range_def replay_ok_def no_self_edges_def empty_db_def)

lemma dom_map_of_table: "dom (map_of t) = fst ` set t"
  by (rule dom_map_of_conv_image_fst)

lemma has_tx_iff: "has_tx d t \<longleftrightarrow> t \<in> dom (map_of (transactions d))"
  by (auto simp: has_tx_def)

end
