(* ===== verification/Graph_Store.thy ===== *)
theory Graph_Store
  imports Schema Ids Delivery
begin

text \<open>
  \<open>shared/database/queries.py\<close>, the graph side: the inbox claim, \<open>materialize_graph_batch\<close>
  statement by statement in the caller's transaction, the stream watermark and the replay
  control row.
\<close>

definition canonical_edge :: "string \<Rightarrow> string \<Rightarrow> edge result" where
  "canonical_edge source destination =
     (if source = destination then Inl (ValueError ''self edges are not supported'')
      else Inr (source, destination))"

text \<open>The claim returns whether the row was inserted.\<close>

definition claim_inbox_event :: "string \<Rightarrow> string \<Rightarrow> int \<Rightarrow> db \<Rightarrow> db \<times> bool" where
  "claim_inbox_event ev consumer now d =
     (d\<lparr>consumer_inbox := insert_nothing (ev, consumer) now (consumer_inbox d)\<rparr>,
      map_of (consumer_inbox d) (ev, consumer) = None)"

subsection \<open>Nodes\<close>

definition node_row :: "graph_batch_event \<Rightarrow> int \<Rightarrow> graph_node \<Rightarrow> string \<times> transaction_row" where
  "node_row ev now n =
     (node_tx_id n,
      \<lparr>tx_time_step = node_time_step n,
       tx_features = node_features n,
       tx_feature_schema_version = batch_feature_schema_version (payload ev),
       tx_observed_at = occurred_at ev,
       tx_ingested_at = produced_at ev,
       tx_graph_watermark = batch_time_step (payload ev),
       tx_created_at = now,
       tx_updated_at = now\<rparr>)"

definition node_wins :: "transaction_row \<Rightarrow> transaction_row \<Rightarrow> bool" where
  "node_wins excluded old \<longleftrightarrow> tx_graph_watermark old \<le> tx_graph_watermark excluded"

definition node_merge :: "transaction_row \<Rightarrow> transaction_row \<Rightarrow> transaction_row" where
  "node_merge excluded old =
     old\<lparr>tx_time_step := tx_time_step excluded,
         tx_features := tx_features excluded,
         tx_feature_schema_version := tx_feature_schema_version excluded,
         tx_observed_at := tx_observed_at excluded,
         tx_ingested_at := tx_ingested_at excluded,
         tx_graph_watermark := tx_graph_watermark excluded,
         tx_updated_at := tx_updated_at excluded\<rparr>"

text \<open>
  Binding a row fails when an integer does not fit its column, before the statement runs. The
  driver reads a timestamp without a zone in the local zone of the process.
\<close>

definition node_bindable :: "string \<times> transaction_row \<Rightarrow> bool" where
  "node_bindable r \<longleftrightarrow>
     int4 (tx_time_step (snd r)) \<and> int4 (tx_graph_watermark (snd r))"

definition data_error :: exn where
  "data_error = DatabaseError ''DataError''"

text \<open>
  A statement built by \<open>values(rows)\<close> is one multi-row \<open>VALUES\<close> with one bind argument for each
  column the code names in each row. asyncpg counts the arguments of a statement before it encodes
  them, and raises its InterfaceError above 32767.
\<close>

definition max_bind_args :: nat where
  "max_bind_args = 32767"

definition too_many_arguments :: exn where
  "too_many_arguments = DatabaseError ''the number of query arguments cannot exceed 32767''"

definition bind_rows :: "nat \<Rightarrow> 'a list \<Rightarrow> unit result" where
  "bind_rows columns rows = guard_r (columns * length rows \<le> max_bind_args) too_many_arguments"

definition upsert_nodes :: "(string \<times> transaction_row) list \<Rightarrow> db \<Rightarrow> db result" where
  "upsert_nodes rows d =
     rbind (bind_rows 7 rows) (\<lambda>_.
     rbind (guard_r (list_all node_bindable rows) data_error) (\<lambda>_.
     rbind (upsert_rows node_wins node_merge {} rows (transactions d)) (\<lambda>t.
     Inr (d\<lparr>transactions := t\<rparr>))))"

subsection \<open>Edges\<close>

text \<open>The loop over the edges: a self edge raises, a repeated edge is skipped.\<close>

fun edge_rows :: "edge set \<Rightarrow> graph_edge list \<Rightarrow> edge list result" where
  "edge_rows seen [] = Inr []"
| "edge_rows seen (e # es) =
     rbind (canonical_edge (source_tx_id e) (destination_tx_id e)) (\<lambda>normalized.
     if normalized \<in> seen then edge_rows seen es
     else rbind (edge_rows (insert normalized seen) es) (\<lambda>rest. Inr (normalized # rest)))"

definition foreign_key_violation :: exn where
  "foreign_key_violation = IntegrityError ''ForeignKeyViolation''"

text \<open>
  The foreign keys are checked when the statement has run, for the rows it inserted; a row that
  was there already satisfies them.
\<close>

definition insert_edges :: "edge list \<Rightarrow> int \<Rightarrow> db \<Rightarrow> db result" where
  "insert_edges rows now d =
     rbind (bind_rows 2 rows) (\<lambda>_.
     rbind (guard_r (list_all (\<lambda>(s, t). map_of (transaction_edges d) (s, t) \<noteq> None \<or>
                has_tx d s \<and> has_tx d t) rows) foreign_key_violation) (\<lambda>_.
     Inr (d\<lparr>transaction_edges :=
              insert_rows (map (\<lambda>e. (e, now)) rows) (transaction_edges d)\<rparr>)))"

subsection \<open>The stream checkpoint\<close>

definition checkpoint_wins :: "checkpoint_row \<Rightarrow> checkpoint_row \<Rightarrow> bool" where
  "checkpoint_wins excluded old \<longleftrightarrow>
     cp_last_completed_time_step old \<le> cp_last_completed_time_step excluded"

definition checkpoint_merge :: "checkpoint_row \<Rightarrow> checkpoint_row \<Rightarrow> checkpoint_row" where
  "checkpoint_merge excluded old =
     old\<lparr>cp_last_completed_time_step := cp_last_completed_time_step excluded,
         cp_source_offset := cp_source_offset excluded,
         cp_updated_at := cp_updated_at excluded\<rparr>"

definition upsert_checkpoint :: "string \<Rightarrow> int \<Rightarrow> int \<Rightarrow> int \<Rightarrow> db \<Rightarrow> db result" where
  "upsert_checkpoint stream step offset now d =
     rbind (guard_r (int4 step \<and> int8 offset) data_error) (\<lambda>_.
     Inr (d\<lparr>stream_checkpoints :=
              fst (upsert checkpoint_wins checkpoint_merge stream
                     \<lparr>cp_last_completed_time_step = step, cp_source_offset = offset,
                      cp_updated_at = now\<rparr> (stream_checkpoints d))\<rparr>))"

subsection \<open>The scoring outbox\<close>

text \<open>
  What a transaction reads from its environment: the database's transaction timestamp, the
  successive readings of \<open>datetime.now(UTC)\<close> (two per request) and the trace parent of the
  current span.
\<close>

record txn_env =
  env_now :: int
  env_clock :: "nat \<Rightarrow> int"
  env_traceparent :: "string option"

text \<open>\<open>current_traceparent() or event.traceparent\<close>: an empty string counts as missing.\<close>

definition or_else :: "string option \<Rightarrow> string option \<Rightarrow> string option" where
  "or_else a b = (case a of None \<Rightarrow> b | Some s \<Rightarrow> if s = [] then b else Some s)"

definition request_id :: "(string \<Rightarrow> string) \<Rightarrow> graph_batch_event \<Rightarrow> string \<Rightarrow> string" where
  "request_id uuid5 ev t =
     deterministic_event_id uuid5 ''risk.scoring.requested.v1''
       [SPart (event_id ev), SPart t, IPart (batch_time_step (payload ev))]"

definition scoring_request ::
  "(string \<Rightarrow> string) \<Rightarrow> graph_batch_event \<Rightarrow> txn_env \<Rightarrow> nat \<Rightarrow> graph_node \<Rightarrow> scoring_requested"
where
  "scoring_request uuid5 ev env i n =
     \<lparr>event_id = request_id uuid5 ev (node_tx_id n),
      event_type = ''risk.scoring.requested.v1'',
      schema_version = SCHEMA_VERSION_V1,
      occurred_at = occurred_at ev,
      produced_at = Aware (env_clock env (2 * i)),
      producer = ''graph-materializer'',
      trace_id = trace_id ev,
      traceparent = or_else (env_traceparent env) (traceparent ev),
      correlation_id = correlation_id ev,
      causation_id = Some (event_id ev),
      payload =
        \<lparr>req_tx_id = node_tx_id n,
         req_graph_watermark = batch_time_step (payload ev),
         req_source_time_step = batch_time_step (payload ev),
         req_event_sequence = batch_sequence (payload ev),
         req_feature_schema_version = batch_feature_schema_version (payload ev),
         req_source_ingested_at = produced_at ev,
         req_requested_at = Aware (env_clock env (2 * i + 1))\<rparr>\<rparr>"

definition outbox_entry :: "string \<Rightarrow> int \<Rightarrow> scoring_requested \<Rightarrow> string \<times> outbox_row" where
  "outbox_entry scoring_topic now req =
     (event_id req,
      \<lparr>ob_aggregate_id = req_tx_id (payload req),
       ob_topic = scoring_topic,
       ob_event_key = req_tx_id (payload req),
       ob_payload = Requested req,
       ob_schema_version = schema_version req,
       ob_created_at = now,
       ob_published_at = None,
       ob_attempt_count = 0,
       ob_last_error = None\<rparr>)"

fun outbox_rows ::
  "(string \<Rightarrow> string) \<Rightarrow> graph_batch_event \<Rightarrow> txn_env \<Rightarrow> string \<Rightarrow> nat \<Rightarrow> graph_node list
     \<Rightarrow> (string \<times> outbox_row) list result"
where
  "outbox_rows uuid5 ev env scoring_topic i [] = Inr []"
| "outbox_rows uuid5 ev env scoring_topic i (n # ns) =
     rbind (checked valid_scoring_requested (scoring_request uuid5 ev env i n)) (\<lambda>req.
     rbind (outbox_rows uuid5 ev env scoring_topic (Suc i) ns) (\<lambda>rest.
     Inr (outbox_entry scoring_topic (env_now env) req # rest)))"

definition insert_outbox :: "(string \<times> outbox_row) list \<Rightarrow> db \<Rightarrow> db result" where
  "insert_outbox rows d =
     rbind (bind_rows 6 rows) (\<lambda>_.
     Inr (d\<lparr>outbox_events := insert_rows rows (outbox_events d)\<rparr>))"

subsection \<open>The whole transaction\<close>

record batch_outcome =
  out_duplicate :: bool
  out_nodes :: nat
  out_edges :: nat
  out_outbox :: nat

text \<open>
  An empty list skips its statement, as the \<open>if node_rows\<close>, \<open>if edge_rows\<close> and \<open>if outbox_rows\<close>
  guards do; the statements below are the identity on empty lists.
\<close>

definition materialize_graph_batch ::
  "(string \<Rightarrow> string) \<Rightarrow> string \<Rightarrow> string \<Rightarrow> txn_env \<Rightarrow> graph_batch_event \<Rightarrow> db
     \<Rightarrow> (db \<times> batch_outcome) result"
where
  "materialize_graph_batch uuid5 scoring_topic consumer_name env ev d =
     (let (d1, claimed) = claim_inbox_event (event_id ev) consumer_name (env_now env) d;
          p = payload ev;
          node_rows = map (node_row ev (env_now env)) (batch_nodes p)
      in if \<not> claimed
         then Inr (d1, \<lparr>out_duplicate = True, out_nodes = 0, out_edges = 0, out_outbox = 0\<rparr>)
         else
           rbind (upsert_nodes node_rows d1) (\<lambda>d2.
           rbind (edge_rows {} (batch_edges p)) (\<lambda>erows.
           rbind (insert_edges erows (env_now env) d2) (\<lambda>d3.
           rbind (upsert_checkpoint (batch_stream_name p) (batch_time_step p)
                    (batch_source_offset p) (env_now env) d3) (\<lambda>d4.
           rbind (outbox_rows uuid5 ev env scoring_topic 0 (batch_nodes p)) (\<lambda>orows.
           rbind (insert_outbox orows d4) (\<lambda>d5.
           Inr (d5,
                \<lparr>out_duplicate = False, out_nodes = length node_rows,
                 out_edges = length erows, out_outbox = length orows\<rparr>))))))))"

subsection \<open>Watermark and replay control\<close>

definition fetch_graph_watermark :: "string \<Rightarrow> db \<Rightarrow> int" where
  "fetch_graph_watermark stream d =
     (case map_of (stream_checkpoints d) stream of
        None \<Rightarrow> 0
      | Some row \<Rightarrow> cp_last_completed_time_step row)"

definition check_violation :: exn where
  "check_violation = IntegrityError ''CheckViolation''"

text \<open>A CHECK constraint is tested on the proposed row before the conflict is looked for.\<close>

definition fetch_replay_control ::
  "string \<Rightarrow> rat \<Rightarrow> int \<Rightarrow> db \<Rightarrow> (db \<times> string \<times> rat) result"
where
  "fetch_replay_control stream default_rate now d =
     (let proposed = \<lparr>rp_status = ''running'', rp_events_per_second = default_rate,
                      rp_updated_at = now\<rparr>;
          t = insert_nothing stream proposed (replay_control d)
      in rbind (guard_r (replay_row_ok proposed) check_violation) (\<lambda>_.
         case map_of t stream of
           Some row \<Rightarrow> Inr (d\<lparr>replay_control := t\<rparr>, rp_status row, rp_events_per_second row)
         | None \<Rightarrow> Inl (OtherError ''NoResultFound'' [])))"

definition replay_insert_values :: "string option \<Rightarrow> rat option \<Rightarrow> int \<Rightarrow> replay_row" where
  "replay_insert_values status rate now =
     \<lparr>rp_status = (case status of None \<Rightarrow> ''running''
                   | Some s \<Rightarrow> if s = [] then ''running'' else s),
      rp_events_per_second = (case rate of None \<Rightarrow> 20 | Some r \<Rightarrow> if r = 0 then 20 else r),
      rp_updated_at = now\<rparr>"

definition replay_set_values ::
  "string option \<Rightarrow> rat option \<Rightarrow> int \<Rightarrow> replay_row \<Rightarrow> replay_row"
where
  "replay_set_values status rate now old =
     old\<lparr>rp_status := (case status of None \<Rightarrow> rp_status old | Some s \<Rightarrow> s),
         rp_events_per_second := (case rate of None \<Rightarrow> rp_events_per_second old | Some r \<Rightarrow> r),
         rp_updated_at := now\<rparr>"

definition update_replay_control ::
  "string \<Rightarrow> string option \<Rightarrow> rat option \<Rightarrow> int \<Rightarrow> db \<Rightarrow> db result"
where
  "update_replay_control stream status rate now d =
     (let proposed = replay_insert_values status rate now;
          t = fst (upsert (\<lambda>_ _. True) (\<lambda>_. replay_set_values status rate now) stream proposed
                     (replay_control d))
      in rbind (guard_r (replay_row_ok proposed \<and>
                   opt_ok (\<lambda>old. replay_row_ok (replay_set_values status rate now old))
                     (map_of (replay_control d) stream)) check_violation) (\<lambda>_.
         Inr (d\<lparr>replay_control := t\<rparr>)))"

end
