(* ===== verification/Graph_Lemmas.thy ===== *)
theory Graph_Lemmas
  imports Graph_Store
begin

text \<open>
  The lemma library of the graph side: what each statement of \<open>materialize_graph_batch\<close> does to
  its table, the decomposition of a successful first delivery, and the interpretations of
  \<open>versioned_upsert\<close> and \<open>inbox_consumer\<close> on the code's own definitions.
\<close>

subsection \<open>Inbox claim\<close>

lemma claim_fresh:
  "map_of (consumer_inbox d) (ev, c) = None \<Longrightarrow>
     claim_inbox_event ev c now d =
       (d\<lparr>consumer_inbox := consumer_inbox d @ [((ev, c), now)]\<rparr>, True)"
  by (simp add: claim_inbox_event_def insert_nothing_def)

lemma claim_seen:
  "map_of (consumer_inbox d) (ev, c) \<noteq> None \<Longrightarrow> claim_inbox_event ev c now d = (d, False)"
  by (simp add: claim_inbox_event_def insert_nothing_def)

subsection \<open>Edge rows\<close>

definition edge_pairs :: "graph_edge list \<Rightarrow> edge list" where
  "edge_pairs es = map (\<lambda>e. (source_tx_id e, destination_tx_id e)) es"

lemma edge_rows_Inr:
  "edge_rows seen es = Inr rows \<Longrightarrow>
     set rows = set (edge_pairs es) - seen \<and> distinct rows \<and>
     (\<forall>(s, t) \<in> set (edge_pairs es). s \<noteq> t)"
proof (induction es arbitrary: seen rows)
  case Nil
  then show ?case by (simp add: edge_pairs_def)
next
  case (Cons e es)
  define p where "p = (source_tx_id e, destination_tx_id e)"
  from Cons.prems have ne: "source_tx_id e \<noteq> destination_tx_id e"
    by (auto simp: canonical_edge_def)
  show ?case
  proof (cases "p \<in> seen")
    case True
    with Cons.prems ne have "edge_rows seen es = Inr rows"
      by (simp add: canonical_edge_def p_def)
    from Cons.IH [OF this] True ne show ?thesis by (auto simp: edge_pairs_def p_def)
  next
    case False
    with Cons.prems ne obtain rest where
      "edge_rows (insert p seen) es = Inr rest" and "rows = p # rest"
      by (auto simp: canonical_edge_def p_def rbind_eq_Inr)
    with Cons.IH [OF this(1)] False ne show ?thesis by (auto simp: edge_pairs_def p_def)
  qed
qed

lemma edge_rows_length:
  "edge_rows seen es = Inr rows \<Longrightarrow> length rows = card (set (edge_pairs es) - seen)"
  using edge_rows_Inr [of seen es rows] distinct_card [of rows] by auto

lemma edge_rows_total:
  "(\<forall>(s, t) \<in> set (edge_pairs es). s \<noteq> t) \<Longrightarrow> \<exists>rows. edge_rows seen es = Inr rows"
proof (induction es arbitrary: seen)
  case (Cons e es)
  define p where "p = (source_tx_id e, destination_tx_id e)"
  from Cons.prems have "source_tx_id e \<noteq> destination_tx_id e"
    by (auto simp: edge_pairs_def)
  moreover from Cons have "\<exists>rows. edge_rows seen' es = Inr rows" for seen'
    by (auto simp: edge_pairs_def)
  ultimately show ?case
    by (auto simp: canonical_edge_def rbind_eq_Inr)
qed (simp add: edge_pairs_def)

lemma edge_rows_Inl: "edge_rows seen es = Inl x \<Longrightarrow> \<exists>m. x = ValueError m"
  by (induction es arbitrary: seen)
    (auto simp: canonical_edge_def rbind_eq_Inl split: if_splits)

subsection \<open>Outbox rows\<close>

definition request_rows ::
  "(string \<Rightarrow> string) \<Rightarrow> graph_batch_event \<Rightarrow> txn_env \<Rightarrow> string \<Rightarrow> nat \<Rightarrow> graph_node list
     \<Rightarrow> (string \<times> outbox_row) list"
where
  "request_rows uuid5 ev env topic i ns =
     map (\<lambda>(j, n). outbox_entry topic (env_now env) (scoring_request uuid5 ev env j n))
       (enumerate i ns)"

lemma outbox_rows_Inr:
  "outbox_rows uuid5 ev env topic i ns = Inr rows \<longleftrightarrow>
     rows = request_rows uuid5 ev env topic i ns \<and>
     (\<forall>(j, n) \<in> set (enumerate i ns). valid_scoring_requested (scoring_request uuid5 ev env j n))"
  by (induction ns arbitrary: i rows) (auto simp: request_rows_def rbind_eq_Inr)

lemma outbox_rows_Inl:
  "outbox_rows uuid5 ev env topic i ns = Inl x \<Longrightarrow> x = ValidationError ''validation error''"
  by (induction ns arbitrary: i) (auto simp: rbind_eq_Inl)

lemma length_request_rows [simp]: "length (request_rows uuid5 ev env topic i ns) = length ns"
  by (simp add: request_rows_def)

lemma keys_request_rows:
  "map fst (request_rows uuid5 ev env topic i ns) = map (\<lambda>n. request_id uuid5 ev (node_tx_id n)) ns"
  by (induction ns arbitrary: i)
    (auto simp: request_rows_def outbox_entry_def scoring_request_def)

text \<open>A validated batch gives valid requests: the materializer never builds one that fails.\<close>

lemma valid_traceparent_nonempty: "valid_traceparent s \<Longrightarrow> s \<noteq> []"
  by (auto simp: valid_traceparent_def)

lemma or_else_valid:
  "opt_ok valid_traceparent a \<Longrightarrow> opt_ok valid_traceparent b \<Longrightarrow>
     opt_ok valid_traceparent (or_else a b)"
  by (cases a) (auto simp: or_else_def)

lemma scoring_request_valid:
  assumes "valid_graph_batch ev" and "n \<in> set (batch_nodes (payload ev))"
    and "\<And>s. length (uuid5 s) = 36" and "opt_ok valid_traceparent (env_traceparent env)"
  shows "valid_scoring_requested (scoring_request uuid5 ev env i n)"
proof -
  from assms(1,2) have "valid_node n"
    by (auto simp: valid_graph_batch_def valid_batch_payload_def list_all_iff)
  then show ?thesis
    using assms or_else_valid [of "env_traceparent env" "traceparent ev"]
    by (auto simp: valid_scoring_requested_def valid_requested_payload_def valid_envelope_def
        valid_graph_batch_def valid_batch_payload_def valid_node_def scoring_request_def
        request_id_def deterministic_event_id_def len_in_def)
qed

subsection \<open>A successful first delivery\<close>

abbreviation node_rows_of ::
  "graph_batch_event \<Rightarrow> txn_env \<Rightarrow> (string \<times> transaction_row) list"
where
  "node_rows_of ev env \<equiv> map (node_row ev (env_now env)) (batch_nodes (payload ev))"

definition node_ids :: "graph_batch_event \<Rightarrow> string list" where
  "node_ids ev = map node_tx_id (batch_nodes (payload ev))"

lemma keys_node_rows [simp]: "map fst (node_rows_of ev env) = node_ids ev"
  by (simp add: node_ids_def node_row_def)

lemma image_node_rows [simp]: "fst ` set (node_rows_of ev env) = set (node_ids ev)"
  by (metis keys_node_rows set_map)

definition endpoints_known :: "graph_batch_event \<Rightarrow> db \<Rightarrow> bool" where
  "endpoints_known ev d \<longleftrightarrow>
     (\<forall>(s, t) \<in> set (edge_pairs (batch_edges (payload ev))).
        map_of (transaction_edges d) (s, t) \<noteq> None \<or>
        (has_tx d s \<or> s \<in> set (node_ids ev)) \<and> (has_tx d t \<or> t \<in> set (node_ids ev)))"

definition applied ::
  "graph_batch_event \<Rightarrow> txn_env \<Rightarrow> string \<Rightarrow> (string, transaction_row) table \<Rightarrow> edge list
     \<Rightarrow> (string \<times> outbox_row) list \<Rightarrow> db \<Rightarrow> db"
where
  "applied ev env c t erows orows d =
     d\<lparr>transactions := t,
       transaction_edges := insert_rows (map (\<lambda>e. (e, env_now env)) erows) (transaction_edges d),
       consumer_inbox := consumer_inbox d @ [((event_id ev, c), env_now env)],
       outbox_events := insert_rows orows (outbox_events d),
       stream_checkpoints :=
         fst (upsert checkpoint_wins checkpoint_merge (batch_stream_name (payload ev))
                \<lparr>cp_last_completed_time_step = batch_time_step (payload ev),
                 cp_source_offset = batch_source_offset (payload ev),
                 cp_updated_at = env_now env\<rparr> (stream_checkpoints d))\<rparr>"

lemma materialize_seen:
  "map_of (consumer_inbox d) (event_id ev, c) \<noteq> None \<Longrightarrow>
     materialize_graph_batch uuid5 topic c env ev d =
       Inr (d, \<lparr>out_duplicate = True, out_nodes = 0, out_edges = 0, out_outbox = 0\<rparr>)"
  by (simp add: materialize_graph_batch_def claim_seen)

lemma materialize_fresh:
  assumes ok: "materialize_graph_batch uuid5 topic c env ev d = Inr (d', r)"
    and fresh: "map_of (consumer_inbox d) (event_id ev, c) = None"
  obtains t erows where
    "upsert_rows node_wins node_merge {} (node_rows_of ev env) (transactions d) = Inr t"
    "list_all node_bindable (node_rows_of ev env)"
    "7 * length (node_ids ev) \<le> max_bind_args" "2 * length erows \<le> max_bind_args"
    "edge_rows {} (batch_edges (payload ev)) = Inr erows"
    "endpoints_known ev d"
    "int4 (batch_time_step (payload ev))" "int8 (batch_source_offset (payload ev))"
    "d' = applied ev env c t erows
            (request_rows uuid5 ev env topic 0 (batch_nodes (payload ev))) d"
    "r = \<lparr>out_duplicate = False, out_nodes = length (node_ids ev), out_edges = length erows,
          out_outbox = length (node_ids ev)\<rparr>"
proof -
  let ?d1 = "d\<lparr>consumer_inbox := consumer_inbox d @ [((event_id ev, c), env_now env)]\<rparr>"
  from ok fresh obtain d2 erows d3 d4 orows where
    n: "upsert_nodes (node_rows_of ev env) ?d1 = Inr d2" and
    e: "edge_rows {} (batch_edges (payload ev)) = Inr erows" and
    i: "insert_edges erows (env_now env) d2 = Inr d3" and
    k: "upsert_checkpoint (batch_stream_name (payload ev)) (batch_time_step (payload ev))
          (batch_source_offset (payload ev)) (env_now env) d3 = Inr d4" and
    o: "outbox_rows uuid5 ev env topic 0 (batch_nodes (payload ev)) = Inr orows" and
    x: "insert_outbox orows d4 = Inr d'" and
    r: "r = \<lparr>out_duplicate = False, out_nodes = length (node_rows_of ev env),
             out_edges = length erows, out_outbox = length orows\<rparr>"
    by (auto simp: materialize_graph_batch_def claim_fresh Let_def rbind_eq_Inr)
  from x have d': "d' = d4\<lparr>outbox_events := insert_rows orows (outbox_events d4)\<rparr>"
    by (simp add: insert_outbox_def rbind_eq_Inr)
  from n i have binds: "7 * length (node_ids ev) \<le> max_bind_args" "2 * length erows \<le> max_bind_args"
    by (auto simp: upsert_nodes_def insert_edges_def bind_rows_def rbind_eq_Inr node_ids_def)
  from n obtain t where
    t: "upsert_rows node_wins node_merge {} (node_rows_of ev env) (transactions d) = Inr t" and
    b: "list_all node_bindable (node_rows_of ev env)" and
    d2: "d2 = ?d1\<lparr>transactions := t\<rparr>"
    by (auto simp: upsert_nodes_def rbind_eq_Inr)
  have dom_t: "dom (map_of t) = dom (map_of (transactions d)) \<union> set (node_ids ev)"
    using upsert_rows_dom [OF t] by (simp only: image_node_rows)
  have known: "endpoints_known ev d"
    using i edge_rows_Inr [OF e] dom_t
    by (fastforce simp: insert_edges_def rbind_eq_Inr endpoints_known_def has_tx_iff d2
        list_all_iff)
  from i k o d' d2 have "d' = applied ev env c t erows
      (request_rows uuid5 ev env topic 0 (batch_nodes (payload ev))) d"
    by (auto simp: insert_edges_def upsert_checkpoint_def rbind_eq_Inr outbox_rows_Inr
        applied_def)
  moreover from k have "int4 (batch_time_step (payload ev))" "int8 (batch_source_offset (payload ev))"
    by (auto simp: upsert_checkpoint_def rbind_eq_Inr)
  moreover from r o have "r = \<lparr>out_duplicate = False, out_nodes = length (node_ids ev),
      out_edges = length erows, out_outbox = length (node_ids ev)\<rparr>"
    by (auto simp: outbox_rows_Inr node_ids_def)
  ultimately show thesis using that t b binds e known by blast
qed

text \<open>Either nothing changes, or the batch is applied.\<close>

lemma materialize_shape:
  assumes "materialize_graph_batch uuid5 topic c env ev d = Inr (d', r)"
  obtains "d' = d" "map_of (consumer_inbox d) (event_id ev, c) \<noteq> None"
  | t erows orows where
    "map_of (consumer_inbox d) (event_id ev, c) = None"
    "upsert_rows node_wins node_merge {} (node_rows_of ev env) (transactions d) = Inr t"
    "edge_rows {} (batch_edges (payload ev)) = Inr erows"
    "endpoints_known ev d"
    "orows = request_rows uuid5 ev env topic 0 (batch_nodes (payload ev))"
    "d' = applied ev env c t erows orows d"
proof (cases "map_of (consumer_inbox d) (event_id ev, c)")
  case None
  from assms None show thesis by (rule materialize_fresh) (use None that(2) in blast)
next
  case (Some u)
  with assms that(1) show thesis by (simp add: materialize_seen)
qed

subsection \<open>Interpretations\<close>

definition node_data ::
  "transaction_row \<Rightarrow> int \<times> rat list \<times> string \<times> datetime \<times> datetime \<times> int"
where
  "node_data r = (tx_time_step r, tx_features r, tx_feature_schema_version r, tx_observed_at r,
     tx_ingested_at r, tx_graph_watermark r)"

definition node_older :: "int \<times> rat list \<times> string \<times> datetime \<times> datetime \<times> int \<Rightarrow>
  int \<times> rat list \<times> string \<times> datetime \<times> datetime \<times> int \<Rightarrow> bool"
where
  "node_older a b \<longleftrightarrow> snd (snd (snd (snd (snd a)))) \<le> snd (snd (snd (snd (snd b))))"

interpretation node_upsert: versioned_upsert node_data node_older node_wins node_merge
  by unfold_locales (auto simp: node_data_def node_older_def node_wins_def node_merge_def)

definition checkpoint_data :: "checkpoint_row \<Rightarrow> int \<times> int" where
  "checkpoint_data r = (cp_last_completed_time_step r, cp_source_offset r)"

interpretation checkpoint_upsert:
  versioned_upsert checkpoint_data "\<lambda>a b. fst a \<le> fst b" checkpoint_wins checkpoint_merge
  by unfold_locales (auto simp: checkpoint_data_def checkpoint_wins_def checkpoint_merge_def)

definition inbox_claimed :: "string \<Rightarrow> db \<Rightarrow> string \<Rightarrow> bool" where
  "inbox_claimed c d i \<longleftrightarrow> map_of (consumer_inbox d) (i, c) \<noteq> None"

lemma applied_inbox:
  "inbox_claimed c' (applied ev env c t erows orows d) i \<longleftrightarrow>
     inbox_claimed c' d i \<or> (i = event_id ev \<and> c' = c)"
  by (auto simp: inbox_claimed_def applied_def map_add_def split: option.splits)

lemma materialize_claims:
  assumes "materialize_graph_batch uuid5 topic c env ev d = Inr (d', r)"
  shows "inbox_claimed c d' i \<longleftrightarrow> inbox_claimed c d i \<or> i = event_id ev"
proof (cases "inbox_claimed c d (event_id ev)")
  case True
  with assms show ?thesis by (auto simp: inbox_claimed_def materialize_seen)
next
  case False
  with assms show ?thesis
    by (auto simp: inbox_claimed_def elim!: materialize_fresh)
      (auto simp: applied_def map_add_def split: option.splits)
qed

interpretation graph_consumer:
  inbox_consumer "materialize_graph_batch uuid5 topic c" event_id "inbox_claimed c"
  for uuid5 topic c
  by unfold_locales
    (auto simp: materialize_claims, simp add: inbox_claimed_def materialize_seen)

end
