(* ===== verification/Samples.thy ===== *)
theory Samples
  imports Graph_Store
begin

text \<open>Concrete events and environments for the witnesses of the properties.\<close>

text \<open>An identifier function for the witnesses: the last 36 characters of the identity.\<close>

definition sample_uuid5 :: "string \<Rightarrow> string" where
  "sample_uuid5 s = drop (length s) (replicate 36 (CHR ''0'')) @ drop (length s - 36) s"

lemma length_sample_uuid5 [simp]: "length (sample_uuid5 s) = 36"
  by (simp add: sample_uuid5_def)

definition sample_event_id :: "char \<Rightarrow> string" where
  "sample_event_id c = replicate 36 c"

definition sample_node :: "string \<Rightarrow> int \<Rightarrow> rat \<Rightarrow> graph_node" where
  "sample_node t step f =
     \<lparr>node_tx_id = t, node_time_step = step, node_features = replicate 165 f\<rparr>"

definition sample_edge :: "string \<Rightarrow> string \<Rightarrow> graph_edge" where
  "sample_edge s t = \<lparr>source_tx_id = s, destination_tx_id = t\<rparr>"

definition sample_batch ::
  "char \<Rightarrow> int \<Rightarrow> graph_node list \<Rightarrow> graph_edge list \<Rightarrow> graph_batch_event"
where
  "sample_batch c step ns es =
     \<lparr>event_id = sample_event_id c,
      event_type = ''risk.graph-batch.observed.v1'',
      schema_version = ''1.0'',
      occurred_at = Aware (60000000 * step),
      produced_at = Aware (60000000 * step + 1),
      producer = ''replay-producer'',
      trace_id = replicate 32 (CHR ''a''),
      traceparent = None,
      correlation_id = ''elliptic-replay'',
      causation_id = None,
      payload =
        \<lparr>batch_stream_name = ''elliptic-replay'',
         batch_time_step = step,
         batch_sequence = step,
         batch_source_offset = step - 1,
         batch_feature_schema_version = ''elliptic-165-v1'',
         batch_nodes = ns,
         batch_edges = es\<rparr>\<rparr>"

definition sample_env :: "int \<Rightarrow> txn_env" where
  "sample_env now = \<lparr>env_now = now, env_clock = (\<lambda>i. now + int i), env_traceparent = None\<rparr>"

definition batch_ab :: graph_batch_event where
  "batch_ab = sample_batch (CHR ''1'') 1 [sample_node ''a'' 1 (1/10), sample_node ''b'' 1 (1/5)]
     [sample_edge ''a'' ''b'']"

definition batch_bc :: graph_batch_event where
  "batch_bc = sample_batch (CHR ''2'') 2 [sample_node ''b'' 2 (3/10), sample_node ''c'' 2 (2/5)]
     [sample_edge ''b'' ''c'']"

lemmas sample_defs =
  sample_batch_def sample_node_def sample_edge_def sample_env_def sample_event_id_def
  batch_ab_def batch_bc_def

lemma valid_batch_ab: "valid_graph_batch batch_ab"
  by (simp add: sample_defs valid_graph_batch_def valid_envelope_def valid_batch_payload_def
      valid_node_def valid_edge_def len_in_def SCHEMA_VERSION_V1_def)

lemma valid_batch_bc: "valid_graph_batch batch_bc"
  by (simp add: sample_defs valid_graph_batch_def valid_envelope_def valid_batch_payload_def
      valid_node_def valid_edge_def len_in_def SCHEMA_VERSION_V1_def)

text \<open>A scoring result; its other fields do not matter to the projection.\<close>

definition sample_result :: "char \<Rightarrow> string \<Rightarrow> rat \<Rightarrow> int \<Rightarrow> int \<Rightarrow> scoring_completed" where
  "sample_result c t prob watermark scored =
     \<lparr>event_id = sample_event_id c,
      event_type = ''risk.scoring.completed.v1'',
      schema_version = ''1.0'',
      occurred_at = Aware 0,
      produced_at = Aware scored,
      producer = ''inference-worker'',
      trace_id = replicate 32 (CHR ''a''),
      traceparent = None,
      correlation_id = ''elliptic-replay'',
      causation_id = None,
      payload =
        \<lparr>res_tx_id = t,
         res_illicit_probability = prob,
         res_model_version = ''gnn-v1'',
         res_model_checksum = ''sha256:'' @ replicate 64 (CHR ''0''),
         res_model_deployed_at = None,
         res_feature_schema_version = ''elliptic-165-v1'',
         res_graph_watermark = watermark,
         res_source_time_step = watermark,
         res_event_sequence = watermark,
         res_source_ingested_at = Aware 0,
         res_queue_delay_ms = 1,
         res_inference_latency_ms = 2,
         res_end_to_end_latency_ms = 3,
         res_scored_at = Aware scored\<rparr>\<rparr>"

lemma valid_sample_result:
  "t \<noteq> [] \<Longrightarrow> length t \<le> 64 \<Longrightarrow> 0 \<le> prob \<Longrightarrow> prob \<le> 1 \<Longrightarrow> 1 \<le> watermark \<Longrightarrow>
     valid_scoring_completed (sample_result c t prob watermark scored)"
  by (simp add: sample_result_def valid_scoring_completed_def valid_envelope_def
      valid_completed_payload_def valid_checksum_def len_in_def SCHEMA_VERSION_V1_def
      sample_event_id_def hex_lower_def list_all_iff Suc_le_eq)

text \<open>A database with the transactions \<open>a\<close> and \<open>b\<close>.\<close>

definition sample_tx :: "int \<Rightarrow> transaction_row" where
  "sample_tx watermark =
     \<lparr>tx_time_step = watermark, tx_features = replicate 165 0,
      tx_feature_schema_version = ''elliptic-165-v1'', tx_observed_at = Aware 0,
      tx_ingested_at = Aware 0, tx_graph_watermark = watermark, tx_created_at = 0,
      tx_updated_at = 0\<rparr>"

definition db_ab :: db where
  "db_ab = empty_db\<lparr>transactions := [(''a'', sample_tx 1), (''b'', sample_tx 1)],
     transaction_edges := [((''a'', ''b''), 0)]\<rparr>"

lemma db_ok_ab: "db_ok db_ab"
  by (simp add: db_ok_def keys_ok_def table_ok_def edges_fk_def scores_fk_def has_tx_def
      source_event_unique_def probability_range_def replay_ok_def no_self_edges_def db_ab_def
      empty_db_def)

end
