(* ===== verification/Graph_Props.thy ===== *)
theory Graph_Props
  imports Graph_Lemmas Samples
begin

text \<open>The properties of the graph side, each with the witness that applies it.\<close>

subsection \<open>When a batch is accepted\<close>

lemma node_bindable_iff:
  assumes "valid_graph_batch ev"
  shows "list_all node_bindable (node_rows_of ev env) \<longleftrightarrow>
    int4 (batch_time_step (payload ev)) \<and>
    (\<forall>n \<in> set (batch_nodes (payload ev)). int4 (node_time_step n))"
proof -
  from assms have "batch_nodes (payload ev) \<noteq> []"
    by (auto simp: valid_graph_batch_def valid_batch_payload_def len_in_def)
  with assms show ?thesis
    by (cases "batch_nodes (payload ev)")
      (auto simp: list_all_iff node_bindable_def node_row_def valid_graph_batch_def
        valid_envelope_def)
qed

definition batch_acceptable :: "graph_batch_event \<Rightarrow> db \<Rightarrow> bool" where
  "batch_acceptable ev d \<longleftrightarrow>
     int4 (batch_time_step (payload ev)) \<and>
     (\<forall>n \<in> set (batch_nodes (payload ev)). int4 (node_time_step n)) \<and>
     int8 (batch_source_offset (payload ev)) \<and>
     7 * length (batch_nodes (payload ev)) \<le> max_bind_args \<and>
     2 * card (set (edge_pairs (batch_edges (payload ev)))) \<le> max_bind_args \<and>
     (\<forall>(s, t) \<in> set (edge_pairs (batch_edges (payload ev))). s \<noteq> t) \<and>
     endpoints_known ev d"

lemma materialize_total:
  assumes valid: "valid_graph_batch ev" and ids: "distinct (node_ids ev)"
    and uuid: "\<And>s. length (uuid5 s) = 36"
    and tp: "opt_ok valid_traceparent (env_traceparent env)"
    and fresh: "\<not> inbox_claimed c d (event_id ev)"
    and acc: "batch_acceptable ev d"
  shows "\<exists>d' r. materialize_graph_batch uuid5 topic c env ev d = Inr (d', r)"
proof -
  let ?d1 = "d\<lparr>consumer_inbox := consumer_inbox d @ [((event_id ev, c), env_now env)]\<rparr>"
  let ?rows = "node_rows_of ev env"
  have "distinct (map fst ?rows)"
    using ids by (simp only: keys_node_rows)
  then obtain t where
    t: "upsert_rows node_wins node_merge {} ?rows (transactions d) = Inr t"
    using upsert_rows_distinct [of ?rows "{}"] by blast
  have b: "list_all node_bindable ?rows"
    using acc valid node_bindable_iff by (simp add: batch_acceptable_def)
  have n: "upsert_nodes ?rows ?d1 = Inr (?d1\<lparr>transactions := t\<rparr>)"
    using t b acc by (simp add: upsert_nodes_def bind_rows_def batch_acceptable_def)
  obtain erows where e: "edge_rows {} (batch_edges (payload ev)) = Inr erows"
    using acc edge_rows_total by (fastforce simp: batch_acceptable_def)
  have dom_t: "dom (map_of t) = dom (map_of (transactions d)) \<union> set (node_ids ev)"
    using upsert_rows_dom [OF t] by (simp only: image_node_rows)
  have few: "2 * length erows \<le> max_bind_args"
    using acc edge_rows_length [OF e] by (simp add: batch_acceptable_def)
  have i: "\<exists>d3. insert_edges erows (env_now env) (?d1\<lparr>transactions := t\<rparr>) = Inr d3"
    using acc few dom_t edge_rows_Inr [OF e]
    by (fastforce simp: insert_edges_def bind_rows_def rbind_eq_Inr batch_acceptable_def endpoints_known_def
        has_tx_iff list_all_iff)
  have o: "outbox_rows uuid5 ev env topic 0 (batch_nodes (payload ev)) =
      Inr (request_rows uuid5 ev env topic 0 (batch_nodes (payload ev)))"
    using scoring_request_valid [OF valid _ uuid tp]
    by (auto simp: outbox_rows_Inr in_set_enumerate_eq)
  have "6 * length (request_rows uuid5 ev env topic 0 (batch_nodes (payload ev))) \<le> max_bind_args"
    using acc by (simp add: batch_acceptable_def)
  with i n e o acc fresh show ?thesis
    by (auto simp: materialize_graph_batch_def claim_fresh inbox_claimed_def Let_def
        upsert_checkpoint_def batch_acceptable_def insert_outbox_def bind_rows_def)
qed

text \<open>The sample batches are accepted by any database that has not seen them.\<close>

lemma samples_acceptable:
  "batch_acceptable batch_ab d" "batch_acceptable batch_bc d"
  "distinct (node_ids batch_ab)" "distinct (node_ids batch_bc)"
  "opt_ok valid_traceparent (env_traceparent (sample_env n))"
  "event_id batch_ab \<noteq> event_id batch_bc"
  by (auto simp: batch_acceptable_def max_bind_args_def sample_defs int4_def int8_def edge_pairs_def
      endpoints_known_def node_ids_def)

lemma accepts_ab:
  assumes "\<not> inbox_claimed c d (event_id batch_ab)"
  obtains d' r where
    "materialize_graph_batch sample_uuid5 topic c (sample_env n) batch_ab d = Inr (d', r)"
proof -
  have "\<exists>d' r. materialize_graph_batch sample_uuid5 topic c (sample_env n) batch_ab d = Inr (d', r)"
    using materialize_total [OF valid_batch_ab samples_acceptable(3) _ samples_acceptable(5)]
      assms samples_acceptable by simp
  then show thesis using that by blast
qed

lemma accepts_bc:
  assumes "\<not> inbox_claimed c d (event_id batch_bc)"
  obtains d' r where
    "materialize_graph_batch sample_uuid5 topic c (sample_env n) batch_bc d = Inr (d', r)"
proof -
  have "\<exists>d' r. materialize_graph_batch sample_uuid5 topic c (sample_env n) batch_bc d = Inr (d', r)"
    using materialize_total [OF valid_batch_bc samples_acceptable(4) _ samples_acceptable(5)]
      assms samples_acceptable by simp
  then show thesis using that by blast
qed

lemma empty_unclaimed: "\<not> inbox_claimed c empty_db i"
  by (simp add: inbox_claimed_def empty_db_def)

text \<open>
  C20. Which batches the materializer accepts. For a batch that passed contract validation and
  names each transaction once, the transaction succeeds exactly when the event was already
  applied, or the integers fit their columns, the insert of the nodes (seven arguments each) and
  that of the distinct edges (two each) bind at most 32767 arguments, no edge is a self edge, and
  both ends of every new edge are transactions of the batch or of the database. Everything else
  raises: in particular every valid batch of more than 4681 transactions that is new.
\<close>

theorem materialize_success_iff:
  assumes "valid_graph_batch ev" and "distinct (node_ids ev)"
    and "\<And>s. length (uuid5 s) = 36" and "opt_ok valid_traceparent (env_traceparent env)"
  shows "(\<exists>r. materialize_graph_batch uuid5 topic c env ev d = Inr r) \<longleftrightarrow>
    inbox_claimed c d (event_id ev) \<or> batch_acceptable ev d"
proof (cases "inbox_claimed c d (event_id ev)")
  case True
  then show ?thesis by (auto simp: inbox_claimed_def materialize_seen)
next
  case False
  have "batch_acceptable ev d"
    if "materialize_graph_batch uuid5 topic c env ev d = Inr (d', r)" for d' r
    using that False node_bindable_iff [OF assms(1), of env]
    by (auto simp: inbox_claimed_def batch_acceptable_def node_ids_def edge_rows_length
        dest: edge_rows_Inr elim!: materialize_fresh)
  moreover from materialize_total [where ?uuid5.0 = uuid5, OF assms False]
  have "batch_acceptable ev d \<Longrightarrow> \<exists>r. materialize_graph_batch uuid5 topic c env ev d = Inr r"
    by blast
  ultimately show ?thesis using False by auto
qed

theorem materialize_success_iff_witness:
  "(\<exists>r. materialize_graph_batch sample_uuid5 ''risk.scoring-requests.v1'' ''g'' (sample_env 5)
      batch_ab empty_db = Inr r)"
  using materialize_success_iff [OF valid_batch_ab, of sample_uuid5 "sample_env 5"]
  by (simp add: samples_acceptable)

text \<open>The contract admits 100000 transactions in a batch; the statement takes 4681.\<close>

lemma big_batch_never_materialized:
  assumes "valid_graph_batch ev" and "length (batch_nodes (payload ev)) > 4681"
    and "\<not> inbox_claimed c d (event_id ev)"
  shows "materialize_graph_batch uuid5 topic c env ev d = Inl too_many_arguments"
  using assms
  by (simp add: materialize_graph_batch_def claim_fresh inbox_claimed_def upsert_nodes_def
      bind_rows_def max_bind_args_def rbind_def guard_r_def)

subsection \<open>Redelivery\<close>

text \<open>
  C4. Redelivery of a graph batch is harmless. Once a batch has been applied, every later delivery
  of an event with its identifier can be deleted from the history, whatever comes in between and
  whatever the clocks read: the database ends the same, to the row.
\<close>

theorem graph_redelivery_harmless:
  assumes "materialize_graph_batch uuid5 topic c env ev d = Inr (d', r)"
  shows "deliver (materialize_graph_batch uuid5 topic c) ds d' =
    deliver (materialize_graph_batch uuid5 topic c)
      (filter (\<lambda>x. event_id (snd x) \<noteq> event_id ev) ds) d'"
  by (rule graph_consumer.deliver_drop_key
      [OF graph_consumer.success_claims [OF assms], symmetric])

theorem graph_redelivery_harmless_witness:
  "\<exists>d' r. materialize_graph_batch sample_uuid5 ''q'' ''g'' (sample_env 5) batch_ab empty_db
       = Inr (d', r) \<and>
     deliver (materialize_graph_batch sample_uuid5 ''q'' ''g'')
       [(sample_env 9, batch_ab), (sample_env 10, batch_bc), (sample_env 11, batch_ab)] d' =
     deliver (materialize_graph_batch sample_uuid5 ''q'' ''g'') [(sample_env 10, batch_bc)] d'"
proof -
  obtain d' r where
    ok: "materialize_graph_batch sample_uuid5 ''q'' ''g'' (sample_env 5) batch_ab empty_db
      = Inr (d', r)"
    by (rule accepts_ab [OF empty_unclaimed])
  from graph_redelivery_harmless [OF ok, of "[(sample_env 9, batch_ab), (sample_env 10, batch_bc),
      (sample_env 11, batch_ab)]"] samples_acceptable ok
  show ?thesis by auto
qed

subsection \<open>The constraints\<close>

lemma has_tx_applied:
  assumes "upsert_rows node_wins node_merge {} (node_rows_of ev env) (transactions d) = Inr t"
  shows "has_tx (applied ev env c t erows orows d) x \<longleftrightarrow> has_tx d x \<or> x \<in> set (node_ids ev)"
proof -
  have "dom (map_of t) = dom (map_of (transactions d)) \<union> set (node_ids ev)"
    using upsert_rows_dom [OF assms] by (simp only: image_node_rows)
  then show ?thesis by (simp add: has_tx_iff applied_def)
qed

lemma keys_applied_edges:
  "fst ` set (transaction_edges (applied ev env c t erows orows d)) =
     fst ` set (transaction_edges d) \<union> set erows"
  by (simp add: applied_def dom_map_of_table [symmetric] dom_insert_rows image_image)

lemma applied_edges_fk:
  assumes up: "upsert_rows node_wins node_merge {} (node_rows_of ev env) (transactions d) = Inr t"
    and e: "edge_rows {} (batch_edges (payload ev)) = Inr erows"
    and known: "endpoints_known ev d" and fk: "edges_fk d"
  shows "edges_fk (applied ev env c t erows orows d)"
  unfolding edges_fk_def keys_applied_edges
proof (clarify)
  fix a b
  assume mem: "(a, b) \<in> fst ` set (transaction_edges d) \<union> set erows"
  have old: "has_tx d a \<and> has_tx d b" if "(a, b) \<in> fst ` set (transaction_edges d)"
    using that fk by (auto simp: edges_fk_def)
  have "(has_tx d a \<or> a \<in> set (node_ids ev)) \<and> (has_tx d b \<or> b \<in> set (node_ids ev))"
  proof (cases "(a, b) \<in> fst ` set (transaction_edges d)")
    case False
    with mem edge_rows_Inr [OF e] have "(a, b) \<in> set (edge_pairs (batch_edges (payload ev)))"
      by auto
    moreover from False have "map_of (transaction_edges d) (a, b) = None"
      by (simp add: map_of_eq_None_iff)
    ultimately show ?thesis using known by (auto simp: endpoints_known_def)
  qed (use old in blast)
  then show "has_tx (applied ev env c t erows orows d) a \<and>
      has_tx (applied ev env c t erows orows d) b"
    by (simp add: has_tx_applied [OF up])
qed

lemma materialize_db_ok:
  assumes ok: "materialize_graph_batch uuid5 topic c env ev d = Inr (d', r)" and inv: "db_ok d"
  shows "db_ok d'"
proof (cases "inbox_claimed c d (event_id ev)")
  case True
  with ok inv show ?thesis by (auto simp: inbox_claimed_def materialize_seen)
next
  case False
  then have fresh: "map_of (consumer_inbox d) (event_id ev, c) = None"
    by (simp add: inbox_claimed_def)
  from ok fresh obtain t erows orows where
    up: "upsert_rows node_wins node_merge {} (node_rows_of ev env) (transactions d) = Inr t" and
    e: "edge_rows {} (batch_edges (payload ev)) = Inr erows" and
    known: "endpoints_known ev d" and d': "d' = applied ev env c t erows orows d"
    by (rule materialize_fresh)
  have "keys_ok d'"
    using inv fresh upsert_rows_table_ok [OF up]
    by (auto simp: db_ok_def keys_ok_def d' applied_def table_ok_def map_of_eq_None_iff
        simp flip: table_ok_def)
      (auto simp: table_ok_def)
  moreover have "edges_fk d'"
    unfolding d' using inv by (intro applied_edges_fk [OF up e known]) (simp add: db_ok_def)
  moreover have "scores_fk d'"
    using inv has_tx_applied [OF up]
    by (auto simp: db_ok_def scores_fk_def d') (auto simp: applied_def)
  moreover have "no_self_edges d'"
    using inv edge_rows_Inr [OF e]
    unfolding db_ok_def no_self_edges_def d' keys_applied_edges by auto
  moreover have "source_event_unique d'" "probability_range d'" "replay_ok d'"
    using inv by (auto simp: db_ok_def d' applied_def source_event_unique_def
        probability_range_def replay_ok_def)
  ultimately show ?thesis by (simp add: db_ok_def)
qed

text \<open>
  C11. The schema's constraints survive any delivery history: from a database where primary keys
  are unique, every edge and score references a stored transaction, source events are unique,
  probabilities lie in range and no edge is a self edge, processing any list of graph batches,
  valid or not, repeated or out of order, ends in such a database.
\<close>

theorem graph_history_db_ok:
  assumes "db_ok d"
  shows "db_ok (deliver (materialize_graph_batch uuid5 topic c) ds d)"
  by (rule deliver_invariant [where I = db_ok, OF _ assms]) (rule materialize_db_ok)

theorem graph_history_db_ok_witness:
  "db_ok (deliver (materialize_graph_batch sample_uuid5 ''q'' ''g'')
     [(sample_env 5, batch_bc), (sample_env 9, batch_ab), (sample_env 10, batch_bc)] empty_db)"
  by (rule graph_history_db_ok) simp

subsection \<open>Monotonicity\<close>

lemma applied_outbox:
  "map_of (outbox_events (applied ev env c t erows orows d)) i =
     (case map_of (outbox_events d) i of Some row \<Rightarrow> Some row | None \<Rightarrow> map_of orows i)"
  by (simp add: applied_def map_of_insert_rows)

definition graph_le :: "db \<Rightarrow> db \<Rightarrow> bool" where
  "graph_le d d' \<longleftrightarrow>
     rows_le (\<lambda>old new. tx_graph_watermark old \<le> tx_graph_watermark new)
       (transactions d) (transactions d') \<and>
     rows_le (\<lambda>old new. cp_last_completed_time_step old \<le> cp_last_completed_time_step new)
       (stream_checkpoints d) (stream_checkpoints d') \<and>
     rows_le (=) (outbox_events d) (outbox_events d') \<and>
     rows_le (=) (transaction_edges d) (transaction_edges d') \<and>
     risk_scores d' = risk_scores d"

lemma graph_le_refl: "graph_le d d"
  by (simp add: graph_le_def rows_le_refl)

lemma graph_le_trans: "graph_le a b \<Longrightarrow> graph_le b c \<Longrightarrow> graph_le a c"
  by (auto simp: graph_le_def elim!: rows_le_trans)

lemma graph_le_materialize:
  assumes "materialize_graph_batch uuid5 topic c env ev d = Inr (d', r)"
  shows "graph_le d d'"
  using assms
proof (cases rule: materialize_shape)
  case (2 t erows orows)
  from node_upsert.rows_le_upsert_rows [OF 2(2)] 2(6) show ?thesis
    using checkpoint_upsert.rows_le_upsert
    by (simp add: graph_le_def applied_def rows_le_insert_rows node_older_def node_data_def
        checkpoint_data_def)
qed (simp add: graph_le_refl)

text \<open>
  Graph state only grows: over any delivery history, no transaction, edge, checkpoint or
  outbox row disappears, edges, outbox rows and scores are never rewritten, the watermark of a
  stored transaction never decreases, nor does the last completed time step of a stream.
\<close>

theorem graph_history_monotone:
  "graph_le d (deliver (materialize_graph_batch uuid5 topic c) ds d)"
proof (rule deliver_invariant [where I = "graph_le d"])
  show "graph_le d s'" if "graph_le d s"
    and "materialize_graph_batch uuid5 topic c v e s = Inr (s', r)" for v e s s' r
    using that by (blast intro: graph_le_trans graph_le_materialize)
qed (rule graph_le_refl)

subsection \<open>The transactional outbox\<close>

definition request_identities :: "graph_batch_event \<Rightarrow> string set" where
  "request_identities ev =
     (\<lambda>t. event_identity ''risk.scoring.requested.v1''
            [SPart (event_id ev), SPart t, IPart (batch_time_step (payload ev))]) `
       set (node_ids ev)"

lemma request_ids_distinct:
  assumes "distinct (node_ids ev)" and "inj_on uuid5 (request_identities ev)"
  shows "distinct (map (request_id uuid5 ev) (node_ids ev))"
proof -
  have "inj_on (request_id uuid5 ev) (set (node_ids ev))"
  proof (rule inj_onI)
    fix x y
    assume "x \<in> set (node_ids ev)" "y \<in> set (node_ids ev)"
      and "request_id uuid5 ev x = request_id uuid5 ev y"
    with assms(2) have "event_identity ''risk.scoring.requested.v1''
          [SPart (event_id ev), SPart x, IPart (batch_time_step (payload ev))] =
        event_identity ''risk.scoring.requested.v1''
          [SPart (event_id ev), SPart y, IPart (batch_time_step (payload ev))]"
      by (auto simp: request_id_def deterministic_event_id_def request_identities_def inj_on_def)
    then show "x = y" by (auto dest: request_identity_inj)
  qed
  with assms(1) show ?thesis by (simp add: distinct_map)
qed

lemma map_of_request_rows:
  assumes "distinct (node_ids ev)" and "inj_on uuid5 (request_identities ev)"
    and i: "i < length (batch_nodes (payload ev))" and n: "n = batch_nodes (payload ev) ! i"
  shows "map_of (request_rows uuid5 ev env topic 0 (batch_nodes (payload ev)))
      (request_id uuid5 ev (node_tx_id n)) =
    Some (snd (outbox_entry topic (env_now env) (scoring_request uuid5 ev env i n)))"
proof (rule map_of_is_SomeI)
  show "distinct (map fst (request_rows uuid5 ev env topic 0 (batch_nodes (payload ev))))"
    using request_ids_distinct [OF assms(1,2)]
    by (simp add: keys_request_rows node_ids_def comp_def)
  have "(i, n) \<in> set (enumerate 0 (batch_nodes (payload ev)))"
    using i n by (simp add: in_set_enumerate_eq)
  then show "(request_id uuid5 ev (node_tx_id n),
      snd (outbox_entry topic (env_now env) (scoring_request uuid5 ev env i n)))
      \<in> set (request_rows uuid5 ev env topic 0 (batch_nodes (payload ev)))"
    by (force simp: request_rows_def outbox_entry_def scoring_request_def)
qed

text \<open>
  C19. The transactional outbox. When a batch is applied for the first time, then for each of its
  transactions the same commit holds the transaction row, the inbox claim, and an unpublished
  outbox row under the request identifier whose payload is the scoring request for that
  transaction, keyed by it, caused by the batch and at the batch's watermark; requests of one
  batch never share an identifier unless the hash collides on their identities.
\<close>

theorem batch_commits_scoring_intents:
  assumes ok: "materialize_graph_batch uuid5 topic c env ev d = Inr (d', r)"
    and fresh: "\<not> inbox_claimed c d (event_id ev)"
    and ids: "distinct (node_ids ev)" and inj: "inj_on uuid5 (request_identities ev)"
    and i: "i < length (batch_nodes (payload ev))" and n: "n = batch_nodes (payload ev) ! i"
    and unused: "map_of (outbox_events d) (request_id uuid5 ev (node_tx_id n)) = None"
  shows "has_tx d' (node_tx_id n) \<and> inbox_claimed c d' (event_id ev) \<and>
    (\<exists>row req. map_of (outbox_events d') (request_id uuid5 ev (node_tx_id n)) = Some row \<and>
       ob_payload row = Requested req \<and> ob_published_at row = None \<and> ob_topic row = topic \<and>
       ob_event_key row = node_tx_id n \<and>
       event_id req = request_id uuid5 ev (node_tx_id n) \<and>
       causation_id req = Some (event_id ev) \<and>
       req_tx_id (payload req) = node_tx_id n \<and>
       req_graph_watermark (payload req) = batch_time_step (payload ev))"
  using ok
proof (cases rule: materialize_shape)
  case (2 t erows orows)
  have "node_tx_id n \<in> set (node_ids ev)"
    using i n by (simp add: node_ids_def)
  then have "has_tx d' (node_tx_id n)"
    by (simp add: 2(6) has_tx_applied [OF 2(2)])
  moreover have "map_of (outbox_events d') (request_id uuid5 ev (node_tx_id n)) =
      Some (snd (outbox_entry topic (env_now env) (scoring_request uuid5 ev env i n)))"
    using unused map_of_request_rows [OF ids inj i n] by (simp add: 2(5,6) applied_outbox)
  ultimately show ?thesis
    using materialize_claims [OF ok] by (simp add: outbox_entry_def scoring_request_def)
qed (use fresh in \<open>simp add: inbox_claimed_def\<close>)

theorem batch_commits_scoring_intents_witness:
  "\<exists>d' r row req. materialize_graph_batch sample_uuid5 ''q'' ''g'' (sample_env 5) batch_ab empty_db
      = Inr (d', r) \<and>
    map_of (outbox_events d') (request_id sample_uuid5 batch_ab ''b'') = Some row \<and>
    ob_payload row = Requested req \<and> req_tx_id (payload req) = ''b''"
proof -
  obtain d' r where
    ok: "materialize_graph_batch sample_uuid5 ''q'' ''g'' (sample_env 5) batch_ab empty_db
      = Inr (d', r)"
    by (rule accepts_ab [OF empty_unclaimed])
  have inj: "inj_on sample_uuid5 (request_identities batch_ab)"
    by (simp add: request_identities_def sample_defs node_ids_def event_identity_def
        str_int_def str_nat.simps digit_char_def sample_uuid5_def)
  have "map_of (outbox_events empty_db) (request_id sample_uuid5 batch_ab ''b'') = None"
    by (simp add: empty_db_def)
  with batch_commits_scoring_intents [OF ok empty_unclaimed samples_acceptable(3) inj, of 1 "sample_node ''b'' 1 (1/5)"] ok
  show ?thesis by (auto simp: sample_defs)
qed

end
