(* ===== verification/Graph_Spec.thy ===== *)
theory Graph_Spec
  imports Graph_Props
begin

text \<open>
  What a graph batch means, without tables, timestamps or statements: the abstract graph
  (\<open>graph_view\<close>) and the function \<open>absorb\<close> that a batch applies to it. A first delivery refines
  \<open>absorb\<close>; that \<open>absorb\<close> commutes is why out-of-order batches converge.
\<close>

type_synonym node_info = "int \<times> rat list \<times> string \<times> datetime \<times> datetime \<times> int"

record graph_view =
  gv_nodes :: "string \<Rightarrow> node_info option"
  gv_edges :: "edge set"
  gv_progress :: "string \<Rightarrow> (int \<times> int) option"
  gv_intents :: "string set"

definition view :: "db \<Rightarrow> graph_view" where
  "view d =
     \<lparr>gv_nodes = (\<lambda>x. map_option node_data (map_of (transactions d) x)),
      gv_edges = dom (map_of (transaction_edges d)),
      gv_progress = (\<lambda>s. map_option checkpoint_data (map_of (stream_checkpoints d) s)),
      gv_intents = dom (map_of (outbox_events d))\<rparr>"

text \<open>The later of two values by a measure; the second wins a tie.\<close>

definition later :: "('a \<Rightarrow> int) \<Rightarrow> 'a option \<Rightarrow> 'a \<Rightarrow> 'a" where
  "later m stored new =
     (case stored of None \<Rightarrow> new | Some old \<Rightarrow> if m old \<le> m new then new else old)"

definition node_mark :: "node_info \<Rightarrow> int" where
  "node_mark i = snd (snd (snd (snd (snd i))))"

definition node_info_of :: "graph_batch_event \<Rightarrow> string \<Rightarrow> node_info option" where
  "node_info_of ev x =
     map_option (\<lambda>n. (node_time_step n, node_features n,
         batch_feature_schema_version (payload ev), occurred_at ev, produced_at ev,
         batch_time_step (payload ev)))
       (find (\<lambda>n. node_tx_id n = x) (batch_nodes (payload ev)))"

definition absorb :: "(string \<Rightarrow> string) \<Rightarrow> graph_batch_event \<Rightarrow> graph_view \<Rightarrow> graph_view" where
  "absorb uuid5 ev v =
     \<lparr>gv_nodes = (\<lambda>x. case node_info_of ev x of
          None \<Rightarrow> gv_nodes v x
        | Some i \<Rightarrow> Some (later node_mark (gv_nodes v x) i)),
      gv_edges = gv_edges v \<union> set (edge_pairs (batch_edges (payload ev))),
      gv_progress = (gv_progress v)(batch_stream_name (payload ev) \<mapsto>
         later fst (gv_progress v (batch_stream_name (payload ev)))
           (batch_time_step (payload ev), batch_source_offset (payload ev))),
      gv_intents = gv_intents v \<union> request_id uuid5 ev ` set (node_ids ev)\<rparr>"

subsection \<open>Refinement\<close>

lemma find_None_ids:
  "find (\<lambda>n. node_tx_id n = x) (batch_nodes (payload ev)) = None \<longleftrightarrow> x \<notin> set (node_ids ev)"
  by (auto simp: find_None_iff node_ids_def)

lemma node_data_upserted:
  "node_data (upserted node_wins node_merge v stored) =
     later node_mark (map_option node_data stored) (node_data v)"
  by (simp add: node_upsert.data_upserted later_def node_older_def node_mark_def
      split: option.splits)

lemma checkpoint_data_upserted:
  "checkpoint_data (upserted checkpoint_wins checkpoint_merge v stored) =
     later fst (map_option checkpoint_data stored) (checkpoint_data v)"
  by (simp add: checkpoint_upsert.data_upserted later_def split: option.splits)

lemma node_data_row:
  "node_tx_id n = x \<Longrightarrow> find (\<lambda>n. node_tx_id n = x) (batch_nodes (payload ev)) = Some n \<Longrightarrow>
     node_info_of ev x = Some (node_data (snd (node_row ev now n)))"
  by (simp add: node_info_of_def node_row_def node_data_def)

lemma view_nodes_applied:
  assumes up: "upsert_rows node_wins node_merge {} (node_rows_of ev env) (transactions d) = Inr t"
    and ids: "distinct (node_ids ev)"
  shows "map_option node_data (map_of t x) =
    (case node_info_of ev x of
       None \<Rightarrow> map_option node_data (map_of (transactions d) x)
     | Some i \<Rightarrow> Some (later node_mark (map_option node_data (map_of (transactions d) x)) i))"
proof (cases "find (\<lambda>n. node_tx_id n = x) (batch_nodes (payload ev))")
  case None
  then have "x \<notin> fst ` set (node_rows_of ev env)"
    by (simp only: image_node_rows find_None_ids simp_thms)
  from upsert_rows_notin [OF up this] None show ?thesis by (simp add: node_info_of_def)
next
  case (Some n)
  then have n: "n \<in> set (batch_nodes (payload ev))" "node_tx_id n = x"
    by (auto simp: find_Some_iff)
  have "distinct (map fst (node_rows_of ev env))"
    using ids by (simp only: keys_node_rows)
  moreover have "(x, snd (node_row ev (env_now env) n)) \<in> set (node_rows_of ev env)"
    using n by (force simp: node_row_def)
  ultimately have "map_of t x = Some (upserted node_wins node_merge
      (snd (node_row ev (env_now env) n)) (map_of (transactions d) x))"
    by (rule upsert_rows_lookup [OF up])
  with node_data_row [OF n(2) Some, of "env_now env"] show ?thesis
    by (simp add: node_data_upserted)
qed

lemma view_progress_applied:
  "map_option checkpoint_data (map_of (stream_checkpoints (applied ev env c t erows orows d)) s) =
    ((\<lambda>s. map_option checkpoint_data (map_of (stream_checkpoints d) s))
      (batch_stream_name (payload ev) \<mapsto>
         later fst (map_option checkpoint_data
             (map_of (stream_checkpoints d) (batch_stream_name (payload ev))))
           (batch_time_step (payload ev), batch_source_offset (payload ev)))) s"
  by (simp add: applied_def map_of_upsert checkpoint_data_upserted)
    (simp add: checkpoint_data_def)

lemma materialize_refines_absorb_lemma:
  assumes ok: "materialize_graph_batch uuid5 topic c env ev d = Inr (d', r)"
    and fresh: "\<not> inbox_claimed c d (event_id ev)" and ids: "distinct (node_ids ev)"
  shows "view d' = absorb uuid5 ev (view d)"
  using ok
proof (cases rule: materialize_shape)
  case (2 t erows orows)
  have nodes: "gv_nodes (view d') = gv_nodes (absorb uuid5 ev (view d))"
    using view_nodes_applied [OF 2(2) ids]
    by (auto simp: 2(6) view_def absorb_def applied_def fun_eq_iff split: option.splits)
  have edges: "gv_edges (view d') = gv_edges (absorb uuid5 ev (view d))"
    using edge_rows_Inr [OF 2(3)]
    by (simp add: 2(6) view_def absorb_def applied_def dom_insert_rows image_image)
  have progress: "gv_progress (view d') = gv_progress (absorb uuid5 ev (view d))"
    unfolding 2(6) view_def absorb_def graph_view.simps
    by (rule ext) (rule view_progress_applied)
  have "fst ` set orows = request_id uuid5 ev ` set (node_ids ev)"
    unfolding 2(5) set_map [symmetric] keys_request_rows
    by (simp add: node_ids_def image_image)
  then have "gv_intents (view d') = gv_intents (absorb uuid5 ev (view d))"
    by (simp add: 2(6) view_def absorb_def applied_def dom_insert_rows)
  with nodes edges progress show ?thesis by simp
qed (use fresh in \<open>simp add: inbox_claimed_def\<close>)

text \<open>
  C2. The SQL refines the abstract graph. The first successful delivery of a batch that names each
  transaction once changes the stored graph as \<open>absorb\<close> says: every named transaction holds the
  later of its stored and its new data by watermark, the batch's edges are added, the stream's
  progress is the later of both, and one scoring intent per transaction is recorded; nothing else
  of the graph changes.
\<close>

theorem materialize_refines_absorb:
  assumes "materialize_graph_batch uuid5 topic c env ev d = Inr (d', r)"
    and "\<not> inbox_claimed c d (event_id ev)" and "distinct (node_ids ev)"
  shows "view d' = absorb uuid5 ev (view d)"
  using assms by (rule materialize_refines_absorb_lemma)

theorem materialize_refines_absorb_witness:
  "\<exists>d' r. materialize_graph_batch sample_uuid5 ''q'' ''g'' (sample_env 5) batch_ab empty_db
      = Inr (d', r) \<and>
    gv_edges (view d') = {(''a'', ''b'')} \<and> gv_progress (view d') ''elliptic-replay'' = Some (1, 0)"
proof -
  obtain d' r where
    ok: "materialize_graph_batch sample_uuid5 ''q'' ''g'' (sample_env 5) batch_ab empty_db
      = Inr (d', r)"
    by (rule accepts_ab [OF empty_unclaimed])
  have "gv_edges (absorb sample_uuid5 batch_ab (view empty_db)) = {(''a'', ''b'')}"
    and "gv_progress (absorb sample_uuid5 batch_ab (view empty_db)) ''elliptic-replay'' = Some (1, 0)"
    by (simp_all add: absorb_def view_def empty_db_def sample_defs edge_pairs_def later_def)
  with ok materialize_refines_absorb [OF ok empty_unclaimed samples_acceptable(3)] show ?thesis by auto
qed

subsection \<open>Order of arrival\<close>

lemma later_commute:
  "m a < m b \<Longrightarrow> later m (Some (later m stored a)) b = later m (Some (later m stored b)) a"
  by (auto simp: later_def split: option.splits)

lemma node_info_mark: "node_info_of ev x = Some i \<Longrightarrow> node_mark i = batch_time_step (payload ev)"
  by (auto simp: node_info_of_def node_mark_def)

lemma absorb_commute:
  assumes "batch_time_step (payload ev1) < batch_time_step (payload ev2)"
  shows "absorb uuid5 ev2 (absorb uuid5 ev1 v) = absorb uuid5 ev1 (absorb uuid5 ev2 v)"
proof -
  have "gv_nodes (absorb uuid5 ev2 (absorb uuid5 ev1 v)) x =
      gv_nodes (absorb uuid5 ev1 (absorb uuid5 ev2 v)) x" for x
    using assms later_commute [of node_mark]
    by (auto simp: absorb_def node_info_mark split: option.splits)
  moreover have "gv_progress (absorb uuid5 ev2 (absorb uuid5 ev1 v)) =
      gv_progress (absorb uuid5 ev1 (absorb uuid5 ev2 v))"
    using assms later_commute [of fst]
    by (auto simp: absorb_def fun_eq_iff)
  ultimately show ?thesis
    by (auto simp: absorb_def fun_eq_iff)
qed

text \<open>
  C3. Out-of-order graph batches converge. Two new batches of different time steps that are
  accepted in both orders leave, in either order, the same stored data for every transaction, the
  same edges, the same stream progress and the same scoring intents.
\<close>

theorem graph_batches_converge:
  assumes ids: "distinct (node_ids ev1)" "distinct (node_ids ev2)"
    and fresh: "\<not> inbox_claimed c d (event_id ev1)" "\<not> inbox_claimed c d (event_id ev2)"
      "event_id ev1 \<noteq> event_id ev2"
    and step: "batch_time_step (payload ev1) < batch_time_step (payload ev2)"
    and m1: "materialize_graph_batch uuid5 topic c env1 ev1 d = Inr (d1, r1)"
    and m12: "materialize_graph_batch uuid5 topic c env2 ev2 d1 = Inr (d12, r12)"
    and m2: "materialize_graph_batch uuid5 topic c env3 ev2 d = Inr (d2, r2)"
    and m21: "materialize_graph_batch uuid5 topic c env4 ev1 d2 = Inr (d21, r21)"
  shows "view d12 = view d21"
proof -
  have f: "\<not> inbox_claimed c d1 (event_id ev2)" "\<not> inbox_claimed c d2 (event_id ev1)"
    using materialize_claims [OF m1] materialize_claims [OF m2] fresh by auto
  have "view d12 = absorb uuid5 ev2 (absorb uuid5 ev1 (view d))"
    by (simp only: materialize_refines_absorb_lemma [OF m12 f(1) ids(2)]
        materialize_refines_absorb_lemma [OF m1 fresh(1) ids(1)])
  also have "\<dots> = absorb uuid5 ev1 (absorb uuid5 ev2 (view d))"
    by (rule absorb_commute [OF step])
  also have "\<dots> = view d21"
    by (simp only: materialize_refines_absorb_lemma [OF m21 f(2) ids(1)]
        materialize_refines_absorb_lemma [OF m2 fresh(2) ids(2)])
  finally show ?thesis .
qed

theorem graph_batches_converge_witness:
  "\<exists>d1 r1 d12 r12 d2 r2 d21 r21.
     materialize_graph_batch sample_uuid5 ''q'' ''g'' (sample_env 1) batch_ab empty_db
       = Inr (d1, r1) \<and>
     materialize_graph_batch sample_uuid5 ''q'' ''g'' (sample_env 2) batch_bc d1 = Inr (d12, r12) \<and>
     materialize_graph_batch sample_uuid5 ''q'' ''g'' (sample_env 3) batch_bc empty_db
       = Inr (d2, r2) \<and>
     materialize_graph_batch sample_uuid5 ''q'' ''g'' (sample_env 4) batch_ab d2 = Inr (d21, r21) \<and>
     view d12 = view d21"
proof -
  obtain d1 r1 where m1: "materialize_graph_batch sample_uuid5 ''q'' ''g'' (sample_env 1) batch_ab
      empty_db = Inr (d1, r1)"
    by (rule accepts_ab [OF empty_unclaimed])
  obtain d2 r2 where m2: "materialize_graph_batch sample_uuid5 ''q'' ''g'' (sample_env 3) batch_bc
      empty_db = Inr (d2, r2)"
    by (rule accepts_bc [OF empty_unclaimed])
  have "\<not> inbox_claimed ''g'' d1 (event_id batch_bc)"
    using materialize_claims [OF m1] empty_unclaimed samples_acceptable(6) by metis
  then obtain d12 r12 where m12: "materialize_graph_batch sample_uuid5 ''q'' ''g'' (sample_env 2)
      batch_bc d1 = Inr (d12, r12)"
    by (rule accepts_bc)
  have "\<not> inbox_claimed ''g'' d2 (event_id batch_ab)"
    using materialize_claims [OF m2] empty_unclaimed samples_acceptable(6) by metis
  then obtain d21 r21 where m21: "materialize_graph_batch sample_uuid5 ''q'' ''g'' (sample_env 4)
      batch_ab d2 = Inr (d21, r21)"
    by (rule accepts_ab)
  have "batch_time_step (payload batch_ab) < batch_time_step (payload batch_bc)"
    by (simp add: sample_defs)
  with graph_batches_converge [OF samples_acceptable(3,4) empty_unclaimed empty_unclaimed
      samples_acceptable(6) _ m1 m12 m2 m21] m1 m12 m2 m21
  show ?thesis by blast
qed

end
