(* ===== verification/Score_Store.thy ===== *)
theory Score_Store
  imports Graph_Lemmas "HOL-Library.Multiset"
begin

text \<open>
  \<open>shared/database/queries.py\<close>, the score side: \<open>project_scoring_result\<close>, the conditional upsert
  of a canonical score with its Redis publication intent, and \<open>get_transaction_entity\<close>, the entity
  read. The last sections are the lemma library of the projection and its two interpretations.
\<close>

subsection \<open>Projecting a result\<close>

definition score_of :: "int \<Rightarrow> scoring_completed \<Rightarrow> score_row" where
  "score_of now ev =
     (let p = payload ev in
     \<lparr>sc_model_checksum = res_model_checksum p,
      sc_model_deployed_at = res_model_deployed_at p,
      sc_feature_schema_version = res_feature_schema_version p,
      sc_illicit_probability = res_illicit_probability p,
      sc_queue_delay_ms = res_queue_delay_ms p,
      sc_inference_latency_ms = res_inference_latency_ms p,
      sc_end_to_end_latency_ms = res_end_to_end_latency_ms p,
      sc_graph_watermark = res_graph_watermark p,
      sc_source_event_id = event_id ev,
      sc_scored_at = res_scored_at p,
      sc_persisted_at = now\<rparr>)"

definition score_key :: "scoring_completed \<Rightarrow> string \<times> string" where
  "score_key ev = (res_tx_id (payload ev), res_model_version (payload ev))"

definition score_wins :: "score_row \<Rightarrow> score_row \<Rightarrow> bool" where
  "score_wins excluded old \<longleftrightarrow>
     sc_graph_watermark old \<le> sc_graph_watermark excluded \<and>
     instant (sc_scored_at old) \<le> instant (sc_scored_at excluded)"

text \<open>The SET clause names every column but the key and \<open>persisted_at\<close>.\<close>

definition score_merge :: "score_row \<Rightarrow> score_row \<Rightarrow> score_row" where
  "score_merge excluded old =
     \<lparr>sc_model_checksum = sc_model_checksum excluded,
      sc_model_deployed_at = sc_model_deployed_at excluded,
      sc_feature_schema_version = sc_feature_schema_version excluded,
      sc_illicit_probability = sc_illicit_probability excluded,
      sc_queue_delay_ms = sc_queue_delay_ms excluded,
      sc_inference_latency_ms = sc_inference_latency_ms excluded,
      sc_end_to_end_latency_ms = sc_end_to_end_latency_ms excluded,
      sc_graph_watermark = sc_graph_watermark excluded,
      sc_source_event_id = sc_source_event_id excluded,
      sc_scored_at = sc_scored_at excluded,
      sc_persisted_at = sc_persisted_at old\<rparr>"

definition unique_violation :: exn where
  "unique_violation = IntegrityError ''UniqueViolation''"

definition source_event_free :: "string \<Rightarrow> string \<times> string \<Rightarrow> db \<Rightarrow> bool" where
  "source_event_free i k d \<longleftrightarrow>
     list_all (\<lambda>(k', r). sc_source_event_id r = i \<longrightarrow> k' = k) (risk_scores d)"

text \<open>
  The statement: binding, then the CHECK constraint on the proposed row, then the conflict. A row
  that is inserted or updated must keep \<open>source_event_id\<close> unique, an inserted one must reference
  a transaction. The flag says whether a row was inserted or updated.
\<close>

definition upsert_score ::
  "string \<times> string \<Rightarrow> score_row \<Rightarrow> db \<Rightarrow> (db \<times> bool) result"
where
  "upsert_score k new d =
     rbind (guard_r (int4 (sc_graph_watermark new)) data_error) (\<lambda>_.
     rbind (guard_r (0 \<le> sc_illicit_probability new \<and> sc_illicit_probability new \<le> 1)
              check_violation) (\<lambda>_.
     (let stored = map_of (risk_scores d) k;
          (t, hit) = upsert score_wins score_merge k new (risk_scores d)
      in rbind (guard_r (\<not> hit \<or> source_event_free (sc_source_event_id new) k d)
                  unique_violation) (\<lambda>_.
         rbind (guard_r (stored \<noteq> None \<or> has_tx d (fst k)) foreign_key_violation) (\<lambda>_.
         Inr (d\<lparr>risk_scores := t\<rparr>, hit))))))"

definition redis_outbox_id :: "scoring_completed \<Rightarrow> string" where
  "redis_outbox_id ev = ''redis:'' @ event_id ev"

definition redis_outbox_entry :: "string \<Rightarrow> int \<Rightarrow> scoring_completed \<Rightarrow> outbox_row" where
  "redis_outbox_entry redis_outbox_topic now ev =
     \<lparr>ob_aggregate_id = res_tx_id (payload ev),
      ob_topic = redis_outbox_topic,
      ob_event_key = res_tx_id (payload ev),
      ob_payload = Completed ev,
      ob_schema_version = schema_version ev,
      ob_created_at = now,
      ob_published_at = None,
      ob_attempt_count = 0,
      ob_last_error = None\<rparr>"

definition project_scoring_result ::
  "string \<Rightarrow> string \<Rightarrow> int \<Rightarrow> scoring_completed \<Rightarrow> db \<Rightarrow> (db \<times> bool) result"
where
  "project_scoring_result redis_outbox_topic consumer_name now ev d =
     (let (d1, claimed) = claim_inbox_event (event_id ev) consumer_name now d
      in if \<not> claimed then Inr (d1, False)
         else
           rbind (upsert_score (score_key ev) (score_of now ev) d1) (\<lambda>(d2, canonical).
           if \<not> canonical then Inr (d2, False)
           else Inr (d2\<lparr>outbox_events :=
                          insert_nothing (redis_outbox_id ev)
                            (redis_outbox_entry redis_outbox_topic now ev)
                            (outbox_events d2)\<rparr>, True)))"

subsection \<open>Reading an entity\<close>

record entity =
  ent_tx_id :: string
  ent_time_step :: int
  ent_features :: "rat list"
  ent_graph_watermark :: int
  ent_risk_score :: "rat option"
  ent_model_version :: "string option"
  ent_model_deployed_at :: "datetime option"
  ent_inference_latency_ms :: "rat option"
  ent_end_to_end_latency_ms :: "rat option"
  ent_persisted_at :: "int option"
  ent_neighbors :: "string list"
  ent_cached :: bool

type_synonym score_entry = "(string \<times> string) \<times> score_row"

text \<open>
  The score query. \<open>scan\<close> is the order in which the database reads the rows, on which it makes no
  promise: rows of one \<open>scored_at\<close> may come out in any order. An absent or empty model version
  selects every model.
\<close>

definition score_query ::
  "(score_entry list \<Rightarrow> score_entry list) \<Rightarrow> string option \<Rightarrow> string \<Rightarrow> db \<Rightarrow> score_entry list"
where
  "score_query scan model_version tx d =
     sort_key (\<lambda>(_, r). - instant (sc_scored_at r))
       (scan (filter (\<lambda>((t, m), _). t = tx \<and>
          (case model_version of None \<Rightarrow> True | Some v \<Rightarrow> v = [] \<or> m = v)) (risk_scores d)))"

definition edges_of :: "string \<Rightarrow> db \<Rightarrow> edge list" where
  "edges_of tx d = filter (\<lambda>(s, t). s = tx \<or> t = tx) (map fst (transaction_edges d))"

definition neighbors_of :: "string \<Rightarrow> db \<Rightarrow> string list" where
  "neighbors_of tx d = sort (remdups (map (\<lambda>(s, t). if s = tx then t else s) (edges_of tx d)))"

definition get_transaction_entity ::
  "(score_entry list \<Rightarrow> score_entry list) \<Rightarrow> string \<Rightarrow> string option \<Rightarrow> db \<Rightarrow> entity option"
where
  "get_transaction_entity scan tx model_version d =
     (case map_of (transactions d) tx of
        None \<Rightarrow> None
      | Some node \<Rightarrow>
          let score = (case score_query scan model_version tx d of [] \<Rightarrow> None | s # _ \<Rightarrow> Some s)
          in Some
            \<lparr>ent_tx_id = tx,
             ent_time_step = tx_time_step node,
             ent_features = tx_features node,
             ent_graph_watermark = tx_graph_watermark node,
             ent_risk_score = map_option (\<lambda>s. sc_illicit_probability (snd s)) score,
             ent_model_version = map_option (\<lambda>s. snd (fst s)) score,
             ent_model_deployed_at = Option.bind score (\<lambda>s. sc_model_deployed_at (snd s)),
             ent_inference_latency_ms = map_option (\<lambda>s. sc_inference_latency_ms (snd s)) score,
             ent_end_to_end_latency_ms = map_option (\<lambda>s. sc_end_to_end_latency_ms (snd s)) score,
             ent_persisted_at = map_option (\<lambda>s. sc_persisted_at (snd s)) score,
             ent_neighbors = neighbors_of tx d,
             ent_cached = True\<rparr>)"

end
