(* ===== verification/Score_Props.thy ===== *)
theory Score_Props
  imports Score_Store Samples
begin

text \<open>
  The score projection: its outcomes, the interpretations of \<open>versioned_upsert\<close> and
  \<open>inbox_consumer\<close>, and the properties of \<open>project_scoring_result\<close> and of the entity read.
\<close>

subsection \<open>Interpretation of the upsert contract\<close>

definition score_data :: "score_row \<Rightarrow> score_row" where
  "score_data r = r\<lparr>sc_persisted_at := 0\<rparr>"

definition score_older :: "score_row \<Rightarrow> score_row \<Rightarrow> bool" where
  "score_older a b \<longleftrightarrow> score_wins b a"

lemma score_wins_data: "score_wins (score_data a) (score_data b) \<longleftrightarrow> score_wins a b"
  by (simp add: score_wins_def score_data_def)

interpretation score_upsert: versioned_upsert score_data score_older score_wins score_merge
  by unfold_locales
    (auto simp: score_older_def score_wins_data, auto simp: score_data_def score_merge_def score_wins_def)

subsection \<open>Outcomes\<close>

definition claimed_by :: "string \<Rightarrow> int \<Rightarrow> scoring_completed \<Rightarrow> db \<Rightarrow> db" where
  "claimed_by c now ev d = d\<lparr>consumer_inbox := consumer_inbox d @ [((event_id ev, c), now)]\<rparr>"

definition projected :: "string \<Rightarrow> string \<Rightarrow> int \<Rightarrow> scoring_completed \<Rightarrow> db \<Rightarrow> db" where
  "projected topic c now ev d =
     (claimed_by c now ev d)
       \<lparr>risk_scores := fst (upsert score_wins score_merge (score_key ev) (score_of now ev)
                              (risk_scores d)),
        outbox_events := insert_nothing (redis_outbox_id ev) (redis_outbox_entry topic now ev)
                           (outbox_events d)\<rparr>"

definition supersedes :: "scoring_completed \<Rightarrow> db \<Rightarrow> bool" where
  "supersedes ev d \<longleftrightarrow>
     opt_ok (\<lambda>old. score_wins (score_of 0 ev) old) (map_of (risk_scores d) (score_key ev))"

definition result_acceptable :: "scoring_completed \<Rightarrow> db \<Rightarrow> bool" where
  "result_acceptable ev d \<longleftrightarrow>
     int4 (res_graph_watermark (payload ev)) \<and>
     0 \<le> res_illicit_probability (payload ev) \<and> res_illicit_probability (payload ev) \<le> 1 \<and>
     (supersedes ev d \<longrightarrow> source_event_free (event_id ev) (score_key ev) d) \<and>
     (map_of (risk_scores d) (score_key ev) \<noteq> None \<or> has_tx d (res_tx_id (payload ev)))"

lemma score_wins_now: "score_wins (score_of now ev) old \<longleftrightarrow> score_wins (score_of 0 ev) old"
  by (simp add: score_wins_def score_of_def Let_def)

lemma supersedes_hit:
  "snd (upsert score_wins score_merge (score_key ev) (score_of now ev) (risk_scores d)) \<longleftrightarrow>
     supersedes ev d"
  by (auto simp: snd_upsert supersedes_def score_wins_now [of now] split: option.splits)

lemma not_supersedes_upsert:
  "\<not> supersedes ev d \<Longrightarrow>
     fst (upsert score_wins score_merge (score_key ev) (score_of now ev) (risk_scores d)) =
       risk_scores d"
  by (cases "map_of (risk_scores d) (score_key ev)")
    (auto simp: upsert_def supersedes_def score_wins_now [of now])

text \<open>What \<open>project_scoring_result\<close> does, as one equation.\<close>

lemma project_eq:
  "project_scoring_result topic c now ev d =
     (if inbox_claimed c d (event_id ev) then Inr (d, False)
      else if \<not> int4 (res_graph_watermark (payload ev)) then Inl data_error
      else if \<not> (0 \<le> res_illicit_probability (payload ev) \<and> res_illicit_probability (payload ev) \<le> 1)
      then Inl check_violation
      else if supersedes ev d \<and> \<not> source_event_free (event_id ev) (score_key ev) d
      then Inl unique_violation
      else if map_of (risk_scores d) (score_key ev) = None \<and> \<not> has_tx d (res_tx_id (payload ev))
      then Inl foreign_key_violation
      else if supersedes ev d then Inr (projected topic c now ev d, True)
      else Inr (claimed_by c now ev d, False))"
proof -
  obtain t hit where
    u: "upsert score_wins score_merge (score_key ev) (score_of now ev) (risk_scores d) = (t, hit)"
    by fastforce
  then have hit: "hit = supersedes ev d" and t: "\<not> supersedes ev d \<Longrightarrow> t = risk_scores d"
    using supersedes_hit [of ev now d] not_supersedes_upsert [of ev d now] by auto
  show ?thesis
    using u t
    by (auto simp: project_scoring_result_def inbox_claimed_def claim_inbox_event_def
        insert_nothing_def upsert_score_def hit source_event_free_def has_tx_def guard_r_def
        projected_def claimed_by_def score_of_def score_key_def Let_def)
qed

lemma project_success_lemma:
  "(\<exists>r. project_scoring_result topic c now ev d = Inr r) \<longleftrightarrow>
     inbox_claimed c d (event_id ev) \<or> result_acceptable ev d"
  by (auto simp: project_eq result_acceptable_def)

lemma project_cases:
  assumes "project_scoring_result topic c now ev d = Inr (d', r)"
  obtains (seen) "inbox_claimed c d (event_id ev)" "d' = d" "r = False"
  | (stale) "\<not> inbox_claimed c d (event_id ev)" "result_acceptable ev d" "\<not> supersedes ev d"
      "d' = claimed_by c now ev d" "r = False"
  | (canonical) "\<not> inbox_claimed c d (event_id ev)" "result_acceptable ev d" "supersedes ev d"
      "d' = projected topic c now ev d" "r = True"
  using assms by (auto simp: project_eq result_acceptable_def split: if_splits)

subsection \<open>Interpretation of the consumer contract\<close>

lemma claimed_by_inbox:
  "inbox_claimed c' (claimed_by c now ev d) i \<longleftrightarrow>
     inbox_claimed c' d i \<or> (i = event_id ev \<and> c' = c)"
  "inbox_claimed c' (projected topic c now ev d) i \<longleftrightarrow>
     inbox_claimed c' d i \<or> (i = event_id ev \<and> c' = c)"
  by (auto simp: inbox_claimed_def projected_def claimed_by_def map_add_def split: option.splits)

lemma project_claims:
  assumes "project_scoring_result topic c now ev d = Inr (d', r)"
  shows "inbox_claimed c d' i \<longleftrightarrow> inbox_claimed c d i \<or> i = event_id ev"
  using assms by (cases rule: project_cases) (auto simp: claimed_by_inbox)

interpretation score_consumer:
  inbox_consumer "project_scoring_result topic c" event_id "inbox_claimed c"
  for topic c
  by unfold_locales (auto simp: project_claims, auto simp: project_eq)

subsection \<open>Success and redelivery\<close>

text \<open>
  Which results the projector accepts: exactly those already applied, and those whose
  watermark fits its column, whose probability lies in [0, 1], whose transaction is stored, and
  whose event identifier, where the row would be written, belongs to no other score.
\<close>

theorem project_success_iff:
  "(\<exists>r. project_scoring_result topic c now ev d = Inr r) =
     (inbox_claimed c d (event_id ev) \<or> result_acceptable ev d)"
  by (rule project_success_lemma)

text \<open>
  C14. Redelivery of a scoring result is harmless: once it has been projected, every later delivery
  with its identifier can be deleted from the history without changing the final database.
\<close>

theorem score_redelivery_harmless:
  assumes "project_scoring_result topic c now ev d = Inr (d', r)"
  shows "deliver (project_scoring_result topic c) ds d' =
    deliver (project_scoring_result topic c) (filter (\<lambda>x. event_id (snd x) \<noteq> event_id ev) ds) d'"
  by (rule score_consumer.deliver_drop_key
      [OF score_consumer.success_claims [OF assms], symmetric])

lemma empty_scores: "risk_scores db_ab = []" "consumer_inbox db_ab = []" "outbox_events db_ab = []"
  by (simp_all add: db_ab_def empty_db_def)

lemma has_tx_ab: "has_tx db_ab ''a''" "has_tx db_ab ''b''"
  by (simp_all add: has_tx_def db_ab_def)

lemma sample_acceptable:
  assumes "0 \<le> p" and "p \<le> 1" and "w \<in> {1..9}"
  shows "result_acceptable (sample_result i ''a'' p w s) db_ab"
  using assms has_tx_ab
  by (auto simp: result_acceptable_def sample_result_def int4_def source_event_free_def empty_scores)

lemma sample_projected:
  assumes "0 \<le> p" and "p \<le> 1" and "w \<in> {1..9}"
  shows "project_scoring_result q c now (sample_result i ''a'' p w s) db_ab =
    Inr (projected q c now (sample_result i ''a'' p w s) db_ab, True)"
  using sample_acceptable [OF assms, of i s]
  by (simp add: project_eq result_acceptable_def inbox_claimed_def supersedes_def empty_scores)

theorem score_redelivery_harmless_witness:
  "deliver (project_scoring_result ''r'' ''p'')
       [(7, sample_result (CHR ''2'') ''b'' (1/2) 1 5), (8, sample_result (CHR ''1'') ''a'' 1 1 5)]
       (projected ''r'' ''p'' 5 (sample_result (CHR ''1'') ''a'' (3/10) 1 4) db_ab) =
     deliver (project_scoring_result ''r'' ''p'')
       [(7, sample_result (CHR ''2'') ''b'' (1/2) 1 5)]
       (projected ''r'' ''p'' 5 (sample_result (CHR ''1'') ''a'' (3/10) 1 4) db_ab)"
  using score_redelivery_harmless [OF sample_projected [of "3/10" 1 "''r''" "''p''" 5 "CHR ''1''" 4],
      of "[(7, sample_result (CHR ''2'') ''b'' (1/2) 1 5), (8, sample_result (CHR ''1'') ''a'' 1 1 5)]"]
  by (simp add: sample_result_def sample_event_id_def)

subsection \<open>What a projection leaves\<close>

text \<open>
  A result becomes canonical exactly when it is new and no stored score of its transaction and
  model is newer by watermark or by scoring time. Then one transaction leaves its data as the
  score and an unpublished Redis outbox row that carries it; any other successful run leaves the
  scores, the graph and the outbox as they were.
\<close>

theorem projection_outcome:
  assumes "project_scoring_result topic c now ev d = Inr (d', r)"
    and "map_of (outbox_events d) (redis_outbox_id ev) = None"
  shows "(r \<longleftrightarrow> \<not> inbox_claimed c d (event_id ev) \<and> supersedes ev d) \<and>
    (if r
     then map_option score_data (map_of (risk_scores d') (score_key ev)) =
            Some (score_data (score_of now ev)) \<and>
          map_of (outbox_events d') (redis_outbox_id ev) = Some (redis_outbox_entry topic now ev)
     else risk_scores d' = risk_scores d \<and> outbox_events d' = outbox_events d) \<and>
    transactions d' = transactions d \<and> transaction_edges d' = transaction_edges d"
  using assms(1)
proof (cases rule: project_cases)
  case canonical
  have "score_data (upserted score_wins score_merge (score_of now ev)
      (map_of (risk_scores d) (score_key ev))) = score_data (score_of now ev)"
    using canonical(3)
    by (auto simp: score_upsert.data_upserted supersedes_def score_older_def score_wins_data
        score_wins_now [of now] split: option.splits)
  with canonical assms(2) show ?thesis
    by (simp add: projected_def claimed_by_def map_of_upsert map_of_insert_nothing)
qed (simp_all add: claimed_by_def)

theorem projection_outcome_witness:
  "\<exists>row. map_of (outbox_events (projected ''r'' ''p'' 5 (sample_result (CHR ''1'') ''a'' (3/10) 1 4) db_ab))
       (redis_outbox_id (sample_result (CHR ''1'') ''a'' (3/10) 1 4)) = Some row \<and>
     ob_published_at row = None"
  using projection_outcome [OF sample_projected [of "3/10" 1 "''r''" "''p''" 5 "CHR ''1''" 4]]
  by (simp add: empty_scores redis_outbox_entry_def)

subsection \<open>The constraints\<close>

lemma source_event_unique_iff:
  assumes "table_ok (risk_scores d)"
  shows "source_event_unique d \<longleftrightarrow>
    (\<forall>k r k' r'. map_of (risk_scores d) k = Some r \<longrightarrow> map_of (risk_scores d) k' = Some r' \<longrightarrow>
       sc_source_event_id r = sc_source_event_id r' \<longrightarrow> k = k')"
  using assms by (auto simp: source_event_unique_def map_of_eq_Some_iff_table Ball_def)

lemma probability_range_iff:
  assumes "table_ok (risk_scores d)"
  shows "probability_range d \<longleftrightarrow>
    (\<forall>k r. map_of (risk_scores d) k = Some r \<longrightarrow>
       0 \<le> sc_illicit_probability r \<and> sc_illicit_probability r \<le> 1)"
  using assms by (auto simp: probability_range_def map_of_eq_Some_iff_table Ball_def)

lemma source_event_free_iff:
  assumes "table_ok (risk_scores d)"
  shows "source_event_free i k d \<longleftrightarrow>
    (\<forall>k' r. map_of (risk_scores d) k' = Some r \<longrightarrow> sc_source_event_id r = i \<longrightarrow> k' = k)"
  using assms by (auto simp: source_event_free_def map_of_eq_Some_iff_table list_all_iff)

lemma score_merge_data:
  "sc_source_event_id (score_merge new old) = sc_source_event_id new"
  "sc_illicit_probability (score_merge new old) = sc_illicit_probability new"
  by (simp_all add: score_merge_def)

lemma projected_lookup:
  assumes "supersedes ev d"
  shows "map_of (risk_scores (projected topic c now ev d)) k =
    (if k = score_key ev
     then Some (case map_of (risk_scores d) k of None \<Rightarrow> score_of now ev
                | Some old \<Rightarrow> score_merge (score_of now ev) old)
     else map_of (risk_scores d) k)"
  using assms
  by (auto simp: projected_def map_of_upsert upserted_def supersedes_def score_wins_now [of now]
      split: option.splits)

lemma projected_row:
  assumes "supersedes ev d"
    and "map_of (risk_scores (projected topic c now ev d)) k = Some r"
  obtains "k \<noteq> score_key ev" "map_of (risk_scores d) k = Some r"
  | "k = score_key ev" "sc_source_event_id r = event_id ev"
      "sc_illicit_probability r = res_illicit_probability (payload ev)"
  using assms(2) unfolding projected_lookup [OF assms(1)]
  by (auto simp: score_merge_data score_of_def Let_def split: if_splits option.splits)

lemma projected_db_ok:
  assumes inv: "db_ok d" and acc: "result_acceptable ev d" and sup: "supersedes ev d"
    and new: "\<not> inbox_claimed c d (event_id ev)"
  shows "db_ok (projected topic c now ev d)"
proof -
  let ?d = "projected topic c now ev d"
  have ok: "table_ok (risk_scores d)" using inv by (simp add: db_ok_def keys_ok_def)
  then have ok': "table_ok (risk_scores ?d)" by (simp add: projected_def)
  have "keys_ok ?d"
    using inv new by (auto simp: db_ok_def keys_ok_def projected_def claimed_by_def table_ok_def
        inbox_claimed_def map_of_eq_None_iff simp flip: table_ok_def) (auto simp: table_ok_def)
  moreover have "scores_fk ?d"
  proof -
    have "fst ` set (risk_scores ?d) = insert (score_key ev) (fst ` set (risk_scores d))"
      unfolding dom_map_of_table [symmetric] by (simp add: projected_def)
    moreover have "has_tx d (fst (score_key ev))"
      using acc inv by (force simp: result_acceptable_def score_key_def db_ok_def scores_fk_def
          dest: map_of_SomeD)
    ultimately show ?thesis
      using inv by (auto simp: db_ok_def scores_fk_def score_key_def)
        (auto simp: has_tx_def projected_def claimed_by_def)
  qed
  moreover have "source_event_unique ?d"
    using inv acc sup unfolding source_event_unique_iff [OF ok'] result_acceptable_def db_ok_def
      source_event_unique_iff [OF ok] source_event_free_iff [OF ok]
    by (metis projected_row)
  moreover have "probability_range ?d"
    using inv acc sup unfolding probability_range_iff [OF ok'] result_acceptable_def db_ok_def
      probability_range_iff [OF ok]
    by (metis projected_row)
  moreover have "edges_fk ?d" "replay_ok ?d" "no_self_edges ?d"
    using inv by (auto simp: db_ok_def projected_def claimed_by_def edges_fk_def replay_ok_def
        no_self_edges_def has_tx_def)
  ultimately show ?thesis by (simp add: db_ok_def)
qed

lemma claimed_by_db_ok:
  assumes "db_ok d" and "\<not> inbox_claimed c d (event_id ev)"
  shows "db_ok (claimed_by c now ev d)"
  using assms
  by (auto simp: db_ok_def keys_ok_def claimed_by_def table_ok_def inbox_claimed_def
      map_of_eq_None_iff edges_fk_def scores_fk_def has_tx_def source_event_unique_def
      probability_range_def replay_ok_def no_self_edges_def)

lemma project_db_ok:
  assumes "project_scoring_result topic c now ev d = Inr (d', r)" and "db_ok d"
  shows "db_ok d'"
  using assms(1) by (cases rule: project_cases)
    (use assms(2) in \<open>simp_all add: claimed_by_db_ok projected_db_ok\<close>)

text \<open>
  Projection keeps the schema's constraints: after any history of results, valid or not, every
  score references a stored transaction, has its own source event and a probability in [0, 1], and
  keys stay unique.
\<close>

theorem score_history_db_ok:
  assumes "db_ok d"
  shows "db_ok (deliver (project_scoring_result topic c) ds d)"
  by (rule deliver_invariant [where I = db_ok, OF _ assms]) (rule project_db_ok)

theorem score_history_db_ok_witness:
  "db_ok (deliver (project_scoring_result ''r'' ''p'')
     [(7, sample_result (CHR ''2'') ''b'' (1/2) 1 5), (8, sample_result (CHR ''1'') ''zz'' 1 1 5),
      (9, sample_result (CHR ''1'') ''a'' 7 1 5)] db_ab)"
  by (rule score_history_db_ok) (rule db_ok_ab)

subsection \<open>Monotonicity and order of arrival\<close>

lemma project_scores_le:
  assumes "project_scoring_result topic c now ev d = Inr (d', r)"
  shows "rows_le (\<lambda>old new. score_wins new old) (risk_scores d) (risk_scores d')"
  using assms
proof (cases rule: project_cases)
  case canonical
  then show ?thesis
    using score_upsert.rows_le_upsert [of "risk_scores d"]
    by (simp add: projected_def score_older_def score_wins_data)
qed (simp_all add: claimed_by_def rows_le_refl score_wins_def)

text \<open>
  Canonical scores never go back: over any history of results a stored score stays, and
  neither its graph watermark nor its scoring time ever decreases.
\<close>

theorem score_history_monotone:
  "rows_le (\<lambda>old new. sc_graph_watermark old \<le> sc_graph_watermark new \<and>
      instant (sc_scored_at old) \<le> instant (sc_scored_at new))
     (risk_scores d) (risk_scores (deliver (project_scoring_result topic c) ds d))"
  unfolding score_wins_def [symmetric]
proof (rule deliver_invariant
    [where I = "\<lambda>s. rows_le (\<lambda>old new. score_wins new old) (risk_scores d) (risk_scores s)"])
  show "rows_le (\<lambda>old new. score_wins new old) (risk_scores d) (risk_scores s')"
    if "rows_le (\<lambda>old new. score_wins new old) (risk_scores d) (risk_scores s)"
      and "project_scoring_result topic c v e s = Inr (s', r)" for v e s s' r
    using that(1) project_scores_le [OF that(2)]
    by (rule rows_le_trans) (auto simp: score_wins_def)
qed (simp add: rows_le_refl score_wins_def)

lemma projected_scores:
  assumes "project_scoring_result topic c now ev d = Inr (d', r)"
    and "\<not> inbox_claimed c d (event_id ev)"
  shows "risk_scores d' =
    fst (upsert score_wins score_merge (score_key ev) (score_of now ev) (risk_scores d))"
  using assms(1)
  by (cases rule: project_cases)
    (use assms(2) in \<open>simp_all add: not_supersedes_upsert projected_def, simp add: claimed_by_def\<close>)

lemma score_data_upserted:
  "score_data (upserted score_wins score_merge (score_of now ev) stored) =
     (case map_option score_data stored of
        None \<Rightarrow> score_data (score_of 0 ev)
      | Some a \<Rightarrow> if score_older a (score_of 0 ev) then score_data (score_of 0 ev) else a)"
proof -
  have "score_data (score_of now ev) = score_data (score_of 0 ev)"
    by (simp add: score_data_def score_of_def Let_def)
  moreover have "score_older a (score_data (score_of 0 ev)) = score_older a (score_of 0 ev)" for a
    by (simp add: score_older_def score_wins_def score_data_def)
  ultimately show ?thesis
    by (simp only: score_upsert.data_upserted split: option.splits)
qed

definition strictly_newer :: "scoring_completed \<Rightarrow> scoring_completed \<Rightarrow> bool" where
  "strictly_newer ev2 ev1 \<longleftrightarrow>
     score_older (score_of 0 ev1) (score_of 0 ev2) \<and> \<not> score_older (score_of 0 ev2) (score_of 0 ev1)"

lemma upsert_scores_commute:
  assumes "score_key ev1 = score_key ev2 \<longrightarrow> strictly_newer ev2 ev1"
  shows "map_option score_data (map_of (fst (upsert score_wins score_merge (score_key ev2)
        (score_of n2 ev2) (fst (upsert score_wins score_merge (score_key ev1) (score_of n1 ev1) t)))) k)
    = map_option score_data (map_of (fst (upsert score_wins score_merge (score_key ev1)
        (score_of n4 ev1) (fst (upsert score_wins score_merge (score_key ev2) (score_of n3 ev2) t)))) k)"
proof (cases "score_key ev1 = score_key ev2")
  case True
  have data: "score_older (score_data a) b = score_older a b" for a b
    by (simp add: score_older_def score_wins_def score_data_def)
  have trans: "score_older a b \<Longrightarrow> score_older b x \<Longrightarrow> score_older a x" for a b x
    by (auto simp: score_older_def score_wins_def)
  show ?thesis
    using True assms
    by (auto simp: map_of_upsert score_data_upserted strictly_newer_def data
        split: option.splits intro: trans)
next
  case False
  then show ?thesis by (simp add: map_of_upsert score_data_upserted)
qed

text \<open>
  C13. Late results do not matter. Two new results that are accepted in both orders, for different
  transactions or models or with one strictly newer in watermark or scoring time and not older in
  the other, leave the same canonical score data for every transaction and model in either order.
\<close>

theorem results_converge:
  assumes fresh: "\<not> inbox_claimed c d (event_id ev1)" "\<not> inbox_claimed c d (event_id ev2)"
      "event_id ev1 \<noteq> event_id ev2"
    and newer: "score_key ev1 = score_key ev2 \<longrightarrow> strictly_newer ev2 ev1"
    and m1: "project_scoring_result topic c n1 ev1 d = Inr (d1, r1)"
    and m12: "project_scoring_result topic c n2 ev2 d1 = Inr (d12, r12)"
    and m2: "project_scoring_result topic c n3 ev2 d = Inr (d2, r2)"
    and m21: "project_scoring_result topic c n4 ev1 d2 = Inr (d21, r21)"
  shows "map_option score_data (map_of (risk_scores d12) k) =
    map_option score_data (map_of (risk_scores d21) k)"
proof -
  have f: "\<not> inbox_claimed c d1 (event_id ev2)" "\<not> inbox_claimed c d2 (event_id ev1)"
    using project_claims [OF m1] project_claims [OF m2] fresh by auto
  show ?thesis
    by (simp only: projected_scores [OF m12 f(1)] projected_scores [OF m1 fresh(1)]
        projected_scores [OF m21 f(2)] projected_scores [OF m2 fresh(2)]
        upsert_scores_commute [OF newer])
qed

text \<open>Two samples for one transaction: each is accepted after the other.\<close>

lemma second_sample_accepted:
  assumes "0 \<le> p" and "p \<le> 1" and "w \<in> {1..9}" and "0 \<le> p'" and "p' \<le> 1" and "w' \<in> {1..9}"
    and "i \<noteq> i'"
  shows "\<exists>d r. project_scoring_result q c now (sample_result i' ''a'' p' w' s')
      (projected q c now0 (sample_result i ''a'' p w s) db_ab) = Inr (d, r)"
proof -
  have tx: "has_tx (projected q c now0 (sample_result i ''a'' p w s) db_ab) ''a''"
    by (simp add: projected_def claimed_by_def has_tx_def db_ab_def)
  have "source_event_free (event_id (sample_result i' ''a'' p' w' s'))
      (score_key (sample_result i' ''a'' p' w' s'))
      (projected q c now0 (sample_result i ''a'' p w s) db_ab)"
    by (simp add: source_event_free_def projected_def claimed_by_def empty_scores upsert_def
        score_key_def sample_result_def)
  with tx assms have "result_acceptable (sample_result i' ''a'' p' w' s')
      (projected q c now0 (sample_result i ''a'' p w s) db_ab)"
    by (auto simp: result_acceptable_def sample_result_def int4_def)
  then show ?thesis
    using project_success_lemma [of q c now "sample_result i' ''a'' p' w' s'"] by fastforce
qed

theorem results_converge_witness:
  "\<exists>d12 d21 r r'.
     project_scoring_result ''r'' ''p'' 6 (sample_result (CHR ''2'') ''a'' (1/2) 2 5)
       (projected ''r'' ''p'' 5 (sample_result (CHR ''1'') ''a'' (3/10) 1 4) db_ab) = Inr (d12, r) \<and>
     project_scoring_result ''r'' ''p'' 8 (sample_result (CHR ''1'') ''a'' (3/10) 1 4)
       (projected ''r'' ''p'' 7 (sample_result (CHR ''2'') ''a'' (1/2) 2 5) db_ab) = Inr (d21, r') \<and>
     map_option score_data (map_of (risk_scores d12) (''a'', ''gnn-v1'')) =
       map_option score_data (map_of (risk_scores d21) (''a'', ''gnn-v1''))"
proof -
  let ?e1 = "sample_result (CHR ''1'') ''a'' (3/10) 1 4"
  let ?e2 = "sample_result (CHR ''2'') ''a'' (1/2) 2 5"
  have new: "strictly_newer ?e2 ?e1"
    by (simp add: strictly_newer_def score_older_def score_wins_def score_of_def sample_result_def)
  have fresh: "\<not> inbox_claimed ''p'' db_ab x" for x
    by (simp add: inbox_claimed_def empty_scores)
  have ids: "event_id ?e1 \<noteq> event_id ?e2"
    by (simp add: sample_result_def sample_event_id_def)
  obtain d12 r where m12: "project_scoring_result ''r'' ''p'' 6 ?e2
      (projected ''r'' ''p'' 5 ?e1 db_ab) = Inr (d12, r)"
    using second_sample_accepted [of "3/10" 1 "1/2" 2 "CHR ''1''" "CHR ''2''"] by fastforce
  obtain d21 r' where m21: "project_scoring_result ''r'' ''p'' 8 ?e1
      (projected ''r'' ''p'' 7 ?e2 db_ab) = Inr (d21, r')"
    using second_sample_accepted [of "1/2" 2 "3/10" 1 "CHR ''2''" "CHR ''1''"] by fastforce
  have m1: "project_scoring_result ''r'' ''p'' 5 ?e1 db_ab = Inr (projected ''r'' ''p'' 5 ?e1 db_ab, True)"
    by (rule sample_projected) auto
  have m2: "project_scoring_result ''r'' ''p'' 7 ?e2 db_ab = Inr (projected ''r'' ''p'' 7 ?e2 db_ab, True)"
    by (rule sample_projected) auto
  from results_converge [OF fresh fresh ids _ m1 m12 m2 m21] new m12 m21 show ?thesis by blast
qed

text \<open>
  Results that are newer one way and older the other are order-dependent: of two results of one
  transaction and model, one with the higher watermark and the other with the later scoring time,
  whichever is projected first stays canonical and the second never reaches the outbox.
\<close>

theorem incomparable_first_wins:
  assumes "map_of (risk_scores d) (score_key ev1) = None" and "score_key ev2 = score_key ev1"
    and "res_graph_watermark (payload ev1) < res_graph_watermark (payload ev2) \<and>
           instant (res_scored_at (payload ev2)) < instant (res_scored_at (payload ev1)) \<or>
         res_graph_watermark (payload ev2) < res_graph_watermark (payload ev1) \<and>
           instant (res_scored_at (payload ev1)) < instant (res_scored_at (payload ev2))"
    and "\<not> inbox_claimed c d (event_id ev1)"
    and "project_scoring_result topic c n1 ev1 d = Inr (d1, r1)"
    and "project_scoring_result topic c n2 ev2 d1 = Inr (d2, r2)"
  shows "map_of (risk_scores d2) (score_key ev1) = Some (score_of n1 ev1) \<and> \<not> r2 \<and>
    outbox_events d2 = outbox_events d1"
proof -
  have stored: "map_of (risk_scores d1) (score_key ev1) = Some (score_of n1 ev1)"
    using projected_scores [OF assms(5,4)] assms(1) by (simp add: map_of_upsert upserted_def)
  have stale: "\<not> supersedes ev2 d1"
    using stored assms(2,3)
    by (auto simp: supersedes_def score_wins_def score_of_def Let_def)
  from assms(6) show ?thesis
    by (cases rule: project_cases) (use stored stale in \<open>simp_all add: claimed_by_def\<close>)
qed

theorem incomparable_first_wins_witness:
  "\<exists>d. project_scoring_result ''r'' ''p'' 6 (sample_result (CHR ''2'') ''a'' (1/2) 2 3)
       (projected ''r'' ''p'' 5 (sample_result (CHR ''1'') ''a'' (3/10) 1 4) db_ab) = Inr (d, False)"
proof -
  let ?e1 = "sample_result (CHR ''1'') ''a'' (3/10) 1 4"
  let ?e2 = "sample_result (CHR ''2'') ''a'' (1/2) 2 3"
  obtain d r where m12: "project_scoring_result ''r'' ''p'' 6 ?e2
      (projected ''r'' ''p'' 5 ?e1 db_ab) = Inr (d, r)"
    using second_sample_accepted [of "3/10" 1 "1/2" 2 "CHR ''1''" "CHR ''2''"] by fastforce
  have m1: "project_scoring_result ''r'' ''p'' 5 ?e1 db_ab = Inr (projected ''r'' ''p'' 5 ?e1 db_ab, True)"
    by (rule sample_projected) auto
  have "\<not> r"
    using incomparable_first_wins [OF _ _ _ _ m1 m12]
    by (simp add: empty_scores inbox_claimed_def sample_result_def score_key_def)
  with m12 show ?thesis by auto
qed

subsection \<open>The entity read\<close>

definition selects :: "string option \<Rightarrow> string \<Rightarrow> bool" where
  "selects model_version m \<longleftrightarrow> opt_ok (\<lambda>v. v = [] \<or> m = v) model_version"

lemma score_query_set:
  assumes "\<And>xs. mset (scan xs) = mset xs" and "table_ok (risk_scores d)"
  shows "x \<in> set (score_query scan mv tx d) \<longleftrightarrow>
    fst (fst x) = tx \<and> selects mv (snd (fst x)) \<and> map_of (risk_scores d) (fst x) = Some (snd x)"
proof -
  have scan: "set (scan xs) = set xs" for xs
    using mset_eq_setD [OF assms(1)] .
  have "x \<in> set (score_query scan mv tx d) \<longleftrightarrow>
      x \<in> set (risk_scores d) \<and> fst (fst x) = tx \<and> selects mv (snd (fst x))"
    by (cases mv) (auto simp: score_query_def scan selects_def)
  then show ?thesis
    using map_of_eq_Some_iff_table [OF assms(2), of "fst x" "snd x"] by auto
qed

lemma score_query_latest:
  assumes "score_query scan mv tx d = s # rest" and "x \<in> set (score_query scan mv tx d)"
  shows "instant (sc_scored_at (snd x)) \<le> instant (sc_scored_at (snd s))"
proof -
  have "sorted (map (\<lambda>(_, r). - instant (sc_scored_at r)) (s # rest))"
    unfolding assms(1) [symmetric] score_query_def by (rule sorted_sort_key)
  moreover have "x = s \<or> x \<in> set rest"
    using assms by simp
  ultimately show ?thesis by (auto simp: split_beta)
qed

lemma neighbors_of_set:
  "set (neighbors_of tx d) =
     {t. (tx, t) \<in> dom (map_of (transaction_edges d)) \<or>
         t \<noteq> tx \<and> (t, tx) \<in> dom (map_of (transaction_edges d))}"
proof -
  have "set (neighbors_of tx d) =
      (\<lambda>(s, t). if s = tx then t else s) ` {e \<in> dom (map_of (transaction_edges d)). fst e = tx \<or> snd e = tx}"
    by (auto simp: neighbors_of_def edges_of_def dom_map_of_table)
  also have "\<dots> = {t. (tx, t) \<in> dom (map_of (transaction_edges d)) \<or>
      t \<noteq> tx \<and> (t, tx) \<in> dom (map_of (transaction_edges d))}"
    unfolding set_eq_iff image_iff by (auto split: if_splits)
  finally show ?thesis .
qed

text \<open>
  The entity read is exact: it answers precisely for stored transactions, with the stored node,
  the sorted duplicate-free list of its in- and out-neighbours, and a latest score among those of
  the selected model version (of every model when none is given), or no score when there is none.
\<close>

theorem entity_exact:
  assumes scan: "\<And>xs. mset (scan xs) = mset xs" and ok: "keys_ok d"
  shows "case get_transaction_entity scan tx mv d of
      None \<Rightarrow> \<not> has_tx d tx
    | Some e \<Rightarrow>
        (\<exists>node. map_of (transactions d) tx = Some node \<and>
           ent_features e = tx_features node \<and> ent_graph_watermark e = tx_graph_watermark node) \<and>
        sorted (ent_neighbors e) \<and> distinct (ent_neighbors e) \<and>
        set (ent_neighbors e) = {t. (tx, t) \<in> dom (map_of (transaction_edges d)) \<or>
          t \<noteq> tx \<and> (t, tx) \<in> dom (map_of (transaction_edges d))} \<and>
        (case ent_model_version e of
           None \<Rightarrow> ent_risk_score e = None \<and>
             (\<forall>m. selects mv m \<longrightarrow> map_of (risk_scores d) (tx, m) = None)
         | Some m \<Rightarrow> selects mv m \<and>
             (\<exists>r. map_of (risk_scores d) (tx, m) = Some r \<and>
               ent_risk_score e = Some (sc_illicit_probability r) \<and>
               (\<forall>m' r'. selects mv m' \<longrightarrow> map_of (risk_scores d) (tx, m') = Some r' \<longrightarrow>
                  instant (sc_scored_at r') \<le> instant (sc_scored_at r))))"
proof (cases "map_of (transactions d) tx")
  case None
  then show ?thesis by (simp add: get_transaction_entity_def has_tx_def)
next
  case (Some node)
  have t: "table_ok (risk_scores d)" using ok by (simp add: keys_ok_def)
  note q = score_query_set [OF scan t, of _ mv tx]
  have n: "sorted (neighbors_of tx d)" "distinct (neighbors_of tx d)"
    by (simp_all add: neighbors_of_def)
  show ?thesis
  proof (cases "score_query scan mv tx d")
    case Nil
    then have none: "map_of (risk_scores d) (tx, m) = None" if "selects mv m" for m
      using q [of "((tx, m), the (map_of (risk_scores d) (tx, m)))"] that
      by (cases "map_of (risk_scores d) (tx, m)") auto
    from Some Nil n none show ?thesis
      by (simp add: get_transaction_entity_def neighbors_of_set)
  next
    case (Cons s rest)
    then have s: "fst (fst s) = tx" "selects mv (snd (fst s))"
      "map_of (risk_scores d) (fst s) = Some (snd s)"
      using q [of s] by auto
    have late: "instant (sc_scored_at r') \<le> instant (sc_scored_at (snd s))"
      if "selects mv m'" and "map_of (risk_scores d) (tx, m') = Some r'" for m' r'
      using score_query_latest [OF Cons, of "((tx, m'), r')"] q that by simp
    have "map_of (risk_scores d) (tx, snd (fst s)) = Some (snd s)"
      using s by (metis prod.collapse)
    with Some Cons n s(2) late show ?thesis
      by (simp add: get_transaction_entity_def neighbors_of_set)
  qed
qed

theorem entity_exact_witness:
  "\<exists>e. get_transaction_entity (\<lambda>xs. xs) ''b'' None db_ab = Some e \<and>
     set (ent_neighbors e) = {''a''} \<and> ent_model_version e = None"
proof -
  have ok: "keys_ok db_ab" using db_ok_ab by (simp add: db_ok_def)
  obtain e where e: "get_transaction_entity (\<lambda>xs. xs) ''b'' None db_ab = Some e"
    by (simp add: get_transaction_entity_def db_ab_def Let_def)
  have "dom (map_of (transaction_edges db_ab)) = {(''a'', ''b'')}"
    by (auto simp: db_ab_def)
  with entity_exact [OF _ ok, of "\<lambda>xs. xs" "''b''" None] e show ?thesis
    by (auto simp: empty_scores split: option.splits)
qed

end
