(* ===== verification/Score_Spec.thy ===== *)
theory Score_Spec
  imports Score_Props
begin

text \<open>
  What a scoring result means to the projector, without statements: the scores, the publication
  intents and the claims as maps (\<open>score_view\<close>), and the function \<open>absorb_result\<close> that a result
  applies to them. Histories of deliveries refine it.
\<close>

record score_view =
  vw_claims :: "string \<Rightarrow> int option"
  vw_scores :: "string \<times> string \<Rightarrow> score_row option"
  vw_intents :: "string \<Rightarrow> outbox_row option"

definition score_view :: "string \<Rightarrow> db \<Rightarrow> score_view" where
  "score_view c d =
     \<lparr>vw_claims = (\<lambda>i. map_of (consumer_inbox d) (i, c)),
      vw_scores = map_of (risk_scores d),
      vw_intents = map_of (outbox_events d)\<rparr>"

text \<open>
  A result is at least as new as a stored score when it is so by graph watermark and by scoring
  time. The score it leaves has every value from the result; only the time at which a score of the
  transaction and model was first stored is kept.
\<close>

definition at_least_as_new :: "scoring_completed \<Rightarrow> score_row option \<Rightarrow> bool" where
  "at_least_as_new ev stored \<longleftrightarrow>
     (case stored of
        None \<Rightarrow> True
      | Some s \<Rightarrow> sc_graph_watermark s \<le> res_graph_watermark (payload ev) \<and>
          instant (sc_scored_at s) \<le> instant (res_scored_at (payload ev)))"

definition score_row_of :: "int \<Rightarrow> scoring_completed \<Rightarrow> score_row option \<Rightarrow> score_row" where
  "score_row_of now ev stored =
     \<lparr>sc_model_checksum = res_model_checksum (payload ev),
      sc_model_deployed_at = res_model_deployed_at (payload ev),
      sc_feature_schema_version = res_feature_schema_version (payload ev),
      sc_illicit_probability = res_illicit_probability (payload ev),
      sc_queue_delay_ms = res_queue_delay_ms (payload ev),
      sc_inference_latency_ms = res_inference_latency_ms (payload ev),
      sc_end_to_end_latency_ms = res_end_to_end_latency_ms (payload ev),
      sc_graph_watermark = res_graph_watermark (payload ev),
      sc_source_event_id = event_id ev,
      sc_scored_at = res_scored_at (payload ev),
      sc_persisted_at = (case stored of None \<Rightarrow> now | Some s \<Rightarrow> sc_persisted_at s)\<rparr>"

definition intent_of :: "string \<Rightarrow> int \<Rightarrow> scoring_completed \<Rightarrow> outbox_row" where
  "intent_of topic now ev =
     \<lparr>ob_aggregate_id = res_tx_id (payload ev), ob_topic = topic, ob_event_key = res_tx_id (payload ev),
      ob_payload = Completed ev, ob_schema_version = schema_version ev, ob_created_at = now,
      ob_published_at = None, ob_attempt_count = 0, ob_last_error = None\<rparr>"

definition add_absent :: "'k \<Rightarrow> 'v \<Rightarrow> ('k \<Rightarrow> 'v option) \<Rightarrow> 'k \<Rightarrow> 'v option" where
  "add_absent k v m = (case m k of None \<Rightarrow> m(k \<mapsto> v) | Some _ \<Rightarrow> m)"

definition absorb_result :: "string \<Rightarrow> int \<times> scoring_completed \<Rightarrow> score_view \<Rightarrow> score_view" where
  "absorb_result topic r v =
     (case r of (now, ev) \<Rightarrow>
        let k = (res_tx_id (payload ev), res_model_version (payload ev));
            v1 = v\<lparr>vw_claims := (vw_claims v)(event_id ev \<mapsto> now)\<rparr>
        in if vw_claims v (event_id ev) \<noteq> None then v
           else if at_least_as_new ev (vw_scores v k)
           then v1\<lparr>vw_scores := (vw_scores v)(k \<mapsto> score_row_of now ev (vw_scores v k)),
                   vw_intents := add_absent (''redis:'' @ event_id ev) (intent_of topic now ev)
                                   (vw_intents v)\<rparr>
           else v1)"

text \<open>The results of a history that the constraints of the schema admit when they arrive.\<close>

definition admitted :: "scoring_completed \<Rightarrow> db \<Rightarrow> bool" where
  "admitted ev d \<longleftrightarrow>
     (let k = (res_tx_id (payload ev), res_model_version (payload ev)) in
     int4 (res_graph_watermark (payload ev)) \<and>
     0 \<le> res_illicit_probability (payload ev) \<and> res_illicit_probability (payload ev) \<le> 1 \<and>
     (at_least_as_new ev (map_of (risk_scores d) k) \<longrightarrow>
        (\<forall>(k', s) \<in> set (risk_scores d). sc_source_event_id s = event_id ev \<longrightarrow> k' = k)) \<and>
     (map_of (risk_scores d) k = None \<longrightarrow> has_tx d (res_tx_id (payload ev))))"

fun admitted_results ::
  "string \<Rightarrow> string \<Rightarrow> (int \<times> scoring_completed) list \<Rightarrow> db \<Rightarrow> (int \<times> scoring_completed) list"
where
  "admitted_results topic c [] d = []"
| "admitted_results topic c (r # rs) d =
     (let rest = admitted_results topic c rs (deliver1 (project_scoring_result topic c) r d)
      in if admitted (snd r) d then r # rest else rest)"

subsection \<open>Refinement\<close>

lemma supersedes_new: "supersedes ev d \<longleftrightarrow> at_least_as_new ev (map_of (risk_scores d) (score_key ev))"
  by (simp add: supersedes_def at_least_as_new_def score_wins_def score_of_def Let_def
      split: option.splits)

lemma acceptable_admitted: "result_acceptable ev d \<longleftrightarrow> admitted ev d"
  by (auto simp: result_acceptable_def admitted_def supersedes_new score_key_def source_event_free_def
      list_all_iff Let_def)

lemma upserted_score: "at_least_as_new ev stored \<Longrightarrow>
    upserted score_wins score_merge (score_of now ev) stored = score_row_of now ev stored"
  by (simp add: upserted_def at_least_as_new_def score_wins_def score_merge_def score_of_def
      score_row_of_def Let_def split: option.splits)

lemma view_claimed_by:
  "\<not> inbox_claimed c d (event_id ev) \<Longrightarrow>
     score_view c (claimed_by c now ev d) =
       (score_view c d)\<lparr>vw_claims := (vw_claims (score_view c d))(event_id ev \<mapsto> now)\<rparr>"
  by (auto simp: score_view_def claimed_by_def inbox_claimed_def map_add_def fun_eq_iff
      split: option.splits)

lemma project_refines:
  assumes "project_scoring_result topic c now ev d = Inr (d', r)"
  shows "score_view c d' = absorb_result topic (now, ev) (score_view c d)"
  using assms
proof (cases rule: project_cases)
  case seen
  then show ?thesis by (simp add: absorb_result_def score_view_def inbox_claimed_def)
next
  case stale
  then show ?thesis
    using view_claimed_by [OF stale(1), of now]
    by (simp add: absorb_result_def supersedes_new score_key_def score_view_def inbox_claimed_def Let_def)
next
  case canonical
  have new: "at_least_as_new ev (map_of (risk_scores d) (score_key ev))"
    using canonical(3) by (simp add: supersedes_new)
  have "score_view c (projected topic c now ev d) =
      (score_view c (claimed_by c now ev d))
        \<lparr>vw_scores := (map_of (risk_scores d))(score_key ev \<mapsto>
           score_row_of now ev (map_of (risk_scores d) (score_key ev))),
         vw_intents := add_absent (''redis:'' @ event_id ev) (intent_of topic now ev)
           (map_of (outbox_events d))\<rparr>"
    using upserted_score [OF new, of now]
    by (auto simp: score_view_def projected_def claimed_by_def map_of_upsert fun_eq_iff add_absent_def
        insert_nothing_def redis_outbox_id_def redis_outbox_entry_def intent_of_def map_add_def
        split: option.splits)
  with canonical new show ?thesis
    using view_claimed_by [OF canonical(1), of now]
    by (simp add: absorb_result_def score_key_def score_view_def inbox_claimed_def Let_def)
qed


text \<open>What the projection has no business with stays.\<close>

definition elsewhere_same :: "string \<Rightarrow> db \<Rightarrow> db \<Rightarrow> bool" where
  "elsewhere_same c d d' \<longleftrightarrow>
     transactions d' = transactions d \<and> transaction_edges d' = transaction_edges d \<and>
     stream_checkpoints d' = stream_checkpoints d \<and> replay_control d' = replay_control d \<and>
     (\<forall>c' i. c' \<noteq> c \<longrightarrow> inbox_claimed c' d' i = inbox_claimed c' d i)"

lemma project_elsewhere:
  assumes "project_scoring_result topic c now ev d = Inr (d', r)"
  shows "elsewhere_same c d d'"
  using assms by (cases rule: project_cases)
    (auto simp: elsewhere_same_def claimed_by_inbox, simp_all add: claimed_by_def projected_def)

lemma elsewhere_trans: "elsewhere_same c d d1 \<Longrightarrow> elsewhere_same c d1 d2 \<Longrightarrow> elsewhere_same c d d2"
  by (simp add: elsewhere_same_def)

text \<open>
  C28. The stored scores are those of the abstract ledger, for any history of deliveries. Results
  that the constraints refuse leave no trace; each of the others, in the order of arrival, claims
  its identifier once and becomes the score of its transaction and model exactly when it is no older
  by watermark and no older by scoring time than the score that is there, with every column taken
  from the result except the time of first storage; and exactly then the outbox gets an unpublished
  intent for Redis that carries the result. Nothing else in the database changes.
\<close>

theorem projections_refine_ledger:
  "score_view c (deliver (project_scoring_result topic c) rs d) =
     fold (absorb_result topic) (admitted_results topic c rs d) (score_view c d) \<and>
   elsewhere_same c d (deliver (project_scoring_result topic c) rs d)"
proof (induction rs arbitrary: d)
  case Nil
  show ?case by (simp add: elsewhere_same_def)
next
  case (Cons r rs)
  obtain now ev where r: "r = (now, ev)" by fastforce
  let ?d1 = "deliver1 (project_scoring_result topic c) r d"
  have step: "score_view c ?d1 =
      (if admitted ev d then absorb_result topic r (score_view c d) else score_view c d) \<and>
    elsewhere_same c d ?d1"
  proof (cases "project_scoring_result topic c now ev d")
    case (Inl x)
    then have "\<not> admitted ev d"
      using project_success_lemma [of topic c now ev d] by (auto simp: acceptable_admitted)
    with Inl show ?thesis by (simp add: deliver1_def r elsewhere_same_def)
  next
    case (Inr p)
    obtain d' hit where p: "p = (d', hit)" by fastforce
    note ok = Inr [unfolded p]
    have "admitted ev d \<or> score_view c d' = score_view c d"
      using project_success_lemma [of topic c now ev d] ok
      by (auto simp: acceptable_admitted project_eq)
    with project_refines [OF ok] project_elsewhere [OF ok] ok show ?thesis
      by (auto simp: deliver1_def r)
  qed
  from Cons.IH [of ?d1] have rest: "score_view c (deliver (project_scoring_result topic c) rs ?d1) =
      fold (absorb_result topic) (admitted_results topic c rs ?d1) (score_view c ?d1)"
    "elsewhere_same c ?d1 (deliver (project_scoring_result topic c) rs ?d1)" by simp_all
  have "elsewhere_same c d (deliver (project_scoring_result topic c) rs ?d1)"
    by (rule elsewhere_trans [OF step [THEN conjunct2] rest(2)])
  with rest(1) step show ?case by (simp add: Let_def r)
qed

end
