(* ===== verification/Subgraph.thy ===== *)
theory Subgraph
  imports Score_Store
begin

text \<open>
  \<open>get_bounded_subgraph\<close> and \<open>subgraph_cache_key\<close> of \<open>shared/database/queries.py\<close>: the undirected
  breadth-first search over the stored edges, bounded in hops, nodes and edges. \<open>collate\<close> is the
  sort key of the database's collation, which orders the rows of a query; \<open>scan\<close> the order in which
  an unordered query returns them. Python sorts strings and pairs by code point.
\<close>

record search =
  se_visited :: "string set"
  se_frontier :: "string set"
  se_edges :: "edge set"
  se_truncated :: bool

text \<open>The inner loop body over the two ends of a row.\<close>

definition visit :: "nat \<Rightarrow> string \<Rightarrow> search \<Rightarrow> search" where
  "visit max_nodes candidate st =
     (if candidate \<in> se_visited st then st
      else if max_nodes \<le> card (se_visited st) then st\<lparr>se_truncated := True\<rparr>
      else st\<lparr>se_visited := insert candidate (se_visited st),
              se_frontier := insert candidate (se_frontier st)\<rparr>)"

definition visit_row :: "nat \<Rightarrow> edge \<Rightarrow> search \<Rightarrow> search" where
  "visit_row max_nodes row st =
     visit max_nodes (snd row) (visit max_nodes (fst row)
       (st\<lparr>se_edges := insert row (se_edges st)\<rparr>))"

definition incident_rows :: "(string \<Rightarrow> string) \<Rightarrow> string set \<Rightarrow> db \<Rightarrow> edge list" where
  "incident_rows collate frontier d =
     sort_key (\<lambda>(s, t). (collate s, collate t))
       (filter (\<lambda>(s, t). s \<in> frontier \<or> t \<in> frontier) (map fst (transaction_edges d)))"

text \<open>
  One round. The field \<open>se_frontier\<close> is the frontier on entry and collects the next one; an empty
  frontier leaves the loop, after which nothing changes.
\<close>

definition search_round :: "(string \<Rightarrow> string) \<Rightarrow> db \<Rightarrow> nat \<Rightarrow> nat \<Rightarrow> search \<Rightarrow> search" where
  "search_round collate d max_nodes max_edges st =
     (if se_frontier st = {} then st
      else
        let rows = take (max_edges + 1) (incident_rows collate (se_frontier st) d);
            st1 = (if max_edges < length rows then st\<lparr>se_truncated := True\<rparr> else st)
        in fold (visit_row max_nodes) (take max_edges rows) (st1\<lparr>se_frontier := {}\<rparr>))"

definition search_start :: "string \<Rightarrow> search" where
  "search_start center = \<lparr>se_visited = {center}, se_frontier = {center}, se_edges = {},
     se_truncated = False\<rparr>"

primrec search_rounds :: "(string \<Rightarrow> string) \<Rightarrow> db \<Rightarrow> nat \<Rightarrow> nat \<Rightarrow> string \<Rightarrow> nat \<Rightarrow> search" where
  "search_rounds collate d max_nodes max_edges center 0 = search_start center"
| "search_rounds collate d max_nodes max_edges center (Suc n) =
     search_round collate d max_nodes max_edges
       (search_rounds collate d max_nodes max_edges center n)"

record subgraph_node =
  sn_txId :: string
  sn_features :: "rat list"
  sn_time_step :: int
  sn_risk_score :: rat

record subgraph =
  sg_center :: string
  sg_nodes :: "subgraph_node list"
  sg_edges :: "edge list"
  sg_graph_watermark :: int
  sg_truncated :: bool

text \<open>The latest score of each transaction: a stable descending sort, then the first per key.\<close>

definition score_map ::
  "(score_entry list \<Rightarrow> score_entry list) \<Rightarrow> string option \<Rightarrow> string set \<Rightarrow> db
     \<Rightarrow> string \<Rightarrow> score_row option"
where
  "score_map scan model_version ids d =
     map_of (map (\<lambda>((t, m), r). (t, r))
       (sort_key (\<lambda>(_, r). - instant (sc_scored_at r))
         (scan (filter (\<lambda>((t, m), _). t \<in> ids \<and>
            (case model_version of None \<Rightarrow> True | Some v \<Rightarrow> v = [] \<or> m = v)) (risk_scores d)))))"

definition get_bounded_subgraph ::
  "(string \<Rightarrow> string) \<Rightarrow> (score_entry list \<Rightarrow> score_entry list) \<Rightarrow> string \<Rightarrow> nat \<Rightarrow> nat \<Rightarrow> nat
     \<Rightarrow> string option \<Rightarrow> db \<Rightarrow> subgraph option"
where
  "get_bounded_subgraph collate scan center_tx_id hops max_nodes max_edges model_version d =
     (if map_of (transactions d) center_tx_id = None then None
      else
        let st = search_rounds collate d max_nodes max_edges center_tx_id hops;
            nodes = sort_key (\<lambda>(t, _). collate t)
                      (filter (\<lambda>(t, _). t \<in> se_visited st) (transactions d));
            scores = score_map scan model_version (se_visited st) d;
            edges = sorted_list_of_set
                      {e \<in> se_edges st. fst e \<in> se_visited st \<and> snd e \<in> se_visited st}
        in Some
          \<lparr>sg_center = center_tx_id,
           sg_nodes = map (\<lambda>(t, node).
             \<lparr>sn_txId = t, sn_features = tx_features node, sn_time_step = tx_time_step node,
              sn_risk_score =
                (case scores t of Some s \<Rightarrow> sc_illicit_probability s | None \<Rightarrow> 0)\<rparr>) nodes,
           sg_edges = (if max_edges < length edges then take max_edges edges else edges),
           sg_graph_watermark =
             (case map (\<lambda>(_, node). tx_graph_watermark node) nodes of
                [] \<Rightarrow> 0 | w # ws \<Rightarrow> fold max ws w),
           sg_truncated = (se_truncated st \<or> max_edges < length edges)\<rparr>)"

text \<open>The key of a cached subgraph.\<close>

definition subgraph_cache_key ::
  "string \<Rightarrow> int \<Rightarrow> int \<Rightarrow> int \<Rightarrow> int \<Rightarrow> string \<Rightarrow> string"
where
  "subgraph_cache_key tx_id hops max_nodes max_edges graph_watermark model_version =
     ''risk:subgraph:v1:'' @ tx_id @ '':'' @ str_int hops @ '':'' @ str_int max_nodes @ '':'' @
     str_int max_edges @ '':'' @ str_int graph_watermark @ '':'' @ model_version"

subsection \<open>The neighbourhood\<close>

definition links :: "db \<Rightarrow> edge set" where
  "links d = dom (map_of (transaction_edges d))"

definition incident :: "edge set \<Rightarrow> string set \<Rightarrow> edge set" where
  "incident E S = {(s, t) \<in> E. s \<in> S \<or> t \<in> S}"

definition ends :: "edge set \<Rightarrow> string set" where
  "ends R = fst ` R \<union> snd ` R"

text \<open>The transactions at most \<open>n\<close> undirected edges away.\<close>

primrec ball :: "edge set \<Rightarrow> string \<Rightarrow> nat \<Rightarrow> string set" where
  "ball E c 0 = {c}"
| "ball E c (Suc n) = ball E c n \<union> ends (incident E (ball E c n))"

text \<open>The transactions less than \<open>n\<close> edges away: those whose edges a search of \<open>n\<close> rounds reads.\<close>

primrec inner :: "edge set \<Rightarrow> string \<Rightarrow> nat \<Rightarrow> string set" where
  "inner E c 0 = {}"
| "inner E c (Suc n) = ball E c n"

lemma finite_links [simp]: "finite (links d)"
  by (simp add: links_def finite_dom_map_of)

lemma finite_incident [simp]: "finite E \<Longrightarrow> finite (incident E S)"
  by (rule finite_subset [of _ E]) (auto simp: incident_def)

lemma finite_ends [simp]: "finite R \<Longrightarrow> finite (ends R)"
  by (simp add: ends_def)

lemma finite_ball [simp]: "finite E \<Longrightarrow> finite (ball E c n)"
  by (induction n) auto

lemma center_in_ball [simp]: "c \<in> ball E c n"
  by (induction n) auto

lemma incident_Un: "incident E (A \<union> B) = incident E A \<union> incident E B"
  by (auto simp: incident_def)

lemma incident_mono: "A \<subseteq> B \<Longrightarrow> incident E A \<subseteq> incident E B"
  by (auto simp: incident_def)

lemma ends_mono: "A \<subseteq> B \<Longrightarrow> ends A \<subseteq> ends B"
  by (auto simp: ends_def)

lemma ends_Un: "ends (A \<union> B) = ends A \<union> ends B"
  by (auto simp: ends_def)

lemma inner_sub_ball: "inner E c n \<subseteq> ball E c n"
  by (cases n) auto

lemma ends_inner: "ends (incident E (inner E c n)) \<subseteq> ball E c n"
  by (cases n) (auto simp: ends_def incident_def)

text \<open>A round only has to read the edges of what the last one found.\<close>

lemma ball_frontier:
  "ball E c (Suc n) = ball E c n \<union> ends (incident E (ball E c n - inner E c n))"
proof -
  have "ball E c n = inner E c n \<union> (ball E c n - inner E c n)"
    using inner_sub_ball by blast
  then have "ends (incident E (ball E c n)) =
      ends (incident E (inner E c n)) \<union> ends (incident E (ball E c n - inner E c n))"
    by (metis incident_Un ends_Un)
  then show ?thesis using ends_inner [of E c n] by auto
qed

subsection \<open>One round\<close>

lemma set_incident_rows [simp]: "set (incident_rows collate F d) = incident (links d) F"
  by (auto simp: incident_rows_def incident_def links_def dom_map_of_table)

lemma distinct_incident_rows: "keys_ok d \<Longrightarrow> distinct (incident_rows collate F d)"
  by (simp add: incident_rows_def keys_ok_def table_ok_def)

lemma length_incident_rows:
  "keys_ok d \<Longrightarrow> length (incident_rows collate F d) = card (incident (links d) F)"
  by (metis distinct_incident_rows distinct_card set_incident_rows)

text \<open>
  What reading rows does to the search: \<open>X\<close> are the ends of the rows, \<open>D\<close> the rows. Nodes are
  added up to the bound, and the search is cut exactly when the bound keeps one out.
\<close>

definition extends :: "nat \<Rightarrow> string set \<Rightarrow> edge set \<Rightarrow> search \<Rightarrow> search \<Rightarrow> bool" where
  "extends M X D st st' \<longleftrightarrow>
     se_visited st \<subseteq> se_visited st' \<and> se_visited st' \<subseteq> se_visited st \<union> X \<and>
     finite (se_visited st') \<and> card (se_visited st') \<le> M \<and>
     se_frontier st' = se_frontier st \<union> (se_visited st' - se_visited st) \<and>
     se_edges st' = se_edges st \<union> D \<and>
     (se_truncated st \<longrightarrow> se_truncated st') \<and>
     (\<not> se_truncated st' \<longrightarrow> se_visited st' = se_visited st \<union> X) \<and>
     (se_truncated st' \<longrightarrow> se_truncated st \<or> M < card (se_visited st \<union> X))"

definition bounded :: "nat \<Rightarrow> search \<Rightarrow> bool" where
  "bounded M st \<longleftrightarrow> finite (se_visited st) \<and> card (se_visited st) \<le> M"

lemma extends_bounded: "extends M X D st st' \<Longrightarrow> bounded M st'"
  by (simp add: extends_def bounded_def)

lemma extends_visit: "bounded M st \<Longrightarrow> extends M {x} {} st (visit M x st)"
  by (auto simp: extends_def bounded_def visit_def insert_absorb card_insert_if)

lemma extends_trans:
  assumes 1: "extends M A D st st1" and 2: "extends M B D' st1 st2"
    and fin: "finite (se_visited st)" "finite A" "finite B"
  shows "extends M (A \<union> B) (D \<union> D') st st2"
proof -
  have v: "se_visited st \<subseteq> se_visited st1" "se_visited st1 \<subseteq> se_visited st \<union> A"
      "se_visited st1 \<subseteq> se_visited st2" "se_visited st2 \<subseteq> se_visited st1 \<union> B"
    and f: "se_frontier st1 = se_frontier st \<union> (se_visited st1 - se_visited st)"
      "se_frontier st2 = se_frontier st1 \<union> (se_visited st2 - se_visited st1)"
    and t: "\<not> se_truncated st1 \<Longrightarrow> se_visited st1 = se_visited st \<union> A"
      "\<not> se_truncated st2 \<Longrightarrow> \<not> se_truncated st1 \<and> se_visited st2 = se_visited st1 \<union> B"
    and c: "se_truncated st1 \<longrightarrow> se_truncated st \<or> M < card (se_visited st \<union> A)"
      "se_truncated st2 \<longrightarrow> se_truncated st1 \<or> M < card (se_visited st1 \<union> B)"
    using 1 2 by (auto simp: extends_def)
  have "card (se_visited st1 \<union> B) \<le> card (se_visited st \<union> (A \<union> B))"
    and "card (se_visited st \<union> A) \<le> card (se_visited st \<union> (A \<union> B))"
    using fin v(2) by (auto intro!: card_mono)
  with c have "se_truncated st2 \<longrightarrow> se_truncated st \<or> M < card (se_visited st \<union> (A \<union> B))"
    by linarith
  moreover have "\<not> se_truncated st2 \<longrightarrow> se_visited st2 = se_visited st \<union> (A \<union> B)"
    using t by auto
  moreover have "se_frontier st2 = se_frontier st \<union> (se_visited st2 - se_visited st)"
    using v(1,3) unfolding f by blast
  moreover have "se_visited st \<subseteq> se_visited st2"
    and "se_visited st2 \<subseteq> se_visited st \<union> (A \<union> B)"
    using v by blast+
  ultimately show ?thesis
    using 1 2 by (simp add: extends_def Un_assoc)
qed

lemma extends_visit_row:
  assumes "bounded M st"
  shows "extends M (ends {row}) {row} st (visit_row M row st)"
proof -
  let ?s = "st\<lparr>se_edges := insert row (se_edges st)\<rparr>"
  have b: "bounded M ?s" using assms by (simp add: bounded_def)
  have s: "extends M {} {row} st ?s"
    using assms by (auto simp: extends_def bounded_def)
  have 1: "extends M {fst row} {} ?s (visit M (fst row) ?s)"
    by (rule extends_visit [OF b])
  have 2: "extends M {snd row} {} (visit M (fst row) ?s) (visit_row M row st)"
    unfolding visit_row_def by (rule extends_visit [OF extends_bounded [OF 1]])
  have fin: "finite (se_visited st)" "finite (se_visited ?s)"
    using assms by (simp_all add: bounded_def)
  from extends_trans [OF s extends_trans [OF 1 2 fin(2)] fin(1)] show ?thesis
    by (simp add: ends_def)
qed

lemma extends_rows:
  assumes "bounded M st"
  shows "extends M (ends (set rows)) (set rows) st (fold (visit_row M) rows st)"
  using assms
proof (induction rows arbitrary: st)
  case Nil
  then show ?case by (simp add: extends_def bounded_def ends_def)
next
  case (Cons row rows)
  have 1: "extends M (ends {row}) {row} st (visit_row M row st)"
    by (rule extends_visit_row [OF Cons.prems])
  have "extends M (ends {row} \<union> ends (set rows)) ({row} \<union> set rows) st
      (fold (visit_row M) rows (visit_row M row st))"
    using Cons.prems
    by (intro extends_trans [OF 1 Cons.IH [OF extends_bounded [OF 1]]]) (simp_all add: bounded_def)
  then show ?case by (simp add: ends_Un [symmetric])
qed

subsection \<open>The invariant of the search\<close>

definition reached :: "db \<Rightarrow> nat \<Rightarrow> nat \<Rightarrow> string \<Rightarrow> nat \<Rightarrow> search \<Rightarrow> bool" where
  "reached d M K c n st \<longleftrightarrow>
     bounded M st \<and> c \<in> se_visited st \<and> se_visited st \<subseteq> ball (links d) c n \<and>
     se_frontier st \<subseteq> se_visited st \<and>
     se_edges st \<subseteq> incident (links d) (inner (links d) c n) \<and>
     (\<not> se_truncated st \<longrightarrow>
        se_visited st = ball (links d) c n \<and>
        se_frontier st = ball (links d) c n - inner (links d) c n \<and>
        se_edges st = incident (links d) (inner (links d) c n)) \<and>
     (se_truncated st \<longrightarrow>
        M < card (ball (links d) c n) \<or>
        K < card (incident (links d) (inner (links d) c n)))"

lemma reached_start: "1 \<le> M \<Longrightarrow> reached d M K c 0 (search_start c)"
  by (auto simp: reached_def bounded_def search_start_def incident_def)

lemma inner_mono: "inner E c n \<subseteq> inner E c (Suc n)"
  using inner_sub_ball by simp

lemma reached_later:
  assumes "reached d M K c n st" and "se_truncated st"
  shows "M < card (ball (links d) c (Suc n)) \<or>
    K < card (incident (links d) (inner (links d) c (Suc n)))"
proof -
  have "card (ball (links d) c n) \<le> card (ball (links d) c (Suc n))"
    by (rule card_mono) auto
  moreover have "card (incident (links d) (inner (links d) c n)) \<le>
      card (incident (links d) (inner (links d) c (Suc n)))"
    by (rule card_mono [OF finite_incident [OF finite_links] incident_mono [OF inner_mono]])
  ultimately show ?thesis using assms unfolding reached_def by linarith
qed

lemma reached_stop:
  assumes inv: "reached d M K c n st" and "se_frontier st = {}"
  shows "reached d M K c (Suc n) st"
proof -
  let ?E = "links d"
  have v: "se_visited st \<subseteq> ball ?E c n" "se_edges st \<subseteq> incident ?E (inner ?E c n)"
    using inv by (simp_all add: reached_def)
  have "se_edges st \<subseteq> incident ?E (ball ?E c n)"
    by (rule order_trans [OF v(2) incident_mono [OF inner_sub_ball]])
  moreover have "se_visited st \<subseteq> ball ?E c (Suc n)" using v(1) by auto
  moreover have "ball ?E c n = inner ?E c n \<and> ball ?E c (Suc n) = ball ?E c n"
    if "\<not> se_truncated st"
  proof -
    have none: "ball ?E c n - inner ?E c n = {}" using that inv assms(2) by (simp add: reached_def)
    have "ball ?E c (Suc n) = ball ?E c n"
      unfolding ball_frontier none by (simp add: incident_def ends_def)
    with none show ?thesis using inner_sub_ball by blast
  qed
  ultimately show ?thesis
    using inv reached_later [OF inv] assms(2) by (simp add: reached_def del: ball.simps)
qed

lemma reached_read:
  assumes inv: "reached d M K c n st" and keys: "keys_ok d"
    and ext: "extends M (ends (set (take K L))) (set (take K L)) st1 st'"
    and L: "L = incident_rows collate (se_frontier st) d"
    and st1: "se_visited st1 = se_visited st" "se_edges st1 = se_edges st" "se_frontier st1 = {}"
      "se_truncated st1 \<longleftrightarrow> se_truncated st \<or> K < length L"
  shows "reached d M K c (Suc n) st'"
proof -
  let ?E = "links d" and ?F = "se_frontier st"
  let ?R = "set (take K L)"
  have v: "se_visited st \<subseteq> ball ?E c n" "?F \<subseteq> se_visited st" "c \<in> se_visited st"
      "se_edges st \<subseteq> incident ?E (inner ?E c n)"
    using inv by (simp_all add: reached_def)
  have x: "se_visited st \<subseteq> se_visited st'" "se_visited st' \<subseteq> se_visited st \<union> ends ?R"
      "se_frontier st' = se_visited st' - se_visited st" "se_edges st' = se_edges st \<union> ?R"
      "\<not> se_truncated st' \<Longrightarrow> se_visited st' = se_visited st \<union> ends ?R"
      "\<not> se_truncated st' \<Longrightarrow> \<not> se_truncated st \<and> length L \<le> K"
      "se_truncated st' \<Longrightarrow> se_truncated st \<or> K < length L \<or> M < card (se_visited st \<union> ends ?R)"
    using ext [unfolded extends_def st1] by (simp, simp, simp, simp, simp, linarith, simp)
  have F: "?F \<subseteq> ball ?E c n" using v(1,2) by (rule order_trans [rotated])
  have "?R \<subseteq> incident ?E ?F"
    using set_take_subset [of K L] by (simp add: L)
  then have read: "?R \<subseteq> incident ?E (ball ?E c n)"
    by (rule order_trans [OF _ incident_mono [OF F]])
  have sub: "se_visited st \<union> ends ?R \<subseteq> ball ?E c (Suc n)"
    using v(1) ends_mono [OF read] by auto
  have vis: "se_visited st' \<subseteq> ball ?E c (Suc n)"
    by (rule order_trans [OF x(2) sub])
  have edges: "se_edges st' \<subseteq> incident ?E (ball ?E c n)"
    unfolding x(4) using order_trans [OF v(4) incident_mono [OF inner_sub_ball]] read by simp
  have cut: "M < card (ball ?E c (Suc n)) \<or> K < card (incident ?E (ball ?E c n))"
    if "se_truncated st'"
    using x(7) [OF that]
  proof (elim disjE)
    assume "K < length L"
    with card_mono [OF finite_incident [OF finite_links] incident_mono [OF F], of d]
    show ?thesis unfolding L length_incident_rows [OF keys] by simp
  next
    assume "M < card (se_visited st \<union> ends ?R)"
    with card_mono [OF finite_ball [OF finite_links] sub] show ?thesis by simp
  qed (use reached_later [OF inv] in simp)
  have full: "se_visited st' = ball ?E c (Suc n) \<and> se_frontier st' = ball ?E c (Suc n) - ball ?E c n \<and>
      se_edges st' = incident ?E (ball ?E c n)" if t: "\<not> se_truncated st'"
  proof -
    have old: "se_visited st = ball ?E c n" "?F = ball ?E c n - inner ?E c n"
        "se_edges st = incident ?E (inner ?E c n)"
      using inv x(6) [OF t] by (simp_all add: reached_def)
    have new: "?R = incident ?E (ball ?E c n - inner ?E c n)"
      using x(6) [OF t] old(2) by (simp add: L)
    have whole: "incident ?E (inner ?E c n) \<union> incident ?E (ball ?E c n - inner ?E c n) =
        incident ?E (ball ?E c n)"
      using inner_sub_ball by (simp add: incident_Un [symmetric] Un_absorb1)
    have "se_visited st' = ball ?E c (Suc n)"
      unfolding x(5) [OF t] old(1) new ball_frontier ..
    then show ?thesis
      unfolding x(3,4) old(1,3) new whole by simp
  qed
  have "c \<in> se_visited st'" and "se_frontier st' \<subseteq> se_visited st'"
    using v(3) x(1,3) by blast+
  then show ?thesis
    unfolding reached_def inner.simps using extends_bounded [OF ext] vis edges cut full by simp
qed

lemma reached_round:
  assumes inv: "reached d M K c n st" and keys: "keys_ok d"
  shows "reached d M K c (Suc n) (search_round collate d M K st)"
proof (cases "se_frontier st = {}")
  case True
  with reached_stop [OF inv True] show ?thesis by (simp add: search_round_def)
next
  case False
  define L where "L = incident_rows collate (se_frontier st) d"
  define st1 where "st1 = (if K < length L then st\<lparr>se_truncated := True\<rparr> else st)
    \<lparr>se_frontier := {}\<rparr>"
  have round: "search_round collate d M K st = fold (visit_row M) (take K L) st1"
    using False by (simp add: search_round_def L_def st1_def Let_def min_def)
  have "bounded M st1" using inv by (simp add: reached_def bounded_def st1_def)
  from extends_rows [OF this]
  have "extends M (ends (set (take K L))) (set (take K L)) st1 (search_round collate d M K st)"
    unfolding round .
  from reached_read [OF inv keys this L_def] show ?thesis by (simp add: st1_def)
qed

lemma reached_rounds:
  assumes "keys_ok d" and "1 \<le> M"
  shows "reached d M K c n (search_rounds collate d M K c n)"
  by (induction n) (simp_all only: search_rounds.simps reached_start [OF assms(2)]
      reached_round [OF _ assms(1)])

end
