(* ===== verification/Subgraph_Props.thy ===== *)
theory Subgraph_Props
  imports Subgraph Score_Props
begin

text \<open>What a caller of the bounded subgraph read may rely on.\<close>

definition node_names :: "subgraph \<Rightarrow> string list" where
  "node_names g = map sn_txId (sg_nodes g)"

lemma sorted_key_names:
  "map sn_txId (map (\<lambda>(t, node). \<lparr>sn_txId = t, sn_features = f node, sn_time_step = i node,
     sn_risk_score = r t\<rparr>) xs) = map fst xs"
  by (induction xs) auto

lemma subgraph_parts:
  assumes "get_bounded_subgraph collate scan c n M K mv d = Some g"
  defines "st \<equiv> search_rounds collate d M K c n"
  defines "es \<equiv> {e \<in> se_edges st. fst e \<in> se_visited st \<and> snd e \<in> se_visited st}"
  shows "has_tx d c" and "sg_center g = c"
    and "node_names g =
      map fst (sort_key (\<lambda>(t, _). collate t) (filter (\<lambda>(t, _). t \<in> se_visited st) (transactions d)))"
    and "sg_edges g = take K (sorted_list_of_set es)"
    and "sg_truncated g \<longleftrightarrow> se_truncated st \<or> K < length (sorted_list_of_set es)"
  using assms
  by (auto simp: get_bounded_subgraph_def has_tx_def node_names_def sorted_key_names Let_def
      split: if_splits)

lemma set_node_names:
  assumes "get_bounded_subgraph collate scan c n M K mv d = Some g"
  shows "set (node_names g) = {t \<in> se_visited (search_rounds collate d M K c n). has_tx d t}"
  by (auto simp: subgraph_parts(3) [OF assms] has_tx_iff dom_map_of_table)

lemma distinct_node_names:
  assumes "get_bounded_subgraph collate scan c n M K mv d = Some g" and "keys_ok d"
  shows "distinct (node_names g)"
proof -
  have "distinct (map fst xs) \<Longrightarrow> distinct (map fst (sort_key f (filter P xs)))"
    for f :: "string \<times> transaction_row \<Rightarrow> string" and P xs
    by (simp add: distinct_map inj_on_def)
  with assms(2) show ?thesis
    unfolding subgraph_parts(3) [OF assms(1)] by (simp add: keys_ok_def table_ok_def)
qed

lemma ball_stored:
  assumes "edges_fk d" and "has_tx d c"
  shows "t \<in> ball (links d) c n \<Longrightarrow> has_tx d t"
  using assms
  by (induction n arbitrary: t)
    (auto simp: ends_def incident_def links_def dom_map_of_table edges_fk_def)

lemma visited_names:
  assumes "get_bounded_subgraph collate scan c n M K mv d = Some g"
    and "keys_ok d" and "edges_fk d" and "1 \<le> M"
  shows "set (node_names g) = se_visited (search_rounds collate d M K c n)"
proof -
  have "se_visited (search_rounds collate d M K c n) \<subseteq> ball (links d) c n"
    using reached_rounds [OF assms(2,4)] by (simp add: reached_def)
  then show ?thesis
    using ball_stored [OF assms(3) subgraph_parts(1) [OF assms(1)]] set_node_names [OF assms(1)] by blast
qed

lemma finite_search_edges:
  assumes "keys_ok d" and "1 \<le> M"
  shows "finite (se_edges (search_rounds collate d M K c n))"
    and "se_edges (search_rounds collate d M K c n) \<subseteq> incident (links d) (inner (links d) c n)"
proof -
  show *: "se_edges (search_rounds collate d M K c n) \<subseteq> incident (links d) (inner (links d) c n)"
    using reached_rounds [OF assms] by (simp add: reached_def)
  show "finite (se_edges (search_rounds collate d M K c n))"
    by (rule finite_subset [OF *]) simp
qed

lemma sound_lemma:
  assumes g: "get_bounded_subgraph collate scan c n M K mv d = Some g"
    and keys: "keys_ok d" and fk: "edges_fk d" and M: "1 \<le> M"
  shows "c \<in> set (node_names g) \<and> distinct (node_names g) \<and> length (node_names g) \<le> M \<and>
    set (node_names g) \<subseteq> ball (links d) c n \<and>
    length (sg_edges g) \<le> K \<and> sorted (sg_edges g) \<and> distinct (sg_edges g) \<and>
    set (sg_edges g) \<subseteq> links d \<inter> set (node_names g) \<times> set (node_names g)"
proof -
  let ?st = "search_rounds collate d M K c n"
  have inv: "reached d M K c n ?st" by (rule reached_rounds [OF keys M])
  note names = visited_names [OF g keys fk M]
  have dist: "distinct (node_names g)" by (rule distinct_node_names [OF g keys])
  then have len: "length (node_names g) = card (se_visited ?st)"
    unfolding names [symmetric] by (rule distinct_card [symmetric])
  have "set (sg_edges g) \<subseteq> {e \<in> se_edges ?st. fst e \<in> se_visited ?st \<and> snd e \<in> se_visited ?st}"
    using finite_search_edges(1) [OF keys M] set_take_subset
    by (fastforce simp: subgraph_parts(4) [OF g])
  moreover have "se_edges ?st \<subseteq> links d"
    using finite_search_edges(2) [OF keys M, of collate K c n] by (auto simp: incident_def)
  ultimately have "set (sg_edges g) \<subseteq> links d \<inter> set (node_names g) \<times> set (node_names g)"
    unfolding names by auto
  with inv dist len show ?thesis
    by (simp add: names reached_def bounded_def subgraph_parts(4) [OF g] sorted_wrt_take)
qed

text \<open>
  C10. A bounded subgraph is a subgraph. Of a database that meets its constraints the read returns
  at most \<open>max_nodes\<close> distinct stored transactions, the requested one among them, each at most
  \<open>hops\<close> undirected edges away, and at most \<open>max_edges\<close> distinct stored edges, in order, between
  returned transactions.
\<close>

theorem subgraph_sound:
  assumes g: "get_bounded_subgraph collate scan c n M K mv d = Some g"
    and keys: "keys_ok d" and fk: "edges_fk d" and M: "1 \<le> M"
  shows "c \<in> set (node_names g) \<and> distinct (node_names g) \<and> length (node_names g) \<le> M \<and>
    set (node_names g) \<subseteq> ball (links d) c n \<and>
    length (sg_edges g) \<le> K \<and> sorted (sg_edges g) \<and> distinct (sg_edges g) \<and>
    set (sg_edges g) \<subseteq> links d \<inter> set (node_names g) \<times> set (node_names g)"
  using sound_lemma [OF assms] .

lemma complete_lemma:
  assumes g: "get_bounded_subgraph collate scan c n M K mv d = Some g"
    and keys: "keys_ok d" and fk: "edges_fk d" and M: "1 \<le> M"
  shows "sg_truncated g \<longleftrightarrow> M < card (ball (links d) c n) \<or>
      K < card (incident (links d) (inner (links d) c n))" (is ?T)
    and "\<not> sg_truncated g \<Longrightarrow> set (node_names g) = ball (links d) c n \<and>
      set (sg_edges g) = incident (links d) (inner (links d) c n)"
proof -
  let ?E = "links d" and ?st = "search_rounds collate d M K c n"
  let ?I = "incident ?E (inner ?E c n)"
  let ?es = "{e \<in> se_edges ?st. fst e \<in> se_visited ?st \<and> snd e \<in> se_visited ?st}"
  have inv: "reached d M K c n ?st" by (rule reached_rounds [OF keys M])
  have "card ?es \<le> card ?I"
    by (rule card_mono) (use finite_search_edges(2) [OF keys M, of collate K c n] in auto)
  then have cut: "K < length (sorted_list_of_set ?es) \<longrightarrow> K < card ?I" by simp
  have full: "se_visited ?st = ball ?E c n \<and> se_edges ?st = ?I \<and> ?es = ?I" if "\<not> se_truncated ?st"
  proof -
    have v: "se_visited ?st = ball ?E c n" "se_edges ?st = ?I"
      using inv that by (simp_all add: reached_def)
    have "ends ?I \<subseteq> ball ?E c n" by (rule ends_inner)
    then have "?es = ?I" unfolding v by (force simp: ends_def)
    with v show ?thesis by simp
  qed
  have "card (ball ?E c n) \<le> M" if "\<not> se_truncated ?st"
    using inv full [OF that] by (simp add: reached_def bounded_def)
  then show trunc: ?T
    using inv cut full unfolding subgraph_parts(5) [OF g] reached_def by fastforce
  assume t: "\<not> sg_truncated g"
  then have small: "card ?I \<le> K" using trunc by simp
  from t have "\<not> se_truncated ?st" by (simp add: subgraph_parts(5) [OF g])
  from full [OF this(1)] have es: "?es = ?I" by (elim conjE)
  have "sg_edges g = sorted_list_of_set ?I"
    unfolding subgraph_parts(4) [OF g] es using small by simp
  with full [OF \<open>\<not> se_truncated ?st\<close>] show "set (node_names g) = ball ?E c n \<and> set (sg_edges g) = ?I"
    by (simp add: visited_names [OF g keys fk M])
qed

text \<open>
  C12. The truncation flag is exact: it is set precisely when the \<open>hops\<close>-neighbourhood has more
  than \<open>max_nodes\<close> transactions or more than \<open>max_edges\<close> edges touch its transactions less than
  \<open>hops\<close> away. When it is clear the answer is the whole neighbourhood with all those edges.
\<close>

theorem truncation_exact:
  assumes "get_bounded_subgraph collate scan c n M K mv d = Some g"
    and "keys_ok d" and "edges_fk d" and "1 \<le> M"
  shows "(sg_truncated g \<longleftrightarrow> M < card (ball (links d) c n) \<or>
      K < card (incident (links d) (inner (links d) c n))) \<and>
    (\<not> sg_truncated g \<longrightarrow> set (node_names g) = ball (links d) c n \<and>
      set (sg_edges g) = incident (links d) (inner (links d) c n))"
  using complete_lemma [OF assms] by blast

lemma subgraph_exists: "has_tx d c \<Longrightarrow> \<exists>g. get_bounded_subgraph collate scan c n M K mv d = Some g"
  by (auto simp: get_bounded_subgraph_def has_tx_def Let_def)

lemma db_ab_ok: "keys_ok db_ab" "edges_fk db_ab"
  using db_ok_ab by (simp_all add: db_ok_def)

theorem subgraph_sound_witness:
  "\<exists>g. get_bounded_subgraph id id ''a'' 2 5 5 None db_ab = Some g \<and> ''a'' \<in> set (node_names g) \<and>
     length (sg_edges g) \<le> 5"
  using subgraph_exists [OF has_tx_ab(1), of id id 2 5 5 None]
    subgraph_sound [OF _ db_ab_ok, of id id "''a''" 2 5 5 None] by force

theorem truncation_exact_witness:
  "\<exists>g. get_bounded_subgraph id id ''a'' 1 2 1 None db_ab = Some g \<and> \<not> sg_truncated g \<and>
     set (node_names g) = {''a'', ''b''} \<and> set (sg_edges g) = {(''a'', ''b'')}"
proof -
  obtain g where g: "get_bounded_subgraph id id ''a'' 1 2 1 None db_ab = Some g"
    using subgraph_exists [OF has_tx_ab(1)] by blast
  have l: "links db_ab = {(''a'', ''b'')}" by (auto simp: links_def db_ab_def)
  have "incident {(''a'', ''b'')} {''a''} = {(''a'', ''b'')}" by (auto simp: incident_def)
  with truncation_exact [OF g db_ab_ok] g show ?thesis
    by (simp add: l ends_def insert_commute)
qed

end
