(* ===== verification/Settings.thy ===== *)
theory Settings
  imports Events
begin

text \<open>
  \<open>shared/config/settings.py\<close> and \<open>shared/kafka/client.py\<close>: the configuration every service reads,
  the bounds and validators pydantic enforces on it, and the arguments the Kafka clients are built
  with. Host names, paths and URLs are text; the defaults are those of the class.
\<close>

record settings =
  service_name :: string
  instance_id :: string
  log_level :: string
  kafka_security_protocol :: string
  kafka_sasl_mechanism :: "string option"
  kafka_sasl_username :: "string option"
  kafka_sasl_password :: "string option"
  kafka_request_timeout_ms :: int
  kafka_poll_timeout_ms :: int
  kafka_max_poll_records :: int
  kafka_max_message_bytes :: int
  graph_batch_topic :: string
  scoring_request_topic :: string
  scoring_result_topic :: string
  scoring_dlq_topic :: string
  graph_batch_partitions :: int
  scoring_request_partitions :: int
  scoring_result_partitions :: int
  scoring_dlq_partitions :: int
  graph_materializer_group :: string
  inference_worker_group :: string
  result_projector_group :: string
  database_pool_size :: int
  database_max_overflow :: int
  query_timeout_ms :: int
  redis_stream_key :: string
  redis_stream_maxlen :: int
  redis_replay_limit :: int
  redis_subgraph_ttl_seconds :: int
  redis_socket_timeout_seconds :: rat
  cfg_model_version :: string
  model_deployment_timestamp :: "datetime option"
  cfg_feature_schema_version :: string
  stream_name :: string
  replay_events_per_second :: rat
  max_in_flight_inference :: int
  inference_batch_size :: int
  inference_batch_wait_ms :: int
  inference_timeout_seconds :: rat
  retry_max_attempts :: int
  retry_base_delay_ms :: int
  retry_max_delay_ms :: int
  outbox_batch_size :: int
  outbox_poll_interval_ms :: int
  graph_max_hops :: int
  graph_max_nodes :: int
  graph_max_edges :: int
  presentation_threshold :: rat
  websocket_client_queue_size :: int
  websocket_heartbeat_seconds :: rat
  websocket_send_timeout_seconds :: rat
  websocket_max_message_bytes :: int
  websocket_max_clients :: int
  metrics_port :: int
  otel_exporter_endpoint :: "string option"
  shutdown_timeout_seconds :: rat

definition default_settings :: "string \<Rightarrow> string \<Rightarrow> settings" where
  "default_settings name host =
     \<lparr>service_name = name, instance_id = host, log_level = ''INFO'',
      kafka_security_protocol = ''PLAINTEXT'', kafka_sasl_mechanism = None,
      kafka_sasl_username = None, kafka_sasl_password = None,
      kafka_request_timeout_ms = 30000, kafka_poll_timeout_ms = 100,
      kafka_max_poll_records = 64, kafka_max_message_bytes = 64 * 1024 * 1024,
      graph_batch_topic = ''risk.graph-batches.v1'',
      scoring_request_topic = ''risk.scoring-requests.v1'',
      scoring_result_topic = ''risk.scoring-results.v1'',
      scoring_dlq_topic = ''risk.scoring-dlq.v1'',
      graph_batch_partitions = 1, scoring_request_partitions = 6,
      scoring_result_partitions = 6, scoring_dlq_partitions = 3,
      graph_materializer_group = ''risk-graph-materializer-v1'',
      inference_worker_group = ''risk-inference-workers-v1'',
      result_projector_group = ''risk-result-projector-v1'',
      database_pool_size = 10, database_max_overflow = 10, query_timeout_ms = 1500,
      redis_stream_key = ''risk:scoring-results:v1'', redis_stream_maxlen = 10000,
      redis_replay_limit = 500, redis_subgraph_ttl_seconds = 30,
      redis_socket_timeout_seconds = 2,
      cfg_model_version = ''gat-resnet-elliptic-v1'', model_deployment_timestamp = None,
      cfg_feature_schema_version = ''elliptic-165-v1'', stream_name = ''elliptic-replay'',
      replay_events_per_second = 20,
      max_in_flight_inference = 8, inference_batch_size = 1, inference_batch_wait_ms = 0,
      inference_timeout_seconds = 10, retry_max_attempts = 4, retry_base_delay_ms = 100,
      retry_max_delay_ms = 5000, outbox_batch_size = 100, outbox_poll_interval_ms = 25,
      graph_max_hops = 2, graph_max_nodes = 100, graph_max_edges = 500,
      presentation_threshold = 9 / 10,
      websocket_client_queue_size = 256, websocket_heartbeat_seconds = 15,
      websocket_send_timeout_seconds = 5, websocket_max_message_bytes = 4096,
      websocket_max_clients = 2000, metrics_port = 9100, otel_exporter_endpoint = None,
      shutdown_timeout_seconds = 30\<rparr>"

definition in_range :: "'a::linorder \<Rightarrow> 'a \<Rightarrow> 'a \<Rightarrow> bool" where
  "in_range lo hi x \<longleftrightarrow> lo \<le> x \<and> x \<le> hi"

definition kafka_bounds :: "settings \<Rightarrow> bool" where
  "kafka_bounds s \<longleftrightarrow>
     in_range 1000 120000 (kafka_request_timeout_ms s) \<and>
     in_range 25 30000 (kafka_poll_timeout_ms s) \<and>
     in_range 1 1000 (kafka_max_poll_records s) \<and>
     in_range (1024 * 1024) (64 * 1024 * 1024) (kafka_max_message_bytes s) \<and>
     in_range 1 1 (graph_batch_partitions s) \<and>
     in_range 1 128 (scoring_request_partitions s) \<and>
     in_range 1 128 (scoring_result_partitions s) \<and>
     in_range 1 32 (scoring_dlq_partitions s)"

definition store_bounds :: "settings \<Rightarrow> bool" where
  "store_bounds s \<longleftrightarrow>
     in_range 1 100 (database_pool_size s) \<and> in_range 0 100 (database_max_overflow s) \<and>
     in_range 100 30000 (query_timeout_ms s) \<and>
     in_range 100 1000000 (redis_stream_maxlen s) \<and> in_range 1 10000 (redis_replay_limit s) \<and>
     in_range 1 3600 (redis_subgraph_ttl_seconds s) \<and>
     in_range (1 / 10) 30 (redis_socket_timeout_seconds s) \<and>
     in_range (1 / 10) 10000 (replay_events_per_second s)"

definition worker_bounds :: "settings \<Rightarrow> bool" where
  "worker_bounds s \<longleftrightarrow>
     in_range 1 1024 (max_in_flight_inference s) \<and> in_range 1 1 (inference_batch_size s) \<and>
     in_range 0 0 (inference_batch_wait_ms s) \<and>
     in_range (1 / 10) 300 (inference_timeout_seconds s) \<and>
     in_range 1 20 (retry_max_attempts s) \<and> in_range 10 60000 (retry_base_delay_ms s) \<and>
     in_range 100 300000 (retry_max_delay_ms s) \<and> in_range 1 1000 (outbox_batch_size s) \<and>
     in_range 5 5000 (outbox_poll_interval_ms s) \<and>
     in_range 1 4 (graph_max_hops s) \<and> in_range 1 5000 (graph_max_nodes s) \<and>
     in_range 1 20000 (graph_max_edges s) \<and> in_range 0 1 (presentation_threshold s)"

definition gateway_bounds :: "settings \<Rightarrow> bool" where
  "gateway_bounds s \<longleftrightarrow>
     len_in 1 128 (instance_id s) \<and>
     in_range 8 10000 (websocket_client_queue_size s) \<and>
     in_range 1 120 (websocket_heartbeat_seconds s) \<and>
     in_range (1 / 10) 60 (websocket_send_timeout_seconds s) \<and>
     in_range 256 65536 (websocket_max_message_bytes s) \<and>
     in_range 1 100000 (websocket_max_clients s) \<and>
     in_range 1024 65535 (metrics_port s) \<and> in_range 1 300 (shutdown_timeout_seconds s)"

subsection \<open>Validators\<close>

text \<open>\<open>str.upper\<close> on the ASCII letters.\<close>

definition upper_char :: "char \<Rightarrow> char" where
  "upper_char c = (if CHR ''a'' \<le> c \<and> c \<le> CHR ''z'' then char_of (of_char c - 32 :: nat) else c)"

definition upper :: "string \<Rightarrow> string" where
  "upper s = map upper_char s"

definition normalize_log_level :: "string \<Rightarrow> string result" where
  "normalize_log_level value =
     (let normalized = upper value in
      if normalized \<in> {''DEBUG'', ''INFO'', ''WARNING'', ''ERROR'', ''CRITICAL''}
      then Inr normalized
      else Inl (ValueError ''log_level must be DEBUG, INFO, WARNING, ERROR, or CRITICAL''))"

definition validate_security_protocol :: "string \<Rightarrow> string result" where
  "validate_security_protocol value =
     (if value \<in> {''PLAINTEXT'', ''SSL'', ''SASL_PLAINTEXT'', ''SASL_SSL''} then Inr value
      else Inl (ValueError ''kafka_security_protocol must be one of
        ['PLAINTEXT', 'SASL_PLAINTEXT', 'SASL_SSL', 'SSL']''))"

text \<open>A credential is missing when it is absent or empty.\<close>

definition given :: "string option \<Rightarrow> bool" where
  "given v \<longleftrightarrow> (case v of None \<Rightarrow> False | Some s \<Rightarrow> s \<noteq> [])"

definition validate_kafka_credentials :: "settings \<Rightarrow> settings result" where
  "validate_kafka_credentials s =
     (if take 4 (kafka_security_protocol s) = ''SASL'' then
        let missing = map fst (filter (\<lambda>(_, v). \<not> given v)
              [(''kafka_sasl_mechanism'', kafka_sasl_mechanism s),
               (''kafka_sasl_username'', kafka_sasl_username s),
               (''kafka_sasl_password'', kafka_sasl_password s)])
        in if missing \<noteq> []
           then Inl (ValueError (''SASL Kafka configuration is missing: '' @
                  join_with '', '' missing))
           else Inr s
      else Inr s)"

definition load_settings :: "settings \<Rightarrow> settings result" where
  "load_settings s =
     rbind (guard_r (kafka_bounds s \<and> store_bounds s \<and> worker_bounds s \<and> gateway_bounds s)
              (ValidationError ''validation error'')) (\<lambda>_.
     rbind (normalize_log_level (log_level s)) (\<lambda>level.
     rbind (validate_security_protocol (kafka_security_protocol s)) (\<lambda>_.
     validate_kafka_credentials (s\<lparr>log_level := level\<rparr>))))"

subsection \<open>Kafka clients\<close>

datatype kwarg = KStr string | KNone | KInt int | KBool bool

definition kopt :: "string option \<Rightarrow> kwarg" where
  "kopt v = (case v of None \<Rightarrow> KNone | Some s \<Rightarrow> KStr s)"

definition security_kwargs :: "settings \<Rightarrow> (string \<times> kwarg) list" where
  "security_kwargs s =
     (''security_protocol'', KStr (kafka_security_protocol s)) #
     (if given (kafka_sasl_mechanism s)
      then [(''sasl_mechanism'', kopt (kafka_sasl_mechanism s)),
            (''sasl_plain_username'', kopt (kafka_sasl_username s)),
            (''sasl_plain_password'', kopt (kafka_sasl_password s))]
      else [])"

definition build_producer :: "settings \<Rightarrow> string \<Rightarrow> (string \<times> kwarg) list" where
  "build_producer s client_id =
     [(''client_id'', KStr client_id),
      (''enable_idempotence'', KBool True),
      (''acks'', KStr ''all''),
      (''compression_type'', KStr ''gzip''),
      (''request_timeout_ms'', KInt (kafka_request_timeout_ms s)),
      (''max_request_size'', KInt (kafka_max_message_bytes s)),
      (''max_batch_size'', KInt (256 * 1024))] @ security_kwargs s"

text \<open>\<open>int\<close> truncates; the timeout is positive, so that is the floor.\<close>

definition build_consumer ::
  "settings \<Rightarrow> string \<Rightarrow> string \<Rightarrow> string \<Rightarrow> (string \<times> kwarg) list"
where
  "build_consumer s topic group_id client_id =
     [(''topic'', KStr topic),
      (''client_id'', KStr client_id),
      (''group_id'', KStr group_id),
      (''enable_auto_commit'', KBool False),
      (''auto_offset_reset'', KStr ''earliest''),
      (''max_poll_records'', KInt (kafka_max_poll_records s)),
      (''max_partition_fetch_bytes'', KInt (kafka_max_message_bytes s)),
      (''fetch_max_bytes'', KInt (kafka_max_message_bytes s)),
      (''max_poll_interval_ms'', KInt \<lfloor>max (inference_timeout_seconds s * 2000) 60000\<rfloor>),
      (''request_timeout_ms'', KInt (kafka_request_timeout_ms s))] @ security_kwargs s"

subsection \<open>What loading guarantees\<close>

text \<open>
  C35. Settings that load cannot start an unauthenticated client on an authenticated cluster: with
  a SASL protocol, producer and consumer are given a non-empty mechanism, user name and password;
  no consumer ever commits automatically, and its poll interval is at least a minute and at least
  twice the inference timeout.
\<close>

theorem loaded_clients_sound:
  assumes "load_settings s = Inr s'"
  shows "(take 4 (kafka_security_protocol s') = ''SASL'' \<longrightarrow>
      (\<exists>m u p. m \<noteq> [] \<and> u \<noteq> [] \<and> p \<noteq> [] \<and>
         {(''sasl_mechanism'', KStr m), (''sasl_plain_username'', KStr u),
          (''sasl_plain_password'', KStr p)} \<subseteq>
           set (build_producer s' cid) \<inter> set (build_consumer s' topic gid cid))) \<and>
    map_of (build_consumer s' topic gid cid) ''enable_auto_commit'' = Some (KBool False) \<and>
    (\<exists>i. map_of (build_consumer s' topic gid cid) ''max_poll_interval_ms'' = Some (KInt i) \<and>
       60000 \<le> i \<and> inference_timeout_seconds s' * 2000 < of_int i + 1)"
proof -
  let ?t = "max (inference_timeout_seconds s' * 2000) 60000"
  have "validate_kafka_credentials s' = Inr s'"
    using assms by (auto simp: load_settings_def result_simps validate_kafka_credentials_def Let_def
        split: if_splits)
  then have "\<exists>m u p. m \<noteq> [] \<and> u \<noteq> [] \<and> p \<noteq> [] \<and> kafka_sasl_mechanism s' = Some m \<and>
      kafka_sasl_username s' = Some u \<and> kafka_sasl_password s' = Some p"
    if "take 4 (kafka_security_protocol s') = ''SASL''"
    using that by (auto simp: validate_kafka_credentials_def given_def Let_def
        split: if_splits option.splits)
  moreover have "60000 \<le> \<lfloor>?t\<rfloor>" by (simp add: le_floor_iff)
  moreover have "inference_timeout_seconds s' * 2000 < of_int \<lfloor>?t\<rfloor> + 1"
    using floor_correct [of ?t] by linarith
  ultimately show ?thesis
    by (auto simp: build_producer_def build_consumer_def security_kwargs_def given_def kopt_def)
qed

definition sasl_settings :: settings where
  "sasl_settings = (default_settings ''inference-worker'' ''host'')
     \<lparr>kafka_security_protocol := ''SASL_SSL'', kafka_sasl_mechanism := Some ''PLAIN'',
      kafka_sasl_username := Some ''u'', kafka_sasl_password := Some ''p''\<rparr>"

lemma sasl_settings_load: "load_settings sasl_settings = Inr sasl_settings"
  by (simp add: load_settings_def sasl_settings_def default_settings_def kafka_bounds_def
      store_bounds_def worker_bounds_def gateway_bounds_def in_range_def len_in_def
      normalize_log_level_def upper_def upper_char_def validate_security_protocol_def
      validate_kafka_credentials_def given_def)

theorem loaded_clients_sound_witness:
  "\<exists>m. m \<noteq> [] \<and>
     (''sasl_mechanism'', KStr m) \<in> set (build_consumer sasl_settings ''t'' ''g'' ''c'')"
  using loaded_clients_sound [OF sasl_settings_load, of "''c''" "''t''" "''g''"]
  by (auto simp: sasl_settings_def)

end
