(* ===== verification/Retry.thy ===== *)
theory Retry
  imports Settings
begin

text \<open>
  \<open>shared/kafka/retry.py\<close>: the exception classes a retry does not help, the backoff delay and the
  bounded retry loop. The jitter \<open>random.uniform(0.75, 1.25)\<close> and the outcomes of the operation's
  successive calls are inputs.
\<close>

text \<open>\<open>isinstance(error, PermanentEventError)\<close>: the class and its two subclasses.\<close>

fun is_permanent :: "exn \<Rightarrow> bool" where
  "is_permanent (PermanentEventError _) = True"
| "is_permanent (MissingGraphStateError _) = True"
| "is_permanent (ModelInferenceError _) = True"
| "is_permanent _ = False"

text \<open>Seconds. Python's \<open>2 ** max(attempt - 1, 0)\<close> is exact.\<close>

definition retry_delay_seconds :: "rat \<Rightarrow> int \<Rightarrow> int \<Rightarrow> int \<Rightarrow> rat" where
  "retry_delay_seconds jitter attempt base_ms maximum_ms =
     (let exponential = min maximum_ms (base_ms * 2 ^ nat (max (attempt - 1) 0))
      in min (of_int exponential * jitter) (of_int maximum_ms) / 1000)"

definition assertion_error :: exn where
  "assertion_error = OtherError ''AssertionError'' []"

text \<open>
  The loop from \<open>attempt\<close> with \<open>left\<close> attempts to go: \<open>op k\<close> is what the k-th call returns or raises,
  \<open>jitter k\<close> the random number drawn after it. The second component lists the sleeps.
\<close>

primrec retry_loop ::
  "(nat \<Rightarrow> rat) \<Rightarrow> (nat \<Rightarrow> 'a result) \<Rightarrow> int \<Rightarrow> int \<Rightarrow> nat \<Rightarrow> nat \<Rightarrow> 'a result \<times> rat list"
where
  "retry_loop jitter op base_ms max_ms 0 attempt = (Inl assertion_error, [])"
| "retry_loop jitter op base_ms max_ms (Suc left) attempt =
     (case op attempt of
        Inr x \<Rightarrow> (Inr x, [])
      | Inl e \<Rightarrow>
          if is_permanent e then (Inl e, [])
          else if left = 0 then (Inl e, [])
          else let (r, sleeps) = retry_loop jitter op base_ms max_ms left (Suc attempt)
               in (r, retry_delay_seconds (jitter attempt) (int attempt) base_ms max_ms # sleeps))"

definition with_bounded_retry ::
  "(nat \<Rightarrow> rat) \<Rightarrow> (nat \<Rightarrow> 'a result) \<Rightarrow> nat \<Rightarrow> int \<Rightarrow> int \<Rightarrow> 'a result \<times> rat list"
where
  "with_bounded_retry jitter op attempts base_delay_ms max_delay_ms =
     retry_loop jitter op base_delay_ms max_delay_ms attempts 1"

subsection \<open>Delays\<close>

lemma retry_delay_bounds:
  assumes "0 \<le> jitter" and "0 \<le> base_ms" and "0 \<le> maximum_ms"
  shows "0 \<le> retry_delay_seconds jitter attempt base_ms maximum_ms"
    and "retry_delay_seconds jitter attempt base_ms maximum_ms \<le> of_int maximum_ms / 1000"
  using assms by (simp_all add: retry_delay_seconds_def Let_def divide_right_mono)

text \<open>Without the cap a delay is within a quarter of the doubled base.\<close>

lemma retry_delay_uncapped:
  assumes "3 / 4 \<le> jitter" and "jitter \<le> 5 / 4" and "0 \<le> base_ms" and "1 \<le> attempt"
    and "of_int (base_ms * 2 ^ nat (attempt - 1)) * (5 / 4) \<le> (of_int maximum_ms :: rat)"
  shows "of_int (base_ms * 2 ^ nat (attempt - 1)) * (3 / 4) / 1000 \<le>
      retry_delay_seconds jitter attempt base_ms maximum_ms"
    and "retry_delay_seconds jitter attempt base_ms maximum_ms \<le>
      of_int (base_ms * 2 ^ nat (attempt - 1)) * (5 / 4) / 1000"
proof -
  let ?e = "base_ms * 2 ^ nat (attempt - 1)"
  have e: "0 \<le> (of_int ?e :: rat)" using assms(3) by simp
  then have "(of_int ?e :: rat) \<le> of_int maximum_ms" using assms(5) by linarith
  then have le: "?e \<le> maximum_ms" by (simp only: of_int_le_iff)
  have up: "of_int ?e * jitter \<le> of_int ?e * (5 / 4)" and low: "of_int ?e * (3 / 4) \<le> of_int ?e * jitter"
    using e assms(1,2) by (simp_all only: mult_left_mono)
  have "retry_delay_seconds jitter attempt base_ms maximum_ms = of_int ?e * jitter / 1000"
    using assms(4) le up assms(5) by (simp only: retry_delay_seconds_def Let_def max_def min_def) auto
  with up low show "of_int ?e * (3 / 4) / 1000 \<le> retry_delay_seconds jitter attempt base_ms maximum_ms"
    "retry_delay_seconds jitter attempt base_ms maximum_ms \<le> of_int ?e * (5 / 4) / 1000"
    by (simp_all only: divide_right_mono)
qed

subsection \<open>The loop\<close>

text \<open>The loop stops at the first call that needs no retry, or at the last.\<close>

definition settles :: "'a result \<Rightarrow> bool" where
  "settles r \<longleftrightarrow> (case r of Inr _ \<Rightarrow> True | Inl e \<Rightarrow> is_permanent e)"

lemma retry_loop_settled:
  "settles (op attempt) \<or> left = 0 \<Longrightarrow>
     retry_loop jitter op b m (Suc left) attempt = (op attempt, [])"
  by (cases "op attempt") (auto simp: settles_def)

lemma retry_loop_again:
  "\<not> settles (op attempt) \<Longrightarrow>
     retry_loop jitter op b m (Suc (Suc left)) attempt =
       (fst (retry_loop jitter op b m (Suc left) (Suc attempt)),
        retry_delay_seconds (jitter attempt) (int attempt) b m #
          snd (retry_loop jitter op b m (Suc left) (Suc attempt)))"
  by (cases "op attempt") (auto simp: settles_def split_beta)

lemma retry_loop_outcome:
  assumes "\<And>k. 0 \<le> jitter k" and "0 \<le> b" and "0 \<le> m"
  shows "\<exists>k. attempt \<le> k \<and> k \<le> attempt + left \<and>
    fst (retry_loop jitter op b m (Suc left) attempt) = op k \<and>
    (\<forall>j. attempt \<le> j \<longrightarrow> j < k \<longrightarrow> \<not> settles (op j)) \<and>
    (k < attempt + left \<longrightarrow> settles (op k)) \<and>
    length (snd (retry_loop jitter op b m (Suc left) attempt)) = k - attempt \<and>
    (\<forall>d \<in> set (snd (retry_loop jitter op b m (Suc left) attempt)). 0 \<le> d \<and> d \<le> of_int m / 1000)"
proof (induction left arbitrary: attempt)
  case 0
  then show ?case
    using retry_loop_settled [of op attempt 0 jitter b m] by (intro exI [of _ attempt]) auto
next
  case (Suc left)
  show ?case
  proof (cases "settles (op attempt)")
    case True
    then show ?thesis
      using retry_loop_settled [of op attempt "Suc left" jitter b m]
      by (intro exI [of _ attempt]) auto
  next
    case False
    from Suc.IH [of "Suc attempt"] obtain k where k: "Suc attempt \<le> k" "k \<le> Suc attempt + left"
      "fst (retry_loop jitter op b m (Suc left) (Suc attempt)) = op k"
      "\<forall>j. Suc attempt \<le> j \<longrightarrow> j < k \<longrightarrow> \<not> settles (op j)"
      "k < Suc attempt + left \<longrightarrow> settles (op k)"
      "length (snd (retry_loop jitter op b m (Suc left) (Suc attempt))) = k - Suc attempt"
      "\<forall>d \<in> set (snd (retry_loop jitter op b m (Suc left) (Suc attempt))). 0 \<le> d \<and> d \<le> of_int m / 1000"
      by blast
    have "\<forall>j. attempt \<le> j \<longrightarrow> j < k \<longrightarrow> \<not> settles (op j)"
      using k(4) False by (metis Suc_leI le_neq_implies_less)
    then show ?thesis
      unfolding retry_loop_again [where op = op and attempt = attempt, OF False]
      using k retry_delay_bounds [OF assms(1) [of attempt] assms(2,3), of "int attempt"]
      by (intro exI [of _ k]) auto
  qed
qed

text \<open>
  The bounded retry returns what the first call that succeeds or fails permanently returns, or
  the error of the last allowed call; it makes no other calls, sleeps once between two calls, and
  no sleep exceeds the configured maximum.
\<close>

theorem bounded_retry_outcome:
  assumes "1 \<le> attempts" and "\<And>k. 0 \<le> jitter k" and "0 \<le> base_ms" and "0 \<le> max_ms"
  shows "\<exists>k. 1 \<le> k \<and> k \<le> attempts \<and>
    fst (with_bounded_retry jitter op attempts base_ms max_ms) = op k \<and>
    (\<forall>j. 1 \<le> j \<longrightarrow> j < k \<longrightarrow> \<not> settles (op j)) \<and> (k < attempts \<longrightarrow> settles (op k)) \<and>
    length (snd (with_bounded_retry jitter op attempts base_ms max_ms)) = k - 1 \<and>
    (\<forall>d \<in> set (snd (with_bounded_retry jitter op attempts base_ms max_ms)).
       0 \<le> d \<and> d \<le> of_int max_ms / 1000)"
proof -
  obtain left where "attempts = Suc left" using assms(1) by (cases attempts) auto
  with retry_loop_outcome [of jitter base_ms max_ms 1 left op] assms(2-4) show ?thesis
    by (simp add: with_bounded_retry_def)
qed

theorem bounded_retry_outcome_witness:
  "with_bounded_retry (\<lambda>_. 1) (\<lambda>k. if k < 3 then Inl TimeoutError else Inr k) 4 100 5000 =
     (Inr 3, [1 / 10, 1 / 5]) \<and>
   (\<exists>k. 1 \<le> k \<and> k \<le> 4 \<and>
      fst (with_bounded_retry (\<lambda>_. 1) (\<lambda>k. if k < 3 then Inl TimeoutError else Inr k) 4 100 5000) =
        (if k < 3 then Inl TimeoutError else Inr k))"
proof -
  have "with_bounded_retry (\<lambda>_. 1) (\<lambda>k. if k < 3 then Inl TimeoutError else Inr k) 4 100 5000 =
      (Inr 3, [1 / 10, 1 / 5])"
    by (simp add: with_bounded_retry_def numeral_eq_Suc retry_delay_seconds_def)
  with bounded_retry_outcome [of 4 "\<lambda>_. 1" 100 5000
      "\<lambda>k. if k < 3 then Inl TimeoutError else Inr k"] show ?thesis by auto
qed

end
