(* ===== verification/Sanitize.thy ===== *)
theory Sanitize
  imports Prelude
begin

text \<open>
  \<open>sanitize_error\<close> of \<open>shared/kafka/dlq.py\<close>: two regular-expression substitutions and a truncation.
  A substitution scans from the left and goes on after each match. The two patterns are
  \<open>://[^@\s]+@\<close> and, ignoring case, \<open>(password|secret|token|api[_-]?key)=([^&\s]+)\<close>. What is shown
  is that no credential of either form survives.
\<close>

text \<open>The class \<open>\s\<close> of Python's \<open>re\<close> on text.\<close>

definition is_space :: "char \<Rightarrow> bool" where
  "is_space c \<longleftrightarrow> (of_char c :: nat) \<in> {9, 10, 11, 12, 13, 28, 29, 30, 31, 32, 133, 160}"

definition cred_char :: "char \<Rightarrow> bool" where
  "cred_char c \<longleftrightarrow> c \<noteq> CHR ''@'' \<and> \<not> is_space c"

definition value_char :: "char \<Rightarrow> bool" where
  "value_char c \<longleftrightarrow> c \<noteq> CHR ''&'' \<and> \<not> is_space c"

text \<open>The text after a match of the first pattern at the start of \<open>s\<close>.\<close>

definition url_match :: "string \<Rightarrow> string option" where
  "url_match s =
     (if take 3 s = ''://'' then
        let run = takeWhile cred_char (drop 3 s); rest = dropWhile cred_char (drop 3 s)
        in if run \<noteq> [] \<and> rest \<noteq> [] \<and> hd rest = CHR ''@'' then Some (tl rest) else None
      else None)"

lemma url_match_shorter: "url_match s = Some r \<Longrightarrow> length r < length s"
proof -
  assume "url_match s = Some r"
  then have "r = tl (dropWhile cred_char (drop 3 s))" and "dropWhile cred_char (drop 3 s) \<noteq> []"
    by (auto simp: url_match_def Let_def split: if_splits)
  moreover have "length (dropWhile cred_char (drop 3 s)) \<le> length s"
    using length_dropWhile_le [of cred_char "drop 3 s"] by simp
  ultimately show ?thesis by (cases "dropWhile cred_char (drop 3 s)") auto
qed

function mask_urls :: "string \<Rightarrow> string" where
  "mask_urls s =
     (case s of
        [] \<Rightarrow> []
      | c # cs \<Rightarrow>
          (case url_match s of
             Some rest \<Rightarrow> ''://***@'' @ mask_urls rest
           | None \<Rightarrow> c # mask_urls cs))"
  by auto
termination
  by (relation "measure length") (auto dest: url_match_shorter)

declare mask_urls.simps [simp del]

definition lower_char :: "char \<Rightarrow> char" where
  "lower_char c = (if CHR ''A'' \<le> c \<and> c \<le> CHR ''Z'' then char_of (of_char c + 32 :: nat) else c)"

definition ci_prefix :: "string \<Rightarrow> string \<Rightarrow> bool" where
  "ci_prefix kw s \<longleftrightarrow> map lower_char (take (length kw) s) = kw"

definition key_words :: "string list" where
  "key_words = [''password'', ''secret'', ''token'', ''api_key'', ''api-key'', ''apikey'']"

text \<open>
  The keyword at the start of \<open>s\<close>, if it is followed by an equals sign and a value: its length and
  the value. No keyword is a prefix of another, so the order of the alternatives does not matter.
\<close>

definition key_match :: "string \<Rightarrow> (nat \<times> string) option" where
  "key_match s =
     (case find (\<lambda>kw. ci_prefix kw s) key_words of
        None \<Rightarrow> None
      | Some kw \<Rightarrow>
          let n = length kw; run = takeWhile value_char (drop (Suc n) s)
          in if take 1 (drop n s) = ''='' \<and> run \<noteq> [] then Some (n, run) else None)"

lemma find_hit: "find P xs = Some x \<Longrightarrow> P x \<and> x \<in> set xs"
  by (auto simp: find_Some_iff)

lemma key_match_Some:
  assumes "key_match s = Some (n, run)"
  shows "\<exists>rest. s = take n s @ CHR ''='' # run @ rest \<and> run \<noteq> [] \<and> list_all value_char run \<and>
    (rest = [] \<or> \<not> value_char (hd rest)) \<and> map lower_char (take n s) \<in> set key_words"
proof -
  from assms obtain kw where kw: "kw \<in> set key_words" "ci_prefix kw s" "n = length kw"
    and run: "run = takeWhile value_char (drop (Suc n) s)" "run \<noteq> []"
    and eq: "take 1 (drop n s) = ''=''"
    by (auto simp: key_match_def Let_def dest!: find_hit split: option.splits if_splits)
  let ?rest = "dropWhile value_char (drop (Suc n) s)"
  from eq have "drop n s = CHR ''='' # drop (Suc n) s"
    by (cases "drop n s") (auto simp: drop_Suc drop_tl)
  then have "s = take n s @ CHR ''='' # run @ ?rest"
    using append_take_drop_id [of n s] by (simp add: run)
  moreover have "list_all value_char run"
    by (auto simp: run list_all_iff dest: set_takeWhileD)
  moreover have "?rest = [] \<or> \<not> value_char (hd ?rest)"
    using hd_dropWhile by blast
  ultimately show ?thesis using run(2) kw by (auto simp: ci_prefix_def)
qed

lemma key_match_shorter: "key_match s = Some (n, run) \<Longrightarrow> n < length s"
  using key_match_Some [of s n run] by (metis drop_all leI list.distinct(1) append_Nil2
    append_self_conv take_all)

function mask_keys :: "string \<Rightarrow> string" where
  "mask_keys s =
     (case s of
        [] \<Rightarrow> []
      | c # cs \<Rightarrow>
          (case key_match s of
             Some (n, run) \<Rightarrow> take n s @ ''=***'' @ mask_keys (drop (Suc (n + length run)) s)
           | None \<Rightarrow> c # mask_keys cs))"
  by auto
termination
  by (relation "measure length") auto

declare mask_keys.simps [simp del]

definition sanitize_message :: "string \<Rightarrow> string" where
  "sanitize_message message = take 512 (mask_keys (mask_urls message))"

subsection \<open>Credentials in URLs\<close>

text \<open>
  A text leaks a URL credential when \<open>://\<close> is followed by a run of characters up to an \<open>@\<close> that is
  more than asterisks.
\<close>

definition leaks_url :: "string \<Rightarrow> bool" where
  "leaks_url s \<longleftrightarrow> (\<exists>pre cred rest. s = pre @ ''://'' @ cred @ ''@'' @ rest \<and>
     list_all cred_char cred \<and> (\<exists>x \<in> set cred. x \<noteq> CHR ''*''))"

text \<open>
  Wherever the output has a run up to an \<open>@\<close>, so has the input, and one that begins with slashes
  and goes on with more than asterisks comes from such a one.
\<close>

definition keeps_shape :: "string \<Rightarrow> string \<Rightarrow> bool" where
  "keeps_shape w w' \<longleftrightarrow> (\<forall>n. take n w = replicate n (CHR ''/'') \<and> (\<exists>x \<in> set (drop n w). x \<noteq> CHR ''*'') \<longrightarrow>
     take n w' = replicate n (CHR ''/'') \<and> (\<exists>x \<in> set (drop n w'). x \<noteq> CHR ''*''))"

definition traces :: "string \<Rightarrow> string \<Rightarrow> bool" where
  "traces out s \<longleftrightarrow> (\<forall>w r. out = w @ CHR ''@'' # r \<longrightarrow> list_all cred_char w \<longrightarrow>
     (\<exists>w' r'. s = w' @ CHR ''@'' # r' \<and> list_all cred_char w' \<and> keeps_shape w w'))"

lemma keeps_shape_Cons: "keeps_shape w w' \<Longrightarrow> keeps_shape (c # w) (c # w')"
  unfolding keeps_shape_def
proof (intro allI impI)
  fix n
  assume ih: "\<forall>n. take n w = replicate n (CHR ''/'') \<and> (\<exists>x \<in> set (drop n w). x \<noteq> CHR ''*'') \<longrightarrow>
      take n w' = replicate n (CHR ''/'') \<and> (\<exists>x \<in> set (drop n w'). x \<noteq> CHR ''*'')"
    and h: "take n (c # w) = replicate n (CHR ''/'') \<and> (\<exists>x \<in> set (drop n (c # w)). x \<noteq> CHR ''*'')"
  show "take n (c # w') = replicate n (CHR ''/'') \<and> (\<exists>x \<in> set (drop n (c # w')). x \<noteq> CHR ''*'')"
  proof (cases n)
    case 0
    with h ih [rule_format, of 0] show ?thesis by auto
  next
    case (Suc m)
    with h ih [rule_format, of m] show ?thesis by auto
  qed
qed

lemma keeps_shape_head:
  assumes "w \<noteq> [] \<Longrightarrow> hd w \<noteq> CHR ''/''" and "w' \<noteq> []" and "hd w' \<noteq> CHR ''*''"
  shows "keeps_shape w w'"
  unfolding keeps_shape_def
proof (intro allI impI)
  fix n
  assume h: "take n w = replicate n (CHR ''/'') \<and> (\<exists>x \<in> set (drop n w). x \<noteq> CHR ''*'')"
  then have "w \<noteq> []" by auto
  with h assms(1) have "n = 0" by (cases n; cases w) auto
  with assms(2,3) show "take n w' = replicate n (CHR ''/'') \<and> (\<exists>x \<in> set (drop n w'). x \<noteq> CHR ''*'')"
    by (cases w') auto
qed

lemma traces_Cons:
  assumes "traces out s"
  shows "traces (c # out) (c # s)"
  unfolding traces_def
proof (intro allI impI)
  fix w r
  assume eq: "c # out = w @ CHR ''@'' # r" and ok: "list_all cred_char w"
  show "\<exists>w' r'. c # s = w' @ CHR ''@'' # r' \<and> list_all cred_char w' \<and> keeps_shape w w'"
  proof (cases w)
    case Nil
    with eq have "c # s = [] @ CHR ''@'' # s" by simp
    moreover have "keeps_shape w []" by (simp add: Nil keeps_shape_def)
    ultimately show ?thesis by (metis list.pred_inject(1))
  next
    case (Cons x w1)
    with eq ok assms obtain w' r' where "s = w' @ CHR ''@'' # r'" "list_all cred_char w'"
      "keeps_shape w1 w'" and x: "x = c" "cred_char c"
      unfolding traces_def by auto
    then have "c # s = (c # w') @ CHR ''@'' # r' \<and> list_all cred_char (c # w') \<and> keeps_shape w (c # w')"
      by (simp add: Cons keeps_shape_Cons)
    then show ?thesis by blast
  qed
qed

lemma url_match_Some:
  assumes "url_match s = Some rest"
  obtains run where "s = ''://'' @ run @ CHR ''@'' # rest" "run \<noteq> []" "list_all cred_char run"
proof
  let ?run = "takeWhile cred_char (drop 3 s)" and ?rest = "dropWhile cred_char (drop 3 s)"
  from assms have t: "take 3 s = ''://''" and r: "?run \<noteq> []" "?rest \<noteq> []" "hd ?rest = CHR ''@''"
      "rest = tl ?rest"
    by (auto simp: url_match_def Let_def split: if_splits)
  have "?rest = CHR ''@'' # rest" using r by (cases ?rest) auto
  then have "drop 3 s = ?run @ CHR ''@'' # rest" by (metis takeWhile_dropWhile_id)
  then show "s = ''://'' @ ?run @ CHR ''@'' # rest" using t by (metis append_take_drop_id)
  show "list_all cred_char ?run" by (auto simp: list_all_iff dest: set_takeWhileD)
qed (use assms in \<open>auto simp: url_match_def Let_def split: if_splits\<close>)

lemma url_match_intro:
  assumes "s = ''://'' @ run @ CHR ''@'' # rest" and "run \<noteq> []" and "list_all cred_char run"
  shows "url_match s = Some rest"
proof -
  have "takeWhile cred_char (run @ CHR ''@'' # rest) = run"
    and "dropWhile cred_char (run @ CHR ''@'' # rest) = CHR ''@'' # rest"
    using assms(3) by (auto simp: list_all_iff takeWhile_append dropWhile_append cred_char_def)
  with assms(1,2) show ?thesis by (simp add: url_match_def)
qed

lemma first_at:
  assumes "a @ CHR ''@'' # x = w @ CHR ''@'' # r" and "list_all cred_char a" and "list_all cred_char w"
  shows "a = w"
  using assms
proof (induction a arbitrary: w)
  case Nil
  then show ?case by (cases w) (auto simp: cred_char_def)
next
  case (Cons c a)
  then show ?case by (cases w) (auto simp: cred_char_def)
qed

lemma traces_mask_urls: "traces (mask_urls s) s"
proof (induction s rule: mask_urls.induct)
  case (1 s)
  show ?case
  proof (cases s)
    case Nil
    then show ?thesis by (simp add: mask_urls.simps traces_def)
  next
    case (Cons c cs)
    show ?thesis
    proof (cases "url_match s")
      case None
      then have "traces (mask_urls cs) cs" by (rule 1(1) [OF Cons])
      with None show ?thesis by (simp add: Cons mask_urls.simps [of "c # cs"] traces_Cons)
    next
      case (Some rest)
      then obtain run where s: "s = (''://'' @ run) @ CHR ''@'' # rest" "list_all cred_char (''://'' @ run)"
        by (auto elim!: url_match_Some simp: cred_char_def is_space_def)
      show ?thesis
        unfolding traces_def
      proof (intro allI impI)
        fix w r
        assume "mask_urls s = w @ CHR ''@'' # r" and ok: "list_all cred_char w"
        moreover have "mask_urls s = ''://***'' @ CHR ''@'' # mask_urls rest"
          using Some by (simp add: Cons mask_urls.simps [of "c # cs"])
        ultimately have "w = ''://***''"
          using first_at [of "''://***''" "mask_urls rest" w r] by (simp add: cred_char_def is_space_def)
        then have "keeps_shape w (''://'' @ run)" by (intro keeps_shape_head) auto
        with s show "\<exists>w' r'. s = w' @ CHR ''@'' # r' \<and> list_all cred_char w' \<and> keeps_shape w w'"
          by blast
      qed
    qed
  qed
qed

text \<open>A leak at the start of the output would be a match at the start of the input.\<close>

lemma traced_leak:
  assumes "traces out cs" and "out = ''//'' @ cred @ ''@'' @ rest"
    and "list_all cred_char cred" and "\<exists>x \<in> set cred. x \<noteq> CHR ''*''"
  shows "\<exists>cred' rest'. cs = ''//'' @ cred' @ ''@'' @ rest' \<and> list_all cred_char cred' \<and>
    (\<exists>x \<in> set cred'. x \<noteq> CHR ''*'')"
proof -
  from assms(1) [unfolded traces_def, rule_format, of "''//'' @ cred" rest] assms(2,3)
  obtain w' r' where w: "cs = w' @ CHR ''@'' # r'" "list_all cred_char w'" "keeps_shape (''//'' @ cred) w'"
    by (auto simp: cred_char_def is_space_def)
  from w(3) [unfolded keeps_shape_def, rule_format, of 2] assms(4)
  have two: "take 2 w' = ''//''" "\<exists>x \<in> set (drop 2 w'). x \<noteq> CHR ''*''"
    by (auto simp: numeral_2_eq_2)
  have "w' = ''//'' @ drop 2 w'" using two(1) by (metis append_take_drop_id)
  moreover have "list_all cred_char (drop 2 w')"
    using w(2) by (auto simp: list_all_iff dest: in_set_dropD)
  ultimately show ?thesis using w(1) two(2) by (metis append_assoc append_Cons append_Nil)
qed

lemma leaks_url_Cons:
  "leaks_url (c # s) \<longleftrightarrow> leaks_url s \<or>
     (\<exists>cred rest. c # s = ''://'' @ cred @ ''@'' @ rest \<and> list_all cred_char cred \<and>
        (\<exists>x \<in> set cred. x \<noteq> CHR ''*''))"
proof
  assume "leaks_url (c # s)"
  then obtain pre cred rest where *: "c # s = pre @ ''://'' @ cred @ ''@'' @ rest"
    "list_all cred_char cred" "\<exists>x \<in> set cred. x \<noteq> CHR ''*''"
    unfolding leaks_url_def by blast
  show "leaks_url s \<or> (\<exists>cred rest. c # s = ''://'' @ cred @ ''@'' @ rest \<and>
      list_all cred_char cred \<and> (\<exists>x \<in> set cred. x \<noteq> CHR ''*''))"
  proof (cases pre)
    case Nil
    with * show ?thesis by (metis append_Nil)
  next
    case (Cons x xs)
    with *(1) have "s = xs @ ''://'' @ cred @ ''@'' @ rest" by simp
    with *(2,3) show ?thesis unfolding leaks_url_def by blast
  qed
next
  assume "leaks_url s \<or> (\<exists>cred rest. c # s = ''://'' @ cred @ ''@'' @ rest \<and>
      list_all cred_char cred \<and> (\<exists>x \<in> set cred. x \<noteq> CHR ''*''))"
  then show "leaks_url (c # s)"
    unfolding leaks_url_def by (metis append_Cons append_Nil)
qed

lemma leaks_url_skip:
  assumes "CHR '':'' \<notin> set pre"
  shows "leaks_url (pre @ s) \<longleftrightarrow> leaks_url s"
  using assms by (induction pre) (auto simp: leaks_url_Cons)

lemma mask_urls_no_leak: "\<not> leaks_url (mask_urls s)"
proof (induction s rule: mask_urls.induct)
  case (1 s)
  show ?case
  proof (cases s)
    case Nil
    then show ?thesis by (simp add: mask_urls.simps leaks_url_def)
  next
    case (Cons c cs)
    show ?thesis
    proof (cases "url_match s")
      case None
      have ih: "\<not> leaks_url (mask_urls cs)" by (rule 1(1) [OF Cons None])
      have eq: "mask_urls s = c # mask_urls cs" using None by (simp add: Cons mask_urls.simps [of "c # cs"])
      show ?thesis
      proof
        assume "leaks_url (mask_urls s)"
        with ih obtain cred rest where *: "c = CHR '':''" "mask_urls cs = ''//'' @ cred @ ''@'' @ rest"
          "list_all cred_char cred" "\<exists>x \<in> set cred. x \<noteq> CHR ''*''"
          unfolding eq leaks_url_Cons by auto
        from traced_leak [OF traces_mask_urls *(2-4)] obtain cred' rest' where
          in_cs: "cs = ''//'' @ cred' @ ''@'' @ rest'" "list_all cred_char cred'" and
          "\<exists>x \<in> set cred'. x \<noteq> CHR ''*''"
          by blast
        then have "cred' \<noteq> []" by auto
        with url_match_intro [of s cred' rest'] in_cs *(1) Cons None show False by simp
      qed
    next
      case (Some rest)
      have ih: "\<not> leaks_url (mask_urls rest)" by (rule 1(2) [OF Cons Some])
      have "mask_urls s = ''://***@'' @ mask_urls rest"
        using Some by (simp add: Cons mask_urls.simps [of "c # cs"])
      moreover have "\<not> (\<exists>cred r. ''://***@'' @ mask_urls rest = ''://'' @ cred @ ''@'' @ r \<and>
          list_all cred_char cred \<and> (\<exists>x \<in> set cred. x \<noteq> CHR ''*''))"
      proof (clarify)
        fix cred r x
        assume "''://***@'' @ mask_urls rest = ''://'' @ cred @ ''@'' @ r" "list_all cred_char cred"
          and x: "x \<in> set cred" "x \<noteq> CHR ''*''"
        then have "''***'' = cred"
          using first_at [of "''***''" "mask_urls rest" cred r] by (simp add: cred_char_def is_space_def)
        with x show False by auto
      qed
      ultimately show ?thesis
        using ih leaks_url_skip [of "''//***@''" "mask_urls rest"] by (simp add: leaks_url_Cons)
    qed
  qed
qed

subsection \<open>Credentials in key-value pairs\<close>

text \<open>
  A text leaks a value when somewhere a keyword and an equals sign are followed by a value that is
  more than asterisks.
\<close>

definition leaks_key :: "string \<Rightarrow> bool" where
  "leaks_key s \<longleftrightarrow> (\<exists>pre t n run. s = pre @ t \<and> key_match t = Some (n, run) \<and>
     (\<exists>x \<in> set run. x \<noteq> CHR ''*''))"

lemma leaks_key_Cons:
  "leaks_key (c # s) \<longleftrightarrow> leaks_key s \<or>
     (\<exists>n run. key_match (c # s) = Some (n, run) \<and> (\<exists>x \<in> set run. x \<noteq> CHR ''*''))"
proof
  assume "leaks_key (c # s)"
  then obtain pre t n run where *: "c # s = pre @ t" "key_match t = Some (n, run)"
    "\<exists>x \<in> set run. x \<noteq> CHR ''*''"
    unfolding leaks_key_def by blast
  show "leaks_key s \<or>
     (\<exists>n run. key_match (c # s) = Some (n, run) \<and> (\<exists>x \<in> set run. x \<noteq> CHR ''*''))"
    using * unfolding leaks_key_def by (cases pre) auto
next
  assume "leaks_key s \<or>
     (\<exists>n run. key_match (c # s) = Some (n, run) \<and> (\<exists>x \<in> set run. x \<noteq> CHR ''*''))"
  then show "leaks_key (c # s)"
    unfolding leaks_key_def by (metis append_Cons append_Nil)
qed

lemma mask_keys_None:
  "key_match (c # cs) = None \<Longrightarrow> mask_keys (c # cs) = c # mask_keys cs"
  by (simp add: mask_keys.simps [of "c # cs"])

lemma mask_keys_Some:
  "key_match s = Some (n, run) \<Longrightarrow>
     mask_keys s = take n s @ ''=***'' @ mask_keys (drop (Suc (n + length run)) s)"
  using key_match_shorter [of s n run] by (subst mask_keys.simps) (auto split: list.split)

lemma mask_keys_Nil [simp]: "mask_keys [] = []"
  by (simp add: mask_keys.simps)

text \<open>Letters and the two separators of the keywords: what no replacement writes.\<close>

definition word_char :: "char \<Rightarrow> bool" where
  "word_char c \<longleftrightarrow> (of_char c :: nat) \<in> {45, 95} \<union> {65..90} \<union> {97..122}"

lemma word_char_plain: "word_char c \<Longrightarrow> c \<noteq> CHR ''*'' \<and> c \<noteq> CHR ''='' \<and> c \<noteq> CHR '':'' \<and> c \<noteq> CHR ''/'' \<and> c \<noteq> CHR ''@''"
  by (auto simp: word_char_def)

lemma word_char_value: "word_char c \<Longrightarrow> value_char c"
  by (auto simp: word_char_def value_char_def is_space_def)

lemma of_char_lower:
  "(of_char (lower_char c) :: nat) =
     (if 65 \<le> (of_char c :: nat) \<and> (of_char c :: nat) \<le> 90 then of_char c + 32 else of_char c)"
  by (simp add: lower_char_def less_eq_char_def of_char_of)

lemma lower_word_char: "word_char (lower_char c) \<Longrightarrow> word_char c"
  by (auto simp: word_char_def of_char_lower split: if_splits)

lemma key_words_chars: "list_all (list_all word_char) key_words"
  by (simp add: key_words_def word_char_def)

lemma keyword_word_chars:
  assumes "map lower_char u \<in> set key_words"
  shows "list_all word_char u" and "u \<noteq> []"
proof -
  have "list_all word_char (map lower_char u)"
    using key_words_chars assms by (simp add: list_all_iff)
  then show "list_all word_char u" by (auto simp: list_all_iff intro: lower_word_char)
  show "u \<noteq> []" using assms by (auto simp: key_words_def)
qed

text \<open>
  A prefix of the output without asterisks is a prefix of the input, and a value character after it
  stands for one.
\<close>

lemma mask_keys_prefix:
  assumes "mask_keys s = w @ r" and "CHR ''*'' \<notin> set w"
  shows "\<exists>r'. s = w @ r' \<and> (r \<noteq> [] \<and> value_char (hd r) \<longrightarrow> r' \<noteq> [] \<and> value_char (hd r'))"
  using assms
proof (induction s arbitrary: w r rule: mask_keys.induct)
  case (1 s)
  show ?case
  proof (cases s)
    case Nil
    with 1(3) show ?thesis by simp
  next
    case (Cons c cs)
    show ?thesis
    proof (cases "key_match s")
      case None
      with 1(3) Cons have eq: "c # mask_keys cs = w @ r" by (simp add: mask_keys_None)
      show ?thesis
      proof (cases w)
        case Nil
        with eq Cons show ?thesis by auto
      next
        case (Cons x w1)
        with eq 1(4) have "mask_keys cs = w1 @ r" "CHR ''*'' \<notin> set w1" "x = c" by auto
        from 1(1) [OF \<open>s = c # cs\<close> None this(1,2)] \<open>x = c\<close> \<open>s = c # cs\<close> Cons show ?thesis by auto
      qed
    next
      case (Some m)
      obtain n run where m: "m = (n, run)" by (cases m)
      from key_match_Some [OF Some [unfolded m]] obtain rest where
        s: "s = take n s @ CHR ''='' # run @ rest" "run \<noteq> []" "list_all value_char run" by blast
      have "mask_keys s = take n s @ ''=***'' @ mask_keys (drop (Suc (n + length run)) s)"
        using mask_keys_Some [OF Some [unfolded m]] .
      with 1(3) have eq: "w @ r = (take n s @ ''='') @ ''***'' @ mask_keys (drop (Suc (n + length run)) s)"
        by simp
      then obtain u where u: "w = (take n s @ ''='') @ u \<and> u @ r = ''***'' @ mask_keys (drop (Suc (n + length run)) s) \<or>
          w @ u = take n s @ ''='' \<and> r = u @ ''***'' @ mask_keys (drop (Suc (n + length run)) s)"
        unfolding append_eq_append_conv2 by blast
      then have "w @ u = take n s @ ''='' \<and> r = u @ ''***'' @ mask_keys (drop (Suc (n + length run)) s)"
        using 1(4) by (cases u) (auto simp: append_eq_Cons_conv)
      then have wu: "w @ u = take n s @ ''=''" and r: "r = u @ ''***'' @ mask_keys (drop (Suc (n + length run)) s)"
        by auto
      have "s = w @ (u @ run @ rest)"
        using s(1) wu by (metis append.assoc append_Cons append_Nil)
      moreover have "u @ run @ rest \<noteq> []" "r \<noteq> [] \<and> value_char (hd r) \<longrightarrow> value_char (hd (u @ run @ rest))"
        using s(2,3) r by (cases u; cases run; auto)+
      ultimately show ?thesis by blast
    qed
  qed
qed

lemma key_match_intro:
  assumes "s = u @ CHR ''='' # rest" and "map lower_char u \<in> set key_words"
    and "rest \<noteq> []" and "value_char (hd rest)"
  shows "\<exists>n run. key_match s = Some (n, run)"
proof -
  have other: "kw = map lower_char u" if "kw \<in> set key_words" "ci_prefix kw s" for kw
  proof -
    have "map lower_char (take (length kw) (u @ CHR ''='' # rest)) = kw"
      using that(2) assms(1) by (simp add: ci_prefix_def)
    moreover have "CHR ''='' \<notin> set kw" using that(1) by (auto simp: key_words_def)
    moreover have "lower_char (CHR ''='') = CHR ''=''" by (simp add: lower_char_def)
    ultimately have "length kw \<le> length u"
      by (cases "length kw - length u") (auto simp: take_Cons')
    with \<open>map lower_char (take (length kw) (u @ CHR ''='' # rest)) = kw\<close>
    have "take (length kw) (map lower_char u) = kw" by (simp add: take_map)
    with that(1) assms(2) show ?thesis by (auto simp: key_words_def)
  qed
  have "ci_prefix (map lower_char u) s" by (simp add: ci_prefix_def assms(1))
  then obtain kw where "find (\<lambda>kw. ci_prefix kw s) key_words = Some kw"
    using assms(2) by (metis find_None_iff not_None_eq)
  moreover from this other have "length kw = length u" by (metis find_hit length_map)
  ultimately show ?thesis
    using assms by (cases rest) (auto simp: key_match_def)
qed

lemma key_match_run:
  assumes "key_match (u @ CHR ''='' # v) = Some (n, run)" and "CHR ''='' \<notin> set u"
  shows "run = takeWhile value_char v"
proof -
  from key_match_Some [OF assms(1)] obtain rest where
    s: "u @ CHR ''='' # v = take n (u @ CHR ''='' # v) @ CHR ''='' # run @ rest"
    and run: "list_all value_char run" "rest = [] \<or> \<not> value_char (hd rest)"
    and kw: "map lower_char (take n (u @ CHR ''='' # v)) \<in> set key_words"
    by blast
  have "CHR ''='' \<notin> set (take n (u @ CHR ''='' # v))"
    using keyword_word_chars(1) [OF kw] word_char_plain by (auto simp: list_all_iff)
  with split_first [OF s assms(2)] have "v = run @ rest" by simp
  with run show ?thesis by (cases rest) (auto simp: list_all_iff takeWhile_append takeWhile_eq_all_conv [THEN iffD2])
qed

lemma mask_keys_stop:
  assumes "s = [] \<or> \<not> value_char (hd s)"
  shows "takeWhile value_char (mask_keys s) = []"
proof (cases s)
  case (Cons c cs)
  have "key_match s = None"
  proof (rule ccontr)
    assume "key_match s \<noteq> None"
    then obtain n run where "key_match s = Some (n, run)" by auto
    from key_match_Some [OF this] have kw: "map lower_char (take n s) \<in> set key_words" by blast
    have "word_char c"
      using keyword_word_chars [OF kw] Cons by (cases n) auto
    then have "value_char c" by (rule word_char_value)
    with assms Cons show False by simp
  qed
  with Cons assms show ?thesis by (simp add: mask_keys_None)
qed simp

lemma key_match_hd: "key_match (c # s) = Some (n, run) \<Longrightarrow> word_char c"
proof -
  assume "key_match (c # s) = Some (n, run)"
  from key_match_Some [OF this] have "map lower_char (take n (c # s)) \<in> set key_words" by blast
  from keyword_word_chars [OF this] show ?thesis by (cases n) auto
qed

lemma no_leak_replaced:
  assumes "\<not> leaks_key out" and "takeWhile value_char out = []" and "CHR ''='' \<notin> set u"
  shows "\<not> leaks_key (u @ ''=***'' @ out)"
  using assms(3)
proof (induction u)
  have stars: "takeWhile value_char (''***'' @ out) = ''***''"
    using assms(2) by (simp add: value_char_def is_space_def)
  case Nil
  have "\<not> leaks_key (''***'' @ out)"
    using assms(1) by (auto simp: leaks_key_Cons dest!: key_match_hd word_char_plain)
  moreover have "x = CHR ''*''" if "key_match (''=***'' @ out) = Some (n, run)" "x \<in> set run" for n run x
    using key_match_run [of "[]" "''***'' @ out" n run] that stars by auto
  ultimately show ?case by (auto simp: leaks_key_Cons [of "CHR ''=''"])
next
  have stars: "takeWhile value_char (''***'' @ out) = ''***''"
    using assms(2) by (simp add: value_char_def is_space_def)
  case (Cons c u)
  have "x = CHR ''*''" if "key_match ((c # u) @ ''=***'' @ out) = Some (n, run)" "x \<in> set run" for n run x
    using key_match_run [of "c # u" "''***'' @ out" n run] that stars Cons.prems by auto
  with Cons show ?case by (auto simp: leaks_key_Cons [of c])
qed

lemma key_match_split:
  assumes "key_match s = Some (n, run)"
  obtains u rest where "s = u @ CHR ''='' # run @ rest" "take n s = u"
    "drop (Suc (n + length run)) s = rest" "run \<noteq> []" "list_all value_char run"
    "rest = [] \<or> \<not> value_char (hd rest)" "map lower_char u \<in> set key_words"
proof -
  from key_match_Some [OF assms] obtain rest where
    s: "s = take n s @ CHR ''='' # run @ rest" "run \<noteq> []" "list_all value_char run"
      "rest = [] \<or> \<not> value_char (hd rest)" "map lower_char (take n s) \<in> set key_words"
    by blast
  have len: "length (take n s) = n" using key_match_shorter [OF assms] by simp
  have "drop (Suc (n + length run)) (take n s @ CHR ''='' # run @ rest) = rest"
    using len by simp
  with s that show ?thesis by metis
qed

lemma mask_keys_no_leak: "\<not> leaks_key (mask_keys s)"
proof (induction s rule: mask_keys.induct)
  case (1 s)
  show ?case
  proof (cases s)
    case Nil
    then show ?thesis by (simp add: leaks_key_def key_match_def key_words_def ci_prefix_def)
  next
    case (Cons c cs)
    show ?thesis
    proof (cases "key_match s")
      case None
      have ih: "\<not> leaks_key (mask_keys cs)" by (rule 1(1) [OF Cons None])
      have eq: "mask_keys s = c # mask_keys cs" using None by (simp add: Cons mask_keys_None)
      have "key_match (mask_keys s) = None"
      proof (rule ccontr)
        assume "key_match (mask_keys s) \<noteq> None"
        then obtain n run where "key_match (mask_keys s) = Some (n, run)" by auto
        then obtain u rest where u: "mask_keys s = (u @ ''='') @ run @ rest" "run \<noteq> []"
          "list_all value_char run" "map lower_char u \<in> set key_words"
          by (auto elim!: key_match_split)
        have "CHR ''*'' \<notin> set (u @ ''='')"
          using keyword_word_chars(1) [OF u(4)] word_char_plain by (auto simp: list_all_iff)
        from mask_keys_prefix [OF u(1) this] u(2,3) obtain r' where
          "s = (u @ ''='') @ r'" "r' \<noteq> []" "value_char (hd r')"
          by (cases run) auto
        with key_match_intro [of s u r'] u(4) None show False by simp
      qed
      with ih show ?thesis by (simp add: eq leaks_key_Cons)
    next
      case (Some m)
      obtain n run where m: "m = (n, run)" by (cases m)
      from Some [unfolded m] obtain u rest where u: "take n s = u"
        "drop (Suc (n + length run)) s = rest" "rest = [] \<or> \<not> value_char (hd rest)"
        "map lower_char u \<in> set key_words"
        by (rule key_match_split)
      have "\<not> leaks_key (mask_keys rest)"
        using 1(2) [OF Cons Some m [symmetric]] by (simp add: u(2))
      moreover have "takeWhile value_char (mask_keys rest) = []"
        by (rule mask_keys_stop [OF u(3)])
      moreover have "CHR ''='' \<notin> set u"
        using keyword_word_chars(1) [OF u(4)] word_char_plain by (auto simp: list_all_iff)
      ultimately show ?thesis
        unfolding mask_keys_Some [OF Some [unfolded m]] u(1,2) by (rule no_leak_replaced)
    qed
  qed
qed

subsection \<open>The second substitution keeps the first one's work\<close>

lemma value_cred_char: "value_char c \<Longrightarrow> c \<noteq> CHR ''@'' \<Longrightarrow> cred_char c"
  by (simp add: value_char_def cred_char_def)

lemma value_run_cred:
  "list_all value_char a \<Longrightarrow> CHR ''@'' \<notin> set a \<Longrightarrow> list_all cred_char a"
  by (induction a) (auto intro: value_cred_char)

lemma word_cred_char: "word_char c \<Longrightarrow> cred_char c"
  by (auto simp: word_char_def cred_char_def is_space_def)

lemma traces_replaced:
  assumes ih: "traces out rest" and u: "list_all word_char u" "u \<noteq> []"
    and run: "list_all value_char run"
  shows "traces (u @ ''=***'' @ out) (u @ CHR ''='' # run @ rest)"
  unfolding traces_def
proof (intro allI impI)
  fix w r
  assume eq: "u @ ''=***'' @ out = w @ CHR ''@'' # r" and ok: "list_all cred_char w"
  let ?k = "u @ ''=***''"
  have k: "list_all cred_char ?k"
    using u(1) word_cred_char by (auto simp: list_all_iff cred_char_def is_space_def)
  have key: "list_all cred_char (u @ ''='')" using k by simp
  have shape: "keeps_shape w w'" if "w' \<noteq> []" "hd w' = hd u" for w'
  proof (rule keeps_shape_head)
    have "word_char (hd u)" using u by (cases u) auto
    then have "hd u \<noteq> CHR ''/''" "hd u \<noteq> CHR ''*''" using word_char_plain by auto
    moreover have "w = [] \<or> hd w = hd u" using eq u(2) by (cases u; cases w) auto
    ultimately show "hd w \<noteq> CHR ''/''" if "w \<noteq> []" using that by auto
    show "hd w' \<noteq> CHR ''*''" using \<open>hd u \<noteq> CHR ''*''\<close> that(2) by simp
  qed (rule that(1))
  obtain w2 where w2: "w = ?k @ w2" "out = w2 @ CHR ''@'' # r"
  proof -
    from eq have "?k @ out = w @ CHR ''@'' # r" by simp
    then obtain v where v: "?k = w @ v \<and> v @ out = CHR ''@'' # r \<or> ?k @ v = w \<and> out = v @ CHR ''@'' # r"
      unfolding append_eq_append_conv2 by blast
    have "?k @ v = w \<and> out = v @ CHR ''@'' # r"
    proof (cases v)
      case Nil
      with v show ?thesis by auto
    next
      case (Cons x xs)
      have "\<not> ?k = w @ CHR ''@'' # xs"
      proof
        assume "?k = w @ CHR ''@'' # xs"
        then have "CHR ''@'' \<in> set ?k" by (metis in_set_conv_decomp)
        with k have "cred_char (CHR ''@'')" by (simp only: list_all_iff)
        then show False by (simp add: cred_char_def)
      qed
      with v Cons show ?thesis by auto
    qed
    with that show thesis by metis
  qed
  show "\<exists>w' r'. u @ CHR ''='' # run @ rest = w' @ CHR ''@'' # r' \<and> list_all cred_char w' \<and> keeps_shape w w'"
  proof (cases "CHR ''@'' \<in> set run")
    case True
    then obtain a b where ab: "run = a @ CHR ''@'' # b" "CHR ''@'' \<notin> set a"
      using split_list_first [OF True] by blast
    then have "list_all cred_char a"
      using run value_run_cred [of a] by simp
    then have "list_all cred_char (u @ CHR ''='' # a)" using key by simp
    moreover have "keeps_shape w (u @ CHR ''='' # a)" by (rule shape) (use u(2) in simp_all)
    moreover have "u @ CHR ''='' # run @ rest = (u @ CHR ''='' # a) @ CHR ''@'' # (b @ rest)"
      by (simp add: ab(1))
    ultimately show ?thesis by blast
  next
    case False
    with run have "list_all cred_char run" by (rule value_run_cred)
    moreover have "list_all cred_char w2" using ok unfolding w2(1) by simp
    from ih [unfolded traces_def, rule_format, OF w2(2) this] obtain w' r' where
      "rest = w' @ CHR ''@'' # r'" "list_all cred_char w'" by blast
    moreover have "keeps_shape w (u @ CHR ''='' # run @ w')" by (rule shape) (use u(2) in simp_all)
    ultimately have "u @ CHR ''='' # run @ rest = (u @ CHR ''='' # run @ w') @ CHR ''@'' # r' \<and>
        list_all cred_char (u @ CHR ''='' # run @ w') \<and> keeps_shape w (u @ CHR ''='' # run @ w')"
      using key by simp
    then show ?thesis by blast
  qed
qed

lemma traces_mask_keys: "traces (mask_keys s) s"
proof (induction s rule: mask_keys.induct)
  case (1 s)
  show ?case
  proof (cases s)
    case Nil
    then show ?thesis by (simp add: traces_def)
  next
    case (Cons c cs)
    show ?thesis
    proof (cases "key_match s")
      case None
      then have "traces (mask_keys cs) cs" by (rule 1(1) [OF Cons])
      with None show ?thesis by (simp add: Cons mask_keys_None traces_Cons)
    next
      case (Some m)
      obtain n run where m: "m = (n, run)" by (cases m)
      from Some [unfolded m] obtain u rest where u: "s = u @ CHR ''='' # run @ rest" "take n s = u"
        "drop (Suc (n + length run)) s = rest" "list_all value_char run"
        "map lower_char u \<in> set key_words"
        by (rule key_match_split)
      have "traces (mask_keys rest) rest"
        using 1(2) [OF Cons Some m [symmetric]] by (simp add: u(3))
      from traces_replaced [OF this keyword_word_chars [OF u(5)] u(4)]
      show ?thesis unfolding mask_keys_Some [OF Some [unfolded m]] u(2,3) by (simp add: u(1))
    qed
  qed
qed

lemma mask_keys_leaks_url: "leaks_url (mask_keys s) \<Longrightarrow> leaks_url s"
proof (induction s rule: mask_keys.induct)
  case (1 s)
  show ?case
  proof (cases s)
    case Nil
    with 1(3) show ?thesis by simp
  next
    case (Cons c cs)
    show ?thesis
    proof (cases "key_match s")
      case None
      then have eq: "mask_keys s = c # mask_keys cs" by (simp add: Cons mask_keys_None)
      from 1(3) [unfolded eq leaks_url_Cons] show ?thesis
      proof (elim disjE)
        assume "leaks_url (mask_keys cs)"
        from 1(1) [OF Cons None this] show ?thesis by (simp add: Cons leaks_url_Cons)
      next
        assume "\<exists>cred rest. c # mask_keys cs = ''://'' @ cred @ ''@'' @ rest \<and>
          list_all cred_char cred \<and> (\<exists>x \<in> set cred. x \<noteq> CHR ''*'')"
        then obtain cred rest where *: "c = CHR '':''" "mask_keys cs = ''//'' @ cred @ ''@'' @ rest"
          "list_all cred_char cred" "\<exists>x \<in> set cred. x \<noteq> CHR ''*''"
          by auto
        from traced_leak [OF traces_mask_keys *(2-4)] *(1) show ?thesis
          by (auto simp: Cons leaks_url_Cons)
      qed
    next
      case (Some m)
      obtain n run where m: "m = (n, run)" by (cases m)
      from Some [unfolded m] obtain u rest where u: "s = u @ CHR ''='' # run @ rest" "take n s = u"
        "drop (Suc (n + length run)) s = rest" "map lower_char u \<in> set key_words"
        by (rule key_match_split)
      have "CHR '':'' \<notin> set (u @ ''=***'')"
        using keyword_word_chars(1) [OF u(4)] word_char_plain by (auto simp: list_all_iff)
      from leaks_url_skip [OF this] 1(3) have "leaks_url (mask_keys rest)"
        unfolding mask_keys_Some [OF Some [unfolded m]] u(2,3) by simp
      then have "leaks_url rest" using 1(2) [OF Cons Some m [symmetric]] by (simp add: u(3))
      then obtain pre cred r where "rest = pre @ ''://'' @ cred @ ''@'' @ r" "list_all cred_char cred"
        "\<exists>x \<in> set cred. x \<noteq> CHR ''*''"
        unfolding leaks_url_def by blast
      then have "s = (u @ CHR ''='' # run @ pre) @ ''://'' @ cred @ ''@'' @ r" by (simp add: u(1))
      then show ?thesis
        unfolding leaks_url_def using \<open>list_all cred_char cred\<close> \<open>\<exists>x \<in> set cred. x \<noteq> CHR ''*''\<close> by blast
    qed
  qed
qed

subsection \<open>Truncation\<close>

lemma leaks_url_take: "leaks_url (take k s) \<Longrightarrow> leaks_url s"
proof -
  assume "leaks_url (take k s)"
  then obtain pre cred rest where *: "take k s = pre @ ''://'' @ cred @ ''@'' @ rest"
    "list_all cred_char cred" "\<exists>x \<in> set cred. x \<noteq> CHR ''*''"
    unfolding leaks_url_def by blast
  then have "s = pre @ ''://'' @ cred @ ''@'' @ (rest @ drop k s)"
    by (metis append.assoc append_take_drop_id)
  with *(2,3) show ?thesis unfolding leaks_url_def by blast
qed

lemma leaks_key_take: "leaks_key (take k s) \<Longrightarrow> leaks_key s"
proof -
  assume "leaks_key (take k s)"
  then obtain pre t n run where *: "take k s = pre @ t" "key_match t = Some (n, run)"
    "\<exists>x \<in> set run. x \<noteq> CHR ''*''"
    unfolding leaks_key_def by blast
  from *(2) obtain u rest where u: "t = u @ CHR ''='' # run @ rest" "run \<noteq> []"
    "list_all value_char run" "map lower_char u \<in> set key_words"
    by (rule key_match_split)
  have s: "s = pre @ u @ CHR ''='' # run @ (rest @ drop k s)"
    using *(1) u(1) append_take_drop_id [of k s] by simp
  have "value_char (hd (run @ rest @ drop k s))" using u(2,3) by (cases run) auto
  with key_match_intro [of "u @ CHR ''='' # run @ rest @ drop k s" u] u(2,4) obtain n' run' where
    m: "key_match (u @ CHR ''='' # run @ rest @ drop k s) = Some (n', run')" by auto
  have "CHR ''='' \<notin> set u"
    using keyword_word_chars(1) [OF u(4)] word_char_plain by (auto simp: list_all_iff)
  from key_match_run [OF m this] have "set run \<subseteq> set run'"
    using u(3) by (auto simp: list_all_iff)
  with s m *(3) show ?thesis unfolding leaks_key_def by blast
qed

text \<open>
  C27. No credential survives sanitizing. Whatever the message of an error, the sanitized text has at
  most 512 characters, contains no \<open>://\<close> followed by anything but asterisks up to an \<open>@\<close>, and no
  password, secret, token or API-key assignment whose value is anything but asterisks.
\<close>

theorem sanitized_no_leak:
  "length (sanitize_message m) \<le> 512 \<and> \<not> leaks_url (sanitize_message m) \<and>
    \<not> leaks_key (sanitize_message m)"
proof (intro conjI)
  show "length (sanitize_message m) \<le> 512" by (simp add: sanitize_message_def)
  show "\<not> leaks_url (sanitize_message m)"
    unfolding sanitize_message_def
    using leaks_url_take mask_keys_leaks_url mask_urls_no_leak by blast
  show "\<not> leaks_key (sanitize_message m)"
    unfolding sanitize_message_def using leaks_key_take mask_keys_no_leak by blast
qed

end
