(* ===== verification/Dlq.thy ===== *)
theory Dlq
  imports Settings Sanitize Ids
begin

text \<open>
  \<open>shared/kafka/dlq.py\<close> and the header helpers of \<open>shared/observability/tracing.py\<close>: the dead letter
  built for a record that cannot be processed, and the message sent to the dead-letter topic.
  Library functions and the trace carrier are gathered in \<open>runtime\<close>.
\<close>

record kafka_record =
  kr_topic :: string
  kr_partition :: int
  kr_offset :: int
  kr_key :: "bytes option"
  kr_value :: "bytes option"
  kr_headers :: "(string \<times> bytes) list"

text \<open>
  \<open>str(uuid5(RISK_EVENT_NAMESPACE, _))\<close>, \<open>json.loads\<close> (no result where it raises), \<open>str\<close> of a JSON
  value, \<open>bytes.decode(errors="replace")\<close>, and what \<open>propagate.inject\<close> puts into an empty carrier.
\<close>

record runtime =
  rt_uuid5 :: "string \<Rightarrow> string"
  rt_json_loads :: "bytes \<Rightarrow> json option"
  rt_py_str :: "json \<Rightarrow> string"
  rt_decode :: "bytes \<Rightarrow> string"
  rt_carrier :: "(string \<times> string) list"

subsection \<open>Exceptions as text\<close>

fun exn_str :: "exn \<Rightarrow> string" where
  "exn_str (ValueError m) = m"
| "exn_str (ValidationError m) = m"
| "exn_str (IntegrityError m) = m"
| "exn_str (DatabaseError m) = m"
| "exn_str (TypeError m) = m"
| "exn_str TimeoutError = []"
| "exn_str (PermanentEventError m) = m"
| "exn_str (MissingGraphStateError m) = m"
| "exn_str (ModelInferenceError m) = m"
| "exn_str (RuntimeError m) = m"
| "exn_str (OtherError c m) = m"

fun exn_class :: "exn \<Rightarrow> string" where
  "exn_class (ValueError _) = ''ValueError''"
| "exn_class (ValidationError _) = ''ValidationError''"
| "exn_class (IntegrityError _) = ''IntegrityError''"
| "exn_class (DatabaseError _) = ''DBAPIError''"
| "exn_class (TypeError _) = ''TypeError''"
| "exn_class TimeoutError = ''TimeoutError''"
| "exn_class (PermanentEventError _) = ''PermanentEventError''"
| "exn_class (MissingGraphStateError _) = ''MissingGraphStateError''"
| "exn_class (ModelInferenceError _) = ''ModelInferenceError''"
| "exn_class (RuntimeError _) = ''RuntimeError''"
| "exn_class (OtherError c _) = c"

definition sanitize_error :: "exn \<Rightarrow> string" where
  "sanitize_error error = sanitize_message (exn_str error)"

subsection \<open>Headers and payload\<close>

fun header_value :: "runtime \<Rightarrow> (string \<times> bytes) list \<Rightarrow> string \<Rightarrow> string option" where
  "header_value rt [] name = None"
| "header_value rt ((key, value) # rest) name =
     (if key = name then Some (rt_decode rt value) else header_value rt rest name)"

definition inject_kafka_trace :: "runtime \<Rightarrow> (string \<times> bytes) list \<Rightarrow> (string \<times> bytes) list" where
  "inject_kafka_trace rt headers = headers @ rt_carrier rt"

definition current_traceparent :: "runtime \<Rightarrow> string option" where
  "current_traceparent rt = map_of (rt_carrier rt) ''traceparent''"

text \<open>A record without a value makes the fallback raise as well.\<close>

definition safe_original_payload :: "runtime \<Rightarrow> bytes option \<Rightarrow> original_payload result" where
  "safe_original_payload rt raw =
     (case raw of
        None \<Rightarrow> Inl (OtherError ''AttributeError'' ''NoneType has no attribute decode'')
      | Some bytes \<Rightarrow> Inr
          (case rt_json_loads rt bytes of
             Some (JObj obj) \<Rightarrow> ObjectPayload obj
           | Some parsed \<Rightarrow> TextPayload (rt_py_str rt parsed)
           | None \<Rightarrow> TextPayload (take 32000 (rt_decode rt bytes))))"

text \<open>\<open>value or fallback\<close> on optional text: the empty string counts as missing.\<close>

definition text_or :: "string option \<Rightarrow> string \<Rightarrow> string" where
  "text_or v fallback = (case v of None \<Rightarrow> fallback | Some s \<Rightarrow> if s = [] then fallback else s)"

subsection \<open>The dead letter\<close>

record 'e message =
  msg_topic :: string
  msg_key :: bytes
  msg_value :: 'e
  msg_headers :: "(string \<times> bytes) list"

definition dead_letter_id :: "runtime \<Rightarrow> kafka_record \<Rightarrow> string \<Rightarrow> string" where
  "dead_letter_id rt rec stage =
     deterministic_event_id (rt_uuid5 rt) ''risk.dead-lettered.v1''
       [SPart (kr_topic rec), IPart (kr_partition rec), IPart (kr_offset rec), SPart stage]"

definition dead_letter_event ::
  "runtime \<Rightarrow> settings \<Rightarrow> kafka_record \<Rightarrow> string \<Rightarrow> exn \<Rightarrow> int \<Rightarrow> int option \<Rightarrow> int
     \<Rightarrow> original_payload \<Rightarrow> dead_letter"
where
  "dead_letter_event rt cfg rec stage error attempt_count first_failure_at now original =
     (let original_event_id = header_value rt (kr_headers rec) ''event_id'';
          fallback_trace = filter (\<lambda>c. c \<noteq> CHR ''-'')
            (deterministic_event_id (rt_uuid5 rt) ''trace''
               [SPart (kr_topic rec), IPart (kr_partition rec), IPart (kr_offset rec)]);
          dlq_id = dead_letter_id rt rec stage
      in \<lparr>event_id = dlq_id,
          event_type = ''risk.dead-lettered.v1'',
          schema_version = SCHEMA_VERSION_V1,
          occurred_at = Aware now,
          produced_at = Aware now,
          producer = service_name cfg,
          trace_id = text_or (header_value rt (kr_headers rec) ''trace_id'') fallback_trace,
          traceparent = header_value rt (kr_headers rec) ''traceparent'',
          correlation_id = text_or original_event_id dlq_id,
          causation_id = original_event_id,
          payload =
            \<lparr>dl_original_topic = kr_topic rec,
             dl_original_partition = kr_partition rec,
             dl_original_offset = kr_offset rec,
             dl_original_key =
               (case kr_key rec of
                  None \<Rightarrow> None
                | Some k \<Rightarrow> if k = [] then None else Some (rt_decode rt k)),
             dl_original_payload = original,
             dl_original_event_id = original_event_id,
             dl_failure_stage = stage,
             dl_exception_class = exn_class error,
             dl_sanitized_error = sanitize_error error,
             dl_attempt_count = attempt_count,
             dl_first_failure_at =
               Aware (case first_failure_at of None \<Rightarrow> now | Some t \<Rightarrow> t),
             dl_last_failure_at = Aware now,
             dl_replayed_by = None\<rparr>\<rparr>)"

text \<open>
  The message that \<open>send_and_wait\<close> is given, or what is raised before it: by the payload fallback,
  or by the validation of the dead letter itself.
\<close>

definition publish_dead_letter ::
  "runtime \<Rightarrow> settings \<Rightarrow> kafka_record \<Rightarrow> string \<Rightarrow> exn \<Rightarrow> int \<Rightarrow> int option \<Rightarrow> int
     \<Rightarrow> dead_letter message result"
where
  "publish_dead_letter rt cfg rec stage error attempt_count first_failure_at now =
     rbind (safe_original_payload rt (kr_value rec)) (\<lambda>original.
     rbind (checked valid_dead_letter
              (dead_letter_event rt cfg rec stage error attempt_count first_failure_at now original))
       (\<lambda>event.
     Inr \<lparr>msg_topic = scoring_dlq_topic cfg,
          msg_key = (case kr_key rec of
                       None \<Rightarrow> dead_letter_id rt rec stage
                     | Some k \<Rightarrow> if k = [] then dead_letter_id rt rec stage else k),
          msg_value = event,
          msg_headers = inject_kafka_trace rt (kafka_headers event)\<rparr>))"

subsection \<open>When a dead letter can be published\<close>

lemma mask_urls_empty: "mask_urls s = [] \<longleftrightarrow> s = []"
  by (subst mask_urls.simps) (auto split: list.splits option.splits)

lemma mask_keys_empty: "mask_keys s = [] \<longleftrightarrow> s = []"
  by (subst mask_keys.simps) (auto split: list.splits option.splits)

lemma sanitize_empty: "sanitize_message m = [] \<longleftrightarrow> m = []"
  by (simp add: sanitize_message_def mask_urls_empty mask_keys_empty)

lemma sanitize_Nil [simp]: "sanitize_message [] = []"
  by (simp add: sanitize_empty)

lemma sanitize_length: "length (sanitize_message m) \<le> 512"
  by (simp add: sanitize_message_def)

definition trace_of :: "runtime \<Rightarrow> kafka_record \<Rightarrow> string" where
  "trace_of rt rec =
     text_or (header_value rt (kr_headers rec) ''trace_id'')
       (filter (\<lambda>c. c \<noteq> CHR ''-'')
         (deterministic_event_id (rt_uuid5 rt) ''trace''
            [SPart (kr_topic rec), IPart (kr_partition rec), IPart (kr_offset rec)]))"

text \<open>What the dead letter's own contract asks of the record's coordinates and headers.\<close>

definition record_describable :: "runtime \<Rightarrow> kafka_record \<Rightarrow> bool" where
  "record_describable rt rec \<longleftrightarrow>
     kr_value rec \<noteq> None \<and>
     len_in 1 249 (kr_topic rec) \<and> 0 \<le> kr_partition rec \<and> 0 \<le> kr_offset rec \<and>
     opt_ok (\<lambda>k. length (rt_decode rt k) \<le> 512 \<or> k = []) (kr_key rec) \<and>
     len_in 16 64 (trace_of rt rec) \<and>
     opt_ok valid_traceparent (header_value rt (kr_headers rec) ''traceparent'') \<and>
     opt_ok (\<lambda>i. length i \<le> 128) (header_value rt (kr_headers rec) ''event_id'')"

lemma publish_iff:
  assumes "\<And>s. length (rt_uuid5 rt s) = 36" and "len_in 2 64 (service_name cfg)"
    and "len_in 1 64 stage" and "len_in 1 128 (exn_class error)" and "1 \<le> attempt_count"
  shows "(\<exists>m. publish_dead_letter rt cfg rec stage error attempt_count first now = Inr m) \<longleftrightarrow>
    record_describable rt rec \<and> exn_str error \<noteq> []"
proof -
  have one: "len_in 1 512 (sanitize_error error) \<longleftrightarrow> exn_str error \<noteq> []"
    using sanitize_empty [of "exn_str error"] sanitize_length [of "exn_str error"]
    by (simp add: sanitize_error_def len_in_def Suc_le_eq)
  have corr: "len_in 1 128 (text_or (header_value rt (kr_headers rec) ''event_id'') (dead_letter_id rt rec stage))"
    if "opt_ok (\<lambda>i. length i \<le> 128) (header_value rt (kr_headers rec) ''event_id'')"
  proof -
    have "length (dead_letter_id rt rec stage) = 36"
      by (simp add: dead_letter_id_def deterministic_event_id_def assms(1))
    then have "len_in 1 128 (dead_letter_id rt rec stage)" by (simp add: len_in_def)
    with that show ?thesis
      by (cases "header_value rt (kr_headers rec) ''event_id''")
        (auto simp: text_or_def len_in_def Suc_le_eq)
  qed
  have key: "opt_ok (\<lambda>k. length k \<le> 512) (case kr_key rec of None \<Rightarrow> None
        | Some k \<Rightarrow> if k = [] then None else Some (rt_decode rt k)) \<longleftrightarrow>
      opt_ok (\<lambda>k. length (rt_decode rt k) \<le> 512 \<or> k = []) (kr_key rec)"
    by (auto split: option.splits)
  have valid: "valid_dead_letter (dead_letter_event rt cfg rec stage error attempt_count first now p) \<longleftrightarrow>
      len_in 1 249 (kr_topic rec) \<and> 0 \<le> kr_partition rec \<and> 0 \<le> kr_offset rec \<and>
      opt_ok (\<lambda>k. length (rt_decode rt k) \<le> 512 \<or> k = []) (kr_key rec) \<and>
      len_in 16 64 (trace_of rt rec) \<and>
      opt_ok valid_traceparent (header_value rt (kr_headers rec) ''traceparent'') \<and>
      opt_ok (\<lambda>i. length i \<le> 128) (header_value rt (kr_headers rec) ''event_id'') \<and>
      exn_str error \<noteq> []" for p
    using assms corr one key
    by (auto simp: valid_dead_letter_def valid_envelope_def valid_dead_letter_payload_def
        dead_letter_event_def Let_def trace_of_def dead_letter_id_def deterministic_event_id_def)
  show ?thesis
    by (cases "kr_value rec")
      (auto simp: publish_dead_letter_def safe_original_payload_def result_simps valid
        record_describable_def)
qed

text \<open>
  C26. Exactly which failures reach the dead-letter topic. With an ordinary service name, stage and
  exception class, publishing succeeds precisely when the record has a value, its coordinates, key
  and headers fit the dead letter's contract (a missing or empty \<open>trace_id\<close> header is replaced, a
  shorter one is not), and the error has a non-empty message; otherwise publishing itself raises.
\<close>

theorem dead_letter_published_iff:
  assumes "\<And>s. length (rt_uuid5 rt s) = 36" and "len_in 2 64 (service_name cfg)"
    and "len_in 1 64 stage" and "len_in 1 128 (exn_class error)" and "1 \<le> attempt_count"
  shows "(\<exists>m. publish_dead_letter rt cfg rec stage error attempt_count first now = Inr m) \<longleftrightarrow>
    record_describable rt rec \<and> exn_str error \<noteq> []"
  using assms by (rule publish_iff)

text \<open>A runtime for the witnesses: no JSON is parsed, decoding is the identity.\<close>

definition pad36 :: "string \<Rightarrow> string" where
  "pad36 s = drop (length s) (replicate 36 (CHR ''0'')) @ drop (length s - 36) s"

lemma length_pad36 [simp]: "length (pad36 s) = 36"
  by (simp add: pad36_def)

definition sample_runtime :: runtime where
  "sample_runtime = \<lparr>rt_uuid5 = pad36, rt_json_loads = (\<lambda>_. None), rt_py_str = (\<lambda>_. ''None''),
     rt_decode = (\<lambda>b. b), rt_carrier = []\<rparr>"

definition sample_record :: "int \<Rightarrow> bytes \<Rightarrow> (string \<times> bytes) list \<Rightarrow> kafka_record" where
  "sample_record off v hs = \<lparr>kr_topic = ''risk.scoring-requests.v1'', kr_partition = 0,
     kr_offset = off, kr_key = Some ''a'', kr_value = Some v, kr_headers = hs\<rparr>"

lemma sample_describable:
  "0 \<le> off \<Longrightarrow> record_describable sample_runtime
     (sample_record off v [(''trace_id'', replicate 32 (CHR ''a''))])"
  by (simp add: record_describable_def sample_record_def sample_runtime_def len_in_def trace_of_def
      text_or_def numeral_eq_Suc)

theorem dead_letter_published_iff_witness:
  "\<exists>m. publish_dead_letter sample_runtime (default_settings ''inference-worker'' ''h'')
     (sample_record 7 ''{}'' [(''trace_id'', replicate 32 (CHR ''a''))])
     ''scoring_contract_validation'' (ValidationError ''validation error'') 1 None 5 = Inr m"
  using dead_letter_published_iff [of sample_runtime "default_settings ''inference-worker'' ''h''"
      "''scoring_contract_validation''" "ValidationError ''validation error''" 1
      "sample_record 7 ''{}'' [(''trace_id'', replicate 32 (CHR ''a''))]" None 5]
    sample_describable [of 7]
  by (simp add: sample_runtime_def default_settings_def len_in_def)

text \<open>
  A timeout cannot be dead-lettered: a \<open>TimeoutError\<close> has an empty message, the sanitized error
  of a dead letter must not be empty, so whatever the record, publishing raises instead of sending.
\<close>

theorem timeout_never_dead_lettered:
  "publish_dead_letter rt cfg rec stage TimeoutError attempt_count first now =
     (if kr_value rec = None then Inl (OtherError ''AttributeError'' ''NoneType has no attribute decode'')
      else Inl (ValidationError ''validation error''))"
  by (cases "kr_value rec")
    (simp_all add: publish_dead_letter_def safe_original_payload_def valid_dead_letter_def
      valid_dead_letter_payload_def dead_letter_event_def Let_def sanitize_error_def sanitize_empty
      len_in_def checked_def)

subsection \<open>Identity\<close>

definition failure_identity :: "kafka_record \<Rightarrow> string \<Rightarrow> string" where
  "failure_identity rec stage = event_identity ''risk.dead-lettered.v1''
     [SPart (kr_topic rec), IPart (kr_partition rec), IPart (kr_offset rec), SPart stage]"

lemma published_id:
  "publish_dead_letter rt cfg rec st er n f t = Inr m \<Longrightarrow>
     event_id (msg_value m) = rt_uuid5 rt (failure_identity rec st)"
  by (auto simp: publish_dead_letter_def result_simps dead_letter_event_def Let_def
      dead_letter_id_def deterministic_event_id_def failure_identity_def)

text \<open>
  A dead letter's identifier names the failed delivery: where \<open>uuid5\<close> does not collide on the
  two identities and topics hold no colon, two dead letters have one identifier exactly when topic,
  partition, offset and failure stage agree, whatever the error, the attempts and the time.
\<close>

theorem dead_letter_identity:
  assumes "inj_on (rt_uuid5 rt) {failure_identity rec1 st1, failure_identity rec2 st2}"
    and "CHR '':'' \<notin> set (kr_topic rec1)" and "CHR '':'' \<notin> set (kr_topic rec2)"
    and "publish_dead_letter rt cfg1 rec1 st1 er1 n1 f1 t1 = Inr m1"
    and "publish_dead_letter rt cfg2 rec2 st2 er2 n2 f2 t2 = Inr m2"
  shows "event_id (msg_value m1) = event_id (msg_value m2) \<longleftrightarrow>
    kr_topic rec1 = kr_topic rec2 \<and> kr_partition rec1 = kr_partition rec2 \<and>
    kr_offset rec1 = kr_offset rec2 \<and> st1 = st2"
proof -
  have "event_id (msg_value m1) = event_id (msg_value m2) \<longleftrightarrow>
      failure_identity rec1 st1 = failure_identity rec2 st2"
    unfolding published_id [OF assms(4)] published_id [OF assms(5)]
    using inj_onD [OF assms(1)] by auto
  then show ?thesis
    unfolding failure_identity_def using dead_letter_identity_inj [OF _ assms(2,3)] by metis
qed

lemma sample_publishes:
  assumes "0 \<le> off" and "len_in 1 64 stage" and "1 \<le> n" and "m \<noteq> []"
  shows "\<exists>x. publish_dead_letter sample_runtime (default_settings ''worker'' ''h'')
    (sample_record off v [(''trace_id'', replicate 32 (CHR ''a''))]) stage (DatabaseError m) n None now = Inr x"
  using publish_iff [of sample_runtime "default_settings ''worker'' ''h''" stage "DatabaseError m" n]
    sample_describable [OF assms(1)] assms
  by (simp add: sample_runtime_def default_settings_def len_in_def)

theorem dead_letter_identity_witness:
  "\<exists>m1 m2. publish_dead_letter sample_runtime (default_settings ''worker'' ''h'')
       (sample_record 7 ''{}'' [(''trace_id'', replicate 32 (CHR ''a''))]) ''database''
       (DatabaseError ''lost'') 1 None 5 = Inr m1 \<and>
     publish_dead_letter sample_runtime (default_settings ''worker'' ''h'')
       (sample_record 8 ''{}'' [(''trace_id'', replicate 32 (CHR ''a''))]) ''database''
       (DatabaseError ''lost'') 4 None 9 = Inr m2 \<and>
     event_id (msg_value m1) \<noteq> event_id (msg_value m2)"
proof -
  let ?r = "\<lambda>off. sample_record off ''{}'' [(''trace_id'', replicate 32 (CHR ''a''))]"
  obtain m1 m2 where
    m1: "publish_dead_letter sample_runtime (default_settings ''worker'' ''h'') (?r 7) ''database''
       (DatabaseError ''lost'') 1 None 5 = Inr m1" and
    m2: "publish_dead_letter sample_runtime (default_settings ''worker'' ''h'') (?r 8) ''database''
       (DatabaseError ''lost'') 4 None 9 = Inr m2"
    using sample_publishes [where off = 7 and stage = "''database''" and n = 1 and m = "''lost''"
        and v = "''{}''" and now = 5]
      sample_publishes [where off = 8 and stage = "''database''" and n = 4 and m = "''lost''"
        and v = "''{}''" and now = 9]
    by (auto simp: len_in_def)
  have inj: "inj_on (rt_uuid5 sample_runtime)
      {failure_identity (?r 7) ''database'', failure_identity (?r 8) ''database''}"
    by (simp add: sample_runtime_def failure_identity_def sample_record_def event_identity_def
        str_int_def str_nat.simps digit_char_def pad36_def)
  have "CHR '':'' \<notin> set (kr_topic (?r k))" "kr_offset (?r k) = k" for k
    by (simp_all add: sample_record_def)
  with dead_letter_identity [OF inj _ _ m1 m2] m1 m2 show ?thesis by auto
qed

end
