(* ===== verification/Consumers.thy ===== *)
theory Consumers
  imports Dlq Graph_Lemmas Score_Store
begin

text \<open>
  The Kafka loops of \<open>services/graph_materializer/main.py\<close> and \<open>services/result_projector/main.py\<close>
  (\<open>consume_results\<close>). They share one shape: poll a record, decode it, run the handler in a database
  transaction, commit the offset; dead-letter what the classification calls permanent; count every
  other failure and give up when the budget is used. \<open>consume_one\<close> is that shape, the two services
  are its instances. One partition is modelled, as a list of records whose offsets are indices.
\<close>

record service =
  sv_db :: db
  sv_position :: nat
  sv_committed :: int
  sv_letters :: "dead_letter message list"
  sv_failures :: int

text \<open>
  What the environment decides in one iteration: whether a record arrives before the poll times
  out, the clocks, whether the database transaction fails (rolled back), or commits but its
  acknowledgement is lost, and whether the Kafka calls raise.
\<close>

datatype db_fate = DbCommits | DbFails exn | DbCommitLost exn

record step_env =
  se_polled :: bool
  se_txn :: txn_env
  se_now :: int
  se_fate :: db_fate
  se_commit :: "exn option"
  se_lag :: "exn option"
  se_send :: "exn option"
  se_commit_dead :: "exn option"

definition commit_record :: "kafka_record \<Rightarrow> service \<Rightarrow> service" where
  "commit_record rec st = st\<lparr>sv_committed := kr_offset rec + 1\<rparr>"

text \<open>\<open>async with database.session() as session, session.begin()\<close> around the handler.\<close>

definition in_transaction ::
  "db_fate \<Rightarrow> (db \<Rightarrow> (db \<times> 'r) result) \<Rightarrow> db \<Rightarrow> db \<times> 'r result"
where
  "in_transaction fate work d =
     (case fate of
        DbFails x \<Rightarrow> (d, Inl x)
      | DbCommits \<Rightarrow> (case work d of Inl x \<Rightarrow> (d, Inl x) | Inr (d', r) \<Rightarrow> (d', Inr r))
      | DbCommitLost x \<Rightarrow> (case work d of Inl y \<Rightarrow> (d, Inl y) | Inr (d', r) \<Rightarrow> (d', Inl x)))"

text \<open>The body of the \<open>try\<close>: the state it leaves and the exception it raises, if any.\<close>

definition try_record ::
  "(bytes option \<Rightarrow> 'e result) \<Rightarrow> ('e \<Rightarrow> step_env \<Rightarrow> db \<Rightarrow> (db \<times> 'r) result) \<Rightarrow> kafka_record
     \<Rightarrow> step_env \<Rightarrow> service \<Rightarrow> service \<times> exn option"
where
  "try_record decode work rec env st =
     (case decode (kr_value rec) of
        Inl x \<Rightarrow> (st, Some x)
      | Inr ev \<Rightarrow>
          (case in_transaction (se_fate env) (work ev env) (sv_db st) of (d, outcome) \<Rightarrow>
             let st1 = st\<lparr>sv_db := d\<rparr> in
             case outcome of
               Inl x \<Rightarrow> (st1, Some x)
             | Inr r \<Rightarrow>
                 (case se_commit env of
                    Some x \<Rightarrow> (st1, Some x)
                  | None \<Rightarrow>
                      let st2 = commit_record rec st1 in
                      case se_lag env of
                        Some x \<Rightarrow> (st2, Some x)
                      | None \<Rightarrow> (st2\<lparr>sv_failures := 0\<rparr>, None))))"

text \<open>An \<open>except\<close> branch that dead-letters; what it raises escapes the loop.\<close>

definition dead_letter_record ::
  "runtime \<Rightarrow> settings \<Rightarrow> kafka_record \<Rightarrow> string \<Rightarrow> exn \<Rightarrow> step_env \<Rightarrow> service \<Rightarrow> service \<times> exn option"
where
  "dead_letter_record rt cfg rec stage x env st =
     (case publish_dead_letter rt cfg rec stage x 1 None (se_now env) of
        Inl y \<Rightarrow> (st, Some y)
      | Inr m \<Rightarrow>
          (case se_send env of
             Some y \<Rightarrow> (st, Some y)
           | None \<Rightarrow>
               let st1 = st\<lparr>sv_letters := sv_letters st @ [m]\<rparr> in
               case se_commit_dead env of
                 Some y \<Rightarrow> (st1, Some y)
               | None \<Rightarrow> (commit_record rec st1\<lparr>sv_failures := 0\<rparr>, None)))"

text \<open>The last \<open>except\<close> branch.\<close>

definition count_failure :: "settings \<Rightarrow> string \<Rightarrow> service \<Rightarrow> service \<times> exn option" where
  "count_failure cfg exhausted st =
     (let n = sv_failures st + 1 in
      (st\<lparr>sv_failures := n\<rparr>,
       if retry_max_attempts cfg \<le> n then Some (RuntimeError exhausted) else None))"

definition consume_one ::
  "runtime \<Rightarrow> settings \<Rightarrow> (exn \<Rightarrow> string option) \<Rightarrow> string \<Rightarrow> (bytes option \<Rightarrow> 'e result)
     \<Rightarrow> ('e \<Rightarrow> step_env \<Rightarrow> db \<Rightarrow> (db \<times> 'r) result) \<Rightarrow> kafka_record \<Rightarrow> step_env \<Rightarrow> service
     \<Rightarrow> service \<times> exn option"
where
  "consume_one rt cfg stage_of exhausted decode work rec env st =
     (case try_record decode work rec env st of
        (st1, None) \<Rightarrow> (st1, None)
      | (st1, Some x) \<Rightarrow>
          (case stage_of x of
             Some stage \<Rightarrow> dead_letter_record rt cfg rec stage x env st1
           | None \<Rightarrow> count_failure cfg exhausted st1))"

text \<open>One turn of \<open>while not stop.is_set()\<close>: \<open>getone\<close> advances the position whatever comes after.\<close>

definition service_turn ::
  "(kafka_record \<Rightarrow> step_env \<Rightarrow> service \<Rightarrow> service \<times> exn option) \<Rightarrow> kafka_record list \<Rightarrow> step_env
     \<Rightarrow> service \<Rightarrow> service \<times> exn option"
where
  "service_turn consume records env st =
     (if se_polled env \<and> sv_position st < length records
      then consume (records ! sv_position st) env (st\<lparr>sv_position := sv_position st + 1\<rparr>)
      else (st, None))"

fun service_run ::
  "(kafka_record \<Rightarrow> step_env \<Rightarrow> service \<Rightarrow> service \<times> exn option) \<Rightarrow> kafka_record list
     \<Rightarrow> step_env list \<Rightarrow> service \<Rightarrow> service \<times> exn option"
where
  "service_run consume records [] st = (st, None)"
| "service_run consume records (env # envs) st =
     (case service_turn consume records env st of
        (st1, Some x) \<Rightarrow> (st1, Some x)
      | (st1, None) \<Rightarrow> service_run consume records envs st1)"

text \<open>A new process of the group starts at the committed offset with no failures.\<close>

definition restarted :: "service \<Rightarrow> service" where
  "restarted st = st\<lparr>sv_position := nat (sv_committed st), sv_failures := 0\<rparr>"

text \<open>Decoding a record value: without one, validation fails.\<close>

definition decode_value :: "(bytes \<Rightarrow> 'e option) \<Rightarrow> ('e \<Rightarrow> bool) \<Rightarrow> bytes option \<Rightarrow> 'e result" where
  "decode_value parse valid value =
     (case value of
        None \<Rightarrow> Inl (ValidationError ''validation error'')
      | Some bytes \<Rightarrow> decode_event parse valid bytes)"

subsection \<open>The graph materializer\<close>

text \<open>
  \<open>ValidationError\<close> is caught first; it is a \<open>ValueError\<close> in Python, but a constructor of its own
  here.
\<close>

fun materializer_stage :: "exn \<Rightarrow> string option" where
  "materializer_stage (ValidationError _) = Some ''graph_contract_validation''"
| "materializer_stage (IntegrityError _) = Some ''graph_database_constraint''"
| "materializer_stage (ValueError _) = Some ''graph_database_constraint''"
| "materializer_stage _ = None"

definition materializer_work ::
  "runtime \<Rightarrow> settings \<Rightarrow> graph_batch_event \<Rightarrow> step_env \<Rightarrow> db \<Rightarrow> (db \<times> batch_outcome) result"
where
  "materializer_work rt cfg ev env d =
     materialize_graph_batch (rt_uuid5 rt) (scoring_request_topic cfg)
       (graph_materializer_group cfg) (se_txn env) ev d"

definition materializer_consume ::
  "runtime \<Rightarrow> settings \<Rightarrow> (bytes \<Rightarrow> graph_batch_event option) \<Rightarrow> kafka_record \<Rightarrow> step_env \<Rightarrow> service
     \<Rightarrow> service \<times> exn option"
where
  "materializer_consume rt cfg parse =
     consume_one rt cfg materializer_stage
       ''graph materializer exhausted its bounded retry budget''
       (decode_value parse valid_graph_batch) (materializer_work rt cfg)"

definition materializer_run ::
  "runtime \<Rightarrow> settings \<Rightarrow> (bytes \<Rightarrow> graph_batch_event option) \<Rightarrow> kafka_record list \<Rightarrow> step_env list
     \<Rightarrow> service \<Rightarrow> service \<times> exn option"
where
  "materializer_run rt cfg parse = service_run (materializer_consume rt cfg parse)"

subsection \<open>The result projector\<close>

fun projector_stage :: "exn \<Rightarrow> string option" where
  "projector_stage (ValidationError _) = Some ''result_contract_validation''"
| "projector_stage (IntegrityError _) = Some ''result_database_constraint''"
| "projector_stage _ = None"

definition redis_topic :: "settings \<Rightarrow> string" where
  "redis_topic cfg = ''redis:'' @ redis_stream_key cfg"

definition projector_work ::
  "settings \<Rightarrow> scoring_completed \<Rightarrow> step_env \<Rightarrow> db \<Rightarrow> (db \<times> bool) result"
where
  "projector_work cfg ev env d =
     project_scoring_result (redis_topic cfg) (result_projector_group cfg) (env_now (se_txn env)) ev d"

definition projector_consume ::
  "runtime \<Rightarrow> settings \<Rightarrow> (bytes \<Rightarrow> scoring_completed option) \<Rightarrow> kafka_record \<Rightarrow> step_env \<Rightarrow> service
     \<Rightarrow> service \<times> exn option"
where
  "projector_consume rt cfg parse =
     consume_one rt cfg projector_stage ''result projector exhausted its bounded retry budget''
       (decode_value parse valid_scoring_completed) (projector_work cfg)"

definition projector_run ::
  "runtime \<Rightarrow> settings \<Rightarrow> (bytes \<Rightarrow> scoring_completed option) \<Rightarrow> kafka_record list \<Rightarrow> step_env list
     \<Rightarrow> service \<Rightarrow> service \<times> exn option"
where
  "projector_run rt cfg parse = service_run (projector_consume rt cfg parse)"

end
