(* ===== verification/Consumer_Props.thy ===== *)
theory Consumer_Props
  imports Consumers Graph_Props Score_Props
begin

text \<open>
  What the two Kafka loops guarantee. The locale \<open>kafka_consumer\<close> states what a loop needs of its
  handler; its lemmas hold of both services through the interpretations below.
\<close>

text \<open>A record is handled when its event is in the inbox or a dead letter names its offset.\<close>

definition handled ::
  "(bytes option \<Rightarrow> 'e result) \<Rightarrow> ('e \<Rightarrow> string) \<Rightarrow> (db \<Rightarrow> string \<Rightarrow> bool) \<Rightarrow> kafka_record \<Rightarrow> service \<Rightarrow> bool"
where
  "handled decode ident claimed rec st \<longleftrightarrow>
     (\<exists>ev. decode (kr_value rec) = Inr ev \<and> claimed (sv_db st) (ident ev)) \<or>
     (\<exists>m \<in> set (sv_letters st). dl_original_topic (payload (msg_value m)) = kr_topic rec \<and>
        dl_original_partition (payload (msg_value m)) = kr_partition rec \<and>
        dl_original_offset (payload (msg_value m)) = kr_offset rec)"

definition no_gap ::
  "(kafka_record \<Rightarrow> service \<Rightarrow> bool) \<Rightarrow> kafka_record list \<Rightarrow> service \<Rightarrow> bool"
where
  "no_gap done records st \<longleftrightarrow>
     (\<forall>i < length records. int i < sv_committed st \<longrightarrow> done (records ! i) st)"

text \<open>Kafka numbers the records of a partition.\<close>

definition offsets_ok :: "kafka_record list \<Rightarrow> bool" where
  "offsets_ok records \<longleftrightarrow> (\<forall>i < length records. kr_offset (records ! i) = int i)"

lemma published_coordinates:
  assumes "publish_dead_letter rt cfg rec stage x n f t = Inr m"
  shows "dl_original_topic (payload (msg_value m)) = kr_topic rec \<and>
    dl_original_partition (payload (msg_value m)) = kr_partition rec \<and>
    dl_original_offset (payload (msg_value m)) = kr_offset rec"
  using assms by (auto simp: publish_dead_letter_def result_simps dead_letter_event_def Let_def)

lemma dead_letter_record_cases:
  assumes "dead_letter_record rt cfg rec stage x env st = (st', ex)"
  obtains (raised) y where "st' = st" "ex = Some y"
  | (sent) m y where "publish_dead_letter rt cfg rec stage x 1 None (se_now env) = Inr m"
      "st' = st\<lparr>sv_letters := sv_letters st @ [m]\<rparr>" "ex = Some y"
  | (committed) m where "publish_dead_letter rt cfg rec stage x 1 None (se_now env) = Inr m"
      "st' = st\<lparr>sv_letters := sv_letters st @ [m], sv_committed := kr_offset rec + 1, sv_failures := 0\<rparr>"
      "ex = None"
proof (cases "publish_dead_letter rt cfg rec stage x 1 None (se_now env)")
  case (Inl y)
  with assms show thesis by (intro raised [of y]) (simp_all add: dead_letter_record_def)
next
  case (Inr m)
  show thesis
  proof (cases "se_send env")
    case (Some y)
    with assms Inr show thesis by (intro raised [of y]) (simp_all add: dead_letter_record_def)
  next
    case send: None
    show thesis
    proof (cases "se_commit_dead env")
      case (Some y)
      with assms Inr send show thesis
        by (intro sent [of m y]) (simp_all add: dead_letter_record_def Let_def)
    next
      case None
      with assms Inr send show thesis
        by (intro committed [of m]) (simp_all add: dead_letter_record_def commit_record_def Let_def)
    qed
  qed
qed

lemma try_record_cases:
  assumes "try_record decode work rec env st = (st', ex)"
  obtains (unchanged) x where "st' = st" "ex = Some x"
  | (stored) ev d r x where "decode (kr_value rec) = Inr ev" "work ev env (sv_db st) = Inr (d, r)"
      "st' = st\<lparr>sv_db := d\<rparr>" "ex = Some x"
  | (committed) ev d r x where "decode (kr_value rec) = Inr ev" "work ev env (sv_db st) = Inr (d, r)"
      "st' = st\<lparr>sv_db := d, sv_committed := kr_offset rec + 1\<rparr>" "ex = Some x"
  | (finished) ev d r where "decode (kr_value rec) = Inr ev" "work ev env (sv_db st) = Inr (d, r)"
      "st' = st\<lparr>sv_db := d, sv_committed := kr_offset rec + 1, sv_failures := 0\<rparr>" "ex = None"
proof (cases "decode (kr_value rec)")
  case (Inl x)
  with assms that(1) show thesis by (auto simp: try_record_def)
next
  case (Inr ev)
  obtain d out where t: "in_transaction (se_fate env) (work ev env) (sv_db st) = (d, out)" by fastforce
  have db: "d = sv_db st \<and> (\<exists>x. out = Inl x) \<or> (\<exists>r. work ev env (sv_db st) = Inr (d, r))"
    using t by (auto simp: in_transaction_def split: db_fate.splits sum.splits)
  have out: "\<exists>r'. work ev env (sv_db st) = Inr (d, r')" if "out = Inr r" for r
    using db that by auto
  show thesis
  proof (cases out)
    case (Inl x)
    with assms Inr t have "st' = st\<lparr>sv_db := d\<rparr>" "ex = Some x" by (auto simp: try_record_def Let_def)
    with db that(1,2) Inr show thesis by auto
  next
    case o: (Inr r)
    from out [OF o] obtain r' where w: "work ev env (sv_db st) = Inr (d, r')" by blast
    show thesis
    proof (cases "se_commit env")
      case (Some x)
      with assms Inr t o w show thesis
        by (intro that(2) [of ev d r' x]) (simp_all add: try_record_def)
    next
      case None
      note c = this
      show thesis
      proof (cases "se_lag env")
        case (Some x)
        with assms Inr t o w c show thesis
          by (intro that(3) [of ev d r' x]) (simp_all add: try_record_def Let_def commit_record_def)
      next
        case None
        with assms Inr t o w c show thesis
          by (intro that(4) [of ev d r']) (simp_all add: try_record_def Let_def commit_record_def)
      qed
    qed
  qed
qed

locale kafka_consumer =
  fixes rt :: runtime and cfg :: settings and stage_of :: "exn \<Rightarrow> string option"
    and exhausted :: string and decode :: "bytes option \<Rightarrow> 'e result"
    and work :: "'e \<Rightarrow> step_env \<Rightarrow> db \<Rightarrow> (db \<times> 'r) result"
    and ident :: "'e \<Rightarrow> string" and claimed :: "db \<Rightarrow> string \<Rightarrow> bool"
  assumes work_ok: "work ev env d = Inr (d', r) \<Longrightarrow> db_ok d \<Longrightarrow> db_ok d'"
    and work_claims: "work ev env d = Inr (d', r) \<Longrightarrow> claimed d' (ident ev)"
    and work_keeps: "work ev env d = Inr (d', r) \<Longrightarrow> claimed d i \<Longrightarrow> claimed d' i"
begin

abbreviation "consume \<equiv> consume_one rt cfg stage_of exhausted decode work"
abbreviation "is_done \<equiv> handled decode ident claimed"

lemma handled_store:
  "work ev env (sv_db st) = Inr (d, r) \<Longrightarrow> is_done q st \<Longrightarrow>
     sv_db st' = d \<Longrightarrow> sv_letters st' = sv_letters st \<Longrightarrow> is_done q st'"
  unfolding handled_def using work_keeps by metis

lemma handled_letters:
  "is_done q st \<Longrightarrow> sv_db st' = sv_db st \<Longrightarrow> set (sv_letters st) \<subseteq> set (sv_letters st') \<Longrightarrow>
     is_done q st'"
  unfolding handled_def by auto

lemma handled_now:
  "decode (kr_value rec) = Inr ev \<Longrightarrow> work ev env d0 = Inr (sv_db st', r) \<Longrightarrow> is_done rec st'"
  unfolding handled_def using work_claims by metis

lemma try_step:
  assumes "try_record decode work rec env st = (st', ex)"
  shows "sv_position st' = sv_position st \<and> (db_ok (sv_db st) \<longrightarrow> db_ok (sv_db st')) \<and>
    (is_done q st \<longrightarrow> is_done q st') \<and>
    (sv_committed st' = sv_committed st \<or> sv_committed st' = kr_offset rec + 1 \<and> is_done rec st') \<and>
    (ex = None \<longrightarrow> sv_committed st' = kr_offset rec + 1 \<and> sv_failures st' = 0) \<and>
    (ex \<noteq> None \<longrightarrow> sv_failures st' = sv_failures st)"
  using assms
proof (cases rule: try_record_cases)
  case (stored ev d r x)
  then show ?thesis using work_ok handled_store [OF stored(2), of q st'] by auto
next
  case (committed ev d r x)
  then show ?thesis
    using work_ok handled_store [OF committed(2), of q st'] handled_now [OF committed(1), of env "sv_db st" st' r]
    by auto
next
  case (finished ev d r)
  then show ?thesis
    using work_ok handled_store [OF finished(2), of q st'] handled_now [OF finished(1), of env "sv_db st" st' r]
    by auto
qed auto

lemma dead_letter_step:
  assumes "dead_letter_record rt cfg rec stage x env st = (st', ex)"
  shows "sv_position st' = sv_position st \<and> sv_db st' = sv_db st \<and>
    (is_done q st \<longrightarrow> is_done q st') \<and>
    (sv_committed st' = sv_committed st \<or> sv_committed st' = kr_offset rec + 1 \<and> is_done rec st') \<and>
    (ex = None \<longrightarrow> sv_committed st' = kr_offset rec + 1 \<and> sv_failures st' = 0)"
  using assms
proof (cases rule: dead_letter_record_cases)
  case (sent m y)
  then show ?thesis using handled_letters [of q st st'] by auto
next
  case (committed m)
  then show ?thesis
    using handled_letters [of q st st'] published_coordinates [OF committed(1)]
    by (auto simp: handled_def)
qed auto

text \<open>What one iteration may do.\<close>

lemma consume_step:
  assumes "consume rec env st = (st', ex)"
  shows "sv_position st' = sv_position st \<and> (db_ok (sv_db st) \<longrightarrow> db_ok (sv_db st')) \<and>
    (is_done q st \<longrightarrow> is_done q st') \<and>
    (sv_committed st' = sv_committed st \<or> sv_committed st' = kr_offset rec + 1 \<and> is_done rec st') \<and>
    (ex = None \<longrightarrow> sv_committed st' = kr_offset rec + 1 \<and> sv_failures st' = 0 \<or>
       sv_failures st' = sv_failures st + 1 \<and> sv_failures st' < retry_max_attempts cfg)"
proof -
  obtain st1 ex1 where t: "try_record decode work rec env st = (st1, ex1)" by fastforce
  note step = try_step [OF t]
  show ?thesis
  proof (cases ex1)
    case None
    with assms t have "st' = st1" "ex = None" by (auto simp: consume_one_def)
    with step [of q] None show ?thesis by auto
  next
    case (Some x)
    show ?thesis
    proof (cases "stage_of x")
      case None
      with assms t Some have "st' = st1\<lparr>sv_failures := sv_failures st1 + 1\<rparr>"
        "ex = (if retry_max_attempts cfg \<le> sv_failures st1 + 1 then Some (RuntimeError exhausted) else None)"
        by (auto simp: consume_one_def count_failure_def Let_def)
      moreover from this have "is_done p st1 \<longrightarrow> is_done p st'" for p
        using handled_letters [of p st1 st'] by auto
      ultimately show ?thesis using step [of q] step [of rec] Some by auto
    next
      case stage: (Some stage)
      with assms t Some have d: "dead_letter_record rt cfg rec stage x env st1 = (st', ex)"
        by (auto simp: consume_one_def)
      show ?thesis
        using step [of q] dead_letter_step [OF d, of q] dead_letter_step [OF d, of rec] Some by auto
    qed
  qed
qed

lemma turn_step:
  assumes "service_turn consume records env st = (st', ex)" and "offsets_ok records"
  shows "(db_ok (sv_db st) \<longrightarrow> db_ok (sv_db st')) \<and> (is_done q st \<longrightarrow> is_done q st') \<and>
    (sv_committed st' = sv_committed st \<or>
       sv_position st < length records \<and> sv_committed st' = int (sv_position st) + 1 \<and>
       is_done (records ! sv_position st) st') \<and>
    (ex = None \<longrightarrow> st' = st \<or>
       sv_position st < length records \<and> sv_position st' = sv_position st + 1 \<and>
       (sv_committed st' = int (sv_position st) + 1 \<and> sv_failures st' = 0 \<or>
        sv_failures st' = sv_failures st + 1 \<and> sv_failures st' < retry_max_attempts cfg))"
proof (cases "se_polled env \<and> sv_position st < length records")
  case True
  define rec where "rec = records ! sv_position st"
  define st1 where "st1 = st\<lparr>sv_position := sv_position st + 1\<rparr>"
  from True assms(1) have c: "consume rec env st1 = (st', ex)"
    by (simp add: service_turn_def rec_def st1_def)
  have "kr_offset rec = int (sv_position st)"
    using True assms(2) by (simp add: offsets_ok_def rec_def)
  with consume_step [OF c, of q] True show ?thesis
    by (auto simp: st1_def rec_def [symmetric] handled_def)
next
  case False
  with assms(1) show ?thesis by (auto simp: service_turn_def)
qed

lemma run_db_ok:
  "service_run consume records envs st = (st', ex) \<Longrightarrow> offsets_ok records \<Longrightarrow> db_ok (sv_db st) \<Longrightarrow>
     db_ok (sv_db st')"
proof (induction envs arbitrary: st)
  case (Cons env envs)
  obtain st1 ex1 where t: "service_turn consume records env st = (st1, ex1)" by fastforce
  with Cons turn_step [OF t Cons.prems(2)] show ?case by (cases ex1) auto
qed simp

text \<open>The offset is behind the position only while failures are being counted.\<close>

definition in_step :: "kafka_record list \<Rightarrow> service \<Rightarrow> bool" where
  "in_step records st \<longleftrightarrow> no_gap is_done records st \<and> sv_committed st = int (sv_position st) \<and>
     sv_failures st = 0"

lemma no_gap_turn:
  assumes t: "service_turn consume records env st = (st', ex)" and off: "offsets_ok records"
    and inv: "in_step records st"
  shows "no_gap is_done records st'"
  unfolding no_gap_def
proof (intro allI impI)
  fix i
  assume i: "i < length records" "int i < sv_committed st'"
  show "is_done (records ! i) st'"
  proof (cases "int i < sv_committed st")
    case True
    with inv i(1) have "is_done (records ! i) st" by (simp add: in_step_def no_gap_def)
    with turn_step [OF t off] show ?thesis by blast
  next
    case False
    with inv have "sv_position st \<le> i" by (simp add: in_step_def)
    with turn_step [OF t off] i False inv show ?thesis
      by (auto simp: in_step_def dest: antisym)
  qed
qed

lemma in_step_turn:
  assumes t: "service_turn consume records env st = (st', None)" and off: "offsets_ok records"
    and inv: "in_step records st" and "sv_failures st' = 0 \<or> retry_max_attempts cfg \<le> 1"
  shows "in_step records st'"
proof -
  have "st' = st \<or> sv_position st' = sv_position st + 1 \<and>
      (sv_committed st' = int (sv_position st) + 1 \<and> sv_failures st' = 0 \<or>
       sv_failures st' = 1 \<and> 1 < retry_max_attempts cfg)"
    using turn_step [OF t off, of "records ! 0"] inv by (auto simp: in_step_def)
  then show ?thesis
    using no_gap_turn [OF t off inv] assms(4) inv by (auto simp: in_step_def)
qed

lemma run_no_gap:
  assumes off: "offsets_ok records"
  shows "service_run consume records envs st = (st', ex) \<Longrightarrow> in_step records st \<Longrightarrow>
    retry_max_attempts cfg \<le> 1 \<or>
      (\<forall>k \<le> length envs. sv_failures (fst (service_run consume records (take k envs) st)) = 0) \<Longrightarrow>
    no_gap is_done records st'"
proof (induction envs arbitrary: st)
  case Nil
  then show ?case by (simp add: in_step_def)
next
  case (Cons env envs)
  obtain st1 ex1 where t: "service_turn consume records env st = (st1, ex1)" by fastforce
  show ?case
  proof (cases ex1)
    case (Some x)
    with Cons.prems t no_gap_turn [OF t off] show ?thesis by auto
  next
    case None
    have zero: "sv_failures st1 = 0 \<or> retry_max_attempts cfg \<le> 1"
      using Cons.prems(3) t None by (auto dest!: spec [of _ 1])
    have later: "retry_max_attempts cfg \<le> 1 \<or>
        (\<forall>k \<le> length envs. sv_failures (fst (service_run consume records (take k envs) st1)) = 0)"
      using Cons.prems(3)
    proof (elim disjE)
      assume all: "\<forall>k \<le> length (env # envs).
        sv_failures (fst (service_run consume records (take k (env # envs)) st)) = 0"
      have "sv_failures (fst (service_run consume records (take k envs) st1)) = 0"
        if "k \<le> length envs" for k
        using all [rule_format, of "Suc k"] that t None by simp
      then show ?thesis by simp
    qed simp
    from Cons.IH [OF _ in_step_turn [OF t [unfolded None] off Cons.prems(2) zero] later]
      Cons.prems(1) t None show ?thesis by simp
  qed
qed

text \<open>The database is down: nothing is lost, and the service stops when its budget is used.\<close>

lemma outage_turn:
  assumes "se_polled env" and "sv_position st < length records" and "se_fate env = DbFails x"
    and "stage_of x = None"
    and "decode (kr_value (records ! sv_position st)) = Inr ev"
  shows "service_turn consume records env st =
    (st\<lparr>sv_position := sv_position st + 1, sv_failures := sv_failures st + 1\<rparr>,
     if retry_max_attempts cfg \<le> sv_failures st + 1 then Some (RuntimeError exhausted) else None)"
  using assms
  by (simp add: service_turn_def consume_one_def try_record_def in_transaction_def count_failure_def
      Let_def)

lemma outage_run:
  assumes "\<And>rec. rec \<in> set records \<Longrightarrow> \<exists>ev. decode (kr_value rec) = Inr ev"
    and "\<And>env. env \<in> set envs \<Longrightarrow> se_polled env \<and> (\<exists>x. se_fate env = DbFails x \<and> stage_of x = None)"
    and "sv_position st + length envs \<le> length records"
    and "sv_failures st + int (length envs) = retry_max_attempts cfg" and "envs \<noteq> []"
  shows "service_run consume records envs st =
    (st\<lparr>sv_position := sv_position st + length envs, sv_failures := retry_max_attempts cfg\<rparr>,
     Some (RuntimeError exhausted))"
  using assms
proof (induction envs arbitrary: st)
  case (Cons env envs)
  from Cons.prems(2) obtain x where x: "se_polled env" "se_fate env = DbFails x" "stage_of x = None"
    by auto
  have pos: "sv_position st < length records" using Cons.prems(3) by simp
  then obtain ev where ev: "decode (kr_value (records ! sv_position st)) = Inr ev"
    using Cons.prems(1) nth_mem by blast
  note turn = outage_turn [OF x(1) pos x(2,3) ev]
  show ?case
  proof (cases "envs = []")
    case True
    with turn Cons.prems(4) show ?thesis by simp
  next
    case False
    let ?st = "st\<lparr>sv_position := sv_position st + 1, sv_failures := sv_failures st + 1\<rparr>"
    have rest: "service_run consume records envs ?st =
        (?st\<lparr>sv_position := sv_position ?st + length envs, sv_failures := retry_max_attempts cfg\<rparr>,
         Some (RuntimeError exhausted))"
    proof (rule Cons.IH)
      show "se_polled e \<and> (\<exists>x. se_fate e = DbFails x \<and> stage_of x = None)" if "e \<in> set envs" for e
        using Cons.prems(2) that by simp
    qed (use Cons.prems(1,3,4) False in simp_all)
    have "\<not> retry_max_attempts cfg \<le> sv_failures st + 1"
      using Cons.prems(4) False by (cases envs) auto
    with turn rest show ?thesis by simp
  qed
qed simp

end

subsection \<open>The two services\<close>

lemma materializer_work_claims:
  "materializer_work rt cfg ev env d = Inr (d', r) \<Longrightarrow>
     inbox_claimed (graph_materializer_group cfg) d' i \<longleftrightarrow>
       inbox_claimed (graph_materializer_group cfg) d i \<or> i = event_id ev"
  unfolding materializer_work_def by (rule materialize_claims)

interpretation materializer:
  kafka_consumer rt cfg materializer_stage "''graph materializer exhausted its bounded retry budget''"
    "decode_value parse valid_graph_batch" "materializer_work rt cfg" event_id
    "inbox_claimed (graph_materializer_group cfg)"
  for rt cfg parse
  by unfold_locales (auto simp: materializer_work_claims materializer_work_def intro: materialize_db_ok)

lemma projector_work_claims:
  "projector_work cfg ev env d = Inr (d', r) \<Longrightarrow>
     inbox_claimed (result_projector_group cfg) d' i \<longleftrightarrow>
       inbox_claimed (result_projector_group cfg) d i \<or> i = event_id ev"
  unfolding projector_work_def by (rule project_claims)

interpretation projector:
  kafka_consumer rt cfg projector_stage "''result projector exhausted its bounded retry budget''"
    "decode_value parse valid_scoring_completed" "projector_work cfg" event_id
    "inbox_claimed (result_projector_group cfg)"
  for rt cfg parse
  by unfold_locales (auto simp: projector_work_claims projector_work_def intro: project_db_ok)

lemmas materializer_defs = materializer_run_def materializer_consume_def
lemmas projector_defs = projector_run_def projector_consume_def

definition graph_done :: "settings \<Rightarrow> (bytes \<Rightarrow> graph_batch_event option) \<Rightarrow> kafka_record \<Rightarrow> service \<Rightarrow> bool" where
  "graph_done cfg parse =
     handled (decode_value parse valid_graph_batch) event_id
       (inbox_claimed (graph_materializer_group cfg))"

definition result_done :: "settings \<Rightarrow> (bytes \<Rightarrow> scoring_completed option) \<Rightarrow> kafka_record \<Rightarrow> service \<Rightarrow> bool" where
  "result_done cfg parse =
     handled (decode_value parse valid_scoring_completed) event_id
       (inbox_claimed (result_projector_group cfg))"

text \<open>
  The result projector, as long as no failure is counted: from a state where every committed record
  is handled and nothing is in flight, a run that counts no failure (or any run at all, with a retry
  budget of one) ends with every result below the committed offset projected or dead-lettered.
\<close>

theorem projector_no_gap:
  assumes "offsets_ok records"
    and "projector_run rt cfg parse records envs st = (st', ex)"
    and "no_gap (result_done cfg parse) records st" and "sv_committed st = int (sv_position st)"
    and "sv_failures st = 0"
    and "retry_max_attempts cfg \<le> 1 \<or> (\<forall>k \<le> length envs.
      sv_failures (fst (projector_run rt cfg parse records (take k envs) st)) = 0)"
  shows "no_gap (result_done cfg parse) records st'"
  using projector.run_no_gap [OF assms(1), of rt cfg parse envs st st' ex] assms(2-)
  by (simp add: projector_defs result_done_def projector.in_step_def)

lemma turn_success:
  assumes "se_polled env" and "sv_position st < length records" and "se_fate env = DbCommits"
    and "se_commit env = None" and "se_lag env = None"
    and "decode (kr_value (records ! sv_position st)) = Inr ev"
    and "work ev env (sv_db st) = Inr (d, r)"
  shows "service_turn (consume_one rt cfg stage_of exhausted decode work) records env st =
    (st\<lparr>sv_position := sv_position st + 1, sv_db := d,
        sv_committed := kr_offset (records ! sv_position st) + 1, sv_failures := 0\<rparr>, None)"
  using assms
  by (simp add: service_turn_def consume_one_def try_record_def in_transaction_def commit_record_def
      Let_def)

text \<open>
  A counted failure loses the record. If the database fails for one batch, within the retry
  budget, and the next batch succeeds, the committed offset passes both: the failed batch is in no
  inbox and in no dead letter, and a restarted process starts after it.
\<close>

theorem failed_record_skipped:
  assumes off: "offsets_ok records" and p: "sv_position st + 1 < length records"
    and budget: "sv_failures st + 1 < retry_max_attempts cfg"
    and ev0: "decode_value parse valid_graph_batch (kr_value (records ! sv_position st)) = Inr ev0"
    and ev1: "decode_value parse valid_graph_batch (kr_value (records ! (sv_position st + 1))) = Inr ev1"
    and ids: "event_id ev0 \<noteq> event_id ev1"
      "\<not> inbox_claimed (graph_materializer_group cfg) (sv_db st) (event_id ev0)"
    and env0: "se_polled env0" "se_fate env0 = DbFails (DatabaseError msg)"
    and env1: "se_polled env1" "se_fate env1 = DbCommits" "se_commit env1 = None" "se_lag env1 = None"
    and ok: "materializer_work rt cfg ev1 env1 (sv_db st) = Inr (d, r)"
  shows "\<exists>st'. materializer_run rt cfg parse records [env0, env1] st = (st', None) \<and>
    sv_committed st' = int (sv_position st) + 2 \<and> sv_letters st' = sv_letters st \<and>
    \<not> inbox_claimed (graph_materializer_group cfg) (sv_db st') (event_id ev0) \<and>
    sv_position (restarted st') = sv_position st + 2"
proof -
  let ?st1 = "st\<lparr>sv_position := sv_position st + 1, sv_failures := sv_failures st + 1\<rparr>"
  have t0: "service_turn (materializer_consume rt cfg parse) records env0 st = (?st1, None)"
    using materializer.outage_turn [OF env0(1) _ env0(2), of st records parse ev0] p ev0 budget
    by (simp add: materializer_consume_def)
  have t1: "service_turn (materializer_consume rt cfg parse) records env1 ?st1 =
      (?st1\<lparr>sv_position := sv_position st + 2, sv_db := d,
         sv_committed := kr_offset (records ! (sv_position st + 1)) + 1, sv_failures := 0\<rparr>, None)"
    using turn_success [OF env1(1) _ env1(2-4), of ?st1 records
        "decode_value parse valid_graph_batch" ev1 "materializer_work rt cfg" d r] p ev1 ok
    by (simp add: materializer_consume_def)
  have "kr_offset (records ! (sv_position st + 1)) = int (sv_position st) + 1"
    using off p by (auto simp: offsets_ok_def)
  moreover have "\<not> inbox_claimed (graph_materializer_group cfg) d (event_id ev0)"
    using ids by (simp add: materializer_work_claims [OF ok])
  ultimately show ?thesis
    using t0 t1 by (simp add: materializer_run_def restarted_def)
qed

text \<open>
  An outage stops the materializer within its budget and loses nothing: if the database fails
  every transaction, the service raises after exactly \<open>retry_max_attempts\<close> records, with the stored
  data, the committed offset and the dead letters as they were, and a new process starts where the
  old one had committed.
\<close>

theorem outage_stops_materializer:
  assumes "\<And>rec. rec \<in> set records \<Longrightarrow>
      \<exists>ev. decode_value parse valid_graph_batch (kr_value rec) = Inr ev"
    and "\<And>env. env \<in> set envs \<Longrightarrow> se_polled env \<and> (\<exists>m. se_fate env = DbFails (DatabaseError m))"
    and "sv_position st + length envs \<le> length records"
    and "sv_failures st = 0" and "int (length envs) = retry_max_attempts cfg" and "envs \<noteq> []"
  shows "\<exists>st'. materializer_run rt cfg parse records envs st =
      (st', Some (RuntimeError ''graph materializer exhausted its bounded retry budget'')) \<and>
    sv_db st' = sv_db st \<and> sv_letters st' = sv_letters st \<and> sv_committed st' = sv_committed st \<and>
    sv_position (restarted st') = nat (sv_committed st)"
  using materializer.outage_run [where parse = parse and rt = rt and cfg = cfg and st = st
      and envs = envs and records = records] assms
  by (fastforce simp: materializer_defs restarted_def)

subsection \<open>Witnesses\<close>

definition sample_parse :: "bytes \<Rightarrow> graph_batch_event option" where
  "sample_parse b = (if b = ''ab'' then Some batch_ab else if b = ''bc'' then Some batch_bc else None)"

definition graph_record :: "int \<Rightarrow> bytes \<Rightarrow> kafka_record" where
  "graph_record off b = \<lparr>kr_topic = ''risk.graph-batches.v1'', kr_partition = 0, kr_offset = off,
     kr_key = Some ''elliptic-replay'', kr_value = Some b, kr_headers = []\<rparr>"

definition step_with :: "db_fate \<Rightarrow> step_env" where
  "step_with fate = \<lparr>se_polled = True, se_txn = sample_env 5, se_now = 6, se_fate = fate,
     se_commit = None, se_lag = None, se_send = None, se_commit_dead = None\<rparr>"

definition fresh_service :: "db \<Rightarrow> service" where
  "fresh_service d = \<lparr>sv_db = d, sv_position = 0, sv_committed = 0, sv_letters = [], sv_failures = 0\<rparr>"

definition sample_cfg :: settings where
  "sample_cfg = default_settings ''graph-materializer'' ''h''"

definition graph_runtime :: runtime where
  "graph_runtime = sample_runtime\<lparr>rt_uuid5 := sample_uuid5\<rparr>"

lemma sample_decodes:
  "decode_value sample_parse valid_graph_batch (kr_value (graph_record i ''ab'')) = Inr batch_ab"
  "decode_value sample_parse valid_graph_batch (kr_value (graph_record i ''bc'')) = Inr batch_bc"
  by (simp_all add: decode_value_def graph_record_def sample_parse_def valid_batch_ab valid_batch_bc)

lemma sample_work:
  assumes "\<not> inbox_claimed (graph_materializer_group cfg) d (event_id batch_bc)"
  obtains d' r where "materializer_work graph_runtime cfg batch_bc (step_with fate) d = Inr (d', r)"
proof -
  obtain d' r where "materialize_graph_batch sample_uuid5 (scoring_request_topic cfg)
      (graph_materializer_group cfg) (sample_env 5) batch_bc d = Inr (d', r)"
    by (rule accepts_bc [OF assms])
  with that show thesis by (simp add: materializer_work_def graph_runtime_def step_with_def)
qed

theorem failed_record_skipped_witness:
  "\<exists>st'. materializer_run graph_runtime sample_cfg sample_parse
      [graph_record 0 ''ab'', graph_record 1 ''bc'']
      [step_with (DbFails (DatabaseError ''down'')), step_with DbCommits] (fresh_service empty_db) =
        (st', None) \<and> sv_committed st' = 2 \<and>
    \<not> inbox_claimed (graph_materializer_group sample_cfg) (sv_db st') (event_id batch_ab)"
proof -
  let ?rs = "[graph_record 0 ''ab'', graph_record 1 ''bc'']"
  have off: "offsets_ok ?rs"
    by (auto simp: offsets_ok_def graph_record_def less_Suc_eq numeral_2_eq_2)
  obtain d r where ok: "materializer_work graph_runtime sample_cfg batch_bc (step_with DbCommits) empty_db
      = Inr (d, r)"
    by (rule sample_work [OF empty_unclaimed])
  show ?thesis
    using failed_record_skipped [OF off, of "fresh_service empty_db" sample_cfg sample_parse batch_ab
        batch_bc "step_with (DbFails (DatabaseError ''down''))" "''down''" "step_with DbCommits"
        graph_runtime d r] ok sample_decodes samples_acceptable(6) empty_unclaimed
    by (auto simp: fresh_service_def step_with_def sample_cfg_def default_settings_def)
qed

theorem outage_stops_materializer_witness:
  "\<exists>st'. materializer_run graph_runtime sample_cfg sample_parse
      [graph_record 0 ''ab'', graph_record 1 ''bc'', graph_record 2 ''ab'', graph_record 3 ''bc'']
      (replicate 4 (step_with (DbFails (DatabaseError ''down'')))) (fresh_service empty_db) =
        (st', Some (RuntimeError ''graph materializer exhausted its bounded retry budget'')) \<and>
    sv_committed st' = 0"
  using outage_stops_materializer [of "[graph_record 0 ''ab'', graph_record 1 ''bc'',
      graph_record 2 ''ab'', graph_record 3 ''bc'']" sample_parse
      "replicate 4 (step_with (DbFails (DatabaseError ''down'')))" "fresh_service empty_db" sample_cfg
      graph_runtime] sample_decodes
  by (fastforce simp: fresh_service_def step_with_def sample_cfg_def default_settings_def)

definition result_parse :: "bytes \<Rightarrow> scoring_completed option" where
  "result_parse b = (if b = ''r'' then Some (sample_result (CHR ''1'') ''a'' (3/10) 1 4) else None)"

definition projector_cfg :: settings where
  "projector_cfg = default_settings ''result-projector'' ''h''"

theorem projector_no_gap_witness:
  "no_gap (result_done projector_cfg result_parse) [graph_record 0 ''r'']
     (fst (projector_run sample_runtime projector_cfg result_parse [graph_record 0 ''r'']
        [step_with DbCommits] (fresh_service db_ab))) \<and>
   sv_committed (fst (projector_run sample_runtime projector_cfg result_parse [graph_record 0 ''r'']
        [step_with DbCommits] (fresh_service db_ab))) = 1"
proof -
  let ?rs = "[graph_record 0 ''r'']" and ?st = "fresh_service db_ab"
  let ?ev = "sample_result (CHR ''1'') ''a'' (3/10) 1 4"
  have off: "offsets_ok ?rs" by (simp add: offsets_ok_def graph_record_def)
  have dec: "decode_value result_parse valid_scoring_completed (kr_value (graph_record 0 ''r'')) = Inr ?ev"
    using valid_sample_result [of "''a''" "3/10" 1 "CHR ''1''" 4]
    by (simp add: decode_value_def graph_record_def result_parse_def)
  obtain d r where ok: "projector_work projector_cfg ?ev (step_with DbCommits) db_ab = Inr (d, r)"
    using sample_projected [of "3/10" 1] by (auto simp: projector_work_def)
  have turn: "service_turn (projector_consume sample_runtime projector_cfg result_parse) ?rs
      (step_with DbCommits) ?st =
    (?st\<lparr>sv_position := 1, sv_db := d, sv_committed := 1, sv_failures := 0\<rparr>, None)"
    using turn_success [of "step_with DbCommits" ?st ?rs "decode_value result_parse valid_scoring_completed"
        ?ev "projector_work projector_cfg" d r] ok dec
    by (simp add: projector_consume_def fresh_service_def step_with_def graph_record_def)
  then have run: "projector_run sample_runtime projector_cfg result_parse ?rs [step_with DbCommits] ?st =
      (?st\<lparr>sv_position := 1, sv_db := d, sv_committed := 1, sv_failures := 0\<rparr>, None)"
    by (simp add: projector_run_def)
  have clean: "sv_failures (fst (projector_run sample_runtime projector_cfg result_parse ?rs
      (take k [step_with DbCommits]) ?st)) = 0" for k
    using run by (cases k) (simp_all add: projector_run_def fresh_service_def)
  have "no_gap (result_done projector_cfg result_parse) ?rs ?st"
    by (simp add: no_gap_def fresh_service_def)
  from projector_no_gap [OF off run this] clean run show ?thesis
    by (simp add: fresh_service_def)
qed

end
