(* ===== verification/Materializer_Service.thy ===== *)
theory Materializer_Service
  imports Consumer_Props
begin

text \<open>
  \<open>run\<close> of \<open>services/graph_materializer/main.py\<close> as a process that turns, is stopped, fails or dies, also
  inside a record, and is started again, while the other services write to the same database. The
  list of swallowed offsets is a ghost: the records whose failure was counted in the last \<open>except\<close> branch
  by a process that then went on to the next one.
\<close>

datatype materializer_phase = Consuming | Exited "exn option"

record materializer =
  mz_service :: service
  mz_swallowed :: "int list"
  mz_phase :: materializer_phase

definition failure_counted :: "service \<Rightarrow> service \<Rightarrow> bool" where
  "failure_counted before after \<longleftrightarrow> sv_failures after = sv_failures before + 1"

definition materializer_turn ::
  "runtime \<Rightarrow> settings \<Rightarrow> (bytes \<Rightarrow> graph_batch_event option) \<Rightarrow> kafka_record list \<Rightarrow> step_env
     \<Rightarrow> materializer \<Rightarrow> materializer"
where
  "materializer_turn rt cfg parse records env st =
     (case service_turn (materializer_consume rt cfg parse) records env (mz_service st) of
        (sv, ex) \<Rightarrow>
          \<lparr>mz_service = sv,
           mz_swallowed = (if ex = None \<and> failure_counted (mz_service st) sv
                         then mz_swallowed st @ [int (sv_position (mz_service st))]
                         else mz_swallowed st),
           mz_phase = (case ex of None \<Rightarrow> Consuming | Some x \<Rightarrow> Exited (Some x))\<rparr>)"

text \<open>
  A process that dies inside a record has done some part of its turn: a turn in which a call failed,
  after whose failure nothing more was done. What it kept in memory is gone, the count too.
\<close>

definition cut_materializer ::
  "runtime \<Rightarrow> settings \<Rightarrow> (bytes \<Rightarrow> graph_batch_event option) \<Rightarrow> kafka_record list \<Rightarrow> step_env
     \<Rightarrow> exn \<Rightarrow> materializer \<Rightarrow> materializer"
where
  "cut_materializer rt cfg parse records env x st =
     st\<lparr>mz_service := fst (service_turn (materializer_consume rt cfg parse) records env (mz_service st)),
        mz_phase := Exited (Some x)\<rparr>"

definition start_materializer :: "materializer \<Rightarrow> materializer" where
  "start_materializer st = st\<lparr>mz_service := restarted (mz_service st), mz_phase := Consuming\<rparr>"

text \<open>The other services never withdraw a claim of this group.\<close>

definition keeps_claims :: "string \<Rightarrow> db \<Rightarrow> db \<Rightarrow> bool" where
  "keeps_claims c d d' \<longleftrightarrow> (\<forall>i. inbox_claimed c d i \<longrightarrow> inbox_claimed c d' i)"

definition set_service_db :: "db \<Rightarrow> materializer \<Rightarrow> materializer" where
  "set_service_db d st = st\<lparr>mz_service := (mz_service st)\<lparr>sv_db := d\<rparr>\<rparr>"

text \<open>
  \<open>getone\<close> is outside the inner \<open>try\<close>: what it raises, a timeout apart, ends the process, and so does a
  stop between two records.
\<close>

inductive materializer_step ::
  "runtime \<Rightarrow> settings \<Rightarrow> (bytes \<Rightarrow> graph_batch_event option) \<Rightarrow> kafka_record list
     \<Rightarrow> materializer \<Rightarrow> materializer \<Rightarrow> bool"
  for rt cfg parse records
where
  turns: "mz_phase st = Consuming \<Longrightarrow>
     materializer_step rt cfg parse records st (materializer_turn rt cfg parse records env st)"
| stops_or_breaks: "mz_phase st = Consuming \<Longrightarrow>
     materializer_step rt cfg parse records st (st\<lparr>mz_phase := Exited ex\<rparr>)"
| dies_inside: "mz_phase st = Consuming \<Longrightarrow>
     materializer_step rt cfg parse records st (cut_materializer rt cfg parse records env x st)"
| starts_again: "mz_phase st = Exited ex \<Longrightarrow>
     materializer_step rt cfg parse records st (start_materializer st)"
| others_commit: "keeps_claims (graph_materializer_group cfg) (sv_db (mz_service st)) d \<Longrightarrow>
     materializer_step rt cfg parse records st (set_service_db d st)"

inductive_cases materializer_stepE: "materializer_step rt cfg parse records st st'"

inductive materializer_reach ::
  "runtime \<Rightarrow> settings \<Rightarrow> (bytes \<Rightarrow> graph_batch_event option) \<Rightarrow> kafka_record list
     \<Rightarrow> materializer \<Rightarrow> materializer \<Rightarrow> bool"
  for rt cfg parse records
where
  none_yet: "materializer_reach rt cfg parse records st st"
| and_then: "materializer_reach rt cfg parse records st st' \<Longrightarrow>
     materializer_step rt cfg parse records st' st'' \<Longrightarrow> materializer_reach rt cfg parse records st st''"

text \<open>A group that has never committed, not yet started.\<close>

definition fresh_materializer :: "db \<Rightarrow> materializer" where
  "fresh_materializer d = \<lparr>mz_service = fresh_service d, mz_swallowed = [], mz_phase = Exited None\<rparr>"

subsection \<open>The invariant\<close>

text \<open>A record is settled when it is handled or its failure was swallowed.\<close>

definition batch_settled ::
  "settings \<Rightarrow> (bytes \<Rightarrow> graph_batch_event option) \<Rightarrow> kafka_record list \<Rightarrow> materializer \<Rightarrow> nat \<Rightarrow> bool"
where
  "batch_settled cfg parse records st i \<longleftrightarrow> graph_done cfg parse (records ! i) (mz_service st) \<or>
     1 < retry_max_attempts cfg \<and> int i \<in> set (mz_swallowed st)"

definition materializer_inv ::
  "settings \<Rightarrow> (bytes \<Rightarrow> graph_batch_event option) \<Rightarrow> kafka_record list \<Rightarrow> materializer \<Rightarrow> bool"
where
  "materializer_inv cfg parse records st \<longleftrightarrow>
     (\<forall>i < length records. int i < sv_committed (mz_service st) \<longrightarrow> batch_settled cfg parse records st i) \<and>
     (mz_phase st = Consuming \<longrightarrow> sv_committed (mz_service st) \<le> int (sv_position (mz_service st)) \<and>
        (\<forall>i < length records. i < sv_position (mz_service st) \<longrightarrow> batch_settled cfg parse records st i))"

lemma materializer_turn_step:
  assumes "service_turn (materializer_consume rt cfg parse) records env st = (st', ex)"
    and "offsets_ok records"
  shows "(graph_done cfg parse q st \<longrightarrow> graph_done cfg parse q st') \<and>
    (sv_committed st' = sv_committed st \<or>
       sv_position st < length records \<and> sv_committed st' = int (sv_position st) + 1 \<and>
       graph_done cfg parse (records ! sv_position st) st') \<and>
    (ex = None \<longrightarrow> st' = st \<or>
       sv_position st < length records \<and> sv_position st' = sv_position st + 1 \<and>
       (sv_committed st' = int (sv_position st) + 1 \<and> sv_failures st' = 0 \<or>
        failure_counted st st' \<and> sv_failures st' < retry_max_attempts cfg))"
  using materializer.turn_step [OF assms(1) [unfolded materializer_consume_def] assms(2), of q]
  by (simp add: graph_done_def failure_counted_def)

lemma batch_settled_turn:
  assumes t: "service_turn (materializer_consume rt cfg parse) records env (mz_service st) = (sv, ex)"
    and off: "offsets_ok records" and "batch_settled cfg parse records st i"
    and "mz_service st' = sv" and "set (mz_swallowed st) \<subseteq> set (mz_swallowed st')"
  shows "batch_settled cfg parse records st' i"
  using materializer_turn_step [OF t off, of "records ! i"] assms(3-) by (auto simp: batch_settled_def)

lemma committed_turn:
  assumes t: "service_turn (materializer_consume rt cfg parse) records env (mz_service st) = (sv, ex)"
    and off: "offsets_ok records" and inv: "materializer_inv cfg parse records st"
    and run: "mz_phase st = Consuming"
    and st': "mz_service st' = sv" "set (mz_swallowed st) \<subseteq> set (mz_swallowed st')"
    and i: "i < length records" "int i < sv_committed sv"
  shows "batch_settled cfg parse records st' i"
proof (cases "int i < sv_committed (mz_service st) \<or> i < sv_position (mz_service st)")
  case True
  with inv run i(1) have "batch_settled cfg parse records st i" by (auto simp: materializer_inv_def)
  from batch_settled_turn [OF t off this st'] show ?thesis .
next
  case False
  with materializer_turn_step [OF t off, of "records ! i"] i
  have "graph_done cfg parse (records ! sv_position (mz_service st)) sv" "i = sv_position (mz_service st)"
    by auto
  with st'(1) show ?thesis by (simp add: batch_settled_def)
qed

text \<open>The count of failures is never negative, so that counting is told from a success.\<close>

lemma materializer_turn_inv:
  assumes off: "offsets_ok records" and inv: "materializer_inv cfg parse records st"
    and run: "mz_phase st = Consuming" and nonneg: "0 \<le> sv_failures (mz_service st)"
  shows "materializer_inv cfg parse records (materializer_turn rt cfg parse records env st)"
proof -
  obtain sv ex where t:
    "service_turn (materializer_consume rt cfg parse) records env (mz_service st) = (sv, ex)" by fastforce
  define st' where "st' = materializer_turn rt cfg parse records env st"
  have st': "mz_service st' = sv" "set (mz_swallowed st) \<subseteq> set (mz_swallowed st')"
    "mz_phase st' = Consuming \<longleftrightarrow> ex = None"
    "ex = None \<and> failure_counted (mz_service st) sv \<longrightarrow> int (sv_position (mz_service st)) \<in> set (mz_swallowed st')"
    by (auto simp: st'_def materializer_turn_def t split: option.splits)
  note step = materializer_turn_step [OF t off]
  have "sv_committed sv \<le> int (sv_position sv) \<and>
      (\<forall>i < length records. i < sv_position sv \<longrightarrow> batch_settled cfg parse records st' i)" if "ex = None"
  proof (cases "sv = mz_service st")
    case True
    have "batch_settled cfg parse records st' i" if "i < length records" "i < sv_position sv" for i
      using batch_settled_turn [OF t off _ st'(1,2)] inv run that True by (simp add: materializer_inv_def)
    with inv run True show ?thesis by (simp add: materializer_inv_def)
  next
    case False
    with step [of undefined] \<open>ex = None\<close> have p: "sv_position sv = sv_position (mz_service st) + 1" and
      c: "sv_committed sv = int (sv_position (mz_service st)) + 1 \<or>
        failure_counted (mz_service st) sv \<and> sv_failures sv < retry_max_attempts cfg" by auto
    have le: "sv_committed (mz_service st) \<le> int (sv_position (mz_service st))"
      using inv run by (simp add: materializer_inv_def)
    have "batch_settled cfg parse records st' (sv_position (mz_service st))"
      using c step [of undefined] le st'(1,4) nonneg \<open>ex = None\<close> by (auto simp: batch_settled_def failure_counted_def)
    moreover have "batch_settled cfg parse records st' i"
      if "i < length records" "i < sv_position (mz_service st)" for i
      using batch_settled_turn [OF t off _ st'(1,2)] inv run that by (simp add: materializer_inv_def)
    moreover have "sv_committed sv \<le> int (sv_position sv)"
      using step [of undefined] le p by auto
    ultimately show ?thesis using p by (auto simp: less_Suc_eq)
  qed
  moreover have "batch_settled cfg parse records st' i" if "i < length records" "int i < sv_committed sv" for i
    by (rule committed_turn [OF t off inv run st'(1,2) that])
  ultimately show ?thesis
    using st'(1,3) unfolding st'_def [symmetric] materializer_inv_def by simp
qed

lemma turn_failures:
  assumes "service_turn (materializer_consume rt cfg parse) records env st = (st', ex)"
    and "0 \<le> sv_failures st"
  shows "0 \<le> sv_failures st'"
proof (cases "se_polled env \<and> sv_position st < length records")
  case True
  let ?rec = "records ! sv_position st" and ?dec = "decode_value parse valid_graph_batch"
  let ?st1 = "st\<lparr>sv_position := sv_position st + 1\<rparr>"
  obtain st1 ex1 where t: "try_record ?dec (materializer_work rt cfg) ?rec env ?st1 = (st1, ex1)"
    by fastforce
  have nonneg: "0 \<le> sv_failures st1" using materializer.try_step [OF t, of ?rec] assms(2) by auto
  have dead: "0 \<le> sv_failures st'"
    if "dead_letter_record rt cfg ?rec stage x env st1 = (st', ex)" for stage x
    using that by (cases rule: dead_letter_record_cases) (use nonneg in simp_all)
  show ?thesis
    using assms(1) True t nonneg dead
    by (auto simp: service_turn_def materializer_consume_def consume_one_def count_failure_def Let_def
        split: option.splits)
qed (use assms in \<open>auto simp: service_turn_def\<close>)

lemma materializer_step_inv:
  assumes "materializer_step rt cfg parse records st st'" and off: "offsets_ok records"
    and inv: "materializer_inv cfg parse records st \<and> 0 \<le> sv_failures (mz_service st) \<and>
      0 \<le> sv_committed (mz_service st)"
  shows "materializer_inv cfg parse records st' \<and> 0 \<le> sv_failures (mz_service st') \<and>
    0 \<le> sv_committed (mz_service st')"
  using assms(1)
proof (cases rule: materializer_step.cases)
  case (turns env)
  obtain sv ex where t:
    "service_turn (materializer_consume rt cfg parse) records env (mz_service st) = (sv, ex)" by fastforce
  have "mz_service st' = sv" by (simp add: turns(1) materializer_turn_def t)
  moreover have "0 \<le> sv_failures sv" using turn_failures [OF t] inv by simp
  moreover have "0 \<le> sv_committed sv" using materializer_turn_step [OF t off, of undefined] inv by auto
  moreover have "materializer_inv cfg parse records st'"
    using materializer_turn_inv [OF off _ turns(2), of cfg parse rt env] inv by (simp add: turns(1))
  ultimately show ?thesis by simp
next
  case (dies_inside env x)
  obtain sv ex where t:
    "service_turn (materializer_consume rt cfg parse) records env (mz_service st) = (sv, ex)" by fastforce
  have st': "mz_service st' = sv" "mz_swallowed st' = mz_swallowed st" "mz_phase st' = Exited (Some x)"
    by (simp_all add: dies_inside(1) cut_materializer_def t)
  have "materializer_inv cfg parse records st'"
    using committed_turn [OF t off _ dies_inside(2), of st'] inv st' by (simp add: materializer_inv_def)
  moreover have "0 \<le> sv_failures sv" using turn_failures [OF t] inv by simp
  moreover have "0 \<le> sv_committed sv" using materializer_turn_step [OF t off, of undefined] inv by auto
  ultimately show ?thesis by (simp add: st')
next
  case (others_commit d)
  then have "batch_settled cfg parse records st i \<Longrightarrow> batch_settled cfg parse records st' i" for i
    unfolding batch_settled_def graph_done_def handled_def keeps_claims_def set_service_db_def by auto
  with inv show ?thesis by (auto simp: others_commit(1) materializer_inv_def set_service_db_def)
qed (use inv in \<open>auto simp: materializer_inv_def batch_settled_def start_materializer_def restarted_def
  graph_done_def handled_def\<close>)

lemma materializer_reach_inv:
  "materializer_reach rt cfg parse records st st' \<Longrightarrow> offsets_ok records \<Longrightarrow>
     materializer_inv cfg parse records st \<and> 0 \<le> sv_failures (mz_service st) \<and>
       0 \<le> sv_committed (mz_service st) \<Longrightarrow>
     materializer_inv cfg parse records st' \<and> 0 \<le> sv_failures (mz_service st') \<and>
       0 \<le> sv_committed (mz_service st')"
proof (induction rule: materializer_reach.induct)
  case (and_then st st' st'')
  show ?case
    by (rule materializer_step_inv [OF and_then.hyps(2) and_then.prems(1)]) (rule and_then.IH, fact+)
qed simp

text \<open>
  C17. No batch is lost without a trace. In every run of the materializer from a group that has never
  committed, with failures of every call, stops, deaths also inside a record, restarts, and other
  services writing to the database: each record below the committed offset has been applied to the
  graph, or a dead letter names its offset, or its failure was counted by a process that then went
  on to the next record. With a retry budget of one there is no such third case.
\<close>

theorem materializer_process_no_gap:
  assumes "offsets_ok records"
    and "materializer_reach rt cfg parse records (fresh_materializer d) st"
    and "i < length records" and "int i < sv_committed (mz_service st)"
  shows "graph_done cfg parse (records ! i) (mz_service st) \<or>
    1 < retry_max_attempts cfg \<and> int i \<in> set (mz_swallowed st)"
proof -
  have "materializer_inv cfg parse records (fresh_materializer d)"
    by (simp add: materializer_inv_def fresh_materializer_def fresh_service_def)
  with materializer_reach_inv [OF assms(2,1)] have "materializer_inv cfg parse records st"
    by (simp add: fresh_materializer_def fresh_service_def)
  with assms(3,4) show ?thesis by (simp add: materializer_inv_def batch_settled_def)
qed

text \<open>The process dies while the database refuses the batch; the next one applies it.\<close>

theorem materializer_process_no_gap_witness:
  "\<exists>st. materializer_reach graph_runtime sample_cfg sample_parse [graph_record 0 ''bc'']
      (fresh_materializer empty_db) st \<and> sv_committed (mz_service st) = 1 \<and> mz_swallowed st = [] \<and>
    graph_done sample_cfg sample_parse (graph_record 0 ''bc'') (mz_service st)"
proof -
  let ?rs = "[graph_record 0 ''bc'']" and ?sv = "fresh_service empty_db"
  let ?down = "step_with (DbFails (DatabaseError ''down''))" and ?up = "step_with DbCommits"
  let ?reach = "materializer_reach graph_runtime sample_cfg sample_parse ?rs (fresh_materializer empty_db)"
  have off: "offsets_ok ?rs" by (simp add: offsets_ok_def graph_record_def)
  obtain d r where ok: "materializer_work graph_runtime sample_cfg batch_bc ?up empty_db = Inr (d, r)"
    by (rule sample_work [OF empty_unclaimed])
  define m1 where "m1 = start_materializer (fresh_materializer empty_db)"
  have m1: "mz_service m1 = ?sv" "mz_phase m1 = Consuming" "mz_swallowed m1 = []"
    by (simp_all add: m1_def start_materializer_def fresh_materializer_def restarted_def fresh_service_def)
  have r1: "?reach m1"
    unfolding m1_def by (rule and_then [OF none_yet starts_again]) (simp add: fresh_materializer_def)
  have t0: "service_turn (materializer_consume graph_runtime sample_cfg sample_parse) ?rs ?down ?sv =
      (?sv\<lparr>sv_position := 1, sv_failures := 1\<rparr>, None)"
    using materializer.outage_turn [of ?down ?sv ?rs "DatabaseError ''down''" sample_parse batch_bc
        graph_runtime sample_cfg] sample_decodes(2) [of 0]
    by (simp add: materializer_consume_def fresh_service_def step_with_def sample_cfg_def default_settings_def)
  define m2 where "m2 = cut_materializer graph_runtime sample_cfg sample_parse ?rs ?down TimeoutError m1"
  have r2: "?reach m2" unfolding m2_def by (rule and_then [OF r1 dies_inside [OF m1(2)]])
  define m3 where "m3 = start_materializer m2"
  have r3: "?reach m3" unfolding m3_def
    by (rule and_then [OF r2 starts_again]) (simp add: m2_def cut_materializer_def)
  have m3: "mz_service m3 = ?sv" "mz_phase m3 = Consuming" "mz_swallowed m3 = []"
    using m1 t0 by (simp_all add: m3_def m2_def start_materializer_def cut_materializer_def restarted_def
        fresh_service_def)
  have t1: "service_turn (materializer_consume graph_runtime sample_cfg sample_parse) ?rs ?up ?sv =
      (?sv\<lparr>sv_position := 1, sv_db := d, sv_committed := 1, sv_failures := 0\<rparr>, None)"
    using turn_success [of ?up ?sv ?rs "decode_value sample_parse valid_graph_batch"
        batch_bc "materializer_work graph_runtime sample_cfg" d r] ok sample_decodes(2) [of 0]
    by (simp add: materializer_consume_def fresh_service_def step_with_def graph_record_def)
  define m4 where "m4 = materializer_turn graph_runtime sample_cfg sample_parse ?rs ?up m3"
  have r4: "?reach m4" unfolding m4_def by (rule and_then [OF r3 turns [OF m3(2)]])
  have m4: "sv_committed (mz_service m4) = 1" "mz_swallowed m4 = []"
    using m3 t1 by (simp_all add: m4_def materializer_turn_def failure_counted_def fresh_service_def)
  with materializer_process_no_gap [OF off r4, of 0] r4 show ?thesis by auto
qed

end
