(* ===== verification/Relay.thy ===== *)
theory Relay
  imports Consumers Retry
begin

text \<open>
  \<open>services/outbox_relay/main.py\<close>: unpublished outbox rows are read in order, sent to Kafka and
  marked in one transaction; a failure rolls the marks back, not the messages. \<open>collate\<close> is the sort
  key of the database's collation, \<open>locked\<close> the rows other relays hold (\<open>SKIP LOCKED\<close>).
\<close>

type_synonym outbox_entry_row = "string \<times> outbox_row"

definition is_redis_topic :: "string \<Rightarrow> bool" where
  "is_redis_topic topic \<longleftrightarrow> take 6 topic = ''redis:''"

definition pending :: "outbox_row \<Rightarrow> bool" where
  "pending row \<longleftrightarrow> ob_published_at row = None \<and> \<not> is_redis_topic (ob_topic row)"

definition relay_rows ::
  "(string \<Rightarrow> string) \<Rightarrow> (string \<Rightarrow> bool) \<Rightarrow> nat \<Rightarrow> db \<Rightarrow> outbox_entry_row list"
where
  "relay_rows collate locked limit d =
     take limit (sort_key (\<lambda>(i, row). (ob_created_at row, collate i))
       (filter (\<lambda>(i, row). pending row \<and> \<not> locked i) (outbox_events d)))"

definition event_headers :: "runtime \<Rightarrow> outbox_payload \<Rightarrow> (string \<times> bytes) list" where
  "event_headers rt dumped =
     inject_kafka_trace rt
       (case dumped of
          Requested e \<Rightarrow>
            [(''event_type'', event_type e), (''schema_version'', schema_version e),
             (''event_id'', event_id e), (''trace_id'', trace_id e),
             (''correlation_id'', correlation_id e)]
        | Completed e \<Rightarrow>
            [(''event_type'', event_type e), (''schema_version'', schema_version e),
             (''event_id'', event_id e), (''trace_id'', trace_id e),
             (''correlation_id'', correlation_id e)])"

definition outbox_message :: "runtime \<Rightarrow> outbox_row \<Rightarrow> outbox_payload message" where
  "outbox_message rt row =
     \<lparr>msg_topic = ob_topic row, msg_key = ob_event_key row, msg_value = ob_payload row,
      msg_headers = event_headers rt (ob_payload row)\<rparr>"

text \<open>\<open>send_and_wait\<close> returns, or raises with the message lost or delivered all the same.\<close>

datatype send_fate = SendOk | SendFails exn bool

text \<open>The loop over the rows: what reaches Kafka, and the row and exception it stops at.\<close>

fun relay_send ::
  "runtime \<Rightarrow> (nat \<Rightarrow> send_fate) \<Rightarrow> nat \<Rightarrow> outbox_entry_row list
     \<Rightarrow> outbox_payload message list \<times> (string \<times> exn) option"
where
  "relay_send rt fate k [] = ([], None)"
| "relay_send rt fate k ((i, row) # rows) =
     (case fate k of
        SendFails x delivered \<Rightarrow> (if delivered then [outbox_message rt row] else [], Some (i, x))
      | SendOk \<Rightarrow> (case relay_send rt fate (Suc k) rows of (ms, stop) \<Rightarrow>
                    (outbox_message rt row # ms, stop)))"

definition mark_published :: "int \<Rightarrow> outbox_row \<Rightarrow> outbox_row" where
  "mark_published now row = row\<lparr>ob_published_at := Some now, ob_last_error := None\<rparr>"

definition mark_all :: "(nat \<Rightarrow> int) \<Rightarrow> outbox_entry_row list \<Rightarrow> db \<Rightarrow> db" where
  "mark_all clock rows d =
     d\<lparr>outbox_events := fold (\<lambda>(k, i, _). update_row i (mark_published (clock k)))
         (enumerate 0 rows) (outbox_events d)\<rparr>"

definition record_failure :: "string \<Rightarrow> exn \<Rightarrow> db \<Rightarrow> db" where
  "record_failure outbox_id error d =
     d\<lparr>outbox_events := update_row outbox_id
         (\<lambda>row. row\<lparr>ob_attempt_count := ob_attempt_count row + 1,
                    ob_last_error := Some (take 512 (exn_str error))\<rparr>) (outbox_events d)\<rparr>"

definition relay_backlog :: "db \<Rightarrow> nat" where
  "relay_backlog d = length (filter (\<lambda>(_, row). pending row) (outbox_events d))"

record relay =
  rl_db :: db
  rl_sent :: "outbox_payload message list"
  rl_attempt :: int

record relay_env =
  re_locked :: "string \<Rightarrow> bool"
  re_clock :: "nat \<Rightarrow> int"
  re_send :: "nat \<Rightarrow> send_fate"
  re_fate :: db_fate
  re_backlog :: "exn option"
  re_record :: "exn option"

text \<open>
  The publishing transaction: \<open>DbFails\<close> is a failure of the query or of COMMIT. The result is the
  database, what was sent, and the failure with the outbox row it is charged to, if any.
\<close>

definition relay_publish ::
  "runtime \<Rightarrow> (string \<Rightarrow> string) \<Rightarrow> settings \<Rightarrow> relay_env \<Rightarrow> db
     \<Rightarrow> db \<times> outbox_payload message list \<times> (string option \<times> exn) option"
where
  "relay_publish rt collate cfg env d =
     (let rows = relay_rows collate (re_locked env) (nat (outbox_batch_size cfg)) d;
          (ms, stop) = relay_send rt (re_send env) 0 rows
      in case stop of
           Some (i, x) \<Rightarrow> (d, ms, Some (Some i, x))
         | None \<Rightarrow>
             (case re_fate env of
                DbCommits \<Rightarrow> (mark_all (re_clock env) rows d, ms, None)
              | DbFails x \<Rightarrow> (d, ms, Some (None, x))
              | DbCommitLost x \<Rightarrow> (mark_all (re_clock env) rows d, ms, Some (None, x))))"

text \<open>The \<open>except\<close> branch; an error of \<open>record_failure\<close> escapes the loop.\<close>

definition relay_failed ::
  "settings \<Rightarrow> relay_env \<Rightarrow> string option \<Rightarrow> exn \<Rightarrow> relay \<Rightarrow> relay \<times> exn option"
where
  "relay_failed cfg env failed_outbox_id x st =
     (case (failed_outbox_id, re_record env) of
        (Some _, Some y) \<Rightarrow> (st, Some y)
      | _ \<Rightarrow>
          let st1 = (case failed_outbox_id of
                       None \<Rightarrow> st
                     | Some i \<Rightarrow> st\<lparr>rl_db := record_failure i x (rl_db st)\<rparr>);
              attempt = min (rl_attempt st + 1) (retry_max_attempts cfg)
          in (st1\<lparr>rl_attempt := attempt\<rparr>,
              if retry_max_attempts cfg \<le> attempt
              then Some (RuntimeError ''outbox relay exhausted its bounded retry budget'')
              else None))"

definition relay_turn ::
  "runtime \<Rightarrow> (string \<Rightarrow> string) \<Rightarrow> settings \<Rightarrow> relay_env \<Rightarrow> relay \<Rightarrow> relay \<times> exn option"
where
  "relay_turn rt collate cfg env st =
     (case relay_publish rt collate cfg env (rl_db st) of (d, ms, failure) \<Rightarrow>
        let st1 = st\<lparr>rl_db := d, rl_sent := rl_sent st @ ms\<rparr> in
        case failure of
          Some (i, x) \<Rightarrow> relay_failed cfg env i x st1
        | None \<Rightarrow>
            let st2 = st1\<lparr>rl_attempt := 0\<rparr> in
            case re_backlog env of
              Some x \<Rightarrow> relay_failed cfg env None x st2
            | None \<Rightarrow> (st2, None))"

fun relay_run ::
  "runtime \<Rightarrow> (string \<Rightarrow> string) \<Rightarrow> settings \<Rightarrow> relay_env list \<Rightarrow> relay \<Rightarrow> relay \<times> exn option"
where
  "relay_run rt collate cfg [] st = (st, None)"
| "relay_run rt collate cfg (env # envs) st =
     (case relay_turn rt collate cfg env st of
        (st1, Some x) \<Rightarrow> (st1, Some x)
      | (st1, None) \<Rightarrow> relay_run rt collate cfg envs st1)"

end
