(* ===== verification/Relay_Props.thy ===== *)
theory Relay_Props
  imports Relay Samples
begin

text \<open>
  What the outbox relay guarantees: nothing is marked without having been sent, rows are only ever
  marked, and without faults the backlog drains in order.
\<close>

subsection \<open>The rows of a batch\<close>

lemma relay_rows_sub:
  "(i, row) \<in> set (relay_rows collate locked n d) \<Longrightarrow>
     (i, row) \<in> set (outbox_events d) \<and> pending row \<and> \<not> locked i"
  using set_take_subset by (fastforce simp: relay_rows_def)

lemma distinct_relay_rows:
  "table_ok (outbox_events d) \<Longrightarrow> distinct (map fst (relay_rows collate locked n d))"
proof -
  assume "table_ok (outbox_events d)"
  then have "distinct (map fst (sort_key f (filter P (outbox_events d))))"
    for f :: "string \<times> outbox_row \<Rightarrow> int \<times> string" and P
    by (simp add: table_ok_def distinct_map inj_on_def)
  then show ?thesis unfolding relay_rows_def take_map [symmetric] by (rule distinct_take)
qed

lemma length_relay_rows:
  "length (relay_rows collate (\<lambda>_. False) n d) = min n (relay_backlog d)"
  by (simp add: relay_rows_def relay_backlog_def min.commute)

lemma relay_send_all:
  "relay_send rt fate k rows = (ms, None) \<Longrightarrow> ms = map (\<lambda>r. outbox_message rt (snd r)) rows"
  by (induction rt fate k rows arbitrary: ms rule: relay_send.induct)
    (auto split: send_fate.splits prod.splits)

lemma relay_send_ok:
  "(\<And>k. fate k = SendOk) \<Longrightarrow>
     relay_send rt fate k rows = (map (\<lambda>r. outbox_message rt (snd r)) rows, None)"
  by (induction rt fate k rows rule: relay_send.induct) auto

lemma relay_send_stop:
  "relay_send rt fate k rows = (ms, Some (i, x)) \<Longrightarrow> i \<in> fst ` set rows"
  by (induction rt fate k rows arbitrary: ms rule: relay_send.induct)
    (auto split: send_fate.splits prod.splits)

subsection \<open>Marking\<close>

lemma fold_mark_notin:
  "j \<notin> fst ` set rows \<Longrightarrow>
     map_of (fold (\<lambda>(k, i, _). update_row i (mark_published (clock k))) (enumerate n rows) t) j =
       map_of t j"
  by (induction rows arbitrary: n t) (auto simp: map_of_update_row)

lemma fold_mark_in:
  "distinct (map fst rows) \<Longrightarrow> j \<in> fst ` set rows \<Longrightarrow>
     \<exists>k. map_of (fold (\<lambda>(k, i, _). update_row i (mark_published (clock k))) (enumerate n rows) t) j =
       map_option (mark_published (clock k)) (map_of t j)"
proof (induction rows arbitrary: n t)
  case (Cons r rows)
  obtain i row where r: "r = (i, row)" by (cases r)
  show ?case
  proof (cases "j = i")
    case True
    with Cons.prems r have "j \<notin> fst ` set rows" by auto
    from fold_mark_notin [OF this, of clock "Suc n" "update_row i (mark_published (clock n)) t"] True
    show ?thesis by (auto simp: r map_of_update_row)
  next
    case False
    with Cons.prems r obtain k where
      "map_of (fold (\<lambda>(k, i, _). update_row i (mark_published (clock k))) (enumerate (Suc n) rows)
         (update_row i (mark_published (clock n)) t)) j =
       map_option (mark_published (clock k)) (map_of (update_row i (mark_published (clock n)) t) j)"
      using Cons.IH [of "Suc n" "update_row i (mark_published (clock n)) t"] by auto
    with False show ?thesis by (auto simp: r map_of_update_row)
  qed
qed simp

lemma fold_mark_keys:
  "map fst (fold (\<lambda>(k, i, _). update_row i (mark_published (clock k))) (enumerate n rows) t) = map fst t"
  by (induction rows arbitrary: n t) auto

lemma mark_all_rows:
  shows "j \<notin> fst ` set rows \<Longrightarrow> map_of (outbox_events (mark_all clock rows d)) j = map_of (outbox_events d) j"
    and "table_ok (outbox_events d) \<Longrightarrow> distinct (map fst rows) \<Longrightarrow> set rows \<subseteq> set (outbox_events d) \<Longrightarrow>
      j \<in> fst ` set rows \<Longrightarrow> \<exists>k row. map_of (outbox_events d) j = Some row \<and> (j, row) \<in> set rows \<and>
        map_of (outbox_events (mark_all clock rows d)) j = Some (mark_published (clock k) row)"
proof -
  show "j \<notin> fst ` set rows \<Longrightarrow> map_of (outbox_events (mark_all clock rows d)) j = map_of (outbox_events d) j"
    by (simp add: mark_all_def fold_mark_notin)
  assume ok: "table_ok (outbox_events d)" and dist: "distinct (map fst rows)"
    and sub: "set rows \<subseteq> set (outbox_events d)" and j: "j \<in> fst ` set rows"
  then obtain row where row: "(j, row) \<in> set rows" by auto
  with ok sub have "map_of (outbox_events d) j = Some row"
    by (auto simp: map_of_eq_Some_iff_table)
  moreover obtain k where "map_of (outbox_events (mark_all clock rows d)) j =
      map_option (mark_published (clock k)) (map_of (outbox_events d) j)"
    using fold_mark_in [OF dist j, of clock 0] by (auto simp: mark_all_def)
  ultimately show "\<exists>k row. map_of (outbox_events d) j = Some row \<and> (j, row) \<in> set rows \<and>
      map_of (outbox_events (mark_all clock rows d)) j = Some (mark_published (clock k) row)"
    using row by auto
qed

lemma mark_all_lookup:
  assumes "table_ok (outbox_events d)" and "rows = relay_rows collate locked n d"
  shows "j \<notin> fst ` set rows \<Longrightarrow> map_of (outbox_events (mark_all clock rows d)) j = map_of (outbox_events d) j"
    and "j \<in> fst ` set rows \<Longrightarrow> \<exists>k row. map_of (outbox_events d) j = Some row \<and> pending row \<and>
      (j, row) \<in> set rows \<and>
      map_of (outbox_events (mark_all clock rows d)) j = Some (mark_published (clock k) row)"
proof -
  show "j \<notin> fst ` set rows \<Longrightarrow> map_of (outbox_events (mark_all clock rows d)) j = map_of (outbox_events d) j"
    by (rule mark_all_rows(1))
  assume j: "j \<in> fst ` set rows"
  have sub: "set rows \<subseteq> set (outbox_events d)" using relay_rows_sub by (auto simp: assms(2))
  from mark_all_rows(2) [OF assms(1)
      distinct_relay_rows [OF assms(1), of collate locked n, folded assms(2)] sub j]
  show "\<exists>k row. map_of (outbox_events d) j = Some row \<and> pending row \<and> (j, row) \<in> set rows \<and>
      map_of (outbox_events (mark_all clock rows d)) j = Some (mark_published (clock k) row)"
    using relay_rows_sub unfolding assms(2) by blast
qed

lemma mark_all_table_ok: "table_ok (outbox_events (mark_all clock rows d)) = table_ok (outbox_events d)"
  by (simp add: mark_all_def table_ok_def fold_mark_keys)

subsection \<open>One turn\<close>

text \<open>What a relay may do to a row: mark it, or charge it a failed attempt.\<close>

definition relayed :: "outbox_row \<Rightarrow> outbox_row \<Rightarrow> bool" where
  "relayed old new \<longleftrightarrow>
     ob_aggregate_id new = ob_aggregate_id old \<and> ob_topic new = ob_topic old \<and>
     ob_event_key new = ob_event_key old \<and> ob_payload new = ob_payload old \<and>
     ob_schema_version new = ob_schema_version old \<and> ob_created_at new = ob_created_at old \<and>
     ob_attempt_count old \<le> ob_attempt_count new \<and>
     (ob_published_at old \<noteq> None \<longrightarrow> ob_published_at new = ob_published_at old)"

definition sent_row :: "outbox_payload message list \<Rightarrow> outbox_row \<Rightarrow> bool" where
  "sent_row ms row \<longleftrightarrow> (\<exists>m \<in> set ms. msg_topic m = ob_topic row \<and> msg_key m = ob_event_key row \<and>
     msg_value m = ob_payload row)"

definition marks_sent :: "relay \<Rightarrow> bool" where
  "marks_sent st \<longleftrightarrow> (\<forall>i row. map_of (outbox_events (rl_db st)) i = Some row \<longrightarrow>
     \<not> is_redis_topic (ob_topic row) \<longrightarrow> ob_published_at row \<noteq> None \<longrightarrow> sent_row (rl_sent st) row)"

text \<open>
  The step from one table to another while \<open>ms\<close> are sent: keys stay, rows are only relayed, and a
  row that becomes published is among what was sent.
\<close>

definition relay_step :: "outbox_payload message list \<Rightarrow> db \<Rightarrow> db \<Rightarrow> bool" where
  "relay_step ms d d' \<longleftrightarrow>
     d'\<lparr>outbox_events := []\<rparr> = d\<lparr>outbox_events := []\<rparr> \<and>
     map fst (outbox_events d') = map fst (outbox_events d) \<and>
     (\<forall>i old. map_of (outbox_events d) i = Some old \<longrightarrow>
        (\<exists>new. map_of (outbox_events d') i = Some new \<and> relayed old new \<and>
           (ob_published_at old = None \<and> ob_published_at new \<noteq> None \<longrightarrow> sent_row ms old)))"

lemma relayed_refl: "relayed row row"
  by (simp add: relayed_def)

lemma relayed_trans: "relayed a b \<Longrightarrow> relayed b c \<Longrightarrow> relayed a c"
  by (auto simp: relayed_def)

lemma relay_step_refl: "relay_step ms d d"
  by (auto simp: relay_step_def relayed_refl)

lemma relay_step_mark:
  assumes ok: "table_ok (outbox_events d)" and rows: "rows = relay_rows collate locked n d"
    and ms: "ms = map (\<lambda>r. outbox_message rt (snd r)) rows"
  shows "relay_step ms d (mark_all clock rows d)"
  unfolding relay_step_def
proof (intro conjI allI impI)
  fix i old
  assume old: "map_of (outbox_events d) i = Some old"
  show "\<exists>new. map_of (outbox_events (mark_all clock rows d)) i = Some new \<and> relayed old new \<and>
      (ob_published_at old = None \<and> ob_published_at new \<noteq> None \<longrightarrow> sent_row ms old)"
  proof (cases "i \<in> fst ` set rows")
    case False
    with old mark_all_lookup(1) [OF ok rows] show ?thesis by (auto simp: relayed_refl)
  next
    case True
    from mark_all_lookup(2) [OF ok rows this, of clock] old obtain k where
      new: "map_of (outbox_events (mark_all clock rows d)) i = Some (mark_published (clock k) old)"
      and p: "pending old" "(i, old) \<in> set rows" by auto
    have "outbox_message rt old \<in> set ms" using p(2) unfolding ms by force
    then have "sent_row ms old" unfolding sent_row_def by (force simp: outbox_message_def)
    with new p(1) show ?thesis by (auto simp: relayed_def mark_published_def pending_def)
  qed
qed (simp_all add: mark_all_def fold_mark_keys)

lemma relay_step_record: "relay_step ms d (record_failure i x d)"
  by (auto simp: relay_step_def record_failure_def map_of_update_row relayed_def)

lemma sent_row_mono:
  "sent_row ms row \<Longrightarrow> set ms \<subseteq> set ms' \<Longrightarrow> relayed row' row \<Longrightarrow> sent_row ms' row'"
  by (auto simp: sent_row_def relayed_def)

lemma relay_step_trans:
  assumes 1: "relay_step ms d d1" and 2: "relay_step ms2 d1 d2"
  shows "relay_step (ms @ ms2) d d2"
  unfolding relay_step_def
proof (intro conjI allI impI)
  fix i old
  assume "map_of (outbox_events d) i = Some old"
  with 1 obtain mid where mid: "map_of (outbox_events d1) i = Some mid" "relayed old mid"
    "ob_published_at old = None \<and> ob_published_at mid \<noteq> None \<longrightarrow> sent_row ms old"
    unfolding relay_step_def by blast
  from 2 mid(1) obtain new where new: "map_of (outbox_events d2) i = Some new" "relayed mid new"
    "ob_published_at mid = None \<and> ob_published_at new \<noteq> None \<longrightarrow> sent_row ms2 mid"
    unfolding relay_step_def by blast
  with mid relayed_trans [of old mid new] sent_row_mono [of ms old "ms @ ms2" old]
    sent_row_mono [of ms2 mid "ms @ ms2" old]
  show "\<exists>new. map_of (outbox_events d2) i = Some new \<and> relayed old new \<and>
      (ob_published_at old = None \<and> ob_published_at new \<noteq> None \<longrightarrow> sent_row (ms @ ms2) old)"
    by (auto simp: relayed_refl)
qed (use 1 2 in \<open>auto simp: relay_step_def\<close>)

lemma relay_publish_step:
  assumes "table_ok (outbox_events d)"
    and "relay_publish rt collate cfg env d = (d', ms, failure)"
  shows "relay_step ms d d'"
proof -
  define rows where "rows = relay_rows collate (re_locked env) (nat (outbox_batch_size cfg)) d"
  obtain ms' stop where send: "relay_send rt (re_send env) 0 rows = (ms', stop)" by fastforce
  show ?thesis
  proof (cases stop)
    case (Some ix)
    with assms(2) send show ?thesis
      by (cases ix) (auto simp: relay_publish_def rows_def [symmetric] Let_def relay_step_refl)
  next
    case None
    with send have ms': "ms' = map (\<lambda>r. outbox_message rt (snd r)) rows"
      by (simp add: relay_send_all)
    from assms(2) send None have "ms = ms'" and
      "d' = d \<or> d' = mark_all (re_clock env) rows d"
      by (auto simp: relay_publish_def rows_def [symmetric] Let_def split: db_fate.splits)
    with relay_step_mark [OF assms(1) rows_def ms', of "re_clock env"] show ?thesis
      by (auto simp: relay_step_refl)
  qed
qed

text \<open>Whatever becomes of the transaction, only rows that wait in the outbox are sent.\<close>

definition sends :: "runtime \<Rightarrow> db \<Rightarrow> outbox_payload message list \<Rightarrow> bool" where
  "sends rt d ms \<longleftrightarrow> (\<forall>m \<in> set ms. \<exists>i row. map_of (outbox_events d) i = Some row \<and>
     pending row \<and> m = outbox_message rt row)"

lemma sends_simps [simp]:
  "sends rt d []" "sends rt d (ms @ ms2) \<longleftrightarrow> sends rt d ms \<and> sends rt d ms2"
  by (auto simp: sends_def)

lemma relay_send_sub:
  "relay_send rt fate k rows = (ms, stop) \<Longrightarrow> set ms \<subseteq> (\<lambda>r. outbox_message rt (snd r)) ` set rows"
  by (induction rt fate k rows arbitrary: ms rule: relay_send.induct)
    (fastforce split: send_fate.splits prod.splits if_splits)+

lemma relay_publish_sends:
  assumes "table_ok (outbox_events d)" and "relay_publish rt collate cfg env d = (d', ms, failure)"
  shows "sends rt d ms"
proof -
  define rows where "rows = relay_rows collate (re_locked env) (nat (outbox_batch_size cfg)) d"
  obtain ms' stop where send: "relay_send rt (re_send env) 0 rows = (ms', stop)" by fastforce
  with assms(2) have "ms = ms'"
    by (auto simp: relay_publish_def rows_def [symmetric] Let_def split: option.splits db_fate.splits)
  moreover have "map_of (outbox_events d) i = Some row \<and> pending row" if "(i, row) \<in> set rows" for i row
    using relay_rows_sub [OF that [unfolded rows_def]] assms(1) by (simp add: map_of_eq_Some_iff_table)
  ultimately show ?thesis
    using relay_send_sub [OF send] unfolding sends_def by fastforce
qed

text \<open>What waits after a step has waited before it, with the same message.\<close>

lemma sends_before:
  assumes step: "relay_step ms d d'" and sent: "sends rt d' ms2"
  shows "sends rt d ms2"
  unfolding sends_def
proof
  fix m
  assume "m \<in> set ms2"
  with sent obtain i new where new: "map_of (outbox_events d') i = Some new" "pending new"
    "m = outbox_message rt new" by (auto simp: sends_def)
  have "dom (map_of (outbox_events d')) = dom (map_of (outbox_events d))"
    using step by (metis dom_map_of_table relay_step_def set_map)
  with new(1) obtain old where old: "map_of (outbox_events d) i = Some old" by blast
  with step new(1) have "relayed old new" unfolding relay_step_def by fastforce
  with new(2,3) have "pending old" "m = outbox_message rt old"
    by (auto simp: relayed_def pending_def outbox_message_def)
  with old show "\<exists>i row. map_of (outbox_events d) i = Some row \<and> pending row \<and> m = outbox_message rt row"
    by blast
qed

lemma relay_failed_step:
  assumes "relay_failed cfg env i x st = (st', ex)"
  shows "relay_step [] (rl_db st) (rl_db st') \<and> rl_sent st' = rl_sent st"
  using assms relay_step_record [of "[]" "rl_db st"]
  by (auto simp: relay_failed_def Let_def relay_step_refl split: option.splits if_splits)

lemma relay_turn_step:
  assumes ok: "table_ok (outbox_events (rl_db st))"
    and t: "relay_turn rt collate cfg env st = (st', ex)"
  obtains ms where "relay_step ms (rl_db st) (rl_db st')" "rl_sent st' = rl_sent st @ ms"
    "sends rt (rl_db st) ms"
proof -
  obtain d ms failure where p: "relay_publish rt collate cfg env (rl_db st) = (d, ms, failure)"
    by (metis prod_cases3)
  have step: "relay_step ms (rl_db st) d" by (rule relay_publish_step [OF ok p])
  have sends: "sends rt (rl_db st) ms" by (rule relay_publish_sends [OF ok p])
  define st1 where "st1 = st\<lparr>rl_db := d, rl_sent := rl_sent st @ ms\<rparr>"
  show thesis
  proof (cases failure)
    case (Some ix)
    with t p have "relay_failed cfg env (fst ix) (snd ix) st1 = (st', ex)"
      by (cases ix) (simp add: relay_turn_def st1_def Let_def)
    from relay_failed_step [OF this] relay_step_trans [OF step, of "[]" "rl_db st'"] that sends
    show thesis by (auto simp: st1_def)
  next
    case None
    show thesis
    proof (cases "re_backlog env")
      case (Some x)
      with t p None have "relay_failed cfg env None x (st1\<lparr>rl_attempt := 0\<rparr>) = (st', ex)"
        by (simp add: relay_turn_def st1_def Let_def)
      from relay_failed_step [OF this] relay_step_trans [OF step, of "[]" "rl_db st'"] that sends
      show thesis by (auto simp: st1_def)
    next
      case backlog: None
      with t p None have "st' = st1\<lparr>rl_attempt := 0\<rparr>"
        by (simp add: relay_turn_def st1_def Let_def)
      with step that sends show thesis by (auto simp: st1_def)
    qed
  qed
qed

lemma relay_step_table_ok: "relay_step ms d d' \<Longrightarrow> table_ok (outbox_events d') = table_ok (outbox_events d)"
  by (simp add: relay_step_def table_ok_def)

lemma relay_step_marks:
  assumes "relay_step ms (rl_db st) (rl_db st')" and "rl_sent st' = rl_sent st @ ms" and "marks_sent st"
  shows "marks_sent st'"
  unfolding marks_sent_def
proof (intro allI impI)
  fix i new
  assume new: "map_of (outbox_events (rl_db st')) i = Some new" "\<not> is_redis_topic (ob_topic new)"
    "ob_published_at new \<noteq> None"
  have "dom (map_of (outbox_events (rl_db st'))) = dom (map_of (outbox_events (rl_db st)))"
    using assms(1) by (metis dom_map_of_table relay_step_def set_map)
  with new(1) obtain old where "map_of (outbox_events (rl_db st)) i = Some old" by blast
  moreover from this assms(1) new have "relayed old new"
    "ob_published_at old = None \<longrightarrow> sent_row ms old"
    unfolding relay_step_def by force+
  ultimately show "sent_row (rl_sent st') new"
    using assms(2,3) new unfolding marks_sent_def relayed_def sent_row_def by fastforce
qed

lemma relay_run_invariant:
  "table_ok (outbox_events (rl_db st)) \<Longrightarrow> relay_run rt collate cfg envs st = (st', ex) \<Longrightarrow>
     marks_sent st \<Longrightarrow> marks_sent st' \<and> (\<exists>ms. relay_step ms (rl_db st) (rl_db st') \<and>
       rl_sent st' = rl_sent st @ ms \<and> sends rt (rl_db st) ms)"
proof (induction envs arbitrary: st)
  case Nil
  then show ?case using relay_step_refl by fastforce
next
  case (Cons env envs)
  obtain st1 ex1 where t: "relay_turn rt collate cfg env st = (st1, ex1)" by fastforce
  from relay_turn_step [OF Cons.prems(1) t] obtain ms where
    ms: "relay_step ms (rl_db st) (rl_db st1)" "rl_sent st1 = rl_sent st @ ms" "sends rt (rl_db st) ms" .
  have inv: "marks_sent st1" by (rule relay_step_marks [OF ms(1,2) Cons.prems(3)])
  show ?case
  proof (cases ex1)
    case (Some x)
    with Cons.prems t have "st' = st1" by simp
    with inv ms show ?thesis by blast
  next
    case None
    with Cons.prems t have r: "relay_run rt collate cfg envs st1 = (st', ex)" by simp
    have ok: "table_ok (outbox_events (rl_db st1))"
      using relay_step_table_ok [OF ms(1)] Cons.prems(1) by simp
    from Cons.IH [OF ok r inv] obtain ms2 where ms2: "marks_sent st'"
      "relay_step ms2 (rl_db st1) (rl_db st')" "rl_sent st' = rl_sent st1 @ ms2" "sends rt (rl_db st1) ms2"
      by blast
    have "rl_sent st' = rl_sent st @ (ms @ ms2)" "sends rt (rl_db st) (ms @ ms2)"
      using ms ms2 sends_before [OF ms(1)] by simp_all
    with relay_step_trans [OF ms(1) ms2(2)] ms2(1) show ?thesis by blast
  qed
qed

subsection \<open>Safety\<close>

text \<open>
  C8. The relay never marks what it has not sent, and sends nothing else. Through any run, whatever
  is locked, fails, is rolled back or loses its acknowledgement, and wherever the service stops:
  every message it has put on Kafka is the message of a stored outbox row for Kafka that was
  unpublished when the run began, with its topic, key, payload and headers; every outbox row for
  Kafka that is marked published has been sent with its topic, key and payload; no row appears,
  disappears or changes in anything but its mark and failure record; a mark is never withdrawn; and
  nothing else in the database changes.
\<close>

theorem relay_safe:
  assumes "table_ok (outbox_events (rl_db st))" and "marks_sent st"
    and "relay_run rt collate cfg envs st = (st', ex)"
  shows "marks_sent st' \<and>
    (\<exists>ms. rl_sent st' = rl_sent st @ ms \<and>
       (\<forall>m \<in> set ms. \<exists>i row. map_of (outbox_events (rl_db st)) i = Some row \<and>
          ob_published_at row = None \<and> \<not> is_redis_topic (ob_topic row) \<and>
          m = \<lparr>msg_topic = ob_topic row, msg_key = ob_event_key row, msg_value = ob_payload row,
               msg_headers = event_headers rt (ob_payload row)\<rparr>)) \<and>
    rl_db st'\<lparr>outbox_events := []\<rparr> = rl_db st\<lparr>outbox_events := []\<rparr> \<and>
    map fst (outbox_events (rl_db st')) = map fst (outbox_events (rl_db st)) \<and>
    rows_le relayed (outbox_events (rl_db st)) (outbox_events (rl_db st'))"
proof -
  from relay_run_invariant [OF assms(1,3,2)] obtain ms where
    inv: "marks_sent st'" and step: "relay_step ms (rl_db st) (rl_db st')" and
    ms: "rl_sent st' = rl_sent st @ ms" "sends rt (rl_db st) ms" by blast
  from step have "rows_le relayed (outbox_events (rl_db st)) (outbox_events (rl_db st'))"
    unfolding rows_le_def relay_step_def by blast
  with inv step show ?thesis
    using ms(1) ms(2) [unfolded sends_def pending_def outbox_message_def] by (auto simp: relay_step_def)
qed

subsection \<open>Draining\<close>

definition quiet :: "relay_env \<Rightarrow> bool" where
  "quiet env \<longleftrightarrow> re_locked env = (\<lambda>_. False) \<and> re_send env = (\<lambda>_. SendOk) \<and>
     re_fate env = DbCommits \<and> re_backlog env = None"

text \<open>The pending rows in the order the relay reads them.\<close>

definition waiting :: "(string \<Rightarrow> string) \<Rightarrow> db \<Rightarrow> outbox_entry_row list" where
  "waiting collate d = sort_key (\<lambda>(i, row). (ob_created_at row, collate i))
     (filter (\<lambda>(i, row). pending row) (outbox_events d))"

lemma relay_rows_waiting: "relay_rows collate (\<lambda>_. False) n d = take n (waiting collate d)"
  by (simp add: relay_rows_def waiting_def)

lemma length_waiting: "length (waiting collate d) = relay_backlog d"
  by (simp add: waiting_def relay_backlog_def)

lemma distinct_waiting:
  assumes "table_ok (outbox_events d)"
  shows "distinct (map fst (waiting collate d))"
  using distinct_relay_rows [OF assms, of collate "\<lambda>_. False" "length (waiting collate d)"]
  by (simp add: relay_rows_waiting)

lemma fold_mark_pending:
  "filter (\<lambda>(i, row). pending row)
     (fold (\<lambda>(k, i, _). update_row i (mark_published (clock k))) (enumerate n rows) t) =
   filter (\<lambda>(i, row). pending row \<and> i \<notin> fst ` set rows) t"
proof (induction rows arbitrary: n t)
  case (Cons r rows)
  obtain i row where r: "r = (i, row)" by (cases r)
  have "filter (\<lambda>(j, row). pending row \<and> j \<notin> J) (update_row i (mark_published (clock n)) t) =
      filter (\<lambda>(j, row). pending row \<and> j \<notin> insert i J) t" for J
    by (induction t) (auto simp: update_row_def pending_def mark_published_def split: if_splits)
  from Cons.IH [of "Suc n"] this [of "fst ` set rows"] show ?case by (simp add: r)
qed simp

lemma filter_notin_take:
  "distinct (map fst xs) \<Longrightarrow> filter (\<lambda>x. fst x \<notin> fst ` set (take n xs)) xs = drop n xs"
proof (induction xs arbitrary: n)
  case (Cons x xs)
  show ?case
  proof (cases n)
    case (Suc m)
    have "filter (\<lambda>y. fst y \<notin> fst ` set (take n (x # xs))) xs =
        filter (\<lambda>y. fst y \<notin> fst ` set (take m xs)) xs"
    proof (rule filter_cong [OF refl])
      fix y
      assume "y \<in> set xs"
      with Cons.prems have "fst y \<noteq> fst x" by (metis distinct.simps(2) image_eqI list.simps(9) list.set_map)
      then show "(fst y \<notin> fst ` set (take n (x # xs))) = (fst y \<notin> fst ` set (take m xs))"
        by (simp add: Suc)
    qed
    with Cons show ?thesis by (simp add: Suc)
  qed simp
qed simp

lemma waiting_after_mark:
  assumes "table_ok (outbox_events d)"
  shows "waiting collate (mark_all clock (take n (waiting collate d)) d) = drop n (waiting collate d)"
proof -
  let ?key = "\<lambda>(i, row). (ob_created_at row, collate i)"
  let ?taken = "fst ` set (take n (waiting collate d))"
  have "waiting collate (mark_all clock (take n (waiting collate d)) d) =
      sort_key ?key (filter (\<lambda>(i, row). pending row \<and> i \<notin> ?taken) (outbox_events d))"
    unfolding waiting_def [of collate "mark_all clock rows d" for rows]
    by (simp add: mark_all_def fold_mark_pending)
  also have "filter (\<lambda>(i, row). pending row \<and> i \<notin> ?taken) (outbox_events d) =
      filter (\<lambda>x. fst x \<notin> ?taken) (filter (\<lambda>(i, row). pending row) (outbox_events d))"
    by (simp add: case_prod_unfold)
  also have "sort_key ?key \<dots> = filter (\<lambda>x. fst x \<notin> ?taken) (waiting collate d)"
    by (simp add: waiting_def filter_sort)
  also have "\<dots> = drop n (waiting collate d)"
    by (rule filter_notin_take [OF distinct_waiting [OF assms]])
  finally show ?thesis .
qed

lemma quiet_turn:
  assumes "quiet env"
  shows "relay_turn rt collate cfg env st =
    (let rows = relay_rows collate (\<lambda>_. False) (nat (outbox_batch_size cfg)) (rl_db st)
     in (st\<lparr>rl_db := mark_all (re_clock env) rows (rl_db st),
            rl_sent := rl_sent st @ map (\<lambda>r. outbox_message rt (snd r)) rows, rl_attempt := 0\<rparr>, None))"
  using assms relay_send_ok [of "\<lambda>_. SendOk"]
  by (simp add: quiet_def relay_turn_def relay_publish_def Let_def)

lemma quiet_run_sent:
  "table_ok (outbox_events (rl_db st)) \<Longrightarrow> \<forall>env \<in> set envs. quiet env \<Longrightarrow>
     n = length envs * nat (outbox_batch_size cfg) \<Longrightarrow>
     \<exists>st'. relay_run rt collate cfg envs st = (st', None) \<and>
       waiting collate (rl_db st') = drop n (waiting collate (rl_db st)) \<and>
       rl_sent st' = rl_sent st @
         map (\<lambda>r. outbox_message rt (snd r)) (take n (waiting collate (rl_db st)))"
proof (induction envs arbitrary: st n)
  case (Cons env envs)
  define b where "b = nat (outbox_batch_size cfg)"
  define st1 where "st1 = st\<lparr>rl_db := mark_all (re_clock env) (take b (waiting collate (rl_db st))) (rl_db st),
      rl_sent := rl_sent st @ map (\<lambda>r. outbox_message rt (snd r)) (take b (waiting collate (rl_db st))),
      rl_attempt := 0\<rparr>"
  have turn: "relay_turn rt collate cfg env st = (st1, None)"
    using quiet_turn [of env rt collate cfg st] Cons.prems(2)
    by (simp add: st1_def b_def Let_def relay_rows_waiting)
  have left: "waiting collate (rl_db st1) = drop b (waiting collate (rl_db st))"
    using waiting_after_mark [OF Cons.prems(1)] by (simp add: st1_def)
  have ok: "table_ok (outbox_events (rl_db st1))"
    using Cons.prems(1) by (simp add: st1_def mark_all_table_ok)
  from Cons.IH [OF ok _ refl] Cons.prems(2) obtain st' where
    st': "relay_run rt collate cfg envs st1 = (st', None)"
    "waiting collate (rl_db st') = drop (length envs * b) (waiting collate (rl_db st1))"
    "rl_sent st' = rl_sent st1 @
       map (\<lambda>r. outbox_message rt (snd r)) (take (length envs * b) (waiting collate (rl_db st1)))"
    by (auto simp: b_def)
  have "waiting collate (rl_db st') = drop n (waiting collate (rl_db st))"
    using Cons.prems(3) st'(2) left by (simp add: b_def algebra_simps)
  moreover have "rl_sent st' = rl_sent st @
      map (\<lambda>r. outbox_message rt (snd r)) (take n (waiting collate (rl_db st)))"
    using Cons.prems(3) st'(3) left by (simp add: st1_def take_add b_def [symmetric] flip: map_append)
  ultimately show ?case using turn st'(1) by simp
qed simp

lemma quiet_run:
  assumes "table_ok (outbox_events (rl_db st))" "\<forall>env \<in> set envs. quiet env"
  shows "\<exists>st'. relay_run rt collate cfg envs st = (st', None) \<and>
    relay_backlog (rl_db st') = relay_backlog (rl_db st) - length envs * nat (outbox_batch_size cfg)"
  using quiet_run_sent [OF assms refl, of rt collate cfg] by (metis length_drop length_waiting)

text \<open>
  C23. Without faults the backlog drains, in order. If nothing is locked and no call fails, then
  once the turns have room for the pending Kafka rows, every one of them is sent: what the run adds
  to Kafka is exactly one message for each row that was pending, oldest first, rows of one time by
  their identifier, and nothing is left pending.
\<close>

theorem relay_drains:
  assumes "table_ok (outbox_events (rl_db st))" and "\<And>env. env \<in> set envs \<Longrightarrow> quiet env"
    and "relay_backlog (rl_db st) \<le> length envs * nat (outbox_batch_size cfg)"
  shows "\<exists>st'. relay_run rt collate cfg envs st = (st', None) \<and> relay_backlog (rl_db st') = 0 \<and>
    rl_sent st' = rl_sent st @
      map (\<lambda>(i, row). outbox_message rt row)
        (sort_key (\<lambda>(i, row). (ob_created_at row, collate i))
          (filter (\<lambda>(i, row). ob_published_at row = None \<and> \<not> is_redis_topic (ob_topic row))
            (outbox_events (rl_db st))))"
proof -
  define n where "n = length envs * nat (outbox_batch_size cfg)"
  obtain st' where st': "relay_run rt collate cfg envs st = (st', None)"
    "waiting collate (rl_db st') = drop n (waiting collate (rl_db st))"
    "rl_sent st' = rl_sent st @ map (\<lambda>r. outbox_message rt (snd r)) (take n (waiting collate (rl_db st)))"
    using quiet_run_sent [OF assms(1) _ n_def, of rt collate] assms(2) by blast
  have "length (waiting collate (rl_db st)) \<le> n"
    using assms(3) by (simp add: length_waiting n_def)
  then have "waiting collate (rl_db st') = []" "rl_sent st' = rl_sent st @
      map (\<lambda>r. outbox_message rt (snd r)) (waiting collate (rl_db st))"
    using st'(2,3) by simp_all
  with st'(1) show ?thesis
    using length_waiting [of collate "rl_db st'"]
    by (simp add: waiting_def [of _ "rl_db st"] pending_def case_prod_beta)
qed

subsection \<open>Witnesses\<close>

definition sample_outbox :: "string \<Rightarrow> int \<Rightarrow> string \<times> outbox_row" where
  "sample_outbox i created = (i,
     \<lparr>ob_aggregate_id = ''a'', ob_topic = ''risk.scoring-requests.v1'', ob_event_key = ''a'',
      ob_payload = Completed (sample_result (CHR ''1'') ''a'' (3/10) 1 4), ob_schema_version = ''1.0'',
      ob_created_at = created, ob_published_at = None, ob_attempt_count = 0, ob_last_error = None\<rparr>)"

definition sample_relay :: relay where
  "sample_relay = \<lparr>rl_db = empty_db\<lparr>outbox_events := [sample_outbox ''x'' 5, sample_outbox ''y'' 4]\<rparr>,
     rl_sent = [], rl_attempt = 0\<rparr>"

definition quiet_env :: relay_env where
  "quiet_env = \<lparr>re_locked = (\<lambda>_. False), re_clock = (\<lambda>k. int k), re_send = (\<lambda>_. SendOk),
     re_fate = DbCommits, re_backlog = None, re_record = None\<rparr>"

lemma sample_relay_ok: "table_ok (outbox_events (rl_db sample_relay))" "marks_sent sample_relay"
  by (auto simp: sample_relay_def table_ok_def sample_outbox_def marks_sent_def split: if_splits)

theorem relay_drains_witness:
  "\<exists>st'. relay_run sample_runtime id (default_settings ''outbox-relay'' ''h'') [quiet_env] sample_relay =
      (st', None) \<and> relay_backlog (rl_db st') = 0 \<and>
    rl_sent st' = map (outbox_message sample_runtime \<circ> snd) [sample_outbox ''y'' 4, sample_outbox ''x'' 5]"
proof -
  have "quiet env" if "env \<in> set [quiet_env]" for env
    using that by (simp add: quiet_env_def quiet_def)
  moreover have n: "relay_backlog (rl_db sample_relay) = 2" "rl_sent sample_relay = []"
    by (simp_all add: sample_relay_def relay_backlog_def sample_outbox_def pending_def
        is_redis_topic_def)
  moreover have "2 \<le> length [quiet_env] * nat (outbox_batch_size (default_settings ''outbox-relay'' ''h''))"
    by (simp add: default_settings_def)
  ultimately show ?thesis
    using relay_drains [OF sample_relay_ok(1), of "[quiet_env]"
        "default_settings ''outbox-relay'' ''h''" sample_runtime id]
    by (simp add: sample_relay_def sample_outbox_def is_redis_topic_def comp_def)
qed

theorem relay_safe_witness:
  "marks_sent (fst (relay_run sample_runtime id (default_settings ''outbox-relay'' ''h'')
     [quiet_env\<lparr>re_send := (\<lambda>k. if k = 1 then SendFails TimeoutError True else SendOk)\<rparr>, quiet_env]
     sample_relay))"
  using relay_safe [OF sample_relay_ok]
  by (metis fst_conv surj_pair)

end
