(* ===== verification/Worker.thy ===== *)
theory Worker
  imports Relay Subgraph
begin

text \<open>
  \<open>services/inference_worker/main.py\<close> with \<open>shared/model/runtime.py\<close> and the graph construction of
  \<open>gnn_inference.py\<close>: what the model is given, the scoring of one request, the attempts around it
  with the dead letter they may end in, and the bounded local queue. The network itself (scaler,
  attention layers, softmax) is the parameter \<open>infer\<close>.
\<close>

subsection \<open>The model input\<close>

text \<open>\<open>ModelRuntime.predict\<close> emits both directions of every stored edge.\<close>

definition both_directions :: "edge list \<Rightarrow> edge list" where
  "both_directions edges = concat (map (\<lambda>(s, d). [(s, d), (d, s)]) edges)"

lemma set_both_directions: "set (both_directions es) = set es \<union> (\<lambda>(s, d). (d, s)) ` set es"
  by (auto simp: both_directions_def)

text \<open>The dict \<open>{n["txId"]: i}\<close>: a later node replaces an earlier one of the same id.\<close>

definition id2idx :: "subgraph_node list \<Rightarrow> string \<Rightarrow> nat option" where
  "id2idx nodes = map_of (rev (zip (map sn_txId nodes) [0..<length nodes]))"

fun edge_index :: "(string \<Rightarrow> nat option) \<Rightarrow> edge list \<Rightarrow> (nat \<times> nat) list" where
  "edge_index idx [] = []"
| "edge_index idx ((s, d) # es) =
     (case (idx s, idx d) of
        (Some i, Some j) \<Rightarrow> (i, j) # edge_index idx es
      | _ \<Rightarrow> edge_index idx es)"

type_synonym network = "rat list list \<Rightarrow> (nat \<times> nat) list \<Rightarrow> nat \<Rightarrow> rat result"

definition gnn_predict ::
  "network \<Rightarrow> subgraph_node list \<Rightarrow> edge list \<Rightarrow> string \<Rightarrow> rat result"
where
  "gnn_predict infer nodes edges center =
     (if nodes = [] then Inr 0
      else case id2idx nodes center of
             None \<Rightarrow> Inr 0
           | Some c \<Rightarrow> infer (map sn_features nodes) (edge_index (id2idx nodes) edges) c)"

record model_runtime =
  mr_model_version :: string
  mr_model_checksum :: string
  mr_feature_schema_version :: string
  mr_deployment_timestamp :: datetime
  mr_infer :: network

text \<open>The constructor: the checksum of the file, and its modification time where none is configured.\<close>

definition load_model :: "settings \<Rightarrow> string \<Rightarrow> int \<Rightarrow> network \<Rightarrow> model_runtime" where
  "load_model cfg sha256_hex mtime infer =
     \<lparr>mr_model_version = cfg_model_version cfg,
      mr_model_checksum = ''sha256:'' @ sha256_hex,
      mr_feature_schema_version = cfg_feature_schema_version cfg,
      mr_deployment_timestamp =
        (case model_deployment_timestamp cfg of Some t \<Rightarrow> t | None \<Rightarrow> Aware mtime),
      mr_infer = infer\<rparr>"

definition model_predict :: "model_runtime \<Rightarrow> subgraph \<Rightarrow> rat result" where
  "model_predict model g =
     gnn_predict (mr_infer model) (sg_nodes g) (both_directions (sg_edges g)) (sg_center g)"

subsection \<open>Scoring one request\<close>

text \<open>
  What one attempt reads from its environment: clock readings, the measured inference time in
  milliseconds, whether the read transaction fails, the inference times out, the publication, the
  offset commit or the lag observation fails, the jitter of the sleep after it, and the time its
  failure is noticed.
\<close>

record attempt_env =
  at_started :: int
  at_scored :: int
  at_inference_ms :: rat
  at_database :: "exn option"
  at_times_out :: bool
  at_send :: send_fate
  at_commit :: "exn option"
  at_lag :: "exn option"
  at_jitter :: rat
  at_failed :: int

text \<open>Where the queries run: the stored graph and the order the database returns rows in.\<close>

record reader =
  rd_db :: db
  rd_collate :: "string \<Rightarrow> string"
  rd_scan :: "score_entry list \<Rightarrow> score_entry list"

definition scoring_subgraph :: "reader \<Rightarrow> settings \<Rightarrow> scoring_requested \<Rightarrow> subgraph option" where
  "scoring_subgraph rd cfg ev =
     get_bounded_subgraph (rd_collate rd) (rd_scan rd) (req_tx_id (payload ev))
       (nat (graph_max_hops cfg)) (nat (graph_max_nodes cfg)) (nat (graph_max_edges cfg))
       (Some (cfg_model_version cfg)) (rd_db rd)"

definition fetch_subgraph ::
  "reader \<Rightarrow> settings \<Rightarrow> model_runtime \<Rightarrow> scoring_requested \<Rightarrow> attempt_env \<Rightarrow> subgraph result"
where
  "fetch_subgraph rd cfg model ev env =
     (let p = payload ev in
      if req_feature_schema_version p \<noteq> mr_feature_schema_version model
      then Inl (PermanentEventError (''feature schema '' @ req_feature_schema_version p @
             '' does not match worker schema '' @ mr_feature_schema_version model))
      else case at_database env of
        Some x \<Rightarrow> Inl x
      | None \<Rightarrow>
          (case scoring_subgraph rd cfg ev of
             None \<Rightarrow> Inl (MissingGraphStateError (''transaction '' @ req_tx_id p @
               '' is absent at graph watermark '' @ str_int (req_graph_watermark p)))
           | Some g \<Rightarrow>
               if sg_graph_watermark g < req_graph_watermark p
               then Inl (MissingGraphStateError (''graph watermark '' @
                      str_int (sg_graph_watermark g) @ '' is behind request '' @
                      str_int (req_graph_watermark p)))
               else Inr g))"

definition run_inference :: "model_runtime \<Rightarrow> subgraph \<Rightarrow> attempt_env \<Rightarrow> rat result" where
  "run_inference model g env =
     (if at_times_out env then Inl TimeoutError
      else case model_predict model g of
             Inl TimeoutError \<Rightarrow> Inl TimeoutError
           | Inl x \<Rightarrow> Inl (ModelInferenceError ''model inference failed'')
           | Inr p \<Rightarrow> Inr p)"

definition result_id :: "runtime \<Rightarrow> model_runtime \<Rightarrow> scoring_requested \<Rightarrow> string" where
  "result_id rt model ev =
     deterministic_event_id (rt_uuid5 rt) ''risk.scoring.completed.v1''
       [SPart (event_id ev), SPart (mr_model_version model)]"

definition scoring_result ::
  "runtime \<Rightarrow> settings \<Rightarrow> model_runtime \<Rightarrow> scoring_requested \<Rightarrow> attempt_env \<Rightarrow> rat \<Rightarrow> int \<Rightarrow> int
     \<Rightarrow> scoring_completed"
where
  "scoring_result rt cfg model ev env probability queue_us end_to_end_us =
     \<lparr>event_id = result_id rt model ev,
      event_type = ''risk.scoring.completed.v1'',
      schema_version = SCHEMA_VERSION_V1,
      occurred_at = occurred_at ev,
      produced_at = Aware (at_scored env),
      producer = service_name cfg,
      trace_id = trace_id ev,
      traceparent = or_else (current_traceparent rt) (traceparent ev),
      correlation_id = correlation_id ev,
      causation_id = Some (event_id ev),
      payload =
        \<lparr>res_tx_id = req_tx_id (payload ev),
         res_illicit_probability = probability,
         res_model_version = mr_model_version model,
         res_model_checksum = mr_model_checksum model,
         res_model_deployed_at = Some (mr_deployment_timestamp model),
         res_feature_schema_version = mr_feature_schema_version model,
         res_graph_watermark = req_graph_watermark (payload ev),
         res_source_time_step = req_source_time_step (payload ev),
         res_event_sequence = req_event_sequence (payload ev),
         res_source_ingested_at = req_source_ingested_at (payload ev),
         res_queue_delay_ms = clamped_ms queue_us,
         res_inference_latency_ms = at_inference_ms env,
         res_end_to_end_latency_ms = clamped_ms end_to_end_us,
         res_scored_at = Aware (at_scored env)\<rparr>\<rparr>"

definition build_result ::
  "runtime \<Rightarrow> reader \<Rightarrow> settings \<Rightarrow> model_runtime \<Rightarrow> scoring_requested \<Rightarrow> attempt_env
     \<Rightarrow> scoring_completed result"
where
  "build_result rt rd cfg model ev env =
     rbind (fetch_subgraph rd cfg model ev env) (\<lambda>g.
     rbind (run_inference model g env) (\<lambda>probability.
     rbind (dt_sub (Aware (at_started env)) (req_requested_at (payload ev))) (\<lambda>queue_us.
     rbind (dt_sub (Aware (at_scored env)) (req_source_ingested_at (payload ev))) (\<lambda>end_to_end_us.
     checked valid_scoring_completed
       (scoring_result rt cfg model ev env probability queue_us end_to_end_us)))))"

definition result_message ::
  "runtime \<Rightarrow> settings \<Rightarrow> scoring_completed \<Rightarrow> scoring_completed message"
where
  "result_message rt cfg r =
     \<lparr>msg_topic = scoring_result_topic cfg, msg_key = res_tx_id (payload r), msg_value = r,
      msg_headers = inject_kafka_trace rt (kafka_headers r)\<rparr>"

text \<open>What the worker does to the outside, in order.\<close>

datatype effect =
    ResultSent "scoring_completed message"
  | LetterSent "dead_letter message"
  | Committed int
  | Slept rat

definition score_and_publish ::
  "runtime \<Rightarrow> reader \<Rightarrow> settings \<Rightarrow> model_runtime \<Rightarrow> scoring_requested \<Rightarrow> attempt_env
     \<Rightarrow> effect list \<times> scoring_completed result"
where
  "score_and_publish rt rd cfg model ev env =
     (case build_result rt rd cfg model ev env of
        Inl x \<Rightarrow> ([], Inl x)
      | Inr r \<Rightarrow>
          (case at_send env of
             SendOk \<Rightarrow> ([ResultSent (result_message rt cfg r)], Inr r)
           | SendFails x delivered \<Rightarrow>
               (if delivered then [ResultSent (result_message rt cfg r)] else [], Inl x)))"

subsection \<open>The attempts\<close>

text \<open>
  The body of the \<open>try\<close>: scoring, the offset commit and the lag observation share one handler, so a
  failure of the last two also counts as a failed attempt.
\<close>

definition attempt_once ::
  "runtime \<Rightarrow> reader \<Rightarrow> settings \<Rightarrow> model_runtime \<Rightarrow> kafka_record \<Rightarrow> scoring_requested
     \<Rightarrow> attempt_env \<Rightarrow> effect list \<times> exn option"
where
  "attempt_once rt rd cfg model rec ev env =
     (case score_and_publish rt rd cfg model ev env of
        (es, Inl x) \<Rightarrow> (es, Some x)
      | (es, Inr r) \<Rightarrow>
          (case at_commit env of
             Some x \<Rightarrow> (es, Some x)
           | None \<Rightarrow> (es @ [Committed (kr_offset rec + 1)], at_lag env)))"

text \<open>
  The loop from \<open>attempt\<close> with \<open>left\<close> attempts to go; each opens a session of its own, so it has its own
  reader. The result is the effects and either nothing
  (scored) or the last error, the number of the attempt it came from and the time of the first.
\<close>

primrec attempt_loop ::
  "runtime \<Rightarrow> (nat \<Rightarrow> reader) \<Rightarrow> settings \<Rightarrow> model_runtime \<Rightarrow> kafka_record \<Rightarrow> scoring_requested
     \<Rightarrow> (nat \<Rightarrow> attempt_env) \<Rightarrow> nat \<Rightarrow> nat \<Rightarrow> int option
     \<Rightarrow> effect list \<times> (exn \<times> nat \<times> int) option"
where
  "attempt_loop rt rds cfg model rec ev envs 0 attempt first =
     ([], Some (assertion_error, attempt - 1, case first of None \<Rightarrow> 0 | Some t \<Rightarrow> t))"
| "attempt_loop rt rds cfg model rec ev envs (Suc left) attempt first =
     (case attempt_once rt (rds attempt) cfg model rec ev (envs attempt) of
        (es, None) \<Rightarrow> (es, None)
      | (es, Some x) \<Rightarrow>
          let failed_at = (case first of None \<Rightarrow> at_failed (envs attempt) | Some t \<Rightarrow> t) in
          if is_permanent x \<or> left = 0 then (es, Some (x, attempt, failed_at))
          else
            let pause = retry_delay_seconds (at_jitter (envs attempt)) (int attempt)
                  (retry_base_delay_ms cfg) (retry_max_delay_ms cfg);
                (fs, outcome) = attempt_loop rt rds cfg model rec ev envs left (Suc attempt)
                  (Some failed_at)
            in (es @ Slept pause # fs, outcome))"

text \<open>\<open>SQLAlchemyError\<close> covers both database constructors.\<close>

fun failure_stage :: "exn \<Rightarrow> string" where
  "failure_stage (MissingGraphStateError _) = ''missing_graph_state''"
| "failure_stage (ModelInferenceError _) = ''model_inference''"
| "failure_stage (IntegrityError _) = ''database''"
| "failure_stage (DatabaseError _) = ''database''"
| "failure_stage TimeoutError = ''model_inference_timeout''"
| "failure_stage (PermanentEventError _) = ''feature_schema_validation''"
| "failure_stage _ = ''scoring_poison_event''"

record record_env =
  rc_attempt :: "nat \<Rightarrow> attempt_env"
  rc_now :: int
  rc_send :: "exn option"
  rc_commit :: "exn option"

text \<open>Publishing a dead letter and committing the offset; what either raises escapes.\<close>

definition dead_letter_and_commit ::
  "runtime \<Rightarrow> settings \<Rightarrow> kafka_record \<Rightarrow> string \<Rightarrow> exn \<Rightarrow> int \<Rightarrow> int option \<Rightarrow> record_env
     \<Rightarrow> effect list \<times> exn option"
where
  "dead_letter_and_commit rt cfg rec stage x attempts first env =
     (case publish_dead_letter rt cfg rec stage x attempts first (rc_now env) of
        Inl y \<Rightarrow> ([], Some y)
      | Inr m \<Rightarrow>
          (case rc_send env of
             Some y \<Rightarrow> ([], Some y)
           | None \<Rightarrow>
               (case rc_commit env of
                  Some y \<Rightarrow> ([LetterSent m], Some y)
                | None \<Rightarrow> ([LetterSent m, Committed (kr_offset rec + 1)], None))))"

definition process_record ::
  "runtime \<Rightarrow> (nat \<Rightarrow> reader) \<Rightarrow> settings \<Rightarrow> model_runtime \<Rightarrow> (bytes \<Rightarrow> scoring_requested option)
     \<Rightarrow> kafka_record \<Rightarrow> record_env \<Rightarrow> effect list \<times> exn option"
where
  "process_record rt rds cfg model parse rec env =
     (case decode_value parse valid_scoring_requested (kr_value rec) of
        Inl x \<Rightarrow> dead_letter_and_commit rt cfg rec ''scoring_contract_validation'' x 1 None env
      | Inr ev \<Rightarrow>
          (case attempt_loop rt rds cfg model rec ev (rc_attempt env)
                  (nat (retry_max_attempts cfg)) 1 None of
             (es, None) \<Rightarrow> (es, None)
           | (es, Some (x, attempts, first)) \<Rightarrow>
               (case dead_letter_and_commit rt cfg rec (failure_stage x) x (int attempts)
                       (Some first) env of
                  (fs, ex) \<Rightarrow> (es @ fs, ex))))"

subsection \<open>The bounded queue\<close>

record 'r local_queue =
  lq_items :: "'r list"
  lq_maxsize :: nat
  lq_paused :: bool

text \<open>
  One turn of \<open>poll_into_queue\<close>: whether partitions are assigned, and what \<open>getmany\<close> returns for a
  given \<open>max_records\<close>. The result also says what was asked of the consumer.
\<close>

datatype consumer_call = Pause | Resume | GetMany int

definition poll_turn ::
  "settings \<Rightarrow> bool \<Rightarrow> (int \<Rightarrow> 'r list) \<Rightarrow> 'r local_queue \<Rightarrow> 'r local_queue \<times> consumer_call list"
where
  "poll_turn cfg assigned getmany q =
     (if lq_maxsize q \<le> length (lq_items q)
      then (if assigned \<and> \<not> lq_paused q then (q\<lparr>lq_paused := True\<rparr>, [Pause]) else (q, []))
      else
        let resume = lq_paused q \<and> length (lq_items q) \<le> max (lq_maxsize q div 2) 1;
            n = min (kafka_max_poll_records cfg) (int (lq_maxsize q) - int (length (lq_items q)))
        in (q\<lparr>lq_items := lq_items q @ getmany n,
              lq_paused := (lq_paused q \<and> \<not> resume)\<rparr>,
            (if resume then [Resume] else []) @ [GetMany n]))"

text \<open>\<open>queue.get()\<close> in \<open>drain_queue\<close>.\<close>

definition take_item :: "'r local_queue \<Rightarrow> ('r \<times> 'r local_queue) option" where
  "take_item q =
     (case lq_items q of [] \<Rightarrow> None | r # rs \<Rightarrow> Some (r, q\<lparr>lq_items := rs\<rparr>))"

end
