(* ===== verification/Worker_Props.thy ===== *)
theory Worker_Props
  imports Worker Subgraph_Props Consumer_Props
begin

text \<open>What the inference worker guarantees, and where it does not.\<close>

subsection \<open>The model input\<close>

lemma id2idx_Some:
  assumes "distinct (map sn_txId nodes)"
  shows "id2idx nodes x = Some i \<longleftrightarrow> i < length nodes \<and> map sn_txId nodes ! i = x"
proof -
  have "distinct (map fst (rev (zip (map sn_txId nodes) [0..<length nodes])))"
    using assms by (simp add: rev_map [symmetric])
  then have "id2idx nodes x = Some i \<longleftrightarrow> (x, i) \<in> set (zip (map sn_txId nodes) [0..<length nodes])"
    by (simp add: id2idx_def)
  then show ?thesis by (auto simp: in_set_zip)
qed

lemma set_edge_index:
  "set (edge_index idx es) = {(i, j). \<exists>(s, d) \<in> set es. idx s = Some i \<and> idx d = Some j}"
  by (induction idx es rule: edge_index.induct) (auto split: option.splits)

lemma center_in_nodes:
  assumes "get_bounded_subgraph collate scan c n M K mv d = Some g"
    and "keys_ok d" and "edges_fk d" and "1 \<le> M"
  shows "c \<in> set (node_names g)"
  using visited_names [OF assms]
    reached_rounds [OF assms(2,4), where c = c and n = n and collate = collate and K = K]
  by (auto simp: reached_def)

lemma fold_max_ge: "(w :: int) \<le> m \<Longrightarrow> w \<le> fold max ws m"
  by (induction ws arbitrary: m) auto

lemma watermark_least:
  assumes "get_bounded_subgraph collate scan c n M K mv d = Some g" and "sg_nodes g \<noteq> []"
    and "\<And>t row. (t, row) \<in> set (transactions d) \<Longrightarrow> w \<le> tx_graph_watermark row"
  shows "w \<le> sg_graph_watermark g"
proof -
  define nodes where "nodes = sort_key (\<lambda>(t, _). collate t)
    (filter (\<lambda>(t, _). t \<in> se_visited (search_rounds collate d M K c n)) (transactions d))"
  have g: "sg_graph_watermark g = (case map (\<lambda>(_, node). tx_graph_watermark node) nodes of
      [] \<Rightarrow> 0 | w # ws \<Rightarrow> fold max ws w)" "length (sg_nodes g) = length nodes"
    using assms(1) by (auto simp: get_bounded_subgraph_def Let_def nodes_def split: if_splits)
  have "\<forall>p \<in> set nodes. w \<le> tx_graph_watermark (snd p)"
    using assms(3) by (auto simp: nodes_def)
  with g assms(2) show ?thesis
    by (cases nodes) (auto intro: fold_max_ge split: prod.splits)
qed

text \<open>
  C25. The model sees the stored graph. For a subgraph read from a database that meets its
  constraints, the network is run on the features of exactly the returned nodes in order, on index
  pairs that are precisely the returned edges in both directions (none is dropped, none points
  outside), and is asked for the index of the requested transaction.
\<close>

theorem model_input_faithful:
  assumes g: "get_bounded_subgraph collate scan c n M K mv d = Some g"
    and keys: "keys_ok d" and fk: "edges_fk d" and M: "1 \<le> M"
  shows "\<exists>pairs center. model_predict model g =
      mr_infer model (map sn_features (sg_nodes g)) pairs center \<and>
    center < length (sg_nodes g) \<and> node_names g ! center = c \<and>
    set pairs = {(i, j). i < length (sg_nodes g) \<and> j < length (sg_nodes g) \<and>
      ((node_names g ! i, node_names g ! j) \<in> set (sg_edges g) \<or>
       (node_names g ! j, node_names g ! i) \<in> set (sg_edges g))}"
proof -
  let ?ns = "sg_nodes g" and ?idx = "id2idx (sg_nodes g)"
  have dist: "distinct (map sn_txId ?ns)"
    using distinct_node_names [OF g keys] by (simp add: node_names_def)
  from center_in_nodes [OF g keys fk M] obtain i where i: "i < length ?ns" "node_names g ! i = c"
    by (auto simp: node_names_def in_set_conv_nth)
  have idx: "?idx x = Some k \<longleftrightarrow> k < length ?ns \<and> node_names g ! k = x" for x k
    using id2idx_Some [OF dist] by (simp add: node_names_def)
  have "?idx c = Some i" using i by (simp add: idx)
  moreover have "?ns \<noteq> []" using i by auto
  moreover have "sg_center g = c" by (rule subgraph_parts(2) [OF g])
  ultimately have "model_predict model g =
      mr_infer model (map sn_features ?ns) (edge_index ?idx (both_directions (sg_edges g))) i"
    by (simp add: model_predict_def gnn_predict_def)
  moreover have "set (edge_index ?idx (both_directions (sg_edges g))) =
      {(i, j). i < length ?ns \<and> j < length ?ns \<and>
        ((node_names g ! i, node_names g ! j) \<in> set (sg_edges g) \<or>
         (node_names g ! j, node_names g ! i) \<in> set (sg_edges g))}"
    unfolding set_edge_index set_both_directions by (force simp: idx)
  ultimately show ?thesis using i by blast
qed

theorem model_input_faithful_witness:
  "\<exists>g pairs center. get_bounded_subgraph id id ''a'' 1 2 1 None db_ab = Some g \<and>
     model_predict \<lparr>mr_model_version = ''m'', mr_model_checksum = [], mr_feature_schema_version = [],
        mr_deployment_timestamp = Aware 0, mr_infer = (\<lambda>X E c. Inr (of_nat (length X)))\<rparr> g =
       Inr (of_nat (length (sg_nodes g))) \<and>
     node_names g ! center = ''a'' \<and> center < length (sg_nodes g) \<and> pairs \<noteq> {(0 :: nat, 0 :: nat)}"
proof -
  obtain g where g: "get_bounded_subgraph id id ''a'' 1 2 1 None db_ab = Some g"
    using subgraph_exists [OF has_tx_ab(1)] by blast
  from model_input_faithful [OF g db_ab_ok, of "\<lparr>mr_model_version = ''m'', mr_model_checksum = [],
      mr_feature_schema_version = [], mr_deployment_timestamp = Aware 0,
      mr_infer = (\<lambda>X E c. Inr (of_nat (length X)))\<rparr>"] g
  show ?thesis by fastforce
qed

subsection \<open>One attempt\<close>

definition publishable ::
  "runtime \<Rightarrow> reader \<Rightarrow> settings \<Rightarrow> model_runtime \<Rightarrow> scoring_requested \<Rightarrow> scoring_completed \<Rightarrow> bool"
where
  "publishable rt rd cfg model ev r \<longleftrightarrow> (\<exists>env. build_result rt rd cfg model ev env = Inr r)"

lemma attempt_once_cases:
  assumes "attempt_once rt rd cfg model rec ev env = (es, out)"
  obtains (nothing) x where "es = []" "out = Some x"
  | (lost) r x where "publishable rt rd cfg model ev r"
      "es = [ResultSent (result_message rt cfg r)]" "out = Some x"
  | (committed) r where "publishable rt rd cfg model ev r"
      "es = [ResultSent (result_message rt cfg r), Committed (kr_offset rec + 1)]"
proof (cases "build_result rt rd cfg model ev env")
  case (Inl x)
  note eqs = assms Inl
  show thesis
    by (rule that(1) [of x]) (use eqs in \<open>simp_all add: attempt_once_def score_and_publish_def\<close>)
next
  case (Inr r)
  then have p: "publishable rt rd cfg model ev r" by (auto simp: publishable_def)
  show thesis
  proof (cases "at_send env")
    case SendOk
    note facts = assms Inr SendOk
    show thesis
    proof (cases "at_commit env")
      case None
      note eqs = facts None
      show thesis
        by (rule that(3) [OF p]) (use eqs in \<open>simp_all add: attempt_once_def score_and_publish_def\<close>)
    next
      case (Some x)
      note eqs = facts Some
      show thesis
        by (rule that(2) [OF p, of x]) (use eqs in \<open>simp_all add: attempt_once_def score_and_publish_def\<close>)
    qed
  next
    case (SendFails x delivered)
    note facts = assms Inr SendFails
    show thesis
    proof (cases delivered)
      case True
      note eqs = facts True
      show thesis
        by (rule that(2) [OF p, of x]) (use eqs in \<open>simp_all add: attempt_once_def score_and_publish_def\<close>)
    next
      case False
      note eqs = facts False
      show thesis
        by (rule that(1) [of x]) (use eqs in \<open>simp_all add: attempt_once_def score_and_publish_def\<close>)
    qed
  qed
qed

lemma attempt_once_scored:
  assumes "attempt_once rt rd cfg model rec ev env = (es, None)"
  shows "\<exists>r. publishable rt rd cfg model ev r \<and>
    es = [ResultSent (result_message rt cfg r), Committed (kr_offset rec + 1)]"
  using assms by (cases rule: attempt_once_cases) auto

lemma publishable_result:
  assumes "publishable rt rd cfg model ev r"
  shows "valid_scoring_completed r \<and> event_id r = result_id rt model ev \<and>
    causation_id r = Some (event_id ev) \<and> res_tx_id (payload r) = req_tx_id (payload ev) \<and>
    (\<exists>g. scoring_subgraph rd cfg ev = Some g \<and>
       req_graph_watermark (payload ev) \<le> sg_graph_watermark g \<and>
       model_predict model g = Inr (res_illicit_probability (payload r)))"
proof -
  from assms obtain env g p q e where
    "fetch_subgraph rd cfg model ev env = Inr g" "run_inference model g env = Inr p"
    "valid_scoring_completed r" "r = scoring_result rt cfg model ev env p q e"
    by (auto simp: publishable_def build_result_def result_simps)
  then show ?thesis
    by (auto simp: fetch_subgraph_def run_inference_def scoring_result_def Let_def
        split: if_splits option.splits sum.splits exn.splits)
qed

subsection \<open>The attempts of a record\<close>

definition is_sleep :: "effect \<Rightarrow> bool" where
  "is_sleep e \<longleftrightarrow> (case e of Slept _ \<Rightarrow> True | _ \<Rightarrow> False)"

lemma is_sleep_simps [simp]:
  "is_sleep (Slept t)" "\<not> is_sleep (ResultSent m)" "\<not> is_sleep (LetterSent l)"
  "\<not> is_sleep (Committed n)"
  by (simp_all add: is_sleep_def)

definition retryable :: "exn option \<Rightarrow> bool" where
  "retryable out \<longleftrightarrow> (case out of None \<Rightarrow> False | Some x \<Rightarrow> \<not> is_permanent x)"

lemma attempt_awake:
  assumes "attempt_once rt rd cfg model rec ev env = (es, out)"
  shows "filter is_sleep es = []" and "filter (\<lambda>e. \<not> is_sleep e) es = es"
  using assms by (cases rule: attempt_once_cases; simp)+

lemma attempt_loop_stops:
  assumes "attempt_once rt (rds attempt) cfg model rec ev (envs attempt) = (es, out)"
    and "\<not> retryable out \<or> left = 0"
  shows "attempt_loop rt rds cfg model rec ev envs (Suc left) attempt first =
    (es, map_option (\<lambda>x. (x, attempt, case first of None \<Rightarrow> at_failed (envs attempt) | Some t \<Rightarrow> t)) out)"
  using assms by (auto simp: retryable_def split: option.splits)

lemma attempt_loop_again:
  assumes "attempt_once rt (rds attempt) cfg model rec ev (envs attempt) = (es, out)" and "retryable out"
  shows "\<exists>fs outcome pause. attempt_loop rt rds cfg model rec ev envs (Suc left) (Suc attempt)
      (Some (case first of None \<Rightarrow> at_failed (envs attempt) | Some t \<Rightarrow> t)) = (fs, outcome) \<and>
    attempt_loop rt rds cfg model rec ev envs (Suc (Suc left)) attempt first =
      (es @ Slept pause # fs, outcome) \<and>
    pause = retry_delay_seconds (at_jitter (envs attempt)) (int attempt)
      (retry_base_delay_ms cfg) (retry_max_delay_ms cfg)"
proof -
  obtain x where x: "out = Some x" "\<not> is_permanent x"
    using assms(2) by (auto simp: retryable_def split: option.splits)
  show ?thesis
    by (subst (2) attempt_loop.simps(2))
      (simp only: assms(1) x prod.case option.case Let_def if_False simp_thms nat.distinct,
       simp split: prod.splits)
qed

text \<open>
  The loop makes attempts up to the first that scores or fails permanently, or to the last one
  allowed; its effects are theirs with one bounded sleep between two of them.
\<close>

lemma attempt_loop_run:
  assumes "\<And>k. 0 \<le> at_jitter (envs k)" and "0 \<le> retry_base_delay_ms cfg"
    and "0 \<le> retry_max_delay_ms cfg"
    and "attempt_loop rt rds cfg model rec ev envs (Suc left) attempt first = (fs, outcome)"
  shows "\<exists>k. attempt \<le> k \<and> k \<le> attempt + left \<and>
    (\<forall>j. attempt \<le> j \<longrightarrow> j < k \<longrightarrow>
       retryable (snd (attempt_once rt (rds j) cfg model rec ev (envs j)))) \<and>
    (k < attempt + left \<longrightarrow> \<not> retryable (snd (attempt_once rt (rds k) cfg model rec ev (envs k)))) \<and>
    map_option (\<lambda>(x, n, _). (x, n)) outcome =
      map_option (\<lambda>x. (x, k)) (snd (attempt_once rt (rds k) cfg model rec ev (envs k))) \<and>
    filter (\<lambda>e. \<not> is_sleep e) fs =
      concat (map (\<lambda>j. fst (attempt_once rt (rds j) cfg model rec ev (envs j))) [attempt..<Suc k]) \<and>
    length (filter is_sleep fs) = k - attempt \<and>
    (\<forall>t. Slept t \<in> set fs \<longrightarrow> 0 \<le> t \<and> t \<le> of_int (retry_max_delay_ms cfg) / 1000)"
  using assms(4)
proof (induction left arbitrary: attempt first fs outcome)
  case 0
  obtain es out where once: "attempt_once rt (rds attempt) cfg model rec ev (envs attempt) = (es, out)"
    by fastforce
  from attempt_loop_stops [where envs = envs and rds = rds and attempt = attempt, OF once, of 0 first] 0 have "fs = es"
    "outcome = map_option (\<lambda>x. (x, attempt, case first of None \<Rightarrow> at_failed (envs attempt) | Some t \<Rightarrow> t)) out"
    by (auto simp del: attempt_loop.simps)
  then show ?case
    using once attempt_awake [OF once]
    by (intro exI [of _ attempt]) (auto simp: option.map_comp o_def filter_empty_conv)
next
  case (Suc left)
  obtain es out where once: "attempt_once rt (rds attempt) cfg model rec ev (envs attempt) = (es, out)"
    by fastforce
  show ?case
  proof (cases "retryable out")
    case False
    then have "fs = es"
      "outcome = map_option (\<lambda>x. (x, attempt, case first of None \<Rightarrow> at_failed (envs attempt) | Some t \<Rightarrow> t)) out"
      using attempt_loop_stops [where envs = envs and rds = rds and attempt = attempt, OF once, of "Suc left" first] Suc.prems by (auto simp del: attempt_loop.simps)
    then show ?thesis
      using once attempt_awake [OF once] False
      by (intro exI [of _ attempt]) (auto simp: option.map_comp o_def filter_empty_conv)
  next
    case True
    from attempt_loop_again [where envs = envs and rds = rds and attempt = attempt, OF once True, of left first] obtain gs oc pause where gs:
      "attempt_loop rt rds cfg model rec ev envs (Suc left) (Suc attempt)
        (Some (case first of None \<Rightarrow> at_failed (envs attempt) | Some t \<Rightarrow> t)) = (gs, oc)"
      "attempt_loop rt rds cfg model rec ev envs (Suc (Suc left)) attempt first = (es @ Slept pause # gs, oc)"
      "pause = retry_delay_seconds (at_jitter (envs attempt)) (int attempt)
        (retry_base_delay_ms cfg) (retry_max_delay_ms cfg)" by blast
    have fs: "fs = es @ Slept pause # gs" "outcome = oc" using gs(2) Suc.prems by (auto simp del: attempt_loop.simps)
    have pause: "0 \<le> pause \<and> pause \<le> of_int (retry_max_delay_ms cfg) / 1000"
      unfolding gs(3) using retry_delay_bounds [OF assms(1-3)] by blast
    from Suc.IH [OF gs(1)] obtain k where k: "Suc attempt \<le> k" "k \<le> Suc attempt + left"
      "\<forall>j. Suc attempt \<le> j \<longrightarrow> j < k \<longrightarrow> retryable (snd (attempt_once rt (rds j) cfg model rec ev (envs j)))"
      "k < Suc attempt + left \<longrightarrow> \<not> retryable (snd (attempt_once rt (rds k) cfg model rec ev (envs k)))"
      "map_option (\<lambda>(x, n, _). (x, n)) oc =
        map_option (\<lambda>x. (x, k)) (snd (attempt_once rt (rds k) cfg model rec ev (envs k)))"
      "filter (\<lambda>e. \<not> is_sleep e) gs =
        concat (map (\<lambda>j. fst (attempt_once rt (rds j) cfg model rec ev (envs j))) [Suc attempt..<Suc k])"
      "length (filter is_sleep gs) = k - Suc attempt"
      "\<forall>t. Slept t \<in> set gs \<longrightarrow> 0 \<le> t \<and> t \<le> of_int (retry_max_delay_ms cfg) / 1000"
      by blast
    have up: "[attempt..<Suc k] = attempt # [Suc attempt..<Suc k]"
      using k(1) by (simp add: upt_conv_Cons del: upt_Suc)
    have body: "filter (\<lambda>e. \<not> is_sleep e) fs =
        concat (map (\<lambda>j. fst (attempt_once rt (rds j) cfg model rec ev (envs j))) [attempt..<Suc k])"
      using attempt_awake(2) [OF once] k(6) once by (simp add: fs up del: upt_Suc)
    have earlier: "\<forall>j. attempt \<le> j \<longrightarrow> j < k \<longrightarrow> retryable (snd (attempt_once rt (rds j) cfg model rec ev (envs j)))"
      using k(3) True once by (metis Suc_leI le_neq_implies_less snd_conv)
    have no_sleep: "Slept t \<notin> set es" for t
      using attempt_awake(1) [OF once] by (auto simp: filter_empty_conv)
    show ?thesis
      using k(1,2,4,5,7,8) earlier body attempt_awake(1) [OF once] pause no_sleep
      by (intro exI [of _ k] conjI) (auto simp: fs(2) fs(1) simp del: upt_Suc)
  qed
qed

subsection \<open>A whole record\<close>

text \<open>Effects in which every commit is of the given offset and comes after a publication.\<close>

fun commits_follow :: "int \<Rightarrow> bool \<Rightarrow> effect list \<Rightarrow> bool" where
  "commits_follow n published [] \<longleftrightarrow> True"
| "commits_follow n published (Committed k # es) \<longleftrightarrow> published \<and> k = n \<and> commits_follow n published es"
| "commits_follow n published (Slept t # es) \<longleftrightarrow> commits_follow n published es"
| "commits_follow n published (ResultSent m # es) \<longleftrightarrow> commits_follow n True es"
| "commits_follow n published (LetterSent m # es) \<longleftrightarrow> commits_follow n True es"

lemma commits_follow_mono: "commits_follow n False es \<Longrightarrow> commits_follow n b es"
  by (induction n b es rule: commits_follow.induct) auto

lemma commits_follow_append:
  "commits_follow n b es \<Longrightarrow> commits_follow n False fs \<Longrightarrow> commits_follow n b (es @ fs)"
  by (induction n b es rule: commits_follow.induct) (auto intro: commits_follow_mono)

lemma attempt_commits_follow:
  "attempt_once rt rd cfg model rec ev env = (es, out) \<Longrightarrow>
     commits_follow (kr_offset rec + 1) False es"
  by (erule attempt_once_cases) simp_all

lemma attempt_loop_commits_follow:
  "commits_follow (kr_offset rec + 1) False
     (fst (attempt_loop rt rds cfg model rec ev envs left attempt first))"
proof (induction left arbitrary: attempt first)
  case 0
  then show ?case by simp
next
  case (Suc left)
  obtain es out where "attempt_once rt (rds attempt) cfg model rec ev (envs attempt) = (es, out)" by fastforce
  with attempt_commits_follow [OF this] Suc.IH show ?case
    by (auto simp: Let_def intro!: commits_follow_append split: option.splits prod.splits)
      (metis fst_conv)+
qed

lemma attempt_loop_commits:
  "attempt_loop rt rds cfg model rec ev envs left attempt first = (es, None) \<Longrightarrow>
     Committed (kr_offset rec + 1) \<in> set es"
proof (induction left arbitrary: attempt first es)
  case 0
  then show ?case by simp
next
  case (Suc left)
  obtain as out where once: "attempt_once rt (rds attempt) cfg model rec ev (envs attempt) = (as, out)"
    by fastforce
  show ?case
  proof (cases out)
    case None
    with attempt_once_scored [where env = "envs attempt"] once Suc.prems show ?thesis by fastforce
  next
    case (Some x)
    with once Suc.prems Suc.IH show ?thesis
      by (fastforce simp: Let_def split: if_splits prod.splits)
  qed
qed

lemma dead_letter_cases:
  assumes "dead_letter_and_commit rt cfg rec stage x n first env = (es, out)"
  obtains (failed) y where "es = []" "out = Some y"
    | (uncommitted) m y where "publish_dead_letter rt cfg rec stage x n first (rc_now env) = Inr m"
        "es = [LetterSent m]" "out = Some y"
    | (settled) m where "publish_dead_letter rt cfg rec stage x n first (rc_now env) = Inr m"
        "es = [LetterSent m, Committed (kr_offset rec + 1)]" "out = None"
  using assms that
  by (auto simp: dead_letter_and_commit_def split: sum.splits option.splits) metis+

lemma process_record_loop:
  assumes "decode_value parse valid_scoring_requested (kr_value rec) = Inr ev"
    and "attempt_loop rt rds cfg model rec ev (rc_attempt env) (nat (retry_max_attempts cfg)) 1 None =
      (es, outcome)"
  shows "process_record rt rds cfg model parse rec env =
    (case outcome of None \<Rightarrow> (es, None)
     | Some (x, n, first) \<Rightarrow>
         (case dead_letter_and_commit rt cfg rec (failure_stage x) x (int n) (Some first) env of
            (fs, ex) \<Rightarrow> (es @ fs, ex)))"
  using assms by (simp add: process_record_def split: option.splits prod.splits)

lemma process_commits:
  assumes "process_record rt rds cfg model parse rec env = (es, out)" and "1 \<le> retry_max_attempts cfg"
  shows "commits_follow (kr_offset rec + 1) False es \<and>
    (out = None \<longrightarrow> Committed (kr_offset rec + 1) \<in> set es)"
proof (cases "decode_value parse valid_scoring_requested (kr_value rec)")
  case (Inl x)
  with assms(1) show ?thesis
    by (auto simp: process_record_def elim!: dead_letter_cases)
next
  case (Inr ev)
  obtain as outcome where l: "attempt_loop rt rds cfg model rec ev (rc_attempt env)
      (nat (retry_max_attempts cfg)) 1 None = (as, outcome)" by fastforce
  have as: "commits_follow (kr_offset rec + 1) False as"
    using attempt_loop_commits_follow [of rec rt rds cfg model ev "rc_attempt env"
        "nat (retry_max_attempts cfg)" 1 None] l by simp
  note run = process_record_loop [OF Inr l] assms(1)
  show ?thesis
  proof (cases outcome)
    case None
    then have "Committed (kr_offset rec + 1) \<in> set as"
      using attempt_loop_commits l assms(2) by fastforce
    with None as run show ?thesis by simp
  next
    case (Some o3)
    obtain x n first where "o3 = (x, n, first)" by (cases o3)
    moreover obtain fs ex where d: "dead_letter_and_commit rt cfg rec (failure_stage x) x (int n)
      (Some first) env = (fs, ex)" by fastforce
    ultimately have "es = as @ fs" "out = ex" using Some run by simp_all
    with d as show ?thesis by (auto elim!: dead_letter_cases intro!: commits_follow_append)
  qed
qed

text \<open>
  C18. The worker never loses a request. Whatever fails, and in whatever order, the only offset
  committed for a record is the one after it, and only once a result or a dead letter for the record
  has been delivered; and if processing ends without an exception the offset has been committed.
\<close>

theorem worker_commits_after_publishing:
  assumes "process_record rt rds cfg model parse rec env = (es, out)" and "1 \<le> retry_max_attempts cfg"
  shows "commits_follow (kr_offset rec + 1) False es \<and>
    (out = None \<longrightarrow> Committed (kr_offset rec + 1) \<in> set es)"
  using process_commits [OF assms] .

lemma scored_instants:
  assumes "publishable rt rd cfg model ev r"
  shows "is_aware (req_requested_at (payload ev)) \<and> is_aware (req_source_ingested_at (payload ev))"
  using assms
  by (cases "req_requested_at (payload ev)"; cases "req_source_ingested_at (payload ev)")
    (auto simp: publishable_def build_result_def result_simps)

lemma attempt_sends:
  "attempt_once rt rd cfg model rec ev env = (es, out) \<Longrightarrow> ResultSent m \<in> set es \<Longrightarrow>
     \<exists>r. publishable rt rd cfg model ev r \<and> m = result_message rt cfg r"
  by (erule attempt_once_cases) auto

lemma attempt_loop_sends:
  "ResultSent m \<in> set (fst (attempt_loop rt rds cfg model rec ev envs left attempt first)) \<Longrightarrow>
     \<exists>k r. attempt \<le> k \<and> k < attempt + left \<and> publishable rt (rds k) cfg model ev r \<and>
       m = result_message rt cfg r"
proof (induction left arbitrary: attempt first)
  case 0
  then show ?case by simp
next
  case (Suc left)
  obtain es out where once: "attempt_once rt (rds attempt) cfg model rec ev (envs attempt) = (es, out)"
    by fastforce
  with Suc.prems have "ResultSent m \<in> set es \<or>
      (\<exists>t. ResultSent m \<in> set (fst (attempt_loop rt rds cfg model rec ev envs left (Suc attempt) t)))"
    by (auto simp: Let_def split: option.splits prod.splits if_splits) (metis fst_conv)+
  then show ?case
  proof (elim disjE exE)
    assume "ResultSent m \<in> set es"
    from attempt_sends [OF once this] show ?thesis by (intro exI [of _ attempt]) auto
  next
    fix t
    assume "ResultSent m \<in> set (fst (attempt_loop rt rds cfg model rec ev envs left (Suc attempt) t))"
    from Suc.IH [OF this] obtain k r where "Suc attempt \<le> k" "k < Suc attempt + left"
      "publishable rt (rds k) cfg model ev r" "m = result_message rt cfg r" by blast
    then show ?thesis by (intro exI [of _ k] exI [of _ r]) auto
  qed
qed

lemma dead_letter_no_result:
  "dead_letter_and_commit rt cfg rec stage x n first env = (es, out) \<Longrightarrow> ResultSent m \<notin> set es"
  by (erule dead_letter_cases) auto

lemma process_sends:
  assumes "process_record rt rds cfg model parse rec env = (es, out)" and "ResultSent m \<in> set es"
  shows "\<exists>ev k r. decode_value parse valid_scoring_requested (kr_value rec) = Inr ev \<and>
    1 \<le> k \<and> int k \<le> retry_max_attempts cfg \<and>
    publishable rt (rds k) cfg model ev r \<and> m = result_message rt cfg r"
proof (cases "decode_value parse valid_scoring_requested (kr_value rec)")
  case (Inl x)
  with assms dead_letter_no_result show ?thesis by (fastforce simp: process_record_def)
next
  case (Inr ev)
  obtain as outcome where l: "attempt_loop rt rds cfg model rec ev (rc_attempt env)
      (nat (retry_max_attempts cfg)) 1 None = (as, outcome)" by fastforce
  have "ResultSent m \<in> set as"
    using assms process_record_loop [OF Inr l] dead_letter_no_result
    by (fastforce split: option.splits prod.splits)
  then have "ResultSent m \<in> set (fst (attempt_loop rt rds cfg model rec ev (rc_attempt env)
      (nat (retry_max_attempts cfg)) 1 None))" by (simp only: l fst_conv)
  from attempt_loop_sends [OF this] obtain k r where k: "1 \<le> k" "k < 1 + nat (retry_max_attempts cfg)"
    and "publishable rt (rds k) cfg model ev r" "m = result_message rt cfg r" by blast
  moreover from k have "int k \<le> retry_max_attempts cfg" by linarith
  ultimately show ?thesis using Inr by blast
qed

text \<open>
  C9. A published score is the model's answer for the requested state of the graph. Every result the
  worker sends, in whichever attempt, answers the decoded request: it meets the result contract, has
  the id derived from the request and the model version, names the request as its cause and the
  requested transaction as its subject, and its probability is the model's on the bounded subgraph
  that one of the attempts read, each from the database as it was then, of a graph no older than the
  request asks for. A request whose times carry no zone gets no result.
\<close>

theorem worker_results_sound:
  assumes "process_record rt rds cfg model parse rec env = (es, out)" and "ResultSent m \<in> set es"
  shows "\<exists>ev k g. decode_value parse valid_scoring_requested (kr_value rec) = Inr ev \<and>
    1 \<le> k \<and> int k \<le> retry_max_attempts cfg \<and>
    msg_topic m = scoring_result_topic cfg \<and> msg_key m = req_tx_id (payload ev) \<and>
    valid_scoring_completed (msg_value m) \<and>
    event_id (msg_value m) = result_id rt model ev \<and>
    causation_id (msg_value m) = Some (event_id ev) \<and>
    res_tx_id (payload (msg_value m)) = req_tx_id (payload ev) \<and>
    scoring_subgraph (rds k) cfg ev = Some g \<and>
    req_graph_watermark (payload ev) \<le> sg_graph_watermark g \<and>
    model_predict model g = Inr (res_illicit_probability (payload (msg_value m))) \<and>
    is_aware (req_requested_at (payload ev)) \<and> is_aware (req_source_ingested_at (payload ev))"
proof -
  from process_sends [OF assms] obtain ev k r where
    ev: "decode_value parse valid_scoring_requested (kr_value rec) = Inr ev"
    and k: "1 \<le> k" "int k \<le> retry_max_attempts cfg"
    and r: "publishable rt (rds k) cfg model ev r" "m = result_message rt cfg r" by blast
  from publishable_result [OF r(1)] obtain g where "scoring_subgraph (rds k) cfg ev = Some g"
    "req_graph_watermark (payload ev) \<le> sg_graph_watermark g"
    "model_predict model g = Inr (res_illicit_probability (payload r))" by blast
  with publishable_result [OF r(1)] scored_instants [OF r(1)] ev k r(2) show ?thesis
    by (intro exI [of _ ev] exI [of _ k] exI [of _ g]) (simp add: result_message_def)
qed

lemma attempt_loop_no_letter:
  "LetterSent m \<notin> set (fst (attempt_loop rt rds cfg model rec ev envs left attempt first))"
proof (induction left arbitrary: attempt first)
  case 0
  then show ?case by simp
next
  case (Suc left)
  obtain es out where once: "attempt_once rt (rds attempt) cfg model rec ev (envs attempt) = (es, out)"
    by fastforce
  then have "LetterSent m \<notin> set es" by (auto elim!: attempt_once_cases)
  with once Suc.IH show ?case
    by (auto simp: Let_def split: option.splits prod.splits if_splits) (metis fst_conv)+
qed

text \<open>A letter sent for a record names its place in the log.\<close>

lemma process_letters:
  assumes "process_record rt rds cfg model parse rec env = (es, out)" and "LetterSent m \<in> set es"
  shows "dl_original_topic (payload (msg_value m)) = kr_topic rec \<and>
    dl_original_partition (payload (msg_value m)) = kr_partition rec \<and>
    dl_original_offset (payload (msg_value m)) = kr_offset rec"
proof -
  have letter: "\<exists>stage x n first. publish_dead_letter rt cfg rec stage x n first (rc_now env) = Inr m"
    if run: "dead_letter_and_commit rt cfg rec stage x n first env = (fs, ex)" and
      sent: "LetterSent m \<in> set fs" for stage x n first fs ex
  proof -
    from run sent have "publish_dead_letter rt cfg rec stage x n first (rc_now env) = Inr m"
      by (auto elim!: dead_letter_cases)
    then show ?thesis by (intro exI)
  qed
  have "\<exists>stage x n first. publish_dead_letter rt cfg rec stage x n first (rc_now env) = Inr m"
  proof (cases "decode_value parse valid_scoring_requested (kr_value rec)")
    case (Inl x)
    with assms letter show ?thesis by (fastforce simp: process_record_def)
  next
    case (Inr ev)
    obtain as outcome where l: "attempt_loop rt rds cfg model rec ev (rc_attempt env)
        (nat (retry_max_attempts cfg)) 1 None = (as, outcome)" by fastforce
    have "LetterSent m \<notin> set as"
      using attempt_loop_no_letter [of m rt rds cfg model rec ev "rc_attempt env"
        "nat (retry_max_attempts cfg)" 1 None] l by simp
    with assms process_record_loop [OF Inr l] letter show ?thesis
      by (fastforce split: option.splits prod.splits)
  qed
  then show ?thesis using published_coordinates by blast
qed

lemma dead_letter_awake:
  "dead_letter_and_commit rt cfg rec stage x n first env = (es, out) \<Longrightarrow>
     filter is_sleep es = [] \<and> filter (\<lambda>e. \<not> is_sleep e) es = es \<and> (\<forall>t. Slept t \<notin> set es)"
  by (erule dead_letter_cases) auto

lemma process_exact:
  assumes dec: "decode_value parse valid_scoring_requested (kr_value rec) = Inr ev"
    and N: "1 \<le> retry_max_attempts cfg" and jit: "\<And>k. 0 \<le> at_jitter (rc_attempt env k)"
    and b: "0 \<le> retry_base_delay_ms cfg" and m: "0 \<le> retry_max_delay_ms cfg"
    and run: "process_record rt rds cfg model parse rec env = (es, out)"
  shows "\<exists>k fs. 1 \<le> k \<and> int k \<le> retry_max_attempts cfg \<and>
    (\<forall>j. 1 \<le> j \<longrightarrow> j < k \<longrightarrow>
       retryable (snd (attempt_once rt (rds j) cfg model rec ev (rc_attempt env j)))) \<and>
    (int k < retry_max_attempts cfg \<longrightarrow>
       \<not> retryable (snd (attempt_once rt (rds k) cfg model rec ev (rc_attempt env k)))) \<and>
    filter (\<lambda>e. \<not> is_sleep e) es =
      concat (map (\<lambda>j. fst (attempt_once rt (rds j) cfg model rec ev (rc_attempt env j))) [1..<Suc k]) @ fs \<and>
    length (filter is_sleep es) = k - 1 \<and>
    (\<forall>t. Slept t \<in> set es \<longrightarrow> 0 \<le> t \<and> t \<le> of_int (retry_max_delay_ms cfg) / 1000) \<and>
    (case snd (attempt_once rt (rds k) cfg model rec ev (rc_attempt env k)) of
       None \<Rightarrow> fs = [] \<and> out = None
     | Some x \<Rightarrow> \<exists>first. dead_letter_and_commit rt cfg rec (failure_stage x) x (int k) (Some first) env =
         (fs, out))"
proof -
  obtain left where left: "nat (retry_max_attempts cfg) = Suc left"
    using N by (cases "nat (retry_max_attempts cfg)") auto
  obtain as outcome where l: "attempt_loop rt rds cfg model rec ev (rc_attempt env) (Suc left) 1 None =
      (as, outcome)" by fastforce
  note ran = process_record_loop [OF dec, where cfg = cfg, unfolded left, OF l] run
  from attempt_loop_run [OF jit b m l] obtain k where k: "1 \<le> k" "k \<le> 1 + left"
    "\<forall>j. 1 \<le> j \<longrightarrow> j < k \<longrightarrow> retryable (snd (attempt_once rt (rds j) cfg model rec ev (rc_attempt env j)))"
    "k < 1 + left \<longrightarrow> \<not> retryable (snd (attempt_once rt (rds k) cfg model rec ev (rc_attempt env k)))"
    "map_option (\<lambda>(x, n, _). (x, n)) outcome =
      map_option (\<lambda>x. (x, k)) (snd (attempt_once rt (rds k) cfg model rec ev (rc_attempt env k)))"
    "filter (\<lambda>e. \<not> is_sleep e) as =
      concat (map (\<lambda>j. fst (attempt_once rt (rds j) cfg model rec ev (rc_attempt env j))) [1..<Suc k])"
    "length (filter is_sleep as) = k - 1"
    "\<forall>t. Slept t \<in> set as \<longrightarrow> 0 \<le> t \<and> t \<le> of_int (retry_max_delay_ms cfg) / 1000"
    by blast
  have bounds: "int k \<le> retry_max_attempts cfg" "int k < retry_max_attempts cfg \<longleftrightarrow> k < 1 + left"
    using k(2) left N by auto
  show ?thesis
  proof (cases "snd (attempt_once rt (rds k) cfg model rec ev (rc_attempt env k))")
    case None
    with k(5) have "outcome = None" by simp
    with ran have "es = as" "out = None" by simp_all
    with k bounds None show ?thesis by (intro exI [of _ k] exI [of _ "[]"]) (simp del: upt_Suc)
  next
    case (Some x)
    with k(5) obtain first where "outcome = Some (x, k, first)" by auto
    moreover obtain fs ex where d: "dead_letter_and_commit rt cfg rec (failure_stage x) x (int k)
      (Some first) env = (fs, ex)" by fastforce
    ultimately have "es = as @ fs" "out = ex" using ran by simp_all
    with k bounds Some d dead_letter_awake [OF d] show ?thesis
      by (intro exI [of _ k] exI [of _ fs]) (auto simp del: upt_Suc)
  qed
qed

text \<open>
  C24. The attempts at a request are exactly these: one after the other up to the first that scores
  or fails permanently, or to the last one allowed, with one bounded sleep between two of them. If
  the last one made scored, nothing else happens; otherwise its error is dead-lettered with the
  number of attempts made and the offset committed, and what that raises escapes.
\<close>

theorem worker_attempts_exact:
  assumes "decode_value parse valid_scoring_requested (kr_value rec) = Inr ev"
    and "1 \<le> retry_max_attempts cfg" and "\<And>k. 0 \<le> at_jitter (rc_attempt env k)"
    and "0 \<le> retry_base_delay_ms cfg" and "0 \<le> retry_max_delay_ms cfg"
    and "process_record rt rds cfg model parse rec env = (es, out)"
  shows "\<exists>k fs. 1 \<le> k \<and> int k \<le> retry_max_attempts cfg \<and>
    (\<forall>j. 1 \<le> j \<longrightarrow> j < k \<longrightarrow>
       retryable (snd (attempt_once rt (rds j) cfg model rec ev (rc_attempt env j)))) \<and>
    (int k < retry_max_attempts cfg \<longrightarrow>
       \<not> retryable (snd (attempt_once rt (rds k) cfg model rec ev (rc_attempt env k)))) \<and>
    filter (\<lambda>e. \<not> is_sleep e) es =
      concat (map (\<lambda>j. fst (attempt_once rt (rds j) cfg model rec ev (rc_attempt env j))) [1..<Suc k]) @ fs \<and>
    length (filter is_sleep es) = k - 1 \<and>
    (\<forall>t. Slept t \<in> set es \<longrightarrow> 0 \<le> t \<and> t \<le> of_int (retry_max_delay_ms cfg) / 1000) \<and>
    (case snd (attempt_once rt (rds k) cfg model rec ev (rc_attempt env k)) of
       None \<Rightarrow> fs = [] \<and> out = None
     | Some x \<Rightarrow> \<exists>first. dead_letter_and_commit rt cfg rec (failure_stage x) x (int k) (Some first) env =
         (fs, out))"
  by (rule process_exact) (use assms in simp_all)

subsection \<open>Failures that end badly\<close>

lemma timeout_letter:
  "kr_value rec \<noteq> None \<Longrightarrow> publish_dead_letter rt cfg rec stage TimeoutError n first now =
     Inl (ValidationError ''validation error'')"
  by (auto simp: publish_dead_letter_def safe_original_payload_def valid_dead_letter_def
      valid_dead_letter_payload_def dead_letter_event_def Let_def sanitize_error_def sanitize_empty
      len_in_def checked_def)

lemma letter_stage:
  "publish_dead_letter rt cfg rec stage x n first now = Inr m \<Longrightarrow>
     dl_failure_stage (payload (msg_value m)) = stage"
  by (auto simp: publish_dead_letter_def result_simps dead_letter_event_def Let_def)

text \<open>
  A request whose inference always times out stops the worker. If every attempt reaches the
  model and times out, nothing is published and nothing committed: the dead letter itself fails its
  contract, as the error text of a timeout is empty, and that exception escapes.
\<close>

theorem timeout_stops_worker:
  assumes "decode_value parse valid_scoring_requested (kr_value rec) = Inr ev"
    and "1 \<le> retry_max_attempts cfg" and "\<And>k. 0 \<le> at_jitter (rc_attempt env k)"
    and "0 \<le> retry_base_delay_ms cfg" and "0 \<le> retry_max_delay_ms cfg"
    and "\<And>k. \<exists>g. fetch_subgraph (rds k) cfg model ev (rc_attempt env k) = Inr g"
    and "\<And>k. at_times_out (rc_attempt env k)"
    and "process_record rt rds cfg model parse rec env = (es, out)"
  shows "out = Some (ValidationError ''validation error'') \<and> filter (\<lambda>e. \<not> is_sleep e) es = [] \<and>
    int (length es) = retry_max_attempts cfg - 1"
proof -
  have once: "attempt_once rt (rds k) cfg model rec ev (rc_attempt env k) = ([], Some TimeoutError)" for k
    using assms(6,7) [of k]
    by (auto simp: attempt_once_def score_and_publish_def build_result_def rbind_def run_inference_def)
  have no_effects: "concat (map (\<lambda>j. []) ks) = ([] :: effect list)" for ks :: "nat list"
    by (induction ks) auto
  have has_value: "kr_value rec \<noteq> None"
    using assms(1) by (cases "kr_value rec") (simp_all add: decode_value_def)
  from process_exact [OF assms(1-5,8), simplified once] obtain k fs where k: "1 \<le> k"
    "int k \<le> retry_max_attempts cfg" "\<not> int k < retry_max_attempts cfg"
    "filter (\<lambda>e. \<not> is_sleep e) es = fs" "length (filter is_sleep es) = k - 1"
    and dl: "\<exists>first. dead_letter_and_commit rt cfg rec (failure_stage TimeoutError) TimeoutError
      (int k) (Some first) env = (fs, out)"
    by (auto simp: retryable_def no_effects simp del: upt_Suc) metis
  from dl has_value have "fs = []" "out = Some (ValidationError ''validation error'')"
    by (auto simp: dead_letter_and_commit_def timeout_letter)
  moreover have "length es = k - 1"
    using k(4,5) \<open>fs = []\<close> sum_length_filter_compl [of is_sleep es] by simp
  ultimately show ?thesis using k by auto
qed

text \<open>
  A commit that keeps failing publishes both outcomes. If every attempt sends the result but
  cannot commit the offset, the result is sent once per attempt and then the request is dead-lettered
  too, under the stage of a poison event, though it was scored.
\<close>

theorem scored_and_dead_lettered:
  assumes "decode_value parse valid_scoring_requested (kr_value rec) = Inr ev"
    and "1 \<le> retry_max_attempts cfg" and "\<And>k. 0 \<le> at_jitter (rc_attempt env k)"
    and "0 \<le> retry_base_delay_ms cfg" and "0 \<le> retry_max_delay_ms cfg"
    and "\<And>k. build_result rt (rds k) cfg model ev (rc_attempt env k) = Inr (r k)"
    and "\<And>k. at_send (rc_attempt env k) = SendOk"
    and "\<And>k. at_commit (rc_attempt env k) = Some (OtherError c m)" and "m \<noteq> []"
    and "len_in 1 128 c" and "len_in 2 64 (service_name cfg)"
    and "\<And>s. length (rt_uuid5 rt s) = 36" and "record_describable rt rec"
    and "rc_send env = None"
    and "process_record rt rds cfg model parse rec env = (es, out)"
  shows "int (length (filter (\<lambda>e. case e of ResultSent _ \<Rightarrow> True | _ \<Rightarrow> False) es)) =
      retry_max_attempts cfg \<and>
    (\<exists>letter. LetterSent letter \<in> set es \<and>
       dl_failure_stage (payload (msg_value letter)) = ''scoring_poison_event'')"
proof -
  have once: "attempt_once rt (rds k) cfg model rec ev (rc_attempt env k) =
      ([ResultSent (result_message rt cfg (r k))], Some (OtherError c m))" for k
    using assms(6-8) [of k] by (simp add: attempt_once_def score_and_publish_def)
  from process_exact [OF assms(1-5,15), simplified once] obtain k fs first where k: "1 \<le> k"
    "int k \<le> retry_max_attempts cfg" "\<not> int k < retry_max_attempts cfg"
    "filter (\<lambda>e. \<not> is_sleep e) es = map (\<lambda>j. ResultSent (result_message rt cfg (r j))) [1..<Suc k] @ fs"
    and dl: "dead_letter_and_commit rt cfg rec ''scoring_poison_event'' (OtherError c m)
      (int k) (Some first) env = (fs, out)"
    by (auto simp: retryable_def simp del: upt_Suc)
  obtain letter where "publish_dead_letter rt cfg rec ''scoring_poison_event'' (OtherError c m) (int k)
      (Some first) (rc_now env) = Inr letter"
    using publish_iff [of rt cfg "''scoring_poison_event''" "OtherError c m" "int k" rec "Some first"
        "rc_now env"] assms(9-13) k(1)
    by (auto simp: len_in_def)
  then have fs: "\<exists>tl. fs = LetterSent letter # tl \<and> filter (\<lambda>e. case e of ResultSent _ \<Rightarrow> True | _ \<Rightarrow> False) tl = []"
    and stage: "dl_failure_stage (payload (msg_value letter)) = ''scoring_poison_event''"
    using dl assms(14) letter_stage by (auto simp: dead_letter_and_commit_def split: option.splits)
  let ?isr = "\<lambda>e. case e of ResultSent _ \<Rightarrow> True | _ \<Rightarrow> False"
  have "filter ?isr es = filter ?isr (filter (\<lambda>e. \<not> is_sleep e) es)"
    by (simp, rule filter_cong) (auto simp: is_sleep_def split: effect.splits)
  also have "\<dots> = map (\<lambda>j. ResultSent (result_message rt cfg (r j))) [1..<Suc k]"
    using fs unfolding k(4) by (auto simp: filter_id_conv simp del: upt_Suc)
  finally have "int (length (filter ?isr es)) = retry_max_attempts cfg"
    using k by simp
  moreover have "LetterSent letter \<in> set (filter (\<lambda>e. \<not> is_sleep e) es)"
    unfolding k(4) using fs by auto
  then have "LetterSent letter \<in> set es" by simp
  ultimately show ?thesis using stage by blast
qed

subsection \<open>Witnesses\<close>

definition sample_request :: scoring_requested where
  "sample_request =
     \<lparr>event_id = sample_event_id (CHR ''3''),
      event_type = ''risk.scoring.requested.v1'', schema_version = ''1.0'',
      occurred_at = Aware 0, produced_at = Aware 1, producer = ''graph-materializer'',
      trace_id = replicate 32 (CHR ''a''), traceparent = None,
      correlation_id = ''elliptic-replay:1'', causation_id = None,
      payload =
        \<lparr>req_tx_id = ''a'', req_graph_watermark = 1, req_source_time_step = 1,
         req_event_sequence = 1, req_feature_schema_version = ''elliptic-165-v1'',
         req_source_ingested_at = Aware 0, req_requested_at = Aware 1\<rparr>\<rparr>"

lemma valid_sample_request: "valid_scoring_requested sample_request"
  by (simp add: sample_request_def sample_event_id_def valid_scoring_requested_def valid_envelope_def
      valid_requested_payload_def len_in_def SCHEMA_VERSION_V1_def)

definition sample_model :: model_runtime where
  "sample_model = \<lparr>mr_model_version = ''gnn-v1'',
     mr_model_checksum = ''sha256:'' @ replicate 64 (CHR ''0''),
     mr_feature_schema_version = ''elliptic-165-v1'', mr_deployment_timestamp = Aware 0,
     mr_infer = (\<lambda>X E c. Inr (1 / 2))\<rparr>"

definition sample_reader :: reader where
  "sample_reader = \<lparr>rd_db = db_ab, rd_collate = id, rd_scan = id\<rparr>"

text \<open>An attempt that scores, with the failures of the sample as parameters.\<close>

definition sample_attempt :: "bool \<Rightarrow> exn option \<Rightarrow> attempt_env" where
  "sample_attempt slow commit = \<lparr>at_started = 5, at_scored = 9, at_inference_ms = 3, at_database = None,
     at_times_out = slow, at_send = SendOk, at_commit = commit, at_lag = None, at_jitter = 1,
     at_failed = 11\<rparr>"

definition sample_record_env :: "bool \<Rightarrow> exn option \<Rightarrow> record_env" where
  "sample_record_env slow commit = \<lparr>rc_attempt = (\<lambda>_. sample_attempt slow commit), rc_now = 20,
     rc_send = None, rc_commit = None\<rparr>"

definition sample_request_record :: kafka_record where
  "sample_request_record = sample_record 7 ''{}'' [(''trace_id'', replicate 32 (CHR ''a''))]"

lemma sample_decode:
  "decode_value (\<lambda>_. Some sample_request) valid_scoring_requested (kr_value sample_request_record) =
     Inr sample_request"
  by (simp add: sample_request_record_def sample_record_def decode_value_def decode_event_def
      valid_sample_request)

lemma sample_fetch:
  "\<exists>g. fetch_subgraph sample_reader (default_settings ''worker'' ''h'') sample_model sample_request
     (sample_attempt slow commit) = Inr g"
proof -
  have sel: "req_tx_id (payload sample_request) = ''a''"
    "req_feature_schema_version (payload sample_request) = mr_feature_schema_version sample_model"
    "req_graph_watermark (payload sample_request) = 1"
    by (simp_all add: sample_request_def sample_model_def)
  obtain g where g: "scoring_subgraph sample_reader (default_settings ''worker'' ''h'') sample_request = Some g"
    using subgraph_exists [OF has_tx_ab(1)]
    by (fastforce simp: scoring_subgraph_def sel sample_reader_def)
  have b: "get_bounded_subgraph id id ''a'' 2 100 500 (Some ''gat-resnet-elliptic-v1'') db_ab = Some g"
    using g by (simp add: scoring_subgraph_def sample_reader_def sel default_settings_def)
  have "sg_nodes g \<noteq> []"
    using center_in_nodes [OF b db_ab_ok] by (auto simp: node_names_def)
  then have "1 \<le> sg_graph_watermark g"
    by (rule watermark_least [OF b]) (auto simp: db_ab_def sample_tx_def)
  with g show ?thesis by (simp add: fetch_subgraph_def sel Let_def sample_attempt_def)
qed

lemma sample_predict: "\<exists>p. model_predict sample_model g = Inr p \<and> 0 \<le> p \<and> p \<le> 1"
proof -
  have "model_predict sample_model g = Inr 0 \<or> model_predict sample_model g = Inr (1 / 2)"
    by (auto simp: model_predict_def gnn_predict_def sample_model_def split: option.splits)
  then show ?thesis by auto
qed

lemma sample_build:
  "\<exists>r. build_result sample_runtime sample_reader (default_settings ''worker'' ''h'') sample_model
     sample_request (sample_attempt False commit) = Inr r"
proof -
  obtain g where g: "fetch_subgraph sample_reader (default_settings ''worker'' ''h'') sample_model
      sample_request (sample_attempt False commit) = Inr g"
    using sample_fetch by blast
  obtain p where p: "model_predict sample_model g = Inr p" "0 \<le> p" "p \<le> 1"
    using sample_predict by blast
  have run: "run_inference sample_model g (sample_attempt False commit) = Inr p"
    using p by (simp add: run_inference_def sample_attempt_def)
  have "valid_scoring_completed (scoring_result sample_runtime (default_settings ''worker'' ''h'')
      sample_model sample_request (sample_attempt False commit) p 4 9)"
    using p by (simp add: scoring_result_def valid_scoring_completed_def valid_envelope_def
        valid_completed_payload_def valid_checksum_def len_in_def SCHEMA_VERSION_V1_def
        sample_event_id_def hex_lower_def list_all_iff Suc_le_eq sample_request_def sample_model_def
        sample_attempt_def default_settings_def result_id_def deterministic_event_id_def
        sample_runtime_def current_traceparent_def or_else_def clamped_ms_def)
  then have "build_result sample_runtime sample_reader (default_settings ''worker'' ''h'') sample_model
      sample_request (sample_attempt False commit) = Inr (scoring_result sample_runtime
        (default_settings ''worker'' ''h'') sample_model sample_request
        (sample_attempt False commit) p 4 9)"
    by (simp add: build_result_def g run checked_def) (simp add: sample_request_def sample_attempt_def)
  then show ?thesis ..
qed

abbreviation worker_sample_cfg :: settings where
  "worker_sample_cfg \<equiv> default_settings ''worker'' ''h''"

abbreviation sample_process :: "bool \<Rightarrow> exn option \<Rightarrow> effect list \<times> exn option" where
  "sample_process slow commit \<equiv> process_record sample_runtime (\<lambda>_. sample_reader) worker_sample_cfg sample_model
     (\<lambda>_. Some sample_request) sample_request_record (sample_record_env slow commit)"

lemma sample_cfg_simps [simp]:
  "retry_max_attempts worker_sample_cfg = 4" "retry_base_delay_ms worker_sample_cfg = 100"
  "retry_max_delay_ms worker_sample_cfg = 5000" "service_name worker_sample_cfg = ''worker''"
  by (simp_all add: default_settings_def)

lemma sample_env_simps [simp]:
  "rc_attempt (sample_record_env slow commit) k = sample_attempt slow commit"
  "rc_send (sample_record_env slow commit) = None"
  "at_jitter (sample_attempt slow commit) = 1" "at_times_out (sample_attempt slow commit) = slow"
  "at_send (sample_attempt slow commit) = SendOk" "at_commit (sample_attempt slow commit) = commit"
  "at_lag (sample_attempt slow commit) = None"
  "kr_offset sample_request_record = 7"
  by (simp_all add: sample_record_env_def sample_attempt_def sample_request_record_def sample_record_def)

lemma sample_scores:
  "\<exists>m. sample_process False None = ([ResultSent m, Committed 8], None)"
proof -
  from sample_build obtain r where r: "build_result sample_runtime sample_reader worker_sample_cfg sample_model
      sample_request (sample_attempt False None) = Inr r" by blast
  have once: "attempt_once sample_runtime sample_reader worker_sample_cfg sample_model sample_request_record
      sample_request (sample_attempt False None) =
      ([ResultSent (result_message sample_runtime worker_sample_cfg r), Committed 8], None)"
    by (simp add: attempt_once_def score_and_publish_def r)
  have "attempt_loop sample_runtime (\<lambda>_. sample_reader) worker_sample_cfg sample_model sample_request_record
      sample_request (rc_attempt (sample_record_env False None)) (nat (retry_max_attempts worker_sample_cfg)) 1 None =
      ([ResultSent (result_message sample_runtime worker_sample_cfg r), Committed 8], None)"
    by (simp add: numeral_eq_Suc once)
  from process_record_loop [OF sample_decode this] show ?thesis by simp
qed

theorem worker_commits_after_publishing_witness:
  "\<exists>es out. sample_process False None = (es, out) \<and> out = None \<and> Committed 8 \<in> set es \<and>
     commits_follow 8 False es"
proof -
  obtain es out where run: "sample_process False None = (es, out)" by fastforce
  from worker_commits_after_publishing [OF run] run sample_scores show ?thesis by auto
qed

theorem worker_results_sound_witness:
  "\<exists>es out m. sample_process False None = (es, out) \<and> ResultSent m \<in> set es \<and>
     valid_scoring_completed (msg_value m) \<and> msg_key m = ''a''"
proof -
  obtain m where run: "sample_process False None = ([ResultSent m, Committed 8], None)"
    using sample_scores by blast
  from worker_results_sound [OF run, of m] sample_decode run show ?thesis
    by (auto simp: sample_request_def)
qed

theorem worker_attempts_exact_witness:
  "\<exists>es out. sample_process False None = (es, out) \<and> length (filter is_sleep es) = 0"
proof -
  obtain es out where run: "sample_process False None = (es, out)" by fastforce
  from worker_attempts_exact [OF sample_decode _ _ _ _ run] have "\<exists>k. length (filter is_sleep es) = k - 1"
    by auto
  with run sample_scores show ?thesis by auto
qed

theorem timeout_stops_worker_witness:
  "\<exists>es. sample_process True None = (es, Some (ValidationError ''validation error'')) \<and> length es = 3"
proof -
  obtain es out where run: "sample_process True None = (es, out)" by fastforce
  from timeout_stops_worker [OF sample_decode _ _ _ _ _ _ run] sample_fetch run show ?thesis
    by auto
qed

theorem scored_and_dead_lettered_witness:
  "\<exists>es out. sample_process False (Some (OtherError ''KafkaConnectionError'' ''lost'')) = (es, out) \<and>
     length (filter (\<lambda>e. case e of ResultSent _ \<Rightarrow> True | _ \<Rightarrow> False) es) = 4 \<and>
     (\<exists>letter. LetterSent letter \<in> set es)"
proof -
  let ?c = "Some (OtherError ''KafkaConnectionError'' ''lost'')"
  obtain es out where run: "sample_process False ?c = (es, out)" by fastforce
  from sample_build obtain r where r: "build_result sample_runtime sample_reader worker_sample_cfg sample_model
      sample_request (sample_attempt False ?c) = Inr r" by blast
  have "record_describable sample_runtime sample_request_record"
    using sample_describable [of 7] by (simp add: sample_request_record_def)
  with scored_and_dead_lettered [OF sample_decode _ _ _ _ _ _ _ _ _ _ _ _ _ run,
      of "\<lambda>_. r" "''KafkaConnectionError''" "''lost''"] r run
  show ?thesis by (auto simp: len_in_def sample_runtime_def)
qed

end
