(* ===== verification/Flow.thy ===== *)
theory Flow
  imports Main
begin

text \<open>
  Bounded FIFO channels. A move of a channel takes items in at one end and gives items out at the
  other; \<open>flows\<close> strings moves together and remembers both histories. The locale \<open>fifo_channel\<close> is
  the contract of one move, its lemmas are what holds of every history. The worker's local queue,
  the queue of a gateway client and the Redis Stream are its instances.
\<close>

inductive flows ::
  "('q \<Rightarrow> 'a list \<Rightarrow> 'a list \<Rightarrow> 'q \<Rightarrow> bool) \<Rightarrow> 'q \<Rightarrow> 'a list \<Rightarrow> 'a list \<Rightarrow> 'q \<Rightarrow> bool"
  for move
where
  stay: "flows move q [] [] q"
| more: "flows move q ins outs q' \<Longrightarrow> move q' i out q'' \<Longrightarrow> flows move q (ins @ i) (outs @ out) q''"

inductive_cases flowsE: "flows move q ins outs q'"

lemma flows_step: "move q i out q' \<Longrightarrow> flows move q i out q'"
  using flows.more [OF flows.stay] by fastforce

lemma flows_trans:
  "flows move q' i2 o2 q'' \<Longrightarrow> flows move q i1 o1 q' \<Longrightarrow> flows move q (i1 @ i2) (o1 @ o2) q''"
proof (induction rule: flows.induct)
  case (more q1 ins outs q2 i out q3)
  then show ?case
    using flows.more [of move q "i1 @ ins" "o1 @ outs"] by simp
qed simp

locale fifo_channel =
  fixes items :: "'q \<Rightarrow> 'a list"
    and cap :: "'q \<Rightarrow> nat"
    and move :: "'q \<Rightarrow> 'a list \<Rightarrow> 'a list \<Rightarrow> 'q \<Rightarrow> bool"
  assumes conserves: "move q i out q' \<Longrightarrow> items q @ i = out @ items q'"
    and keeps_cap: "move q i out q' \<Longrightarrow> cap q' = cap q"
    and stays_within: "move q i out q' \<Longrightarrow> length (items q) \<le> cap q \<Longrightarrow> length (items q') \<le> cap q'"
begin

text \<open>Nothing is lost, doubled or reordered.\<close>

lemma flow_conserves: "flows move q ins outs q' \<Longrightarrow> items q @ ins = outs @ items q'"
proof (induction rule: flows.induct)
  case (more q ins outs q' i out q'')
  have "items q @ ins @ i = (items q @ ins) @ i" by simp
  also have "\<dots> = outs @ (items q' @ i)" by (simp add: more.IH)
  also have "\<dots> = outs @ out @ items q''" by (simp add: conserves [OF more.hyps(2)])
  finally show ?case by simp
qed simp

lemma flow_keeps_cap: "flows move q ins outs q' \<Longrightarrow> cap q' = cap q"
  by (induction rule: flows.induct) (auto dest: keeps_cap)

lemma flow_bounded:
  "flows move q ins outs q' \<Longrightarrow> length (items q) \<le> cap q \<Longrightarrow> length (items q') \<le> cap q'"
  by (induction rule: flows.induct) (auto dest: stays_within)

text \<open>From an empty channel the items out are the first of the items in, and at most a capacity behind.\<close>

lemma flow_from_empty:
  assumes "flows move q ins outs q'" and "items q = []"
  shows "ins = outs @ items q'" and "outs = take (length outs) ins"
    and "length ins \<le> length outs + cap q"
proof -
  show eq: "ins = outs @ items q'" using flow_conserves [OF assms(1)] assms(2) by simp
  then show "outs = take (length outs) ins" by simp
  show "length ins \<le> length outs + cap q"
    using flow_bounded [OF assms(1)] flow_keeps_cap [OF assms(1)] assms(2) eq by simp
qed

end

end
