(* ===== verification/Worker_Queue.thy ===== *)
theory Worker_Queue
  imports Worker Flow
begin

text \<open>
  The queue between \<open>poll_into_queue\<close> and \<open>drain_queue\<close> of \<open>services/inference_worker/main.py\<close>:
  the two tasks interleave turn by turn.
\<close>

lemma poll_items:
  "poll_turn cfg assigned getmany q = (q', calls) \<Longrightarrow>
     lq_maxsize q' = lq_maxsize q \<and>
     (if lq_maxsize q \<le> length (lq_items q) then lq_items q' = lq_items q
      else lq_items q' = lq_items q @ getmany (min (kafka_max_poll_records cfg)
             (int (lq_maxsize q) - int (length (lq_items q)))))"
  by (auto simp: poll_turn_def Let_def split: if_splits)

text \<open>A turn of either task; \<open>getmany\<close> returns at most the number of records asked for.\<close>

inductive queue_move ::
  "settings \<Rightarrow> 'r local_queue \<Rightarrow> 'r list \<Rightarrow> 'r list \<Rightarrow> 'r local_queue \<Rightarrow> bool"
  for cfg
where
  polled: "poll_turn cfg assigned getmany q = (q', calls) \<Longrightarrow>
     (\<And>n. int (length (getmany n)) \<le> max n 0) \<Longrightarrow>
     queue_move cfg q (drop (length (lq_items q)) (lq_items q')) [] q'"
| drained: "take_item q = Some (r, q') \<Longrightarrow> queue_move cfg q [] [r] q'"

lemma take_item_Some:
  "take_item q = Some (r, q') \<Longrightarrow> lq_items q = r # lq_items q' \<and> lq_maxsize q' = lq_maxsize q"
  by (auto simp: take_item_def split: list.splits)

lemma polled_within:
  assumes "poll_turn cfg assigned getmany q = (q', calls)"
    and "\<And>n. int (length (getmany n)) \<le> max n 0" and "length (lq_items q) \<le> lq_maxsize q"
  shows "length (lq_items q') \<le> lq_maxsize q'"
proof -
  let ?n = "min (kafka_max_poll_records cfg) (int (lq_maxsize q) - int (length (lq_items q)))"
  have "int (length (getmany ?n)) \<le> int (lq_maxsize q) - int (length (lq_items q))"
    using assms(2) [of ?n] assms(3) by linarith
  then show ?thesis using poll_items [OF assms(1)] assms(3) by (auto split: if_splits)
qed

interpretation lq: fifo_channel lq_items lq_maxsize "queue_move cfg" for cfg
proof
  fix q :: "'r local_queue" and i out q'
  assume m: "queue_move cfg q i out q'"
  then show "lq_items q @ i = out @ lq_items q'"
    by cases (auto dest: poll_items take_item_Some split: if_splits)
  from m show "lq_maxsize q' = lq_maxsize q"
    by cases (auto dest: poll_items take_item_Some)
  assume "length (lq_items q) \<le> lq_maxsize q"
  with m show "length (lq_items q') \<le> lq_maxsize q'"
    by cases (auto dest: polled_within take_item_Some)
qed

text \<open>
  The local queue neither loses nor reorders records and is bounded. However polls and drains
  interleave from an empty queue, the records processed are the first ones fetched, in order, the
  rest is in the queue, and never more than \<open>max_in_flight_inference\<close> records wait in it.
\<close>

theorem worker_queue_fifo:
  assumes "flows (queue_move cfg) q fetched processed q'" and "lq_items q = []"
  shows "fetched = processed @ lq_items q' \<and> length (lq_items q') \<le> lq_maxsize q"
  using lq.flow_from_empty(1) [OF assms] lq.flow_bounded [OF assms(1)] lq.flow_keeps_cap [OF assms(1)]
    assms(2) by simp

theorem worker_queue_fifo_witness:
  "\<exists>q'. flows (queue_move (default_settings ''w'' ''h''))
     \<lparr>lq_items = [], lq_maxsize = 2, lq_paused = False\<rparr> [7, 8] [7 :: nat] q' \<and> lq_items q' = [8]"
proof -
  let ?cfg = "default_settings ''w'' ''h''"
  let ?q = "\<lparr>lq_items = [], lq_maxsize = 2, lq_paused = False\<rparr> :: nat local_queue"
  let ?get = "\<lambda>n :: int. if n = 2 then [7, 8] else [] :: nat list"
  obtain q1 calls where p: "poll_turn ?cfg True ?get ?q = (q1, calls)" by fastforce
  then have q1: "lq_items q1 = [7, 8]" by (auto simp: poll_turn_def Let_def default_settings_def)
  obtain q2 where t: "take_item q1 = Some (7, q2)" by (simp add: take_item_def q1)
  have "queue_move ?cfg ?q (drop (length (lq_items ?q)) (lq_items q1)) [] q1"
    by (rule polled [OF p]) simp
  then have "flows (queue_move ?cfg) ?q [7, 8] [] q1" by (simp add: q1 flows_step)
  from flows.more [OF this drained [OF t]] have f: "flows (queue_move ?cfg) ?q [7, 8] [7] q2" by simp
  from worker_queue_fifo [OF f] f show ?thesis by auto
qed

text \<open>
  Backpressure: a full queue is never polled into, an assigned consumer is then paused, and it is
  resumed as soon as the queue is at most half full (or holds at most one record).
\<close>

lemma backpressure:
  assumes "poll_turn cfg assigned getmany q = (q', calls)"
  shows "GetMany n \<in> set calls \<Longrightarrow> length (lq_items q) < lq_maxsize q \<and>
      n \<le> int (lq_maxsize q) - int (length (lq_items q))"
    and "lq_maxsize q \<le> length (lq_items q) \<Longrightarrow> assigned \<Longrightarrow> lq_paused q'"
    and "length (lq_items q) < lq_maxsize q \<Longrightarrow>
      length (lq_items q) \<le> max (lq_maxsize q div 2) 1 \<Longrightarrow> \<not> lq_paused q'"
  using assms by (auto simp: poll_turn_def Let_def split: if_splits)

end
