(* ===== verification/Worker_Service.thy ===== *)
theory Worker_Service
  imports Worker
begin

text \<open>
  \<open>run\<close> of \<open>services/inference_worker/main.py\<close>: the poller and the drainer around the local queue
  until a task fails, the process dies or a stop is requested, and the drain of the queue in a
  graceful stop. A worker owns its partitions while it lives; the broker keeps what it commits and
  publishes.
\<close>

text \<open>The position of the consumer and the committed offset are kept per partition.\<close>

datatype worker_phase = Running | Draining | Ended "exn option"

record worker =
  wk_position :: "int \<Rightarrow> nat"
  wk_committed :: "int \<Rightarrow> int"
  wk_queue :: "kafka_record local_queue"
  wk_effects :: "effect list"
  wk_phase :: worker_phase

subsection \<open>The poller\<close>

text \<open>
  The records a fetch returns: of every partition in the plan so many from the position on, and
  \<open>for records in batches.values(): for record in records\<close> strings them together.
\<close>

type_synonym fetch_plan = "(int \<times> nat) list"

definition fetch_records ::
  "(int \<Rightarrow> kafka_record list) \<Rightarrow> (int \<Rightarrow> nat) \<Rightarrow> fetch_plan \<Rightarrow> kafka_record list"
where
  "fetch_records logs pos plan = concat (map (\<lambda>(p, n). take n (drop (pos p) (logs p))) plan)"

definition advance ::
  "(int \<Rightarrow> kafka_record list) \<Rightarrow> fetch_plan \<Rightarrow> (int \<Rightarrow> nat) \<Rightarrow> int \<Rightarrow> nat"
where
  "advance logs plan pos p =
     (case map_of plan p of None \<Rightarrow> pos p | Some n \<Rightarrow> pos p + min n (length (logs p) - pos p))"

fun asked :: "consumer_call list \<Rightarrow> int option" where
  "asked [] = None"
| "asked (GetMany n # cs) = Some n"
| "asked (c # cs) = asked cs"

definition poll_worker ::
  "settings \<Rightarrow> (int \<Rightarrow> kafka_record list) \<Rightarrow> bool \<Rightarrow> (int \<Rightarrow> fetch_plan) \<Rightarrow> worker \<Rightarrow> worker"
where
  "poll_worker cfg logs assigned plan st =
     (case poll_turn cfg assigned (\<lambda>n. fetch_records logs (wk_position st) (plan n)) (wk_queue st) of
        (q, calls) \<Rightarrow>
          st\<lparr>wk_queue := q,
             wk_position := (case asked calls of None \<Rightarrow> wk_position st
               | Some n \<Rightarrow> advance logs (plan n) (wk_position st))\<rparr>)"

subsection \<open>The drainer\<close>

fun apply_effect :: "int \<Rightarrow> effect \<Rightarrow> worker \<Rightarrow> worker" where
  "apply_effect p (Committed n) st =
     st\<lparr>wk_effects := wk_effects st @ [Committed n], wk_committed := (wk_committed st)(p := n)\<rparr>"
| "apply_effect p e st = st\<lparr>wk_effects := wk_effects st @ [e]\<rparr>"

definition apply_effects :: "int \<Rightarrow> effect list \<Rightarrow> worker \<Rightarrow> worker" where
  "apply_effects p es st = fold (apply_effect p) es st"

text \<open>
  One turn of \<open>drain_queue\<close>. What \<open>process_record\<close> raises ends the task: \<open>run\<close> then raises it, except
  that in a graceful stop a queue that still holds records is never joined, so the wait for it times
  out.
\<close>

definition drain_turn ::
  "runtime \<Rightarrow> (nat \<Rightarrow> reader) \<Rightarrow> settings \<Rightarrow> model_runtime \<Rightarrow> (bytes \<Rightarrow> scoring_requested option) \<Rightarrow> record_env
     \<Rightarrow> worker \<Rightarrow> worker"
where
  "drain_turn rt rds cfg model parse env st =
     (case take_item (wk_queue st) of
        None \<Rightarrow> st
      | Some (rec, q) \<Rightarrow>
          (case process_record rt rds cfg model parse rec env of
             (es, ex) \<Rightarrow>
               let st1 = apply_effects (kr_partition rec) es (st\<lparr>wk_queue := q\<rparr>) in
               (case ex of
                  None \<Rightarrow> st1
                | Some x \<Rightarrow> st1\<lparr>wk_phase := Ended (Some
                    (if wk_phase st = Draining \<and> lq_items q \<noteq> [] then TimeoutError else x))\<rparr>)))"

text \<open>The process dies, or its tasks are cancelled, \<open>n\<close> effects into the record at the head.\<close>

definition interrupt ::
  "runtime \<Rightarrow> (nat \<Rightarrow> reader) \<Rightarrow> settings \<Rightarrow> model_runtime \<Rightarrow> (bytes \<Rightarrow> scoring_requested option) \<Rightarrow> record_env
     \<Rightarrow> nat \<Rightarrow> exn option \<Rightarrow> worker \<Rightarrow> worker"
where
  "interrupt rt rds cfg model parse env n ex st =
     (case take_item (wk_queue st) of
        None \<Rightarrow> st
      | Some (rec, q) \<Rightarrow>
          apply_effects (kr_partition rec)
            (take n (fst (process_record rt rds cfg model parse rec env))) st)
     \<lparr>wk_phase := Ended ex\<rparr>"

subsection \<open>Supervision\<close>

text \<open>
  A stop cancels the poller and joins the queue; when it is empty the sentinel ends the drainer. A
  new process starts at the committed offsets with an empty queue.
\<close>

definition request_stop :: "worker \<Rightarrow> worker" where
  "request_stop st = st\<lparr>wk_phase := Draining\<rparr>"

definition joined :: "worker \<Rightarrow> bool" where
  "joined st \<longleftrightarrow> wk_phase st = Draining \<and> lq_items (wk_queue st) = []"

definition start_worker :: "settings \<Rightarrow> worker \<Rightarrow> worker" where
  "start_worker cfg st =
     st\<lparr>wk_position := (\<lambda>p. nat (wk_committed st p)),
        wk_queue := \<lparr>lq_items = [], lq_maxsize = nat (max_in_flight_inference cfg), lq_paused = False\<rparr>,
        wk_phase := Running\<rparr>"

inductive worker_step ::
  "runtime \<Rightarrow> settings \<Rightarrow> model_runtime \<Rightarrow> (bytes \<Rightarrow> scoring_requested option)
     \<Rightarrow> (int \<Rightarrow> kafka_record list) \<Rightarrow> worker \<Rightarrow> worker \<Rightarrow> bool"
  for rt cfg model parse logs
where
  polls: "wk_phase st = Running \<Longrightarrow>
     (\<And>n. distinct (map fst (plan n)) \<and>
        int (length (fetch_records logs (wk_position st) (plan n))) \<le> max n 0) \<Longrightarrow>
     worker_step rt cfg model parse logs st (poll_worker cfg logs assigned plan st)"
| poll_fails: "wk_phase st = Running \<Longrightarrow>
     worker_step rt cfg model parse logs st (st\<lparr>wk_phase := Ended (Some x)\<rparr>)"
| drains: "wk_phase st \<in> {Running, Draining} \<Longrightarrow>
     worker_step rt cfg model parse logs st (drain_turn rt rds cfg model parse env st)"
| stops: "wk_phase st = Running \<Longrightarrow> worker_step rt cfg model parse logs st (request_stop st)"
| finishes: "joined st \<Longrightarrow> worker_step rt cfg model parse logs st (st\<lparr>wk_phase := Ended None\<rparr>)"
| interrupted: "wk_phase st \<in> {Running, Draining} \<Longrightarrow> ex \<noteq> None \<Longrightarrow>
     worker_step rt cfg model parse logs st (interrupt rt rds cfg model parse env n ex st)"
| starts: "wk_phase st = Ended ex \<Longrightarrow> worker_step rt cfg model parse logs st (start_worker cfg st)"

inductive_cases worker_stepE: "worker_step rt cfg model parse logs st st'"

inductive worker_reach ::
  "runtime \<Rightarrow> settings \<Rightarrow> model_runtime \<Rightarrow> (bytes \<Rightarrow> scoring_requested option)
     \<Rightarrow> (int \<Rightarrow> kafka_record list) \<Rightarrow> worker \<Rightarrow> worker \<Rightarrow> bool"
  for rt cfg model parse logs
where
  here: "worker_reach rt cfg model parse logs st st"
| further: "worker_reach rt cfg model parse logs st st' \<Longrightarrow>
     worker_step rt cfg model parse logs st' st'' \<Longrightarrow> worker_reach rt cfg model parse logs st st''"

text \<open>A group that has never committed reads its partitions from the start.\<close>

definition fresh_worker :: worker where
  "fresh_worker = \<lparr>wk_position = (\<lambda>p. 0), wk_committed = (\<lambda>p. 0),
     wk_queue = \<lparr>lq_items = [], lq_maxsize = 1, lq_paused = False\<rparr>, wk_effects = [],
     wk_phase = Ended None\<rparr>"

end
