(* ===== verification/Worker_Service_Props.thy ===== *)
theory Worker_Service_Props
  imports Worker_Service Worker_Props Worker_Queue
begin

text \<open>
  No request is lost by the worker, over any number of processes: what is committed was answered or
  dead-lettered, and the local queue always holds what lies between the committed offset of each
  partition and the consumer's position.
\<close>

text \<open>A request is settled when its result or its dead letter has been published.\<close>

definition answers :: "scoring_requested \<Rightarrow> scoring_completed message \<Rightarrow> bool" where
  "answers ev m \<longleftrightarrow> valid_scoring_completed (msg_value m) \<and>
     causation_id (msg_value m) = Some (event_id ev) \<and>
     res_tx_id (payload (msg_value m)) = req_tx_id (payload ev)"

definition about_record :: "kafka_record \<Rightarrow> dead_letter message \<Rightarrow> bool" where
  "about_record rec m \<longleftrightarrow> dl_original_topic (payload (msg_value m)) = kr_topic rec \<and>
     dl_original_partition (payload (msg_value m)) = kr_partition rec \<and>
     dl_original_offset (payload (msg_value m)) = kr_offset rec"

definition settled ::
  "(bytes \<Rightarrow> scoring_requested option) \<Rightarrow> kafka_record \<Rightarrow> effect list \<Rightarrow> bool"
where
  "settled parse rec es \<longleftrightarrow>
     (\<exists>ev m. decode_value parse valid_scoring_requested (kr_value rec) = Inr ev \<and>
        ResultSent m \<in> set es \<and> answers ev m) \<or>
     (\<exists>m. LetterSent m \<in> set es \<and> about_record rec m)"

lemma settled_more: "settled parse rec es \<Longrightarrow> set es \<subseteq> set fs \<Longrightarrow> settled parse rec fs"
  unfolding settled_def by blast

fun publishes :: "effect \<Rightarrow> bool" where
  "publishes (ResultSent m) = True"
| "publishes (LetterSent m) = True"
| "publishes _ = False"

lemma process_settles:
  assumes run: "process_record rt rds cfg model parse rec env = (es, out)"
    and e: "e \<in> set es" "publishes e" "e \<in> set fs"
  shows "settled parse rec fs"
proof (cases e)
  case (ResultSent m)
  with e(1) process_sends [OF run, of m] obtain ev k r where
    "decode_value parse valid_scoring_requested (kr_value rec) = Inr ev"
    "publishable rt (rds k) cfg model ev r" "m = result_message rt cfg r" by blast
  moreover from this publishable_result have "answers ev m"
    by (fastforce simp: answers_def result_message_def)
  ultimately show ?thesis using ResultSent e(3) unfolding settled_def by blast
next
  case (LetterSent m)
  with process_letters [OF run, of m] e show ?thesis
    unfolding settled_def about_record_def by blast
qed (use e(2) in simp_all)

subsection \<open>The effects of one record\<close>

lemma apply_effects_simps [simp]:
  "apply_effects p [] st = st"
  "apply_effects p (e # es) st = apply_effects p es (apply_effect p e st)"
  by (simp_all add: apply_effects_def)

lemma apply_effect_keeps [simp]:
  "wk_position (apply_effect p e st) = wk_position st" "wk_queue (apply_effect p e st) = wk_queue st"
  "wk_phase (apply_effect p e st) = wk_phase st"
  "wk_effects (apply_effect p e st) = wk_effects st @ [e]"
  by (cases e; simp)+

lemma apply_effects_keeps [simp]:
  "wk_position (apply_effects p es st) = wk_position st"
  "wk_queue (apply_effects p es st) = wk_queue st" "wk_phase (apply_effects p es st) = wk_phase st"
  "wk_effects (apply_effects p es st) = wk_effects st @ es"
  by (induction es arbitrary: st) simp_all

lemma apply_effects_elsewhere:
  "q \<noteq> p \<Longrightarrow> wk_committed (apply_effects p es st) q = wk_committed st q"
proof (induction es arbitrary: st)
  case (Cons e es)
  then show ?case by (cases e) simp_all
qed simp

text \<open>What following commits do to the committed offset.\<close>

lemma uncommitted:
  "\<nexists>k. Committed k \<in> set es \<Longrightarrow> wk_committed (apply_effects p es st) = wk_committed st"
proof (induction es arbitrary: st)
  case (Cons e es)
  then show ?case by (cases e) auto
qed simp

lemma commit_value:
  "commits_follow n published es \<Longrightarrow> Committed k \<in> set es \<Longrightarrow>
     wk_committed (apply_effects p es st) p = n"
proof (induction n published es arbitrary: st k rule: commits_follow.induct)
  case (2 n published j es)
  then show ?case
    by (cases "\<exists>i. Committed i \<in> set es") (auto simp: uncommitted)
qed auto

lemma commit_published:
  "commits_follow n published es \<Longrightarrow> Committed k \<in> set es \<Longrightarrow> published \<or> (\<exists>e \<in> set es. publishes e)"
  by (induction n published es rule: commits_follow.induct) auto

lemma commits_follow_take: "commits_follow n published es \<Longrightarrow> commits_follow n published (take k es)"
proof (induction n published es arbitrary: k rule: commits_follow.induct)
  case (2 n published j es)
  then show ?case by (cases k) auto
next
  case (3 n published t es)
  then show ?case by (cases k) auto
next
  case (4 n published m es)
  then show ?case by (cases k) auto
next
  case (5 n published m es)
  then show ?case by (cases k) auto
qed simp

text \<open>Any beginning of the work on a record commits nothing but it, and only when it is settled.\<close>

lemma record_effects:
  assumes "process_record rt rds cfg model parse rec env = (es, out)" and "1 \<le> retry_max_attempts cfg"
    and "p = kr_partition rec"
  shows "let st' = apply_effects p (take k es) st in
    wk_committed st' p = wk_committed st p \<or>
    wk_committed st' p = kr_offset rec + 1 \<and> settled parse rec (wk_effects st')"
proof -
  let ?as = "take k es"
  have f: "commits_follow (kr_offset rec + 1) False ?as"
    using process_commits [OF assms(1,2)] commits_follow_take by blast
  show ?thesis
  proof (cases "\<exists>j. Committed j \<in> set ?as")
    case True
    then obtain j where j: "Committed j \<in> set ?as" ..
    from commit_published [OF f j] obtain e where e: "e \<in> set ?as" "publishes e" by blast
    have "settled parse rec (wk_effects st @ ?as)"
      by (rule process_settles [OF assms(1) in_set_takeD [OF e(1)] e(2)]) (simp add: e(1))
    moreover have "wk_committed (apply_effects p ?as st) p = kr_offset rec + 1"
      by (rule commit_value [OF f j])
    ultimately show ?thesis by simp
  next
    case False
    then show ?thesis by (simp add: uncommitted)
  qed
qed

lemma whole_record_committed:
  assumes "process_record rt rds cfg model parse rec env = (es, None)" and "1 \<le> retry_max_attempts cfg"
    and "p = kr_partition rec"
  shows "wk_committed (apply_effects p es st) p = kr_offset rec + 1 \<and>
    settled parse rec (wk_effects (apply_effects p es st))"
proof -
  have f: "commits_follow (kr_offset rec + 1) False es" and c: "Committed (kr_offset rec + 1) \<in> set es"
    using process_commits [OF assms(1,2)] by auto
  from commit_published [OF f c] obtain e where e: "e \<in> set es" "publishes e" by blast
  have "settled parse rec (wk_effects st @ es)"
    by (rule process_settles [OF assms(1) e]) (simp add: e(1))
  moreover have "wk_committed (apply_effects p es st) p = kr_offset rec + 1"
    by (rule commit_value [OF f c])
  ultimately show ?thesis by simp
qed

subsection \<open>The invariant\<close>

text \<open>Kafka numbers the records of each partition.\<close>

definition logs_ok :: "(int \<Rightarrow> kafka_record list) \<Rightarrow> bool" where
  "logs_ok logs \<longleftrightarrow>
     (\<forall>p. \<forall>i < length (logs p). kr_partition (logs p ! i) = p \<and> kr_offset (logs p ! i) = int i)"

abbreviation queued :: "int \<Rightarrow> worker \<Rightarrow> kafka_record list" where
  "queued p st \<equiv> filter (\<lambda>r. kr_partition r = p) (lq_items (wk_queue st))"

definition settled_below ::
  "(bytes \<Rightarrow> scoring_requested option) \<Rightarrow> (int \<Rightarrow> kafka_record list) \<Rightarrow> worker \<Rightarrow> bool"
where
  "settled_below parse logs st \<longleftrightarrow>
     (\<forall>p. \<forall>i < length (logs p). int i < wk_committed st p \<longrightarrow> settled parse (logs p ! i) (wk_effects st))"

definition committed_ok :: "(int \<Rightarrow> kafka_record list) \<Rightarrow> worker \<Rightarrow> bool" where
  "committed_ok logs st \<longleftrightarrow> (\<forall>p. 0 \<le> wk_committed st p \<and> wk_committed st p \<le> int (length (logs p)))"

definition in_flight :: "(int \<Rightarrow> kafka_record list) \<Rightarrow> worker \<Rightarrow> bool" where
  "in_flight logs st \<longleftrightarrow>
     (\<forall>p. wk_committed st p \<le> int (wk_position st p) \<and> wk_position st p \<le> length (logs p) \<and>
        queued p st = take (wk_position st p - nat (wk_committed st p))
          (drop (nat (wk_committed st p)) (logs p)))"

definition worker_ok ::
  "(bytes \<Rightarrow> scoring_requested option) \<Rightarrow> (int \<Rightarrow> kafka_record list) \<Rightarrow> worker \<Rightarrow> bool"
where
  "worker_ok parse logs st \<longleftrightarrow> settled_below parse logs st \<and> committed_ok logs st \<and>
     (wk_phase st \<in> {Running, Draining} \<longrightarrow> in_flight logs st)"

lemma fetched_of:
  assumes "logs_ok logs" and "distinct (map fst plan)"
  shows "filter (\<lambda>r. kr_partition r = p) (fetch_records logs pos plan) =
    (case map_of plan p of None \<Rightarrow> [] | Some n \<Rightarrow> take n (drop (pos p) (logs p)))"
  using assms(2)
proof (induction plan)
  case Nil
  then show ?case by (simp add: fetch_records_def)
next
  case (Cons e plan)
  obtain q n where e: "e = (q, n)" by (cases e)
  have "kr_partition r = q" if "r \<in> set (take n (drop (pos q) (logs q)))" for r
    using that assms(1) by (auto simp: logs_ok_def in_set_conv_nth dest!: in_set_takeD in_set_dropD)
  then have "filter (\<lambda>r. kr_partition r = p) (take n (drop (pos q) (logs q))) =
      (if p = q then take n (drop (pos q) (logs q)) else [])"
    by (auto simp: filter_id_conv filter_empty_conv)
  moreover have "map_of plan q = None" using Cons.prems by (simp add: e map_of_eq_None_iff)
  ultimately show ?case using Cons by (simp add: e fetch_records_def)
qed

lemma poll_asked:
  "poll_turn cfg assigned g q = (q', calls) \<Longrightarrow>
     lq_items q' = (case asked calls of None \<Rightarrow> lq_items q | Some n \<Rightarrow> lq_items q @ g n)"
  by (auto simp: poll_turn_def Let_def split: if_splits)

lemma poll_worker_keeps [simp]:
  "wk_committed (poll_worker cfg logs assigned plan st) = wk_committed st"
  "wk_effects (poll_worker cfg logs assigned plan st) = wk_effects st"
  "wk_phase (poll_worker cfg logs assigned plan st) = wk_phase st"
  by (simp_all add: poll_worker_def split: prod.splits)

lemma advance_bounds:
  "pos p \<le> advance logs plan pos p" "pos p \<le> length (logs p) \<Longrightarrow> advance logs plan pos p \<le> length (logs p)"
  by (auto simp: advance_def min_def split: option.splits)

lemma poll_in_flight:
  assumes "in_flight logs st" and "logs_ok logs" and "committed_ok logs st"
    and "\<And>n. distinct (map fst (plan n))"
  shows "in_flight logs (poll_worker cfg logs assigned plan st)"
proof -
  obtain q calls where t: "poll_turn cfg assigned (\<lambda>n. fetch_records logs (wk_position st) (plan n))
      (wk_queue st) = (q, calls)" by fastforce
  note items = poll_asked [OF t]
  show ?thesis
  proof (cases "asked calls")
    case None
    with assms(1) items t show ?thesis by (simp add: poll_worker_def in_flight_def)
  next
    case (Some n)
    have "queued p (poll_worker cfg logs assigned plan st) =
        take (advance logs (plan n) (wk_position st) p - nat (wk_committed st p))
          (drop (nat (wk_committed st p)) (logs p))" for p
    proof -
      let ?c = "nat (wk_committed st p)" and ?a = "wk_position st p" and ?L = "logs p"
      have c: "?c \<le> ?a" "?a \<le> length ?L" "queued p st = take (?a - ?c) (drop ?c ?L)"
        using assms(1) by (simp_all add: in_flight_def nat_le_iff)
      have "take (?a - ?c) (drop ?c ?L) @ take m (drop ?a ?L) = take (?a + m - ?c) (drop ?c ?L)" for m
        using take_add [of "?a - ?c" m "drop ?c ?L"] c(1) by simp
      moreover have "take (?a + min m (length ?L - ?a) - ?c) (drop ?c ?L) = take (?a + m - ?c) (drop ?c ?L)" for m
        using c(1,2) by (cases "m \<le> length ?L - ?a") (simp_all add: min_def)
      ultimately show ?thesis
        using Some t items c fetched_of [OF assms(2,4), of p "wk_position st" n]
        by (simp add: poll_worker_def advance_def split: option.splits)
    qed
    moreover have "wk_committed st p \<le> int (advance logs (plan n) (wk_position st) p)"
      "advance logs (plan n) (wk_position st) p \<le> length (logs p)" for p
    proof -
      have "wk_committed st p \<le> int (wk_position st p)" "wk_position st p \<le> length (logs p)"
        using assms(1) by (simp_all add: in_flight_def)
      with advance_bounds [of "wk_position st" p logs "plan n"]
      show "wk_committed st p \<le> int (advance logs (plan n) (wk_position st) p)"
        "advance logs (plan n) (wk_position st) p \<le> length (logs p)" by linarith+
    qed
    ultimately show ?thesis using Some t by (auto simp: poll_worker_def in_flight_def)
  qed
qed

lemma settled_below_more:
  assumes "settled_below parse logs st" and "set (wk_effects st) \<subseteq> set (wk_effects st')"
    and "\<And>q. q \<noteq> p \<Longrightarrow> wk_committed st' q = wk_committed st q"
    and "wk_committed st' p = wk_committed st p \<or>
      wk_committed st' p = wk_committed st p + 1 \<and>
      settled parse (logs p ! nat (wk_committed st p)) (wk_effects st')"
  shows "settled_below parse logs st'"
  unfolding settled_below_def
proof (intro allI impI)
  fix q i
  assume i: "i < length (logs q)" "int i < wk_committed st' q"
  show "settled parse (logs q ! i) (wk_effects st')"
  proof (cases "int i < wk_committed st q")
    case True
    with assms(1) i(1) have "settled parse (logs q ! i) (wk_effects st)"
      by (simp add: settled_below_def)
    with assms(2) show ?thesis by (rule settled_more [rotated])
  next
    case False
    with i(2) assms(3) [of q] have "q = p" by (cases "q = p") auto
    with False i(2) assms(4) have "int i = wk_committed st p"
      "settled parse (logs p ! nat (wk_committed st p)) (wk_effects st')" by auto
    moreover from this(1) have "nat (wk_committed st p) = i" by simp
    ultimately show ?thesis using \<open>q = p\<close> by simp
  qed
qed

text \<open>The head of the queue is the next record of its partition.\<close>

lemma head_next:
  assumes "in_flight logs st" and "logs_ok logs" and "committed_ok logs st"
    and "take_item (wk_queue st) = Some (rec, q)" and "p = kr_partition rec"
  shows "rec = logs p ! nat (wk_committed st p)" and "kr_offset rec = wk_committed st p"
    and "nat (wk_committed st p) < wk_position st p" and "wk_position st p \<le> length (logs p)"
    and "queued p st = rec # filter (\<lambda>r. kr_partition r = p) (lq_items q)"
    and "r \<noteq> p \<Longrightarrow> queued r st = filter (\<lambda>x. kr_partition x = r) (lq_items q)"
proof -
  have items: "lq_items (wk_queue st) = rec # lq_items q" using take_item_Some [OF assms(4)] by simp
  then show head: "queued p st = rec # filter (\<lambda>r. kr_partition r = p) (lq_items q)"
    by (simp add: assms(5))
  show "queued r st = filter (\<lambda>x. kr_partition x = r) (lq_items q)" if "r \<noteq> p" for r
    using items that assms(5) by auto
  let ?c = "nat (wk_committed st p)" and ?L = "logs p"
  have slice: "take (wk_position st p - ?c) (drop ?c ?L) = rec # filter (\<lambda>r. kr_partition r = p) (lq_items q)"
    and le: "wk_position st p \<le> length ?L"
    using assms(1) head by (simp_all add: in_flight_def)
  then have lt: "?c < wk_position st p" by (cases "wk_position st p - ?c") auto
  then have "drop ?c ?L = ?L ! ?c # drop (Suc ?c) ?L" using le by (simp add: Cons_nth_drop_Suc)
  with slice lt show rec: "rec = ?L ! ?c" by (simp add: take_Cons')
  show "?c < wk_position st p" "wk_position st p \<le> length ?L" by fact+
  have "?c < length ?L" using lt le by simp
  with assms(2) rec have "kr_offset rec = int ?c" by (simp add: logs_ok_def)
  moreover have "0 \<le> wk_committed st p" using assms(3) by (simp add: committed_ok_def)
  ultimately show "kr_offset rec = wk_committed st p" by simp
qed

lemma worker_okI:
  assumes "worker_ok parse logs st" and "in_flight logs st" and "logs_ok logs"
    and "take_item (wk_queue st) = Some (rec, q)"
    and "process_record rt rds cfg model parse rec env = (es, out)" and "1 \<le> retry_max_attempts cfg"
    and "st' = apply_effects (kr_partition rec) (take k es) st\<lparr>wk_queue := q', wk_phase := ph\<rparr>"
    and "ph \<notin> {Running, Draining} \<or> ph = wk_phase st \<and> q' = q \<and> take k es = es \<and> out = None"
  shows "worker_ok parse logs st' \<and> (\<forall>p. wk_committed st p \<le> wk_committed st' p)"
proof -
  define p where "p = kr_partition rec"
  have ok: "settled_below parse logs st" "committed_ok logs st" using assms(1) by (simp_all add: worker_ok_def)
  note head = head_next [OF assms(2,3) ok(2) assms(4) p_def]
  have comm: "wk_committed st' = wk_committed (apply_effects p (take k es) st)"
    and eff: "wk_effects st' = wk_effects (apply_effects p (take k es) st)"
    by (simp_all add: assms(7) p_def)
  have step: "wk_committed st' p = wk_committed st p \<or>
      wk_committed st' p = wk_committed st p + 1 \<and>
      settled parse (logs p ! nat (wk_committed st p)) (wk_effects st')"
    using record_effects [OF assms(5,6) p_def, of k st] head(1,2) by (simp add: comm eff Let_def)
  have other: "wk_committed st' q = wk_committed st q" if "q \<noteq> p" for q
    using that by (simp add: comm apply_effects_elsewhere)
  have up: "wk_committed st q \<le> wk_committed st' q" for q
    using step other [of q] by (cases "q = p") auto
  have below: "settled_below parse logs st'"
    by (rule settled_below_more [OF ok(1) _ other step]) (simp add: eff)
  have bound: "committed_ok logs st'"
    unfolding committed_ok_def
  proof
    fix q
    show "0 \<le> wk_committed st' q \<and> wk_committed st' q \<le> int (length (logs q))"
      using ok(2) step other [of q] head(3,4)
      by (cases "q = p") (auto simp: committed_ok_def)
  qed
  have "in_flight logs st'" if "ph \<in> {Running, Draining}"
    unfolding in_flight_def
  proof
    fix r
    from that assms(8) have q': "q' = q" "take k es = es" "out = None" by auto
    have fields: "wk_position st' = wk_position st" "lq_items (wk_queue st') = lq_items q"
      by (simp_all add: assms(7) q')
    have inv: "wk_committed st r \<le> int (wk_position st r)" "wk_position st r \<le> length (logs r)"
      "queued r st = take (wk_position st r - nat (wk_committed st r))
         (drop (nat (wk_committed st r)) (logs r))"
      using assms(2) by (simp_all add: in_flight_def)
    show "wk_committed st' r \<le> int (wk_position st' r) \<and> wk_position st' r \<le> length (logs r) \<and>
      queued r st' = take (wk_position st' r - nat (wk_committed st' r))
        (drop (nat (wk_committed st' r)) (logs r))"
    proof (cases "r = p")
      case False
      with inv other [of r] head(6) [OF False] fields show ?thesis by simp
    next
      case True
      have c0: "0 \<le> wk_committed st p" using ok(2) by (simp add: committed_ok_def)
      have c': "wk_committed st' p = wk_committed st p + 1"
        using whole_record_committed [OF assms(5) [unfolded q'(3)] assms(6) p_def, of st] head(2)
        by (simp add: comm q'(2))
      then have n: "nat (wk_committed st' p) = Suc (nat (wk_committed st p))" using c0 by simp
      have "drop (nat (wk_committed st p)) (logs p) =
          logs p ! nat (wk_committed st p) # drop (Suc (nat (wk_committed st p))) (logs p)"
        using head(3,4) by (simp add: Cons_nth_drop_Suc)
      with inv(3) head(3,5) have "filter (\<lambda>x. kr_partition x = p) (lq_items q) =
          take (wk_position st p - Suc (nat (wk_committed st p)))
            (drop (Suc (nat (wk_committed st p))) (logs p))"
        by (simp add: True take_Cons' split: if_splits)
      with head(3,4) c' n fields c0 show ?thesis by (simp add: True)
    qed
  qed
  with below bound up show ?thesis by (simp add: worker_ok_def assms(7))
qed

lemma step_ok:
  assumes "worker_step rt cfg model parse logs st st'" and "worker_ok parse logs st"
    and "logs_ok logs" and "1 \<le> retry_max_attempts cfg"
  shows "worker_ok parse logs st' \<and> (\<forall>p. wk_committed st p \<le> wk_committed st' p)"
  using assms(1)
proof cases
  case (polls plan assigned)
  with assms poll_in_flight [OF _ assms(3)] show ?thesis
    by (simp add: worker_ok_def settled_below_def committed_ok_def)
next
  case (drains rds env)
  have flight: "in_flight logs st" using assms(2) drains by (auto simp: worker_ok_def)
  show ?thesis
  proof (cases "take_item (wk_queue st)")
    case None
    with drains assms(2) show ?thesis by (simp add: drain_turn_def)
  next
    case (Some x)
    obtain rec q where x: "x = (rec, q)" by (cases x)
    obtain es ex where r: "process_record rt rds cfg model parse rec env = (es, ex)" by fastforce
    have commute: "apply_effects p fs (st\<lparr>wk_queue := q\<rparr>) = apply_effects p fs st\<lparr>wk_queue := q\<rparr>" for p fs
    proof (induction fs arbitrary: st)
      case (Cons e fs)
      have "apply_effect p e (st\<lparr>wk_queue := q\<rparr>) = apply_effect p e st\<lparr>wk_queue := q\<rparr>" by (cases e) simp_all
      with Cons show ?case by simp
    qed simp
    have "st' = apply_effects (kr_partition rec) (take (length es) es) st
        \<lparr>wk_queue := q, wk_phase := (case ex of None \<Rightarrow> wk_phase st
           | Some x \<Rightarrow> Ended (Some (if wk_phase st = Draining \<and> lq_items q \<noteq> [] then TimeoutError else x)))\<rparr>"
      using drains Some x r by (auto simp: drain_turn_def Let_def commute split: option.splits)
    from worker_okI [OF assms(2) flight assms(3) Some [unfolded x] r assms(4) this] show ?thesis
      by (auto split: option.splits)
  qed
next
  case (interrupted ex rds env n)
  have flight: "in_flight logs st" using assms(2) interrupted by (auto simp: worker_ok_def)
  show ?thesis
  proof (cases "take_item (wk_queue st)")
    case None
    with interrupted assms(2) show ?thesis
      by (simp add: interrupt_def worker_ok_def settled_below_def committed_ok_def)
  next
    case (Some x)
    obtain rec q where x: "x = (rec, q)" by (cases x)
    obtain es out where r: "process_record rt rds cfg model parse rec env = (es, out)" by fastforce
    have "st' = apply_effects (kr_partition rec) (take n es) st
        \<lparr>wk_queue := wk_queue st, wk_phase := Ended ex\<rparr>"
      using interrupted Some x r by (simp add: interrupt_def)
    from worker_okI [OF assms(2) flight assms(3) Some [unfolded x] r assms(4) this] show ?thesis by simp
  qed
next
  case (starts ex)
  with assms(2) show ?thesis
    by (auto simp: worker_ok_def start_worker_def in_flight_def settled_below_def committed_ok_def
        nat_le_iff)
qed (use assms(2) in \<open>auto simp: worker_ok_def request_stop_def in_flight_def settled_below_def
    committed_ok_def joined_def\<close>)

lemma fresh_ok: "worker_ok parse logs fresh_worker"
  by (simp add: worker_ok_def fresh_worker_def settled_below_def committed_ok_def)

lemma reach_ok:
  "worker_reach rt cfg model parse logs st st' \<Longrightarrow> worker_ok parse logs st \<Longrightarrow> logs_ok logs \<Longrightarrow>
     1 \<le> retry_max_attempts cfg \<Longrightarrow>
     worker_ok parse logs st' \<and> (\<forall>p. wk_committed st p \<le> wk_committed st' p)"
proof (induction rule: worker_reach.induct)
  case (further st st' st'')
  then show ?case using step_ok [OF further(2)] by (meson order_trans)
qed simp

text \<open>A graceful stop that has joined the queue has committed all that was fetched.\<close>

lemma joined_committed:
  assumes "worker_ok parse logs st" and "joined st"
  shows "wk_committed st p = int (wk_position st p)"
proof -
  have q: "queued p st = []" and ph: "wk_phase st = Draining" using assms(2) by (simp_all add: joined_def)
  with assms(1) have "in_flight logs st" and c: "0 \<le> wk_committed st p"
    by (auto simp: worker_ok_def committed_ok_def)
  then have le: "wk_committed st p \<le> int (wk_position st p)" "wk_position st p \<le> length (logs p)"
    and "take (wk_position st p - nat (wk_committed st p)) (drop (nat (wk_committed st p)) (logs p)) = []"
    using q by (simp_all add: in_flight_def)
  then have "wk_position st p \<le> nat (wk_committed st p)" using c by auto
  with le(1) c show ?thesis by linarith
qed

text \<open>
  C5. The inference worker loses no request. Over any sequence of polls, processed records, task
  failures, crashes in the middle of a record, graceful stops and restarts, every request below the
  committed offset of its partition has had its result or its dead letter published, committed
  offsets never go back, and a graceful stop that ends has committed everything it had fetched.
\<close>

theorem worker_no_gap:
  assumes "logs_ok logs" and "1 \<le> retry_max_attempts cfg"
    and "worker_reach rt cfg model parse logs fresh_worker st"
    and "worker_reach rt cfg model parse logs st st'"
  shows "(\<forall>p. \<forall>i < length (logs p). int i < wk_committed st p \<longrightarrow>
      settled parse (logs p ! i) (wk_effects st)) \<and>
    (\<forall>p. wk_committed st p \<le> wk_committed st' p) \<and>
    (joined st \<longrightarrow> (\<forall>p. wk_committed st p = int (wk_position st p)))"
  using reach_ok [OF assms(3) fresh_ok assms(1,2)] reach_ok [OF assms(4) _ assms(1,2)] joined_committed
  by (auto simp: worker_ok_def settled_below_def)

subsection \<open>A run\<close>

definition first_request :: kafka_record where
  "first_request = sample_record 0 ''{}'' [(''trace_id'', replicate 32 (CHR ''a''))]"

definition one_request :: "int \<Rightarrow> kafka_record list" where
  "one_request p = (if p = 0 then [first_request] else [])"

lemma first_request_simps [simp]: "kr_partition first_request = 0" "kr_offset first_request = 0"
  by (simp_all add: first_request_def sample_record_def)

lemma one_request_ok: "logs_ok one_request"
  by (simp add: logs_ok_def one_request_def)

lemma first_request_scored:
  "\<exists>m. process_record sample_runtime (\<lambda>_. sample_reader) worker_sample_cfg sample_model
     (\<lambda>_. Some sample_request) first_request (sample_record_env False None) =
       ([ResultSent m, Committed 1], None)"
proof -
  have dec: "decode_value (\<lambda>_. Some sample_request) valid_scoring_requested (kr_value first_request) =
      Inr sample_request"
    by (simp add: first_request_def sample_record_def decode_value_def decode_event_def valid_sample_request)
  from sample_build obtain r where r: "build_result sample_runtime sample_reader worker_sample_cfg sample_model
      sample_request (sample_attempt False None) = Inr r" by blast
  have once: "attempt_once sample_runtime sample_reader worker_sample_cfg sample_model first_request
      sample_request (sample_attempt False None) =
      ([ResultSent (result_message sample_runtime worker_sample_cfg r), Committed 1], None)"
    by (simp add: attempt_once_def score_and_publish_def r)
  have "attempt_loop sample_runtime (\<lambda>_. sample_reader) worker_sample_cfg sample_model first_request
      sample_request (rc_attempt (sample_record_env False None)) (nat (retry_max_attempts worker_sample_cfg)) 1 None =
      ([ResultSent (result_message sample_runtime worker_sample_cfg r), Committed 1], None)"
    by (simp add: numeral_eq_Suc once)
  from process_record_loop [OF dec this] show ?thesis by simp
qed

theorem worker_no_gap_witness:
  "\<exists>st. worker_reach sample_runtime worker_sample_cfg sample_model (\<lambda>_. Some sample_request) one_request
     fresh_worker st \<and> wk_committed st 0 = 1 \<and> joined st \<and>
     settled (\<lambda>_. Some sample_request) first_request (wk_effects st)"
proof -
  let ?parse = "\<lambda>_ :: bytes. Some sample_request"
  let ?step = "worker_step sample_runtime worker_sample_cfg sample_model ?parse one_request"
  let ?reach = "worker_reach sample_runtime worker_sample_cfg sample_model ?parse one_request"
  let ?plan = "\<lambda>n :: int. if 1 \<le> n then [(0, 1)] else [] :: fetch_plan"
  define a where "a = start_worker worker_sample_cfg fresh_worker"
  define b where "b = poll_worker worker_sample_cfg one_request True ?plan a"
  define c where "c = request_stop b"
  define d where "d = drain_turn sample_runtime (\<lambda>_. sample_reader) worker_sample_cfg sample_model ?parse
    (sample_record_env False None) c"
  have a: "wk_phase a = Running" "lq_items (wk_queue a) = []" "wk_position a = (\<lambda>p. 0)"
    "wk_committed a = (\<lambda>p. 0)" "lq_maxsize (wk_queue a) = nat (max_in_flight_inference worker_sample_cfg)" "lq_paused (wk_queue a) = False"
    by (simp_all add: a_def start_worker_def fresh_worker_def default_settings_def)
  have b: "wk_phase b = Running" "lq_items (wk_queue b) = [first_request]"
    by (simp_all add: b_def poll_worker_def poll_turn_def Let_def a fetch_records_def one_request_def
        default_settings_def)
  have "?step fresh_worker a" unfolding a_def by (rule starts) (simp add: fresh_worker_def)
  moreover have "?step a b"
    unfolding b_def by (rule polls) (simp_all add: a fetch_records_def one_request_def)
  moreover have "?step b c" unfolding c_def by (rule stops) (simp add: b)
  moreover have "?step c d" unfolding d_def by (rule drains) (simp add: c_def request_stop_def)
  ultimately have reach: "?reach fresh_worker d" by (meson worker_reach.intros)
  from first_request_scored obtain m where m: "process_record sample_runtime (\<lambda>_. sample_reader)
      worker_sample_cfg sample_model ?parse first_request (sample_record_env False None) =
        ([ResultSent m, Committed 1], None)" by blast
  have d: "wk_committed d 0 = 1" "joined d"
    by (simp_all add: d_def drain_turn_def c_def request_stop_def take_item_def b m joined_def)
  have "\<forall>p. \<forall>i < length (one_request p). int i < wk_committed d p \<longrightarrow>
      settled ?parse (one_request p ! i) (wk_effects d)"
    using worker_no_gap [OF one_request_ok _ reach worker_reach.here] by simp
  from this [rule_format, of 0 0] d(1) have "settled ?parse (one_request 0 ! 0) (wk_effects d)"
    by (simp add: one_request_def)
  then have "settled ?parse first_request (wk_effects d)" by (simp add: one_request_def)
  with d reach show ?thesis by blast
qed

end
