(* ===== verification/Network.thy ===== *)
theory Network
  imports Worker
begin

text \<open>
  The network of \<open>gnn_inference.py\<close> and its checkpoint: the three attention layers with their residual
  and skip projections, the constructor that loads a checkpoint and a scaler, and the tensor part of
  \<open>predict\<close>. The layers, the activation, dropout and softmax belong to torch and torch_geometric:
  they are the fields of \<open>torch_ops\<close>, and \<open>torch_ok\<close> states what their documentation says of shapes
  and ranges. Floating point numbers are rationals.
\<close>

type_synonym matrix = "rat list list"

definition shaped :: "nat \<Rightarrow> nat \<Rightarrow> 'a list list \<Rightarrow> bool" where
  "shaped n m x \<longleftrightarrow> length x = n \<and> (\<forall>row \<in> set x. length row = m)"

definition mat_add :: "matrix \<Rightarrow> matrix \<Rightarrow> matrix" where
  "mat_add x y = map2 (map2 (+)) x y"

lemma shaped_add: "shaped n m x \<Longrightarrow> shaped n m y \<Longrightarrow> shaped n m (mat_add x y)"
  by (auto simp: shaped_def mat_add_def set_zip)

text \<open>
  Features become 32-bit floats before they are scaled: what lies beyond the largest of them, rounding
  to nearest, becomes an infinity, here \<open>None\<close>. The scaler takes such a matrix, so that it can refuse an
  infinity. Past the scaler numbers are rationals: neither rounding nor overflow inside the layers is
  modelled.
\<close>

definition float32_limit :: rat where
  "float32_limit = 2 ^ 128 - 2 ^ 103"

definition float32 :: "rat \<Rightarrow> rat option" where
  "float32 v = (if \<bar>v\<bar> < float32_limit then Some v else None)"

type_synonym float32_matrix = "rat option list list"

type_synonym scaler = "float32_matrix \<Rightarrow> matrix result"

definition as_float32 :: "matrix \<Rightarrow> float32_matrix" where
  "as_float32 rows = map (map float32) rows"

subsection \<open>The architecture\<close>

record gat_spec =
  gc_in :: nat
  gc_out :: nat
  gc_heads :: nat
  gc_concat :: bool
  gc_dropout :: rat

text \<open>The number of columns a convolution returns: the heads are concatenated or averaged.\<close>

definition gc_width :: "gat_spec \<Rightarrow> nat" where
  "gc_width s = (if gc_concat s then gc_out s * gc_heads s else gc_out s)"

record lin_spec =
  ln_in :: nat
  ln_out :: nat

record gat_resnet =
  net_dropout :: rat
  net_gat1 :: gat_spec
  net_gat2 :: gat_spec
  net_gat3 :: gat_spec
  net_res1 :: lin_spec
  net_res2 :: lin_spec
  net_skip :: "lin_spec option"

text \<open>The keyword arguments; a missing one takes its default.\<close>

record model_config =
  mc_in_channels :: nat
  mc_hidden_channels :: "nat option"
  mc_num_classes :: "nat option"
  mc_heads1 :: "nat option"
  mc_heads2 :: "nat option"
  mc_heads3 :: "nat option"
  mc_dropout :: "rat option"
  mc_use_skip :: "bool option"

definition default_to :: "'a \<Rightarrow> 'a option \<Rightarrow> 'a" where
  "default_to d x = (case x of None \<Rightarrow> d | Some y \<Rightarrow> y)"

definition GATResNet :: "model_config \<Rightarrow> gat_resnet" where
  "GATResNet c =
     (let hidden = default_to 100 (mc_hidden_channels c);
          classes = default_to 2 (mc_num_classes c);
          dropout = default_to (1 / 2) (mc_dropout c);
          dim1 = hidden * default_to 8 (mc_heads1 c);
          dim2 = hidden * default_to 8 (mc_heads2 c)
      in \<lparr>net_dropout = dropout,
          net_gat1 = \<lparr>gc_in = mc_in_channels c, gc_out = hidden, gc_heads = default_to 8 (mc_heads1 c),
            gc_concat = True, gc_dropout = dropout\<rparr>,
          net_gat2 = \<lparr>gc_in = dim1, gc_out = hidden, gc_heads = default_to 8 (mc_heads2 c),
            gc_concat = True, gc_dropout = dropout\<rparr>,
          net_gat3 = \<lparr>gc_in = dim2, gc_out = classes, gc_heads = default_to 1 (mc_heads3 c),
            gc_concat = False, gc_dropout = dropout\<rparr>,
          net_res1 = \<lparr>ln_in = dim1, ln_out = dim2\<rparr>,
          net_res2 = \<lparr>ln_in = dim2, ln_out = classes\<rparr>,
          net_skip = (if default_to True (mc_use_skip c)
            then Some \<lparr>ln_in = mc_in_channels c, ln_out = classes\<rparr> else None)\<rparr>)"

text \<open>Weights by layer name, and the operations of the libraries.\<close>

type_synonym 'p weights = "string \<Rightarrow> 'p"

record 'p torch_ops =
  t_gat :: "gat_spec \<Rightarrow> 'p \<Rightarrow> matrix \<Rightarrow> (nat \<times> nat) list \<Rightarrow> matrix"
  t_linear :: "lin_spec \<Rightarrow> 'p \<Rightarrow> matrix \<Rightarrow> matrix"
  t_elu :: "matrix \<Rightarrow> matrix"
  t_dropout :: "rat \<Rightarrow> bool \<Rightarrow> matrix \<Rightarrow> matrix"
  t_softmax :: "matrix \<Rightarrow> matrix"

definition forward ::
  "'p torch_ops \<Rightarrow> gat_resnet \<Rightarrow> 'p weights \<Rightarrow> bool \<Rightarrow> matrix \<Rightarrow> (nat \<times> nat) list \<Rightarrow> matrix"
where
  "forward ops net w training x edges =
     (let h1 = t_gat ops (net_gat1 net) (w ''gat1'') x edges;
          h1 = t_elu ops h1;
          h1 = t_dropout ops (net_dropout net) training h1;
          h2 = t_gat ops (net_gat2 net) (w ''gat2'') h1 edges;
          h2 = mat_add h2 (t_linear ops (net_res1 net) (w ''res1'') h1);
          h2 = t_elu ops h2;
          h2 = t_dropout ops (net_dropout net) training h2;
          logits = t_gat ops (net_gat3 net) (w ''gat3'') h2 edges;
          logits = mat_add logits (t_linear ops (net_res2 net) (w ''res2'') h2)
      in (case net_skip net of
            None \<Rightarrow> logits
          | Some s \<Rightarrow> mat_add logits (t_linear ops s (w ''skip_proj'') x)))"

subsection \<open>Loading a checkpoint\<close>

record 'p checkpoint =
  ck_weights :: "'p weights"
  ck_threshold :: rat
  ck_config :: model_config

record 'p gnn_inference =
  gi_threshold :: rat
  gi_net :: gat_resnet
  gi_weights :: "'p weights"
  gi_scaler :: scaler

text \<open>
  The constructor. \<open>fits\<close> is the check of \<open>load_state_dict\<close>, \<open>scaler\<close> is what \<open>joblib.load\<close> finds, if the
  file exists.
\<close>

definition gnn_init ::
  "(gat_resnet \<Rightarrow> 'p weights \<Rightarrow> bool) \<Rightarrow> 'p checkpoint \<Rightarrow> scaler option
     \<Rightarrow> string \<Rightarrow> 'p gnn_inference result"
where
  "gnn_init fits ckpt scaler scaler_path =
     (let net = GATResNet (ck_config ckpt) in
      if \<not> fits net (ck_weights ckpt) then Inl (RuntimeError ''Error(s) in loading state_dict'')
      else case scaler of
        None \<Rightarrow> Inl (RuntimeError (''Scaler not found at '' @ scaler_path))
      | Some s \<Rightarrow> Inr \<lparr>gi_threshold = ck_threshold ckpt, gi_net = net, gi_weights = ck_weights ckpt,
                     gi_scaler = s\<rparr>)"

subsection \<open>Prediction\<close>

text \<open>\<open>np.array(..., dtype=np.float32)\<close> of the feature rows needs rows of one length.\<close>

definition feature_matrix :: "rat list list \<Rightarrow> float32_matrix result" where
  "feature_matrix rows =
     (if \<forall>r \<in> set rows. length r = length (hd rows) then Inr (as_float32 rows)
      else Inl (ValueError ''inhomogeneous shape''))"

definition gnn_infer :: "'p torch_ops \<Rightarrow> 'p gnn_inference \<Rightarrow> network" where
  "gnn_infer ops g rows edges center =
     rbind (feature_matrix rows) (\<lambda>X.
     rbind (gi_scaler g X) (\<lambda>X_scaled.
       let logits = forward ops (gi_net g) (gi_weights g) False X_scaled edges;
           probs = t_softmax ops logits
       in if center < length probs \<and> 1 < length (probs ! center) then Inr (probs ! center ! 1)
          else Inl (OtherError ''IndexError'' ''index out of range'')))"

text \<open>
  What the libraries document; a convolution needs edges between rows of its matrix.
\<close>

definition edges_within :: "nat \<Rightarrow> (nat \<times> nat) list \<Rightarrow> bool" where
  "edges_within n es \<longleftrightarrow> (\<forall>(i, j) \<in> set es. i < n \<and> j < n)"

definition torch_ok :: "'p torch_ops \<Rightarrow> bool" where
  "torch_ok ops \<longleftrightarrow>
     (\<forall>s p x es n. shaped n (gc_in s) x \<longrightarrow> edges_within n es \<longrightarrow>
        shaped n (gc_width s) (t_gat ops s p x es)) \<and>
     (\<forall>s p x n. shaped n (ln_in s) x \<longrightarrow> shaped n (ln_out s) (t_linear ops s p x)) \<and>
     (\<forall>x n m. shaped n m x \<longrightarrow> shaped n m (t_elu ops x)) \<and>
     (\<forall>r b x n m. shaped n m x \<longrightarrow> shaped n m (t_dropout ops r b x)) \<and>
     (\<forall>r x. t_dropout ops r False x = x) \<and>
     (\<forall>x n m. shaped n m x \<longrightarrow> 0 < m \<longrightarrow> shaped n m (t_softmax ops x) \<and>
        (\<forall>row \<in> set (t_softmax ops x). (\<forall>v \<in> set row. 0 \<le> v) \<and> sum_list row = 1))"

end
