(* ===== verification/Network_Props.thy ===== *)
theory Network_Props
  imports Network Worker_Props
begin

text \<open>
  What a loaded model does on the subgraphs the database gives. The layers fit together, whatever the
  weights, so features that the scaler takes give a probability; a stored feature that a 32-bit float
  cannot hold is an inference error.
\<close>

lemma torch_laws:
  assumes "torch_ok ops"
  shows torch_gat: "shaped n (gc_in s) x \<Longrightarrow> edges_within n es \<Longrightarrow> shaped n (gc_width s) (t_gat ops s p x es)"
    and torch_linear: "shaped n (ln_in l) x \<Longrightarrow> shaped n (ln_out l) (t_linear ops l p x)"
    and torch_elu: "shaped n m x \<Longrightarrow> shaped n m (t_elu ops x)"
    and torch_dropout: "shaped n m x \<Longrightarrow> shaped n m (t_dropout ops r b x)"
    and torch_softmax: "shaped n m x \<Longrightarrow> 0 < m \<Longrightarrow> shaped n m (t_softmax ops x)"
    and torch_softmax_row: "shaped n m x \<Longrightarrow> 0 < m \<Longrightarrow> row \<in> set (t_softmax ops x) \<Longrightarrow>
      (\<forall>v \<in> set row. 0 \<le> v) \<and> sum_list row = 1"
  using assms unfolding torch_ok_def by metis+

text \<open>The widths of consecutive layers agree, for any configuration.\<close>

lemma forward_shape:
  assumes ok: "torch_ok ops" and x: "shaped n (mc_in_channels c) x" and es: "edges_within n es"
  shows "shaped n (default_to 2 (mc_num_classes c)) (forward ops (GATResNet c) w training x es)"
proof -
  let ?net = "GATResNet c" and ?hidden = "default_to 100 (mc_hidden_channels c)"
  let ?dim1 = "?hidden * default_to 8 (mc_heads1 c)" and ?dim2 = "?hidden * default_to 8 (mc_heads2 c)"
  let ?classes = "default_to 2 (mc_num_classes c)"
  have widths: "gc_in (net_gat1 ?net) = mc_in_channels c" "gc_width (net_gat1 ?net) = ?dim1"
    "gc_in (net_gat2 ?net) = ?dim1" "gc_width (net_gat2 ?net) = ?dim2"
    "gc_in (net_gat3 ?net) = ?dim2" "gc_width (net_gat3 ?net) = ?classes"
    "ln_in (net_res1 ?net) = ?dim1" "ln_out (net_res1 ?net) = ?dim2"
    "ln_in (net_res2 ?net) = ?dim2" "ln_out (net_res2 ?net) = ?classes"
    "net_skip ?net = (if default_to True (mc_use_skip c)
       then Some \<lparr>ln_in = mc_in_channels c, ln_out = ?classes\<rparr> else None)"
    by (simp_all add: GATResNet_def Let_def gc_width_def)
  define h1 where "h1 = t_dropout ops (net_dropout ?net) training
    (t_elu ops (t_gat ops (net_gat1 ?net) (w ''gat1'') x es))"
  define h2 where "h2 = t_dropout ops (net_dropout ?net) training (t_elu ops
    (mat_add (t_gat ops (net_gat2 ?net) (w ''gat2'') h1 es) (t_linear ops (net_res1 ?net) (w ''res1'') h1)))"
  define l where "l = mat_add (t_gat ops (net_gat3 ?net) (w ''gat3'') h2 es)
    (t_linear ops (net_res2 ?net) (w ''res2'') h2)"
  have h1: "shaped n ?dim1 h1"
    using torch_gat [OF ok _ es, of "net_gat1 ?net" x] x widths
    by (simp add: h1_def torch_elu [OF ok] torch_dropout [OF ok])
  then have h2: "shaped n ?dim2 h2"
    using torch_gat [OF ok _ es, of "net_gat2 ?net" h1] torch_linear [OF ok, of n "net_res1 ?net" h1] widths
    by (simp add: h2_def torch_elu [OF ok] torch_dropout [OF ok] shaped_add)
  then have l: "shaped n ?classes l"
    using torch_gat [OF ok _ es, of "net_gat3 ?net" h2] torch_linear [OF ok, of n "net_res2 ?net" h2] widths
    by (simp add: l_def shaped_add)
  have "forward ops ?net w training x es =
      (case net_skip ?net of None \<Rightarrow> l | Some s \<Rightarrow> mat_add l (t_linear ops s (w ''skip_proj'') x))"
    by (cases "net_skip ?net") (simp_all add: forward_def Let_def h1_def h2_def l_def)
  then show ?thesis
    using l x torch_linear [OF ok, of n "\<lparr>ln_in = mc_in_channels c, ln_out = ?classes\<rparr>" x]
    by (simp add: widths(11) shaped_add)
qed

lemma member_le_sum: "v \<in> set xs \<Longrightarrow> \<forall>u \<in> set xs. 0 \<le> (u :: rat) \<Longrightarrow> v \<le> sum_list xs"
  by (simp add: member_le_sum_list)

text \<open>
  A checkpoint for 165 features and two classes, and a scaler that accepts 165 features as long as
  they are within \<open>B\<close>, and refuses an infinity. \<open>B\<close> depends on the scaler: it divides by the standard
  deviations it has fitted, which can overflow too.
\<close>

definition loaded_for_elliptic :: "rat \<Rightarrow> 'p gnn_inference \<Rightarrow> bool" where
  "loaded_for_elliptic B g \<longleftrightarrow>
     (\<exists>c. gi_net g = GATResNet c \<and> mc_in_channels c = 165 \<and> default_to 2 (mc_num_classes c) = 2) \<and>
     B < float32_limit \<and>
     (\<forall>n X. shaped n 165 X \<longrightarrow> 0 < n \<longrightarrow>
        ((\<forall>row \<in> set X. \<forall>v \<in> set row. \<exists>x. v = Some x \<and> \<bar>x\<bar> \<le> B) \<longrightarrow>
           (\<exists>Y. gi_scaler g X = Inr Y \<and> shaped n 165 Y)) \<and>
        ((\<exists>row \<in> set X. None \<in> set row) \<longrightarrow> (\<exists>m. gi_scaler g X = Inl (ValueError m))))"

definition row_within :: "rat \<Rightarrow> rat list \<Rightarrow> bool" where
  "row_within B f \<longleftrightarrow> length f = 165 \<and> (\<forall>v \<in> set f. \<bar>v\<bar> \<le> B)"

lemma feature_matrix_165:
  "\<forall>r \<in> set rows. length r = 165 \<Longrightarrow>
     feature_matrix rows = Inr (as_float32 rows) \<and> shaped (length rows) 165 (as_float32 rows)"
  by (cases rows) (auto simp: feature_matrix_def as_float32_def shaped_def)

lemma infer_in_range:
  assumes ok: "torch_ok ops" and g: "loaded_for_elliptic B g"
    and rows: "\<forall>r \<in> set rows. row_within B r" and c: "center < length rows"
    and es: "edges_within (length rows) es"
  shows "\<exists>p. gnn_infer ops g rows es center = Inr p \<and> 0 \<le> p \<and> p \<le> 1"
proof -
  let ?n = "length rows" and ?X = "as_float32 rows"
  have fm: "feature_matrix rows = Inr ?X" "shaped ?n 165 ?X"
    using feature_matrix_165 [of rows] rows by (auto simp: row_within_def)
  have "0 < ?n" using c by linarith
  have B: "B < float32_limit" using g by (simp add: loaded_for_elliptic_def)
  have within: "\<forall>row \<in> set ?X. \<forall>v \<in> set row. \<exists>x. v = Some x \<and> \<bar>x\<bar> \<le> B"
    using rows B by (fastforce simp: as_float32_def float32_def row_within_def)
  from g obtain cf where cf: "gi_net g = GATResNet cf" "mc_in_channels cf = 165"
    "default_to 2 (mc_num_classes cf) = 2" by (auto simp: loaded_for_elliptic_def)
  from g fm(2) within \<open>0 < ?n\<close> obtain Y where Y: "gi_scaler g ?X = Inr Y" "shaped ?n 165 Y"
    unfolding loaded_for_elliptic_def by blast
  let ?probs = "t_softmax ops (forward ops (gi_net g) (gi_weights g) False Y es)"
  have logits: "shaped ?n 2 (forward ops (gi_net g) (gi_weights g) False Y es)"
    using forward_shape [OF ok, of ?n cf Y es] Y(2) cf es by simp
  have probs: "shaped ?n 2 ?probs" using torch_softmax [OF ok logits] by simp
  then have row: "?probs ! center \<in> set ?probs" "length (?probs ! center) = 2" "center < length ?probs"
    using c by (auto simp: shaped_def)
  from torch_softmax_row [OF ok logits _ row(1)] have nonneg: "\<forall>v \<in> set (?probs ! center). 0 \<le> v"
    and total: "sum_list (?probs ! center) = 1" by simp_all
  have in_row: "?probs ! center ! 1 \<in> set (?probs ! center)" using row(2) by simp
  have "gnn_infer ops g rows es center = Inr (?probs ! center ! 1)"
    using row by (simp add: gnn_infer_def fm Y(1))
  moreover have "0 \<le> ?probs ! center ! 1" "?probs ! center ! 1 \<le> 1"
    using in_row nonneg member_le_sum [OF in_row nonneg] total by simp_all
  ultimately show ?thesis by blast
qed

lemma infer_refuses:
  assumes g: "loaded_for_elliptic B g" and rows: "\<forall>r \<in> set rows. length r = 165"
    and big: "\<exists>r \<in> set rows. \<exists>v \<in> set r. float32_limit \<le> \<bar>v\<bar>"
  shows "\<exists>m. gnn_infer ops g rows es center = Inl (ValueError m)"
proof -
  have fm: "feature_matrix rows = Inr (as_float32 rows)" "shaped (length rows) 165 (as_float32 rows)"
    using feature_matrix_165 [OF rows] by simp_all
  have "0 < length rows" using big by auto
  moreover have "\<exists>row \<in> set (as_float32 rows). None \<in> set row"
    using big by (force simp: as_float32_def float32_def)
  ultimately obtain m where "gi_scaler g (as_float32 rows) = Inl (ValueError m)"
    using g fm(2) unfolding loaded_for_elliptic_def by blast
  then show ?thesis by (simp add: gnn_infer_def fm(1))
qed

text \<open>The edges that reach the network join rows of its matrix.\<close>

lemma id2idx_less: "id2idx nodes t = Some i \<Longrightarrow> i < length nodes"
  by (auto simp: id2idx_def in_set_zip dest!: map_of_SomeD)

lemma edge_index_within: "edges_within (length nodes) (edge_index (id2idx nodes) es)"
  by (induction "id2idx nodes" es rule: edge_index.induct)
    (auto simp: edges_within_def id2idx_less split: option.splits)

lemma gnn_predict_in_range:
  assumes "torch_ok ops" and "loaded_for_elliptic B g"
    and "\<forall>nd \<in> set nodes. row_within B (sn_features nd)"
  shows "\<exists>p. gnn_predict (gnn_infer ops g) nodes edges center = Inr p \<and> 0 \<le> p \<and> p \<le> 1"
proof (cases "nodes = [] \<or> id2idx nodes center = None")
  case True
  then show ?thesis by (auto simp: gnn_predict_def)
next
  case False
  then obtain c where c: "id2idx nodes center = Some c" "nodes \<noteq> []" by auto
  then show ?thesis
    using infer_in_range [OF assms(1,2), of "map sn_features nodes" c] assms(3) id2idx_less [OF c(1)]
      edge_index_within [of nodes edges]
    by (auto simp: gnn_predict_def)
qed

lemma id2idx_known: "t \<in> sn_txId ` set nodes \<Longrightarrow> \<exists>i. id2idx nodes t = Some i"
proof -
  assume "t \<in> sn_txId ` set nodes"
  then have "t \<in> fst ` set (rev (zip (map sn_txId nodes) [0..<length nodes]))"
    by (metis length_map length_upt map_fst_zip minus_nat.diff_0 set_map set_rev)
  then show ?thesis unfolding id2idx_def by (metis domD dom_map_of_conv_image_fst)
qed

lemma gnn_predict_refuses:
  assumes "loaded_for_elliptic B g" and "\<forall>nd \<in> set nodes. length (sn_features nd) = 165"
    and "center \<in> sn_txId ` set nodes"
    and "\<exists>nd \<in> set nodes. \<exists>v \<in> set (sn_features nd). float32_limit \<le> \<bar>v\<bar>"
  shows "\<exists>m. gnn_predict (gnn_infer ops g) nodes edges center = Inl (ValueError m)"
proof -
  obtain c where c: "id2idx nodes center = Some c" using id2idx_known [OF assms(3)] by blast
  have "nodes \<noteq> []" using assms(4) by auto
  with c infer_refuses [OF assms(1), of "map sn_features nodes"] assms(2,4) show ?thesis
    by (auto simp: gnn_predict_def)
qed

subsection \<open>The stored features\<close>

lemma upsert_all:
  assumes closed: "\<forall>v old. P v \<longrightarrow> P old \<longrightarrow> P (merge v old)" and "P v"
    and rows: "\<forall>r \<in> set t. P (snd r)" and u: "upsert wins merge k v t = (t', hit)"
  shows "\<forall>r \<in> set t'. P (snd r)"
proof (cases "map_of t k")
  case None
  then show ?thesis using assms by (auto simp: upsert_def)
next
  case (Some old)
  have "P (if k' = k then merge v x else x)" if "(k', x) \<in> set t" for k' x
    using closed assms(2) rows that by fastforce
  then show ?thesis using Some rows u by (auto simp: upsert_def update_row_def split: if_splits)
qed

lemma upsert_rows_all:
  assumes closed: "\<forall>v old. P v \<longrightarrow> P old \<longrightarrow> P (merge v old)"
  shows "upsert_rows wins merge affected rows t = Inr t' \<Longrightarrow> \<forall>r \<in> set rows. P (snd r) \<Longrightarrow>
    \<forall>r \<in> set t. P (snd r) \<Longrightarrow> \<forall>r \<in> set t'. P (snd r)"
proof (induction rows arbitrary: affected t)
  case (Cons r rows)
  obtain k v where r: "r = (k, v)" by (cases r)
  obtain t1 hit where u: "upsert wins merge k v t = (t1, hit)" by fastforce
  have rest: "upsert_rows wins merge (if hit then insert k affected else affected) rows t1 = Inr t'"
    using Cons.prems(1) u by (simp add: r split: if_splits)
  have "\<forall>r \<in> set t1. P (snd r)"
    by (rule upsert_all [OF closed _ _ u]) (use Cons.prems(2,3) in \<open>simp_all add: r\<close>)
  then show ?case using Cons.IH [OF rest] Cons.prems(2) by simp
qed simp

definition features_all :: "(rat list \<Rightarrow> bool) \<Rightarrow> db \<Rightarrow> bool" where
  "features_all P d \<longleftrightarrow> (\<forall>r \<in> set (transactions d). P (tx_features (snd r)))"

lemma features_all_empty [simp]: "features_all P empty_db"
  by (simp add: features_all_def empty_db_def)

lemma materialize_features:
  assumes m: "materialize_graph_batch uuid5 topic c env ev d = Inr (d', r)"
    and nodes: "\<forall>n \<in> set (batch_nodes (payload ev)). P (node_features n)" and "features_all P d"
  shows "features_all P d'"
proof (cases "map_of (consumer_inbox d) (event_id ev, c)")
  case (Some u)
  with m assms(3) show ?thesis by (simp add: materialize_seen)
next
  case None
  from m None obtain t erows where
    t: "upsert_rows node_wins node_merge {} (node_rows_of ev env) (transactions d) = Inr t"
    and d': "d' = applied ev env c t erows (request_rows uuid5 ev env topic 0 (batch_nodes (payload ev))) d"
    by (rule materialize_fresh)
  have rows: "\<forall>r \<in> set (node_rows_of ev env). P (tx_features (snd r))"
    using nodes by (auto simp: node_row_def)
  have "\<forall>r \<in> set t. P (tx_features (snd r))"
    by (rule upsert_rows_all [where P = "\<lambda>v. P (tx_features v)", OF _ t rows])
      (use assms(3) in \<open>simp_all add: features_all_def node_merge_def\<close>)
  then show ?thesis by (simp add: d' applied_def features_all_def)
qed

lemma valid_features: "valid_graph_batch ev \<Longrightarrow> n \<in> set (batch_nodes (payload ev)) \<Longrightarrow> length (node_features n) = 165"
  by (auto simp: valid_graph_batch_def valid_batch_payload_def valid_node_def list_all_iff)

lemma history_features:
  assumes "\<forall>(env, ev) \<in> set ds. valid_graph_batch ev"
  shows "db_ok (deliver (materialize_graph_batch uuid5 topic c) ds empty_db) \<and>
    features_all (\<lambda>f. length f = 165) (deliver (materialize_graph_batch uuid5 topic c) ds empty_db)"
proof -
  have "db_ok d \<and> features_all (\<lambda>f. length f = 165) d \<Longrightarrow> \<forall>(env, ev) \<in> set ds. valid_graph_batch ev \<Longrightarrow>
      db_ok (deliver (materialize_graph_batch uuid5 topic c) ds d) \<and>
      features_all (\<lambda>f. length f = 165) (deliver (materialize_graph_batch uuid5 topic c) ds d)" for d
  proof (induction ds arbitrary: d)
    case (Cons e ds)
    obtain env ev where e: "e = (env, ev)" by (cases e)
    have "db_ok (deliver1 (materialize_graph_batch uuid5 topic c) e d) \<and>
        features_all (\<lambda>f. length f = 165) (deliver1 (materialize_graph_batch uuid5 topic c) e d)"
      using Cons.prems materialize_db_ok materialize_features [where P = "\<lambda>f. length f = 165"] valid_features
      by (auto simp: e deliver1_def split: sum.splits)
    with Cons show ?case by simp
  qed simp
  with assms show ?thesis by simp
qed

lemma subgraph_features:
  assumes "get_bounded_subgraph collate scan t n M K mv d = Some g" and "features_all P d"
  shows "\<forall>nd \<in> set (sg_nodes g). P (sn_features nd)"
  using assms by (fastforce simp: get_bounded_subgraph_def Let_def features_all_def split: if_splits)

text \<open>
  C21. What inference does on a stored graph. Take any database that a history of valid graph batches
  built, a bounded subgraph of it, and a model loaded from a checkpoint for 165 features and two
  classes with a scaler that is good for values up to \<open>B\<close>. If the features of the subgraph are within
  \<open>B\<close>, then whatever the weights, every layer gets the width it was built for, the edges join rows of
  the matrix, prediction raises nothing and the answer is a probability. If some feature of the
  subgraph, its neighbours' included, is too large for a 32-bit float, which the contract allows, the
  attempt fails as an inference error, for every transaction whose subgraph has it.
\<close>

theorem inference_outcome:
  assumes "torch_ok ops" and "loaded_for_elliptic B gi" and "mr_infer model = gnn_infer ops gi"
    and "\<forall>(env, ev) \<in> set ds. valid_graph_batch ev" and "1 \<le> M"
    and "get_bounded_subgraph collate scan t n M K mv
      (deliver (materialize_graph_batch uuid5 topic c) ds empty_db) = Some g"
  shows "((\<forall>nd \<in> set (sg_nodes g). \<forall>v \<in> set (sn_features nd). \<bar>v\<bar> \<le> B) \<longrightarrow>
      (\<exists>p. model_predict model g = Inr p \<and> 0 \<le> p \<and> p \<le> 1)) \<and>
    ((\<exists>nd \<in> set (sg_nodes g). \<exists>v \<in> set (sn_features nd). float32_limit \<le> \<bar>v\<bar>) \<longrightarrow>
      (\<forall>env. \<not> at_times_out env \<longrightarrow>
        run_inference model g env = Inl (ModelInferenceError ''model inference failed'')))"
proof -
  let ?d = "deliver (materialize_graph_batch uuid5 topic c) ds empty_db"
  have d: "db_ok ?d" "features_all (\<lambda>f. length f = 165) ?d" using history_features [OF assms(4)] by auto
  have len: "\<forall>nd \<in> set (sg_nodes g). length (sn_features nd) = 165"
    by (rule subgraph_features [OF assms(6) d(2)])
  have center: "sg_center g \<in> sn_txId ` set (sg_nodes g)"
    using sound_lemma [OF assms(6)] d(1) assms(5) subgraph_parts(2) [OF assms(6)]
    by (simp add: db_ok_def node_names_def)
  have "\<exists>p. model_predict model g = Inr p \<and> 0 \<le> p \<and> p \<le> 1"
    if "\<forall>nd \<in> set (sg_nodes g). \<forall>v \<in> set (sn_features nd). \<bar>v\<bar> \<le> B"
    unfolding model_predict_def assms(3)
    by (rule gnn_predict_in_range [OF assms(1,2)]) (use that len in \<open>simp add: row_within_def\<close>)
  moreover have "\<exists>m. model_predict model g = Inl (ValueError m)"
    if "\<exists>nd \<in> set (sg_nodes g). \<exists>v \<in> set (sn_features nd). float32_limit \<le> \<bar>v\<bar>"
    unfolding model_predict_def assms(3)
    by (rule gnn_predict_refuses [OF assms(2) len center that])
  ultimately show ?thesis by (fastforce simp: run_inference_def)
qed

text \<open>
  A network whose layers return zeros and whose softmax is uniform, behind a scaler that changes
  nothing.
\<close>

definition zeros :: "nat \<Rightarrow> matrix \<Rightarrow> matrix" where
  "zeros m x = map (\<lambda>_. replicate m 0) x"

definition zero_ops :: "unit torch_ops" where
  "zero_ops = \<lparr>t_gat = (\<lambda>s p x es. zeros (gc_width s) x), t_linear = (\<lambda>l p x. zeros (ln_out l) x),
     t_elu = id, t_dropout = (\<lambda>r b x. x),
     t_softmax = map (\<lambda>row. map (\<lambda>_. 1 / of_nat (length row)) row)\<rparr>"

lemma zero_ops_ok: "torch_ok zero_ops"
  by (auto simp: torch_ok_def zero_ops_def zeros_def shaped_def sum_list_replicate map_replicate_const)

definition plain_scaler :: scaler where
  "plain_scaler X =
     (if \<exists>row \<in> set X. None \<in> set row then Inl (ValueError ''Input X contains infinity'')
      else Inr (map (map the) X))"

lemma plain_scaler_ok:
  assumes "gi_scaler g = plain_scaler" and "gi_net g = GATResNet c" and "mc_in_channels c = 165"
    and "default_to 2 (mc_num_classes c) = 2"
  shows "loaded_for_elliptic 1000 g"
proof -
  have "(1000 :: rat) < float32_limit" by (simp add: float32_limit_def)
  then show ?thesis
    unfolding loaded_for_elliptic_def assms(1) plain_scaler_def
    using assms(2-) by (fastforce simp: shaped_def)
qed

definition zero_inference :: "unit gnn_inference" where
  "zero_inference = \<lparr>gi_threshold = 9 / 10,
     gi_net = GATResNet \<lparr>mc_in_channels = 165, mc_hidden_channels = Some 100, mc_num_classes = None,
       mc_heads1 = Some 8, mc_heads2 = Some 8, mc_heads3 = Some 1, mc_dropout = Some (1 / 2),
       mc_use_skip = Some True\<rparr>,
     gi_weights = (\<lambda>_. ()), gi_scaler = plain_scaler\<rparr>"

lemma zero_inference_ok: "loaded_for_elliptic 1000 zero_inference"
  by (rule plain_scaler_ok, simp add: zero_inference_def,
      simp only: zero_inference_def gnn_inference.select_convs, simp_all add: default_to_def)

lemma batch_ab_within: "\<forall>n \<in> set (batch_nodes (payload batch_ab)). row_within 1000 (node_features n)"
  by (simp add: sample_defs row_within_def)

theorem inference_outcome_witness:
  "\<exists>g p. get_bounded_subgraph id id ''a'' 1 2 1 None
      (deliver (materialize_graph_batch sample_uuid5 ''q'' ''g'') [(sample_env 9, batch_ab)] empty_db) = Some g \<and>
     model_predict (sample_model\<lparr>mr_infer := gnn_infer zero_ops zero_inference\<rparr>) g = Inr p \<and> p \<le> 1"
proof -
  let ?d = "deliver (materialize_graph_batch sample_uuid5 ''q'' ''g'') [(sample_env 9, batch_ab)] empty_db"
  obtain d r where m: "materialize_graph_batch sample_uuid5 ''q'' ''g'' (sample_env 9) batch_ab empty_db = Inr (d, r)"
    by (rule accepts_ab [OF empty_unclaimed])
  then have d: "?d = d" by (simp add: deliver1_def)
  have "''a'' \<in> set (node_ids batch_ab)" by (simp add: node_ids_def sample_defs)
  with m have "has_tx d ''a''"
  proof (cases rule: materialize_shape)
    case (2 t erows orows)
    then show ?thesis using \<open>''a'' \<in> set (node_ids batch_ab)\<close> by (simp add: has_tx_applied [OF 2(2)])
  qed (simp add: empty_db_def)
  then obtain g where g: "get_bounded_subgraph id id ''a'' 1 2 1 None ?d = Some g"
    unfolding d using subgraph_exists by blast
  have infer: "mr_infer (sample_model\<lparr>mr_infer := gnn_infer zero_ops zero_inference\<rparr>) =
      gnn_infer zero_ops zero_inference" by simp
  have "features_all (row_within 1000) ?d"
    unfolding d by (rule materialize_features [OF m batch_ab_within]) simp
  from subgraph_features [OF g this] have "\<forall>nd \<in> set (sg_nodes g). \<forall>v \<in> set (sn_features nd). \<bar>v\<bar> \<le> 1000"
    by (simp add: row_within_def)
  with inference_outcome [OF zero_ops_ok zero_inference_ok infer _ _ g] g show ?thesis
    using valid_batch_ab by auto
qed

end
