(* ===== verification/Training.thy ===== *)
theory Training
  imports Network
begin

text \<open>
  The training pipeline of \<open>notebooks/03_GNN.ipynb\<close> and \<open>prepare_model.py\<close>: the node table, the
  temporal masks, the edge index, the scaler, the epochs with their threshold sweep and early
  stopping, evaluation and the saved checkpoint. Data frames are lists of rows. The optimiser step,
  the metrics of scikit-learn and the scaler fit are parameters; the parameter tensors of the model
  live in a store, because \<open>state_dict()\<close> hands out references to them.
\<close>

subsection \<open>Data\<close>

record 'id feature_row =
  fr_txId :: 'id
  fr_time_step :: int
  fr_features :: "rat list"

record 'id node_entry = "'id feature_row" +
  ne_label :: int

definition label_map :: "string \<Rightarrow> int option" where
  "label_map c = (if c = ''1'' then Some 1 else if c = ''2'' then Some 0 else None)"

definition fillna :: "'a \<Rightarrow> 'a option \<Rightarrow> 'a" where
  "fillna d x = (case x of None \<Rightarrow> d | Some y \<Rightarrow> y)"

text \<open>\<open>merge(..., how="left")\<close>: every matching row in order, or one without a value.\<close>

definition left_join :: "'k \<Rightarrow> ('k \<times> 'v) list \<Rightarrow> 'v option list" where
  "left_join k rows =
     (case filter (\<lambda>(t, _). t = k) rows of [] \<Rightarrow> [None] | ms \<Rightarrow> map (\<lambda>(_, v). Some v) ms)"

definition labelled :: "'id feature_row \<Rightarrow> int \<Rightarrow> 'id node_entry" where
  "labelled f l = \<lparr>fr_txId = fr_txId f, fr_time_step = fr_time_step f, fr_features = fr_features f,
     ne_label = l\<rparr>"

definition build_node_table ::
  "'id feature_row list \<Rightarrow> ('id \<times> string) list \<Rightarrow> 'id node_entry list"
where
  "build_node_table features classes =
     (let labels = map (\<lambda>(t, c). (t, label_map c)) classes in
      concat (map (\<lambda>f. map (\<lambda>l. labelled f (fillna (- 1) (Option.bind l id)))
        (left_join (fr_txId f) labels)) features))"

definition has_label :: "'id node_entry \<Rightarrow> bool" where
  "has_label n \<longleftrightarrow> ne_label n \<noteq> - 1"

definition temporal_masks :: "'id node_entry list \<Rightarrow> bool list \<times> bool list \<times> bool list" where
  "temporal_masks nodes =
     (map (\<lambda>n. fr_time_step n \<le> 34 \<and> has_label n) nodes,
      map (\<lambda>n. 35 \<le> fr_time_step n \<and> fr_time_step n \<le> 41 \<and> has_label n) nodes,
      map (\<lambda>n. 42 \<le> fr_time_step n \<and> has_label n) nodes)"

fun build_edge_index :: "('id \<Rightarrow> nat option) \<Rightarrow> ('id \<times> 'id) list \<Rightarrow> (nat \<times> nat) list" where
  "build_edge_index idx [] = []"
| "build_edge_index idx ((t1, t2) # edges) =
     (case (idx t1, idx t2) of
        (Some i, Some j) \<Rightarrow> (i, j) # (j, i) # build_edge_index idx edges
      | _ \<Rightarrow> build_edge_index idx edges)"

definition masked :: "bool list \<Rightarrow> 'a list \<Rightarrow> 'a list" where
  "masked sel xs = map fst (filter snd (zip xs sel))"

definition row_index :: "'id list \<Rightarrow> 'id \<Rightarrow> nat option" where
  "row_index ids = map_of (rev (zip ids [0..<length ids]))"

record graph_data =
  gd_x :: matrix
  gd_edge_index :: "(nat \<times> nat) list"
  gd_y :: "int list"
  gd_train_mask :: "bool list"
  gd_val_mask :: "bool list"
  gd_test_mask :: "bool list"

definition fitted_rows :: "'id node_entry list \<Rightarrow> matrix" where
  "fitted_rows nodes =
     masked (map (\<lambda>n. fr_time_step n \<le> 34 \<and> has_label n) nodes) (map fr_features nodes)"

definition prepare_graph_data ::
  "(float32_matrix \<Rightarrow> scaler result) \<Rightarrow> 'id node_entry list \<Rightarrow> ('id \<times> 'id) list
     \<Rightarrow> bool list \<times> bool list \<times> bool list \<Rightarrow> graph_data result"
where
  "prepare_graph_data fit nodes edges masks =
     rbind (fit (as_float32 (fitted_rows nodes))) (\<lambda>scale.
     rbind (scale (as_float32 (map fr_features nodes))) (\<lambda>x.
       case masks of (train, val, test) \<Rightarrow>
         Inr \<lparr>gd_x = x, gd_edge_index = build_edge_index (row_index (map fr_txId nodes)) edges,
              gd_y = map ne_label nodes, gd_train_mask = train, gd_val_mask = val,
              gd_test_mask = test\<rparr>))"

subsection \<open>The scaler of the serving side\<close>

text \<open>
  \<open>prepare_model.py\<close>: what it prints or exits with, and the scaler file it leaves. The labels are
  filled before the join, which gives the node table its own columns.
\<close>

datatype prepared = MissingDirectory | AlreadyThere | Fitted | PrepareFails exn

definition prepared_table ::
  "'id feature_row list \<Rightarrow> ('id \<times> string) list \<Rightarrow> 'id node_entry list"
where
  "prepared_table features classes =
     (let labels = map (\<lambda>(t, c). (t, fillna (- 1) (label_map c))) classes in
      concat (map (\<lambda>f. map (\<lambda>l. labelled f (fillna (- 1) l)) (left_join (fr_txId f) labels)) features))"

definition prepare_model ::
  "(float32_matrix \<Rightarrow> scaler result) \<Rightarrow> (string \<Rightarrow> ('id feature_row list \<times> ('id \<times> string) list) result)
     \<Rightarrow> string option \<Rightarrow> scaler option \<Rightarrow> prepared \<times> scaler option"
where
  "prepare_model fit read_data data_dir file =
     (case data_dir of
        None \<Rightarrow> (MissingDirectory, file)
      | Some dir \<Rightarrow>
          if dir = [] then (MissingDirectory, file)
          else if file \<noteq> None then (AlreadyThere, file)
          else case rbind (read_data dir) (\<lambda>(features, classes).
              let nodes = prepared_table features classes in
              fit (masked (map (\<lambda>n. fr_time_step n \<le> 34 \<and> has_label n) nodes)
                (as_float32 (map fr_features nodes)))) of
            Inl x \<Rightarrow> (PrepareFails x, file)
          | Inr scale \<Rightarrow> (Fitted, Some scale))"

subsection \<open>The threshold sweep\<close>

definition threshold_grid :: "rat list" where
  "threshold_grid = map (\<lambda>i. 1 / 10 + of_nat i / 20) [0..<17]"

record metrics =
  me_precision :: "int list \<Rightarrow> int list \<Rightarrow> rat"
  me_f1 :: "int list \<Rightarrow> int list \<Rightarrow> rat"

definition predicted :: "rat \<Rightarrow> rat list \<Rightarrow> int list" where
  "predicted thr ps = map (\<lambda>p. if thr \<le> p then 1 else 0) ps"

definition recall :: "int list \<Rightarrow> int list \<Rightarrow> rat" where
  "recall ys preds =
     (let tp = length (filter (\<lambda>(y, p). y = 1 \<and> p = 1) (zip ys preds));
          fn = length (filter (\<lambda>(y, p). y = 1 \<and> p = 0) (zip ys preds))
      in if 0 < tp + fn then of_nat tp / of_nat (tp + fn) else 0)"

definition sweep_step ::
  "metrics \<Rightarrow> int list \<Rightarrow> rat list \<Rightarrow> rat \<Rightarrow> rat \<times> rat option \<Rightarrow> rat \<times> rat option"
where
  "sweep_step me ys ps thr best =
     (let preds = predicted thr ps in
      if 6 / 10 < recall ys preds \<and> 5 / 10 < me_precision me ys preds \<and>
         fst best + 1 / 10000 < me_f1 me ys preds
      then (me_f1 me ys preds, Some thr) else best)"

definition sweep :: "metrics \<Rightarrow> int list \<Rightarrow> rat list \<Rightarrow> rat \<times> rat option" where
  "sweep me ys ps =
     (if ys \<noteq> [] \<and> 1 \<in> set ys then fold (sweep_step me ys ps) threshold_grid (- 1, None)
      else (- 1, None))"

subsection \<open>Epochs\<close>

definition compute_class_weights :: "int list \<Rightarrow> bool list \<Rightarrow> rat list" where
  "compute_class_weights y train =
     (let labels = filter (\<lambda>l. 0 \<le> l) (masked train y);
          counts = (\<lambda>k. of_nat (length (filter (\<lambda>l. l = k) labels)))
      in map (\<lambda>k. 1 / (counts k + 1 / 100000000)) [0, 1])"

text \<open>\<open>torch.softmax(model(x, edge_index), dim=1)[:, 1]\<close> in evaluation mode.\<close>

definition illicit_probabilities ::
  "'p torch_ops \<Rightarrow> gat_resnet \<Rightarrow> 'p weights \<Rightarrow> graph_data \<Rightarrow> rat list"
where
  "illicit_probabilities ops net w data =
     map (\<lambda>row. row ! 1) (t_softmax ops (forward ops net w False (gd_x data) (gd_edge_index data)))"

definition labelled_only :: "graph_data \<Rightarrow> bool list \<Rightarrow> 'a list \<Rightarrow> 'a list" where
  "labelled_only data sel xs =
     map snd (filter (\<lambda>(y, _). 0 \<le> y) (zip (masked sel (gd_y data)) (masked sel xs)))"

text \<open>
  The store of parameter tensors, the optimiser, and what is remembered of the best epoch. \<open>tn_step\<close> is
  one optimiser step on the weighted loss, \<open>tn_state_dict\<close> what \<open>model.state_dict()\<close> hands out.
\<close>

type_synonym 'p heap = "nat \<Rightarrow> 'p weights"

record ('p, 'o) trainer =
  tn_heap :: "'p heap"
  tn_model :: nat
  tn_opt :: 'o
  tn_best_state :: "nat option"
  tn_best_threshold :: "rat option"
  tn_best_f1 :: rat
  tn_no_improve :: nat

record ('p, 'o) train_env =
  te_ops :: "'p torch_ops"
  te_metrics :: metrics
  te_step :: "nat \<Rightarrow> rat list \<Rightarrow> graph_data \<Rightarrow> 'o \<Rightarrow> 'p weights \<Rightarrow> 'o \<times> 'p weights"
  te_state_dict :: "'p heap \<Rightarrow> nat \<Rightarrow> nat \<times> 'p heap"

definition epoch_scores ::
  "('p, 'o) train_env \<Rightarrow> gat_resnet \<Rightarrow> graph_data \<Rightarrow> 'p weights \<Rightarrow> rat \<times> rat option"
where
  "epoch_scores env net data w =
     sweep (te_metrics env) (labelled_only data (gd_val_mask data) (gd_y data))
       (labelled_only data (gd_val_mask data) (illicit_probabilities (te_ops env) net w data))"

definition run_epoch ::
  "('p, 'o) train_env \<Rightarrow> gat_resnet \<Rightarrow> rat list \<Rightarrow> graph_data \<Rightarrow> nat \<Rightarrow> ('p, 'o) trainer
     \<Rightarrow> ('p, 'o) trainer"
where
  "run_epoch env net cw data k st =
     (let (opt, w) = te_step env k cw data (tn_opt st) (tn_heap st (tn_model st));
          st = st\<lparr>tn_opt := opt, tn_heap := (tn_heap st)(tn_model st := w)\<rparr>;
          (f1, thr) = epoch_scores env net data w
      in if thr \<noteq> None \<and> tn_best_f1 st + 1 / 10000 < f1
         then (case te_state_dict env (tn_heap st) (tn_model st) of
             (a, h) \<Rightarrow> st\<lparr>tn_best_f1 := f1, tn_best_threshold := thr, tn_best_state := Some a,
               tn_heap := h, tn_no_improve := 0\<rparr>)
         else st\<lparr>tn_no_improve := tn_no_improve st + 1\<rparr>)"

fun train_epochs ::
  "('p, 'o) train_env \<Rightarrow> gat_resnet \<Rightarrow> rat list \<Rightarrow> graph_data \<Rightarrow> nat \<Rightarrow> nat \<Rightarrow> nat
     \<Rightarrow> ('p, 'o) trainer \<Rightarrow> ('p, 'o) trainer"
where
  "train_epochs env net cw data patience k 0 st = st"
| "train_epochs env net cw data patience k (Suc left) st =
     (let st1 = run_epoch env net cw data k st in
      if patience \<le> tn_no_improve st1 then st1
      else train_epochs env net cw data patience (Suc k) left st1)"

definition training_config :: "nat \<Rightarrow> model_config" where
  "training_config in_channels =
     \<lparr>mc_in_channels = in_channels, mc_hidden_channels = Some 100, mc_num_classes = Some 2,
      mc_heads1 = Some 8, mc_heads2 = Some 8, mc_heads3 = Some 1, mc_dropout = Some (1 / 2),
      mc_use_skip = Some True\<rparr>"

definition new_trainer :: "'p weights \<Rightarrow> 'o \<Rightarrow> ('p, 'o) trainer" where
  "new_trainer w opt = \<lparr>tn_heap = (\<lambda>_. w), tn_model = 0, tn_opt = opt, tn_best_state = None,
     tn_best_threshold = None, tn_best_f1 = - 1, tn_no_improve = 0\<rparr>"

text \<open>\<open>load_state_dict\<close> copies the values of the state it is given into the model.\<close>

definition train_model ::
  "('p, 'o) train_env \<Rightarrow> graph_data \<Rightarrow> nat \<Rightarrow> nat \<Rightarrow> 'p weights \<Rightarrow> 'o
     \<Rightarrow> gat_resnet \<times> 'p weights \<times> rat option"
where
  "train_model env data max_epochs patience w opt =
     (let net = GATResNet (training_config (length (hd (gd_x data))));
          cw = compute_class_weights (gd_y data) (gd_train_mask data);
          st = train_epochs env net cw data patience 1 max_epochs (new_trainer w opt);
          final = (case tn_best_state st of None \<Rightarrow> tn_heap st (tn_model st) | Some a \<Rightarrow> tn_heap st a)
      in (net, final, tn_best_threshold st))"

subsection \<open>Evaluation and the saved model\<close>

definition evaluate_model ::
  "'p torch_ops \<Rightarrow> gat_resnet \<Rightarrow> 'p weights \<Rightarrow> graph_data \<Rightarrow> rat \<Rightarrow> int list \<times> int list"
where
  "evaluate_model ops net w data threshold =
     (let preds = predicted threshold (illicit_probabilities ops net w data)
      in (labelled_only data (gd_test_mask data) (gd_y data),
          labelled_only data (gd_test_mask data) preds))"

definition save_model :: "gat_resnet \<Rightarrow> 'p weights \<Rightarrow> rat \<Rightarrow> 'p checkpoint" where
  "save_model net w threshold =
     \<lparr>ck_weights = w, ck_threshold = threshold,
      ck_config = \<lparr>mc_in_channels = gc_in (net_gat1 net), mc_hidden_channels = Some 100,
        mc_num_classes = None, mc_heads1 = Some 8, mc_heads2 = Some 8, mc_heads3 = Some 1,
        mc_dropout = Some (1 / 2), mc_use_skip = Some True\<rparr>\<rparr>"

definition run_pipeline ::
  "('p, 'o) train_env \<Rightarrow> (float32_matrix \<Rightarrow> scaler result) \<Rightarrow> 'id feature_row list \<Rightarrow> ('id \<times> 'id) list
     \<Rightarrow> ('id \<times> string) list \<Rightarrow> nat \<Rightarrow> nat \<Rightarrow> 'p weights \<Rightarrow> 'o
     \<Rightarrow> (('p checkpoint) \<times> int list \<times> int list) result"
where
  "run_pipeline env fit features edges classes max_epochs patience w opt =
     (let nodes = build_node_table features classes in
      rbind (prepare_graph_data fit nodes edges (temporal_masks nodes)) (\<lambda>data.
        case train_model env data max_epochs patience w opt of
          (net, final, best) \<Rightarrow>
            let threshold = fillna (1 / 2) best
            in Inr (save_model net final threshold,
                 evaluate_model (te_ops env) net final data threshold)))"

end
