(* ===== verification/Training_Props.thy ===== *)
theory Training_Props
  imports Training Network_Props
begin

text \<open>
  The training pipeline and the service agree on what the network sees; the sweep picks an admissible
  threshold; and what the epochs leave behind: the weights of the last epoch with the threshold of
  the best one.
\<close>

subsection \<open>The scaler and the edges\<close>

lemma left_join_map:
  "left_join k (map (\<lambda>(t, v). (t, f v)) rows) = map (map_option f) (left_join k rows)"
proof -
  have "filter (\<lambda>(t, _). t = k) (map (\<lambda>(t, v). (t, f v)) rows) =
      map (\<lambda>(t, v). (t, f v)) (filter (\<lambda>(t, _). t = k) rows)"
    by (induction rows) auto
  then show ?thesis by (simp add: left_join_def o_def case_prod_beta split: list.splits)
qed

text \<open>Filling the labels before the join or after it gives the same table.\<close>

lemma prepared_table_same: "prepared_table features classes = build_node_table features classes"
proof -
  have "fillna (- 1) (map_option (\<lambda>c. fillna (- 1) (label_map c)) x) =
      fillna (- 1) (Option.bind (map_option label_map x) id)" for x
    by (cases x) (simp_all add: fillna_def)
  then show ?thesis
    by (simp add: prepared_table_def build_node_table_def left_join_map o_def)
qed

lemma masked_image: "masked sel (map f xs) = map f (masked sel xs)"
proof (induction xs arbitrary: sel)
  case (Cons x xs)
  then show ?case by (cases sel) (auto simp: masked_def)
qed (simp add: masked_def)

lemma prepared_scaler:
  assumes "prepare_model fit read_data (Some dir) None = (Fitted, Some scale)"
    and "read_data dir = Inr (features, classes)"
  shows "fit (as_float32 (fitted_rows (build_node_table features classes))) = Inr scale"
proof -
  have "as_float32 (masked sel xs) = masked sel (as_float32 xs)" for sel and xs :: matrix
    by (simp add: as_float32_def masked_image)
  with assms show ?thesis
    by (auto simp: prepare_model_def prepared_table_same Let_def fitted_rows_def split: if_splits sum.splits)
qed

lemma build_edge_index_serving:
  assumes "\<And>x. idx (name x) = idx' x"
  shows "edge_index idx (both_directions (map (map_prod name name) es)) = build_edge_index idx' es"
proof (induction es)
  case (Cons e es)
  obtain a b where "e = (a, b)" by (cases e)
  with Cons assms show ?case by (auto simp: both_directions_def split: option.splits)
qed (simp add: both_directions_def)

lemma id2idx_row_index: "id2idx nodes = row_index (map sn_txId nodes)"
  by (simp add: id2idx_def row_index_def)

lemma row_index_map:
  assumes "inj name"
  shows "row_index (map name ids) (name x) = row_index ids x"
proof -
  have "map_of (rev (zip (map name ids) js)) (name x) = map_of (rev (zip ids js)) x" for js :: "nat list"
  proof -
    have "rev (zip (map name ids) js) = map (\<lambda>(i, j). (name i, j)) (rev (zip ids js))"
      by (simp add: zip_map1 rev_map [symmetric])
    moreover have "map_of (map (\<lambda>(i, j). (name i, j)) ps) (name x) = map_of ps x" for ps :: "('a \<times> nat) list"
      using assms by (induction ps) (auto simp: inj_eq)
    ultimately show ?thesis by simp
  qed
  then show ?thesis by (simp add: row_index_def)
qed

lemma row_index_nth:
  assumes "distinct ids" and "i < length ids"
  shows "row_index ids (ids ! i) = Some i"
proof -
  have "distinct (map fst (rev (zip ids [0..<length ids])))" using assms(1) by (simp add: rev_map [symmetric])
  moreover have "(ids ! i, i) \<in> set (rev (zip ids [0..<length ids]))"
    using assms(2) by (auto simp: in_set_zip)
  ultimately show ?thesis unfolding row_index_def by (rule map_of_is_SomeI)
qed

lemma save_load:
  assumes "net = GATResNet (training_config n)"
  shows "GATResNet (ck_config (save_model net w thr)) = net"
  by (simp add: assms save_model_def GATResNet_def training_config_def default_to_def Let_def)

text \<open>
  C22. What the service answers is what training evaluated. Take a run of the notebook and a run of
  \<open>prepare_model.py\<close> on the same files, save the trained model, load it with that scaler, and ask it
  for a transaction of a subgraph that is the whole dataset, with the ids as strings: the answer is
  the probability by which the notebook selected the threshold and evaluated the model. So neither
  the checkpoint, the scaler, the label join, the index of the nodes nor the doubling of the edges
  makes a difference.
\<close>

theorem served_as_evaluated:
  assumes "inj name" and "nodes = build_node_table features classes"
    and "distinct (map fr_txId nodes)" and "i < length nodes"
    and prep: "prepare_graph_data fit nodes edges (temporal_masks nodes) = Inr data"
    and "prepare_model fit read_data (Some dir) None = (Fitted, Some scale)"
    and "read_data dir = Inr (features, classes)"
    and train: "train_model env data max_epochs patience w opt = (net, final, best)"
    and load: "gnn_init fits (save_model net final threshold) (Some scale) path = Inr gi"
    and served: "map sn_txId served = map (name \<circ> fr_txId) nodes"
      "map sn_features served = map fr_features nodes"
    and ask: "gnn_predict (gnn_infer (te_ops env) gi) served
      (both_directions (map (map_prod name name) edges)) (name (fr_txId (nodes ! i))) = Inr p"
  shows "p = illicit_probabilities (te_ops env) net final data ! i"
proof -
  let ?ids = "map fr_txId nodes"
  have scale: "fit (as_float32 (fitted_rows nodes)) = Inr scale"
    using prepared_scaler [OF assms(6,7)] assms(2) by simp
  obtain tr va te where "temporal_masks nodes = (tr, va, te)" by (cases "temporal_masks nodes")
  with prep scale obtain x where x: "scale (as_float32 (map fr_features nodes)) = Inr x"
    and data: "gd_x data = x" "gd_edge_index data = build_edge_index (row_index ?ids) edges"
    by (auto simp: prepare_graph_data_def result_simps)
  obtain n where net: "net = GATResNet (training_config n)"
    using train by (auto simp: train_model_def Let_def)
  from load save_load [OF net, of final threshold] have gi: "gi_net gi = net" "gi_weights gi = final"
    "gi_scaler gi = scale"
    by (auto simp: gnn_init_def Let_def save_model_def split: if_splits)
  have idx: "id2idx served (name y) = row_index ?ids y" for y
    using row_index_map [OF assms(1), of ?ids y] served(1) by (simp add: id2idx_row_index)
  have es: "edge_index (id2idx served) (both_directions (map (map_prod name name) edges)) =
      gd_edge_index data"
    using build_edge_index_serving [of "id2idx served" name "row_index ?ids", OF idx] by (simp add: data(2))
  have "row_index ?ids (?ids ! i) = Some i" using assms(3,4) by (intro row_index_nth) simp_all
  then have center: "id2idx served (name (fr_txId (nodes ! i))) = Some i"
    using assms(4) by (simp add: idx)
  have "served \<noteq> []" using served(1) assms(4) by (cases served) auto
  with ask center es have "gnn_infer (te_ops env) gi (map fr_features nodes) (gd_edge_index data) i = Inr p"
    by (simp add: gnn_predict_def served(2))
  then have "p = t_softmax (te_ops env) (forward (te_ops env) net final False x (gd_edge_index data)) ! i ! 1"
    and "i < length (t_softmax (te_ops env) (forward (te_ops env) net final False x (gd_edge_index data)))"
    using x gi
    by (auto simp: gnn_infer_def result_simps feature_matrix_def Let_def split: if_splits)
  then show ?thesis by (simp add: illicit_probabilities_def data(1))
qed

text \<open>Every labelled node is in exactly one of the three masks, the others in none.\<close>

lemma masks_partition:
  assumes "temporal_masks nodes = (train, val, test)" and "i < length nodes"
  shows "(if has_label (nodes ! i) then (train ! i \<and> \<not> val ! i \<and> \<not> test ! i) \<or>
      (\<not> train ! i \<and> val ! i \<and> \<not> test ! i) \<or> (\<not> train ! i \<and> \<not> val ! i \<and> test ! i)
    else \<not> train ! i \<and> \<not> val ! i \<and> \<not> test ! i)"
  using assms by (auto simp: temporal_masks_def)

subsection \<open>The threshold\<close>

definition meets_constraints :: "metrics \<Rightarrow> int list \<Rightarrow> rat list \<Rightarrow> rat \<Rightarrow> bool" where
  "meets_constraints me ys ps thr \<longleftrightarrow> 6 / 10 < recall ys (predicted thr ps) \<and>
     5 / 10 < me_precision me ys (predicted thr ps)"

lemma fold_sweep:
  fixes me :: metrics and ys :: "int list" and ps :: "rat list"
  defines "f1 \<equiv> \<lambda>thr. me_f1 me ys (predicted thr ps)"
  assumes nonneg: "\<And>thr. 0 \<le> f1 thr"
  shows "(case fold (sweep_step me ys ps) grid (- 1, None) of
      (b, None) \<Rightarrow> b = - 1 \<and> (\<forall>t \<in> set grid. \<not> meets_constraints me ys ps t)
    | (b, Some thr) \<Rightarrow> thr \<in> set grid \<and> meets_constraints me ys ps thr \<and> b = f1 thr \<and>
        (\<forall>t \<in> set grid. meets_constraints me ys ps t \<longrightarrow> f1 t \<le> b + 1 / 10000))"
proof (induction grid rule: rev_induct)
  case (snoc t grid)
  obtain b best where f: "fold (sweep_step me ys ps) grid (- 1, None) = (b, best)" by fastforce
  have step: "fold (sweep_step me ys ps) (grid @ [t]) (- 1, None) =
      (if meets_constraints me ys ps t \<and> b + 1 / 10000 < f1 t then (f1 t, Some t) else (b, best))"
    by (simp add: f sweep_step_def meets_constraints_def f1_def Let_def)
  show ?case
  proof (cases best)
    case None
    with snoc f have "b = - 1" "\<forall>t \<in> set grid. \<not> meets_constraints me ys ps t" by simp_all
    with None step nonneg [of t] show ?thesis by (auto split: if_splits)
  next
    case (Some thr)
    with snoc f show ?thesis unfolding step by (auto simp: Some)
  qed
qed simp

text \<open>
  The threshold of an epoch. If the sweep picks one, it is of the grid, its recall exceeds 0.60
  and its precision 0.50 on the validation labels, and no such threshold has an F1 more than one ten
  thousandth above its own; if it picks none, the validation set has no illicit transaction or no
  threshold of the grid meets both conditions.
\<close>

theorem threshold_choice:
  assumes "\<And>ps. 0 \<le> me_f1 me ys ps"
  shows "(case sweep me ys ps of
      (b, None) \<Rightarrow> b = - 1 \<and> (1 \<notin> set ys \<or> (\<forall>t \<in> set threshold_grid. \<not> meets_constraints me ys ps t))
    | (b, Some thr) \<Rightarrow> thr \<in> set threshold_grid \<and> meets_constraints me ys ps thr \<and>
        b = me_f1 me ys (predicted thr ps) \<and>
        (\<forall>t \<in> set threshold_grid. meets_constraints me ys ps t \<longrightarrow> me_f1 me ys (predicted t ps) \<le> b + 1 / 10000))"
  using fold_sweep [of me ys ps threshold_grid] assms
  by (auto simp: sweep_def split: prod.splits option.splits)

subsection \<open>What the epochs leave behind\<close>

text \<open>The optimiser state and the weights after \<open>k\<close> epochs.\<close>

primrec trained ::
  "('p, 'o) train_env \<Rightarrow> rat list \<Rightarrow> graph_data \<Rightarrow> 'p weights \<Rightarrow> 'o \<Rightarrow> nat \<Rightarrow> 'o \<times> 'p weights"
where
  "trained env cw data w opt 0 = (opt, w)"
| "trained env cw data w opt (Suc k) =
     te_step env (Suc k) cw data (fst (trained env cw data w opt k)) (snd (trained env cw data w opt k))"

text \<open>
  Epoch \<open>j\<close> is the best of \<open>k\<close>: it picked a threshold, every earlier epoch that picked one has a
  lower F1, and no later one has an F1 more than one ten thousandth above it.
\<close>

definition best_epoch :: "(nat \<Rightarrow> rat \<times> rat option) \<Rightarrow> nat \<Rightarrow> nat \<Rightarrow> rat \<Rightarrow> rat \<Rightarrow> bool" where
  "best_epoch scores k j f t \<longleftrightarrow> 1 \<le> j \<and> j \<le> k \<and> scores j = (f, Some t) \<and>
     (\<forall>i \<in> {1..<j}. snd (scores i) \<noteq> None \<longrightarrow> fst (scores i) < f) \<and>
     (\<forall>i \<in> {j<..k}. snd (scores i) \<noteq> None \<longrightarrow> fst (scores i) \<le> f + 1 / 10000)"

lemma best_epoch_stays:
  assumes "best_epoch scores k j f t" and "snd (scores (Suc k)) = None \<or> fst (scores (Suc k)) \<le> f + 1 / 10000"
  shows "best_epoch scores (Suc k) j f t"
  using assms by (auto simp: best_epoch_def le_Suc_eq)

lemma best_epoch_replaced:
  assumes "best_epoch scores k j f t" and "scores (Suc k) = (f', Some t')" and "f + 1 / 10000 < f'"
  shows "best_epoch scores (Suc k) (Suc k) f' t'"
proof -
  have "fst (scores i) < f'" if "i \<in> {1..<Suc k}" "snd (scores i) \<noteq> None" for i
  proof (cases i j rule: linorder_cases)
    case less
    with assms that have "fst (scores i) < f" by (simp add: best_epoch_def)
    with assms(3) show ?thesis by simp
  next
    case equal
    with assms show ?thesis by (simp add: best_epoch_def)
  next
    case greater
    with assms(1) that have "fst (scores i) \<le> f + 1 / 10000" by (simp add: best_epoch_def)
    with assms(3) show ?thesis by simp
  qed
  with assms(2) show ?thesis by (simp add: best_epoch_def)
qed

text \<open>A sweep that picks a threshold has raised the score it starts from.\<close>

lemma sweep_raises: "snd (sweep me ys ps) \<noteq> None \<Longrightarrow> - 1 + 1 / 10000 < fst (sweep me ys ps)"
proof -
  have "snd (fold (sweep_step me ys ps) grid (- 1, None)) = None \<and>
      fst (fold (sweep_step me ys ps) grid (- 1, None)) = - 1 \<or>
      - 1 + 1 / 10000 < fst (fold (sweep_step me ys ps) grid (- 1, None))" for grid
    by (induction grid rule: rev_induct) (auto simp: sweep_step_def Let_def)
  from this [of threshold_grid] show "snd (sweep me ys ps) \<noteq> None \<Longrightarrow> ?thesis"
    by (cases "ys \<noteq> [] \<and> 1 \<in> set ys") (auto simp: sweep_def)
qed

text \<open>
  After \<open>k\<close> epochs the store holds the current weights, the remembered state is a reference to
  them, and the remembered threshold is that of the best epoch so far.
\<close>

definition train_inv ::
  "('p, 'o) train_env \<Rightarrow> gat_resnet \<Rightarrow> rat list \<Rightarrow> graph_data \<Rightarrow> 'p weights \<Rightarrow> 'o \<Rightarrow> nat
     \<Rightarrow> ('p, 'o) trainer \<Rightarrow> bool"
where
  "train_inv env net cw data w opt k st \<longleftrightarrow>
     tn_opt st = fst (trained env cw data w opt k) \<and>
     tn_heap st (tn_model st) = snd (trained env cw data w opt k) \<and>
     (tn_best_state st = None \<or> tn_best_state st = Some (tn_model st)) \<and>
     (case tn_best_threshold st of
        None \<Rightarrow> tn_no_improve st = k \<and> tn_best_f1 st = - 1 \<and>
          (\<forall>i \<in> {1..k}. snd (epoch_scores env net data (snd (trained env cw data w opt i))) = None)
      | Some t \<Rightarrow> (\<exists>j. k = j + tn_no_improve st \<and>
          best_epoch (\<lambda>i. epoch_scores env net data (snd (trained env cw data w opt i))) k j (tn_best_f1 st) t))"

lemma run_epoch_inv:
  assumes refs: "\<And>h a. te_state_dict env h a = (a, h)"
    and inv: "train_inv env net cw data w opt k st"
  shows "train_inv env net cw data w opt (Suc k) (run_epoch env net cw data (Suc k) st)"
proof -
  let ?w = "\<lambda>j. snd (trained env cw data w opt j)"
  obtain o1 w1 where step: "te_step env (Suc k) cw data (tn_opt st) (tn_heap st (tn_model st)) = (o1, w1)"
    by fastforce
  have next_w: "trained env cw data w opt (Suc k) = (o1, w1)"
    using inv step by (simp add: train_inv_def)
  obtain f1 thr where score: "epoch_scores env net data w1 = (f1, thr)" by fastforce
  let ?scores = "\<lambda>i. epoch_scores env net data (?w i)"
  have next_score: "?scores (Suc k) = (f1, thr)" using next_w score by simp
  show ?thesis
  proof (cases "thr \<noteq> None \<and> tn_best_f1 st + 1 / 10000 < f1")
    case True
    then obtain t where t: "thr = Some t" by blast
    have "run_epoch env net cw data (Suc k) st = st\<lparr>tn_opt := o1,
        tn_heap := (tn_heap st)(tn_model st := w1), tn_best_f1 := f1, tn_best_threshold := Some t,
        tn_best_state := Some (tn_model st), tn_no_improve := 0\<rparr>"
      using True by (simp add: run_epoch_def step score refs t)
    moreover have "best_epoch ?scores (Suc k) (Suc k) f1 t"
    proof (cases "tn_best_threshold st")
      case None
      with inv have "\<forall>i \<in> {1..k}. snd (?scores i) = None" by (simp add: train_inv_def)
      with next_score t show ?thesis by (auto simp: best_epoch_def simp del: trained.simps)
    next
      case (Some t0)
      with inv obtain j where "best_epoch ?scores k j (tn_best_f1 st) t0"
        by (auto simp: train_inv_def simp del: trained.simps)
      from best_epoch_replaced [OF this] next_score t True show ?thesis by blast
    qed
    ultimately show ?thesis using next_w by (auto simp: train_inv_def)
  next
    case False
    have run: "run_epoch env net cw data (Suc k) st = st\<lparr>tn_opt := o1,
        tn_heap := (tn_heap st)(tn_model st := w1), tn_no_improve := tn_no_improve st + 1\<rparr>"
      using False by (auto simp: run_epoch_def step score Let_def)
    show ?thesis
    proof (cases "tn_best_threshold st")
      case None
      with inv have before: "\<forall>i \<in> {1..k}. snd (?scores i) = None" "tn_best_f1 st = - 1"
        by (simp_all add: train_inv_def)
      with False score sweep_raises have "thr = None"
        unfolding epoch_scores_def by (metis fst_conv snd_conv)
      with before next_score have "\<forall>i \<in> {1..Suc k}. snd (?scores i) = None"
        by (auto simp: le_Suc_eq simp del: trained.simps)
      with None inv next_w show ?thesis by (simp add: run train_inv_def del: trained.simps)
    next
      case (Some t)
      with inv obtain j where j: "k = j + tn_no_improve st" "best_epoch ?scores k j (tn_best_f1 st) t"
        by (auto simp: train_inv_def simp del: trained.simps)
      have "best_epoch ?scores (Suc k) j (tn_best_f1 st) t"
        by (rule best_epoch_stays [OF j(2)]) (use False next_score in \<open>auto simp del: trained.simps\<close>)
      moreover have "tn_best_state st = None \<or> tn_best_state st = Some (tn_model st)"
        using inv by (simp add: train_inv_def)
      ultimately show ?thesis
        unfolding train_inv_def next_w run using j(1) by (simp add: Some del: trained.simps)
    qed
  qed
qed

lemma train_epochs_inv:
  assumes refs: "\<And>h a. te_state_dict env h a = (a, h)"
  shows "train_inv env net cw data w opt k st \<Longrightarrow>
    \<exists>n. k \<le> n \<and> n \<le> k + left \<and>
      train_inv env net cw data w opt n (train_epochs env net cw data patience (Suc k) left st) \<and>
      (n < k + left \<longrightarrow> patience \<le> tn_no_improve (train_epochs env net cw data patience (Suc k) left st))"
proof (induction left arbitrary: k st)
  case (Suc left)
  let ?st1 = "run_epoch env net cw data (Suc k) st"
  have inv: "train_inv env net cw data w opt (Suc k) ?st1" by (rule run_epoch_inv [OF refs Suc.prems])
  show ?case
  proof (cases "patience \<le> tn_no_improve ?st1")
    case True
    with inv show ?thesis by (intro exI [of _ "Suc k"]) (simp add: Let_def)
  next
    case False
    from Suc.IH [OF inv] obtain n where n: "Suc k \<le> n" "n \<le> Suc k + left"
      "train_inv env net cw data w opt n (train_epochs env net cw data patience (Suc (Suc k)) left ?st1)"
      "n < Suc k + left \<longrightarrow> patience \<le> tn_no_improve (train_epochs env net cw data patience (Suc (Suc k)) left ?st1)"
      by blast
    with False show ?thesis by (intro exI [of _ n]) (simp add: Let_def)
  qed
qed auto

text \<open>
  C40. The weights that training returns are those of its last epoch, not of the best one. The state
  remembered at an improvement is what \<open>state_dict()\<close> gives, references to the parameters, which
  later epochs go on changing; loading it back changes nothing. The returned threshold is that of the
  best epoch \<open>j\<close>: the epochs before it that picked a threshold have a lower F1, those after it none
  more than one ten thousandth above. So the saved pair is of two different epochs whenever the last
  one is not the best, and they are at least \<open>patience\<close> apart when training stopped early. No threshold
  is returned exactly when no epoch picked one.
\<close>

theorem trained_weights_are_last:
  assumes "\<And>h a. te_state_dict env h a = (a, h)"
    and "train_model env data max_epochs patience w opt = (net, final, best)"
    and "cw = compute_class_weights (gd_y data) (gd_train_mask data)"
    and "scores = (\<lambda>i. epoch_scores env net data (snd (trained env cw data w opt i)))"
  shows "\<exists>n \<le> max_epochs. final = snd (trained env cw data w opt n) \<and>
    (case best of
       None \<Rightarrow> (\<forall>i \<in> {1..n}. snd (scores i) = None) \<and> (n < max_epochs \<longrightarrow> patience \<le> n)
     | Some t \<Rightarrow> \<exists>j f. scores j = (f, Some t) \<and> 1 \<le> j \<and> j \<le> n \<and>
         (\<forall>i \<in> {1..<j}. snd (scores i) \<noteq> None \<longrightarrow> fst (scores i) < f) \<and>
         (\<forall>i \<in> {j<..n}. snd (scores i) \<noteq> None \<longrightarrow> fst (scores i) \<le> f + 1 / 10000) \<and>
         (n < max_epochs \<longrightarrow> j + patience \<le> n))"
proof -
  let ?net = "GATResNet (training_config (length (hd (gd_x data))))"
  define st where "st = train_epochs env ?net cw data patience 1 max_epochs (new_trainer w opt)"
  have "train_model env data max_epochs patience w opt = (?net, (case tn_best_state st of
      None \<Rightarrow> tn_heap st (tn_model st) | Some a \<Rightarrow> tn_heap st a), tn_best_threshold st)"
    by (simp only: train_model_def Let_def st_def assms(3))
  with assms(2) have net: "net = ?net" and final: "final = (case tn_best_state st of
      None \<Rightarrow> tn_heap st (tn_model st) | Some a \<Rightarrow> tn_heap st a)" and best: "best = tn_best_threshold st"
    by (metis prod.inject)+
  have "train_inv env ?net cw data w opt 0 (new_trainer w opt)"
    by (simp add: train_inv_def new_trainer_def)
  from train_epochs_inv [OF assms(1) this, of max_epochs patience] st_def obtain n where
    n: "n \<le> max_epochs" "train_inv env net cw data w opt n st"
    "n < max_epochs \<longrightarrow> patience \<le> tn_no_improve st" by (auto simp: net)
  have "final = snd (trained env cw data w opt n)"
    using n(2) by (auto simp: final train_inv_def split: option.splits)
  moreover have "case best of
       None \<Rightarrow> (\<forall>i \<in> {1..n}. snd (scores i) = None) \<and> (n < max_epochs \<longrightarrow> patience \<le> n)
     | Some t \<Rightarrow> \<exists>j f. n = j + tn_no_improve st \<and> best_epoch scores n j f t"
    using n(2,3) unfolding best assms(4) train_inv_def by (auto split: option.splits)
  ultimately show ?thesis
    using n(1,3) by (fastforce simp: best_epoch_def split: option.splits)
qed

subsection \<open>Witnesses\<close>

text \<open>
  A training run whose only parameter counts the optimiser steps, on one node: the first epoch gives
  the best threshold, the second changes the weights.
\<close>

definition count_metrics :: metrics where
  "count_metrics = \<lparr>me_precision = (\<lambda>ys ps. 1), me_f1 = (\<lambda>ys ps. 1)\<rparr>"

definition count_ops :: "nat torch_ops" where
  "count_ops = \<lparr>t_gat = (\<lambda>s p x es. zeros (gc_width s) x), t_linear = (\<lambda>l p x. zeros (ln_out l) x),
     t_elu = id, t_dropout = (\<lambda>r b x. x),
     t_softmax = map (\<lambda>row. map (\<lambda>_. 1 / of_nat (length row)) row)\<rparr>"

lemma count_ops_ok: "torch_ok count_ops"
  using zero_ops_ok by (simp add: torch_ok_def count_ops_def zero_ops_def)

definition count_env :: "(nat, unit) train_env" where
  "count_env = \<lparr>te_ops = count_ops, te_metrics = count_metrics,
     te_step = (\<lambda>k cw data opt w. (opt, \<lambda>name. Suc (w name))), te_state_dict = (\<lambda>h a. (a, h))\<rparr>"

definition one_node :: graph_data where
  "one_node = \<lparr>gd_x = [replicate 165 0], gd_edge_index = [], gd_y = [1], gd_train_mask = [False],
     gd_val_mask = [True], gd_test_mask = [False]\<rparr>"

lemma count_scores:
  "snd (epoch_scores count_env (GATResNet (training_config 165)) one_node w) \<noteq> None"
proof -
  let ?logits = "forward count_ops (GATResNet (training_config 165)) w False [replicate 165 0] []"
  have "shaped 1 (default_to 2 (mc_num_classes (training_config 165))) ?logits"
    by (rule forward_shape [OF count_ops_ok])
      (simp_all only: shaped_def edges_within_def training_config_def model_config.select_convs, simp_all)
  then obtain row where "?logits = [row]" "length row = 2"
    by (auto simp: shaped_def training_config_def default_to_def length_Suc_conv)
  then have probs: "illicit_probabilities count_ops (GATResNet (training_config 165)) w one_node = [1 / 2]"
    by (auto simp: illicit_probabilities_def one_node_def count_ops_def numeral_2_eq_2 length_Suc_conv)
  have "\<exists>t \<in> set threshold_grid. meets_constraints count_metrics [1] [1 / 2] t"
    by (rule bexI [of _ "1 / 10"]) (auto simp: threshold_grid_def meets_constraints_def count_metrics_def
        predicted_def recall_def intro!: image_eqI [of _ _ 0])
  moreover have "1 \<notin> set [1 :: int] \<or> (\<forall>t \<in> set threshold_grid. \<not> meets_constraints count_metrics [1] [1 / 2] t)"
    if "snd (sweep count_metrics [1] [1 / 2]) = None"
    using fold_sweep [of count_metrics "[1]" "[1 / 2]" threshold_grid] that
    by (auto simp: sweep_def count_metrics_def split: prod.splits option.splits)
  ultimately have "snd (sweep count_metrics [1] [1 / 2]) \<noteq> None" by auto
  then show ?thesis
    by (simp only: epoch_scores_def count_env_def train_env.select_convs probs)
      (simp add: labelled_only_def one_node_def masked_def)
qed

lemma count_trained: "trained count_env cw data (\<lambda>_. 0) () n = ((), \<lambda>_. n)"
  by (induction n) (simp_all add: count_env_def)

theorem trained_weights_are_last_witness:
  "\<exists>net t. train_model count_env one_node 2 1 (\<lambda>_. 0) () = (net, \<lambda>_. 2, Some t)"
proof -
  obtain net final best where run: "train_model count_env one_node 2 1 (\<lambda>_. 0) () = (net, final, best)"
    by (cases "train_model count_env one_node 2 1 (\<lambda>_. 0) ()") auto
  then have net: "net = GATResNet (training_config 165)"
    by (auto simp: train_model_def one_node_def Let_def)
  from trained_weights_are_last [OF _ run refl refl] obtain n where n: "n \<le> 2" "final = (\<lambda>_. n)"
    and best: "case best of
       None \<Rightarrow> (\<forall>i \<in> {1..n}. snd (epoch_scores count_env net one_node (\<lambda>_. i)) = None) \<and> (n < 2 \<longrightarrow> 1 \<le> n)
     | Some t \<Rightarrow> \<exists>j. 1 \<le> j \<and> j \<le> n \<and> (n < 2 \<longrightarrow> j + 1 \<le> n)"
    unfolding count_trained by (fastforce simp: count_env_def split: option.splits)
  have "1 \<le> n" using best by (cases best) auto
  have "best \<noteq> None"
  proof
    assume "best = None"
    with best \<open>1 \<le> n\<close> have "snd (epoch_scores count_env net one_node (\<lambda>_. 1)) = None" by simp
    then show False unfolding net by (rule notE [OF count_scores])
  qed
  then have "n = 2" using best n(1) by auto
  with n(2) run \<open>best \<noteq> None\<close> show ?thesis by auto
qed

theorem threshold_choice_witness:
  "snd (sweep count_metrics [1] [1 / 2]) \<noteq> None"
proof -
  have "1 / 10 \<in> set threshold_grid" "meets_constraints count_metrics [1] [1 / 2] (1 / 10)"
    by (auto simp: threshold_grid_def meets_constraints_def count_metrics_def predicted_def recall_def
        intro!: image_eqI [of _ _ 0])
  with threshold_choice [of count_metrics "[1]" "[1 / 2]"] show ?thesis
    by (auto simp: count_metrics_def split: prod.splits option.splits)
qed

text \<open>One labelled transaction, read from the same files by both programs.\<close>

definition one_feature_row :: "nat feature_row" where
  "one_feature_row = \<lparr>fr_txId = 0, fr_time_step = 1, fr_features = replicate 165 0\<rparr>"

lemma one_table: "build_node_table [one_feature_row] [(0, ''1'')] =
    [labelled one_feature_row 1]"
  by (simp add: build_node_table_def left_join_def label_map_def fillna_def one_feature_row_def)

lemma plain_zero_row:
  "plain_scaler (as_float32 [fr_features (labelled one_feature_row l)]) = Inr [replicate 165 0]"
  by (simp add: plain_scaler_def as_float32_def float32_def float32_limit_def labelled_def
      one_feature_row_def map_replicate_const)

theorem served_as_evaluated_witness:
  "\<exists>data net final best gi p.
     prepare_graph_data (\<lambda>X. Inr plain_scaler) [labelled one_feature_row 1] [] (temporal_masks [labelled one_feature_row 1])
       = Inr data \<and>
     gnn_predict (gnn_infer count_ops gi) [\<lparr>sn_txId = str_nat 0, sn_features = replicate 165 0, sn_time_step = 1,
       sn_risk_score = 0\<rparr>] [] (str_nat 0) = Inr p \<and>
     p = illicit_probabilities count_ops net final data ! 0"
proof -
  let ?nodes = "[labelled one_feature_row 1]"
  let ?served = "[\<lparr>sn_txId = str_nat 0, sn_features = replicate 165 0, sn_time_step = 1, sn_risk_score = 0\<rparr>]"
  obtain tr va te where masks: "temporal_masks ?nodes = (tr, va, te)" by (cases "temporal_masks ?nodes")
  then obtain data where data: "prepare_graph_data (\<lambda>X. Inr plain_scaler) ?nodes ([] :: (nat \<times> nat) list)
      (temporal_masks ?nodes) = Inr data"
    by (simp add: prepare_graph_data_def plain_zero_row)
  obtain net final best where train: "train_model count_env data 2 1 (\<lambda>_. 0) () = (net, final, best)"
    by (cases "train_model count_env data 2 1 (\<lambda>_. 0) ()") auto
  obtain gi where load: "gnn_init (\<lambda>_ _. True) (save_model net final (1 / 2)) (Some plain_scaler) [] = Inr gi"
    by (simp add: gnn_init_def)
  have x165: "length (hd (gd_x data)) = 165"
    using data masks by (auto simp: prepare_graph_data_def plain_zero_row)
  have "net = GATResNet (training_config 165)"
    using train by (auto simp: train_model_def Let_def x165)
  then have "loaded_for_elliptic 1000 gi"
    using load save_load [of net 165 final "1 / 2"]
    by (intro plain_scaler_ok [of _ "training_config 165"])
      (auto simp: gnn_init_def training_config_def default_to_def)
  from gnn_predict_in_range [OF count_ops_ok this, of ?served] obtain p where
    p: "gnn_predict (gnn_infer count_ops gi) ?served [] (str_nat 0) = Inr p" by (auto simp: row_within_def)
  have prep: "prepare_model (\<lambda>X. Inr plain_scaler) (\<lambda>_. Inr ([one_feature_row], [(0, ''1'')])) (Some ''d'') None =
      (Fitted, Some plain_scaler)"
    by (simp add: prepare_model_def Let_def)
  have env: "te_ops count_env = count_ops" by (simp add: count_env_def)
  have "p = illicit_probabilities (te_ops count_env) net final data ! 0"
    by (rule served_as_evaluated [where name = str_nat and nodes = ?nodes and i = 0 and edges = "[]"
          and served = ?served, OF _ one_table [symmetric] _ _ data prep _ train load])
      (use p in \<open>simp_all add: env inj_def str_nat_inj labelled_def one_feature_row_def both_directions_def\<close>)
  with data p show ?thesis by (auto simp: env)
qed

end
