(* ===== verification/Streaming.thy ===== *)
theory Streaming
  imports Subgraph_Props Worker "HOL-Library.AList" "HOL-Library.While_Combinator"
begin

text \<open>
  The in-memory prototype the durable services replace: \<open>streaming/graph_buffer.py\<close>,
  \<open>streaming/stream_simulator.py\<close>, \<open>streaming/streaming_service.py\<close> and the scorers. A data frame is
  the list of its rows. Python's sets have no order: \<open>iter\<close> is the order in which one is walked.
\<close>

subsection \<open>The graph buffer\<close>

record 'i stream_node =
  nd_txId :: 'i
  nd_features :: "rat list"
  nd_time_step :: int

text \<open>A \<open>defaultdict(set)\<close> is a total function: a missing key reads as the empty set.\<close>

record 'i graph_buffer =
  gb_nodes :: "('i \<times> 'i stream_node) list"
  gb_adj :: "'i \<Rightarrow> 'i set"

definition empty_buffer :: "'i graph_buffer" where
  "empty_buffer = \<lparr>gb_nodes = [], gb_adj = (\<lambda>_. {})\<rparr>"

definition add_nodes :: "'i stream_node list \<Rightarrow> 'i graph_buffer \<Rightarrow> 'i graph_buffer" where
  "add_nodes nodes b =
     b\<lparr>gb_nodes := fold (\<lambda>n. AList.update (nd_txId n) n) nodes (gb_nodes b)\<rparr>"

definition add_edge :: "'i \<times> 'i \<Rightarrow> 'i graph_buffer \<Rightarrow> 'i graph_buffer" where
  "add_edge e b =
     (let adj = (gb_adj b)(fst e := insert (snd e) (gb_adj b (fst e)))
      in b\<lparr>gb_adj := adj(snd e := insert (fst e) (adj (snd e)))\<rparr>)"

definition add_edges :: "('i \<times> 'i) list \<Rightarrow> 'i graph_buffer \<Rightarrow> 'i graph_buffer" where
  "add_edges edges b = fold add_edge edges b"

subsection \<open>The search\<close>

type_synonym 'i bfs = "'i set \<times> ('i \<times> int) list"

text \<open>The loop over the neighbours: a neighbour seen before is queued again, and reaching the bound
  leaves the loop before the neighbour is queued.\<close>

fun scan_neighbors :: "nat \<Rightarrow> int \<Rightarrow> 'i list \<Rightarrow> 'i bfs \<Rightarrow> 'i bfs" where
  "scan_neighbors max_nodes depth [] (visited, queue) = (visited, queue)"
| "scan_neighbors max_nodes depth (n # ns) (visited, queue) =
     (let v = insert n visited
      in if max_nodes \<le> card v then (v, queue)
         else scan_neighbors max_nodes depth ns (v, queue @ [(n, depth + 1)]))"

definition bfs_step ::
  "('i set \<Rightarrow> 'i list) \<Rightarrow> ('i \<Rightarrow> 'i set) \<Rightarrow> int \<Rightarrow> nat \<Rightarrow> 'i bfs \<Rightarrow> 'i bfs"
where
  "bfs_step iter adj k_hops max_nodes st =
     (case st of
        (visited, []) \<Rightarrow> (visited, [])
      | (visited, (current, depth) # queue) \<Rightarrow>
          if depth = k_hops then (visited, queue)
          else scan_neighbors max_nodes depth (iter (adj current)) (visited, queue))"

definition bfs ::
  "('i set \<Rightarrow> 'i list) \<Rightarrow> ('i \<Rightarrow> 'i set) \<Rightarrow> int \<Rightarrow> nat \<Rightarrow> 'i \<Rightarrow> 'i bfs option"
where
  "bfs iter adj k_hops max_nodes center =
     while_option (\<lambda>(_, queue). queue \<noteq> []) (bfs_step iter adj k_hops max_nodes)
       ({center}, [(center, 0)])"

text \<open>\<open>self.nodes[tx_id]\<close> raises \<open>KeyError\<close> for an endpoint that was never added as a node.\<close>

fun lookup_all :: "('i \<times> 'n) list \<Rightarrow> 'i list \<Rightarrow> 'n list result" where
  "lookup_all m [] = Inr []"
| "lookup_all m (x # xs) =
     (case map_of m x of
        None \<Rightarrow> Inl (OtherError ''KeyError'' [])
      | Some n \<Rightarrow> rbind (lookup_all m xs) (\<lambda>ns. Inr (n # ns)))"

record 'i local_graph =
  lg_nodes :: "'i stream_node list"
  lg_edges :: "('i \<times> 'i) list"
  lg_center :: 'i

text \<open>The outer option: \<open>None\<close> would be a search that does not return.\<close>

definition get_subgraph ::
  "('i set \<Rightarrow> 'i list) \<Rightarrow> 'i \<Rightarrow> int \<Rightarrow> nat \<Rightarrow> 'i graph_buffer \<Rightarrow> 'i local_graph result option"
where
  "get_subgraph iter center k_hops max_nodes b =
     (case bfs iter (gb_adj b) k_hops max_nodes center of
        None \<Rightarrow> None
      | Some (visited, _) \<Rightarrow>
          Some (rbind (lookup_all (gb_nodes b) (iter visited)) (\<lambda>nodes.
            Inr \<lparr>lg_nodes = nodes,
                 lg_edges = concat (map (\<lambda>t. map (\<lambda>dest. (t, dest))
                   (filter (\<lambda>dest. dest \<in> visited) (iter (gb_adj b t)))) (iter visited)),
                 lg_center = center\<rparr>)))"

subsection \<open>The simulator and the service\<close>

record 'i node_frame_row =
  nf_txId :: 'i
  nf_time_step :: int
  nf_features :: "rat list"

record 'i stream_event =
  sv_time_step :: int
  sv_nodes :: "'i stream_node list"
  sv_edges :: "('i \<times> 'i) list"

record 'i simulator =
  sim_nodes_df :: "'i node_frame_row list"
  sim_edges_df :: "('i \<times> 'i) list"
  sim_timesteps :: "int list"
  sim_idx :: nat

definition new_simulator :: "'i node_frame_row list \<Rightarrow> ('i \<times> 'i) list \<Rightarrow> 'i simulator" where
  "new_simulator nodes_df edges_df =
     \<lparr>sim_nodes_df = nodes_df, sim_edges_df = edges_df,
      sim_timesteps = sort (remdups (map nf_time_step nodes_df)), sim_idx = 0\<rparr>"

definition event_at :: "'i node_frame_row list \<Rightarrow> ('i \<times> 'i) list \<Rightarrow> int \<Rightarrow> 'i stream_event" where
  "event_at nodes_df edges_df t =
     (let rows = filter (\<lambda>r. nf_time_step r = t) nodes_df;
          ids = set (map nf_txId rows)
      in \<lparr>sv_time_step = t,
          sv_nodes = map (\<lambda>r. \<lparr>nd_txId = nf_txId r, nd_features = nf_features r,
                               nd_time_step = t\<rparr>) rows,
          sv_edges = filter (\<lambda>(s, d). s \<in> ids \<and> d \<in> ids) edges_df\<rparr>)"

text \<open>\<open>StopIteration\<close> is \<open>None\<close>.\<close>

definition next_event :: "'i simulator \<Rightarrow> ('i stream_event \<times> 'i simulator) option" where
  "next_event sim =
     (if length (sim_timesteps sim) \<le> sim_idx sim then None
      else Some (event_at (sim_nodes_df sim) (sim_edges_df sim) (sim_timesteps sim ! sim_idx sim),
                 sim\<lparr>sim_idx := sim_idx sim + 1\<rparr>))"

fun score_nodes ::
  "('i \<Rightarrow> 'i local_graph result option) \<Rightarrow> ('i \<Rightarrow> 'i local_graph \<Rightarrow> rat result) \<Rightarrow> 'i list
     \<Rightarrow> ('i \<times> rat) list result option"
where
  "score_nodes subgraph score [] = Some (Inr [])"
| "score_nodes subgraph score (t # ts) =
     (case subgraph t of
        None \<Rightarrow> None
      | Some (Inl x) \<Rightarrow> Some (Inl x)
      | Some (Inr g) \<Rightarrow>
          (case score t g of
             Inl x \<Rightarrow> Some (Inl x)
           | Inr p \<Rightarrow> map_option (\<lambda>r. rbind r (\<lambda>rs. Inr ((t, p) # rs)))
                        (score_nodes subgraph score ts)))"

text \<open>\<open>process_next_event\<close> after \<open>next\<close>: the buffer it leaves and the scores.\<close>

definition process_event ::
  "('i set \<Rightarrow> 'i list) \<Rightarrow> ('i \<Rightarrow> 'i local_graph \<Rightarrow> rat result) \<Rightarrow> 'i stream_event \<Rightarrow> 'i graph_buffer
     \<Rightarrow> 'i graph_buffer \<times> ('i \<times> rat) list result option"
where
  "process_event iter score ev b =
     (let b1 = add_edges (sv_edges ev) (add_nodes (sv_nodes ev) b)
      in (b1, score_nodes (\<lambda>t. get_subgraph iter t 2 100 b1) score (map nd_txId (sv_nodes ev))))"

definition dummy_score :: "'i \<Rightarrow> 'i local_graph \<Rightarrow> rat result" where
  "dummy_score tx_id subgraph = Inr (1 / 2)"

text \<open>\<open>GNNScorer.score\<close> ignores the id: the subgraph names its centre.\<close>

definition gnn_score :: "network \<Rightarrow> string \<Rightarrow> string local_graph \<Rightarrow> rat result" where
  "gnn_score infer tx_id subgraph =
     gnn_predict infer
       (map (\<lambda>n. \<lparr>sn_txId = nd_txId n, sn_features = nd_features n,
                  sn_time_step = nd_time_step n, sn_risk_score = 0\<rparr>) (lg_nodes subgraph))
       (lg_edges subgraph) (lg_center subgraph)"

end
