(* ===== verification/Streaming_Props.thy ===== *)
theory Streaming_Props
  imports Streaming "HOL-Library.Multiset"
begin

text \<open>
  The in-memory search: it always returns, it is exact on small neighbourhoods, it can exceed its
  node bound, and the graph it gives the model is not always the one the durable read gives.
\<close>

definition symmetric_adj :: "edge set \<Rightarrow> (string \<Rightarrow> string set) \<Rightarrow> bool" where
  "symmetric_adj E adj \<longleftrightarrow> (\<forall>x. adj x = {y. (x, y) \<in> E \<or> (y, x) \<in> E})"

definition walks_sets :: "(string set \<Rightarrow> string list) \<Rightarrow> bool" where
  "walks_sets iter \<longleftrightarrow> (\<forall>S. finite S \<longrightarrow> set (iter S) = S)"

lemma add_edge_adj:
  "symmetric_adj E (gb_adj b) \<Longrightarrow> symmetric_adj (insert e E) (gb_adj (add_edge e b))"
  by (cases e) (auto simp: symmetric_adj_def add_edge_def Let_def)

lemma add_edges_adj:
  "symmetric_adj E (gb_adj b) \<Longrightarrow> symmetric_adj (set es \<union> E) (gb_adj (add_edges es b))"
proof (induction es arbitrary: b E)
  case (Cons e es)
  from Cons.IH [OF add_edge_adj [OF Cons.prems]] show ?case by (simp add: add_edges_def)
qed (simp add: add_edges_def)

lemma buffer_adj:
  "symmetric_adj (set es) (gb_adj (add_edges es (add_nodes ns empty_buffer)))"
  using add_edges_adj [of "{}" "add_nodes ns empty_buffer" es]
  by (simp add: symmetric_adj_def empty_buffer_def add_nodes_def)

lemma finite_adj: "symmetric_adj E adj \<Longrightarrow> finite E \<Longrightarrow> finite (adj x)"
  by (rule finite_subset [of _ "ends E"]) (force simp: symmetric_adj_def ends_def)+

subsection \<open>Balls by their first step\<close>

lemma incident_insert:
  "incident {} S = {}"
  "incident (insert (s, t) E) S =
     (if s \<in> S \<or> t \<in> S then insert (s, t) (incident E S) else incident E S)"
  by (auto simp: incident_def)

lemma ends_insert: "ends {} = {}" "ends (insert (s, t) R) = insert s (insert t (ends R))"
  by (auto simp: ends_def)

lemma ball_mono: "m \<le> n \<Longrightarrow> ball E c m \<subseteq> ball E c n"
  by (rule lift_Suc_mono_le) auto

lemma ball_last_step:
  "y \<in> ball E c (Suc n) \<Longrightarrow> y \<in> ball E c n \<or> (\<exists>z \<in> ball E c n. (y, z) \<in> E \<or> (z, y) \<in> E)"
  by (auto simp: ends_def incident_def)

lemma ball_next:
  assumes "z \<in> ball E c n" and "(y, z) \<in> E \<or> (z, y) \<in> E"
  shows "y \<in> ball E c (Suc n)"
proof -
  have "(y, z) \<in> incident E (ball E c n) \<or> (z, y) \<in> incident E (ball E c n)"
    using assms by (auto simp: incident_def)
  then have "y \<in> ends (incident E (ball E c n))"
    by (auto simp: ends_def intro: rev_image_eqI)
  then show ?thesis by simp
qed

lemma adj_in_ball: "symmetric_adj E adj \<Longrightarrow> x \<in> ball E c n \<Longrightarrow> adj x \<subseteq> ball E c (Suc n)"
  using ball_next by (fastforce simp: symmetric_adj_def simp del: ball.simps)

lemma ball_first_step:
  assumes "symmetric_adj E adj" and "y \<in> ball E c (Suc n)"
  shows "y = c \<or> (\<exists>x \<in> adj c. y \<in> ball E x n)"
  using assms(2)
proof (induction n arbitrary: y)
  case 0
  then show ?case using assms(1) by (force simp: symmetric_adj_def ends_def incident_def)
next
  case (Suc n)
  from Suc.prems consider "y \<in> ball E c (Suc n)"
    | z where "z \<in> ball E c (Suc n)" "(y, z) \<in> E \<or> (z, y) \<in> E"
    using ball_last_step [of y E c "Suc n"] by blast
  then show ?case
  proof cases
    case 1
    with Suc.IH ball_mono [of n "Suc n" E] show ?thesis by (meson le_SucI order_refl subsetD)
  next
    case (2 z)
    have y: "y \<in> ball E x (Suc n)" if "z \<in> ball E x n" for x
      using ball_next [OF that 2(2)] .
    from Suc.IH [OF 2(1)] show ?thesis
    proof
      assume "z = c"
      with 2(2) assms(1) have "y \<in> adj c" by (auto simp: symmetric_adj_def)
      then show ?thesis by (meson center_in_ball)
    next
      assume "\<exists>x \<in> adj c. z \<in> ball E x n"
      with y show ?thesis by blast
    qed
  qed
qed

subsection \<open>One turn\<close>

lemma scan_grows:
  "scan_neighbors M d ns (v, q) = (v', q') \<Longrightarrow>
     v \<subseteq> v' \<and> v' \<subseteq> v \<union> set ns \<and> (\<exists>ms. q' = q @ map (\<lambda>n. (n, d + 1)) ms \<and> set ms \<subseteq> set ns \<inter> v')"
proof (induction ns arbitrary: v q)
  case Nil
  then show ?case by (auto intro: exI [of _ "[]"])
next
  case (Cons n ns)
  show ?case
  proof (cases "M \<le> card (insert n v)")
    case True
    with Cons.prems show ?thesis by (auto simp: Let_def intro: exI [of _ "[]"])
  next
    case False
    with Cons.prems have "scan_neighbors M d ns (insert n v, q @ [(n, d + 1)]) = (v', q')"
      by (simp add: Let_def)
    from Cons.IH [OF this] obtain ms where "insert n v \<subseteq> v'" "v' \<subseteq> insert n v \<union> set ns"
      "q' = q @ map (\<lambda>n. (n, d + 1)) (n # ms)" "set ms \<subseteq> set ns \<inter> v'" by auto
    then show ?thesis by (intro conjI exI [of _ "n # ms"]) auto
  qed
qed

lemma scan_all:
  "finite v \<Longrightarrow> card (v \<union> set ns) < M \<Longrightarrow>
     scan_neighbors M d ns (v, q) = (v \<union> set ns, q @ map (\<lambda>n. (n, d + 1)) ns)"
proof (induction ns arbitrary: v q)
  case (Cons n ns)
  have "card (insert n v) \<le> card (v \<union> set (n # ns))"
    by (rule card_mono) (use Cons.prems in auto)
  with Cons show ?case by (simp add: Let_def)
qed simp

text \<open>The search terminates: every entry is replaced by entries that are one hop deeper.\<close>

definition hops_left :: "int \<Rightarrow> 'i bfs \<Rightarrow> nat multiset" where
  "hops_left K st = mset (map (\<lambda>(_, d). nat (K - d)) (snd st))"

definition depths_ok :: "int \<Rightarrow> 'i bfs \<Rightarrow> bool" where
  "depths_ok K st \<longleftrightarrow> (\<forall>(_, d) \<in> set (snd st). 0 \<le> d \<and> d \<le> K)"

lemma bfs_step_depths:
  assumes "depths_ok K st"
  shows "depths_ok K (bfs_step iter adj K M st)"
proof -
  obtain v q where st: "st = (v, q)" by fastforce
  show ?thesis
  proof (cases q)
    case (Cons e q0)
    obtain x d where e: "e = (x, d)" by fastforce
    obtain v' q' where s: "scan_neighbors M d (iter (adj x)) (v, q0) = (v', q')" by fastforce
    from scan_grows [OF this] obtain ms where "q' = q0 @ map (\<lambda>n. (n, d + 1)) ms" by blast
    with assms show ?thesis by (auto simp: st Cons e s bfs_step_def depths_ok_def)
  qed (use assms in \<open>simp add: st bfs_step_def\<close>)
qed

lemma bfs_step_decreases:
  assumes "depths_ok K st" and "snd st \<noteq> []"
  shows "(hops_left K (bfs_step iter adj K M st), hops_left K st) \<in> mult {(m, n). m < n}"
proof -
  obtain v x d q where st: "st = (v, (x, d) # q)"
    using assms(2) by (cases st; cases "snd st") auto
  show ?thesis
  proof (cases "d = K")
    case True
    have "(hops_left K (v, q) + {#}, hops_left K (v, q) + {#nat (K - d)#}) \<in> mult {(m, n). m < n}"
      by (rule one_step_implies_mult) auto
    with True show ?thesis by (simp add: st bfs_step_def hops_left_def)
  next
    case False
    obtain v' q' where s: "scan_neighbors M d (iter (adj x)) (v, q) = (v', q')" by fastforce
    from scan_grows [OF this] obtain ms where q': "q' = q @ map (\<lambda>n. (n, d + 1)) ms" by blast
    have lt: "nat (K - (d + 1)) < nat (K - d)" using False assms(1) by (simp add: st depths_ok_def)
    have "(hops_left K (v, q) + mset (map (\<lambda>_. nat (K - (d + 1))) ms),
        hops_left K (v, q) + {#nat (K - d)#}) \<in> mult {(m, n). m < n}"
      by (rule one_step_implies_mult) (use lt in auto)
    moreover have "hops_left K (bfs_step iter adj K M st) =
        hops_left K (v, q) + mset (map (\<lambda>_. nat (K - (d + 1))) ms)"
      using False by (simp add: st bfs_step_def s hops_left_def q' o_def)
    ultimately show ?thesis by (simp add: st hops_left_def)
  qed
qed

lemma bfs_returns:
  assumes "0 \<le> K"
  shows "\<exists>v. bfs iter adj K M c = Some (v, [])"
proof -
  let ?st = "({c}, [(c, 0)])"
  have "\<exists>st. while_option (\<lambda>(_, queue). queue \<noteq> []) (bfs_step iter adj K M) ?st = Some st"
  proof (rule wf_while_option_Some [where P = "depths_ok K"])
    have "wf {(m :: nat, n). m < n}" using wf_less by simp
    then have "wf (inv_image (mult {(m :: nat, n). m < n}) (hops_left K))"
      by (intro wf_inv_image wf_mult)
    then show "wf {(t, s). (depths_ok K s \<and> (case s of (_, queue) \<Rightarrow> queue \<noteq> [])) \<and>
        t = bfs_step iter adj K M s}"
      by (rule wf_subset) (auto intro!: bfs_step_decreases)
    show "depths_ok K (bfs_step iter adj K M st)" if "depths_ok K st" for st
      by (rule bfs_step_depths [OF that])
    show "depths_ok K ?st" using assms by (simp add: depths_ok_def)
  qed
  then obtain v q where "while_option (\<lambda>(_, queue). queue \<noteq> []) (bfs_step iter adj K M) ?st = Some (v, q)"
    by fastforce
  with while_option_stop [OF this] show ?thesis by (simp add: bfs_def)
qed

subsection \<open>What it finds\<close>

text \<open>What holds at every turn: everything seen and queued is as near as its depth says.\<close>

definition bfs_sound :: "edge set \<Rightarrow> string \<Rightarrow> nat \<Rightarrow> string bfs \<Rightarrow> bool" where
  "bfs_sound E c n st \<longleftrightarrow> fst st \<subseteq> ball E c n \<and> depths_ok (int n) st \<and> c \<in> fst st \<and>
     (\<forall>(x, d) \<in> set (snd st). x \<in> fst st \<and> x \<in> ball E c (nat d))"

text \<open>What a search that stays below its bound still has to do: every node of the ball is seen, or
  in reach of a queued node.\<close>

definition bfs_complete :: "edge set \<Rightarrow> string \<Rightarrow> nat \<Rightarrow> string bfs \<Rightarrow> bool" where
  "bfs_complete E c n st \<longleftrightarrow>
     (\<forall>y \<in> ball E c n. y \<in> fst st \<or> (\<exists>(x, d) \<in> set (snd st). y \<in> ball E x (n - nat d)))"

lemma bfs_sound_step:
  assumes sound: "bfs_sound E c n st" and adj: "symmetric_adj E adj" and fin: "finite E"
    and iter: "walks_sets iter"
  shows "bfs_sound E c n (bfs_step iter adj (int n) M st)"
proof -
  have depths: "depths_ok (int n) (bfs_step iter adj (int n) M st)"
    using sound by (intro bfs_step_depths) (simp add: bfs_sound_def)
  show ?thesis
  proof (cases "snd st")
    case Nil
    with sound show ?thesis by (cases st) (simp add: bfs_step_def)
  next
    case (Cons e q)
    then obtain v x d where st: "st = (v, (x, d) # q)" by (cases st; cases e) auto
    show ?thesis
    proof (cases "d = int n")
      case True
      with sound st depths show ?thesis by (auto simp: bfs_step_def bfs_sound_def)
    next
      case False
      obtain v' q' where s: "scan_neighbors M d (iter (adj x)) (v, q) = (v', q')" by fastforce
      from scan_grows [OF this] iter finite_adj [OF adj fin, of x] obtain ms where
        g: "v \<subseteq> v'" "v' \<subseteq> v \<union> adj x" "q' = q @ map (\<lambda>n. (n, d + 1)) ms" "set ms \<subseteq> adj x \<inter> v'"
        by (auto simp: walks_sets_def)
      have d: "0 \<le> d" "d < int n" and x: "x \<in> ball E c (nat d)"
        using sound False by (auto simp: bfs_sound_def st depths_ok_def)
      have near: "adj x \<subseteq> ball E c (nat (d + 1))"
        using adj_in_ball [OF adj x] d by (simp add: Suc_nat_eq_nat_zadd1 add.commute del: ball.simps)
      moreover have "nat (d + 1) \<le> n" using d by linarith
      ultimately have "adj x \<subseteq> ball E c n"
        using ball_mono by blast
      with g near sound depths False show ?thesis
        by (auto simp: bfs_sound_def st bfs_step_def s)
    qed
  qed
qed

lemma bfs_complete_step:
  assumes sound: "bfs_sound E c n st" and complete: "bfs_complete E c n st"
    and adj: "symmetric_adj E adj" and fin: "finite E" and iter: "walks_sets iter"
    and small: "card (ball E c n) < M"
  shows "bfs_complete E c n (bfs_step iter adj (int n) M st)"
proof (cases "snd st")
  case Nil
  with complete show ?thesis by (cases st) (simp add: bfs_step_def)
next
  case (Cons e q)
  then obtain v x d where st: "st = (v, (x, d) # q)" by (cases st; cases e) auto
  have v: "v \<subseteq> ball E c n" and x: "x \<in> v" "x \<in> ball E c (nat d)" and d: "0 \<le> d" "d \<le> int n"
    using sound by (auto simp: bfs_sound_def st depths_ok_def)
  show ?thesis
  proof (cases "d = int n")
    case True
    with complete x show ?thesis by (auto simp: bfs_complete_def st bfs_step_def)
  next
    case False
    have walk: "set (iter (adj x)) = adj x" using iter finite_adj [OF adj fin] by (simp add: walks_sets_def)
    have "adj x \<subseteq> ball E c (nat (d + 1))"
      using adj_in_ball [OF adj x(2)] d by (simp add: Suc_nat_eq_nat_zadd1 add.commute del: ball.simps)
    moreover have "nat (d + 1) \<le> n" using d False by linarith
    ultimately have "v \<union> adj x \<subseteq> ball E c n"
      using ball_mono v by blast
    then have "card (v \<union> adj x) < M"
      using card_mono [OF finite_ball [OF fin]] small by (meson le_less_trans)
    moreover have "finite v" using v finite_ball [OF fin] by (rule finite_subset)
    ultimately have step: "bfs_step iter adj (int n) M st =
        (v \<union> adj x, q @ map (\<lambda>n. (n, d + 1)) (iter (adj x)))"
      using scan_all [of v "iter (adj x)" M d q] False walk by (simp add: st bfs_step_def)
    have Suc: "n - nat d = Suc (n - nat (d + 1))" using d False by linarith
    show ?thesis
      unfolding bfs_complete_def step fst_conv snd_conv
    proof
      fix y
      assume "y \<in> ball E c n"
      with complete consider "y \<in> v" | "y \<in> ball E x (n - nat d)"
        | z e where "(z, e) \<in> set q" "y \<in> ball E z (n - nat e)"
        by (auto simp: bfs_complete_def st)
      then show "y \<in> v \<union> adj x \<or>
          (\<exists>(z, e) \<in> set (q @ map (\<lambda>n. (n, d + 1)) (iter (adj x))). y \<in> ball E z (n - nat e))"
      proof cases
        case 1
        then show ?thesis by simp
      next
        case 2
        from ball_first_step [OF adj this [unfolded Suc]] show ?thesis
        proof
          assume "\<exists>z \<in> adj x. y \<in> ball E z (n - nat (d + 1))"
          then obtain z where "z \<in> adj x" "y \<in> ball E z (n - nat (d + 1))" ..
          then show ?thesis
            using walk by (intro disjI2 bexI [of _ "(z, d + 1)"]) auto
        qed (use x(1) in simp)
      next
        case 3
        then show ?thesis by (intro disjI2 bexI [of _ "(z, e)"]) auto
      qed
    qed
  qed
qed

lemma search_exact:
  assumes adj: "symmetric_adj E adj" and fin: "finite E" and iter: "walks_sets iter"
  shows "\<exists>visited. bfs iter adj (int n) M c = Some (visited, []) \<and> c \<in> visited \<and>
    visited \<subseteq> ball E c n \<and> (card (ball E c n) < M \<longrightarrow> visited = ball E c n)"
proof -
  obtain v where v: "bfs iter adj (int n) M c = Some (v, [])"
    using bfs_returns [where K = "int n" and iter = iter and adj = adj and M = M and c = c] by auto
  note run = v [unfolded bfs_def]
  have start: "bfs_sound E c n ({c}, [(c, 0)])" "bfs_complete E c n ({c}, [(c, 0)])"
    by (auto simp: bfs_sound_def bfs_complete_def depths_ok_def)
  have sound: "bfs_sound E c n (v, [])"
    by (rule while_option_rule [OF _ run, where P = "bfs_sound E c n"])
      (use start bfs_sound_step [OF _ adj fin iter] in auto)
  have "ball E c n \<subseteq> v" if small: "card (ball E c n) < M"
  proof -
    have "bfs_sound E c n (v, []) \<and> bfs_complete E c n (v, [])"
      by (rule while_option_rule [OF _ run, where P = "\<lambda>st. bfs_sound E c n st \<and> bfs_complete E c n st"])
        (use start bfs_sound_step [OF _ adj fin iter] bfs_complete_step [OF _ _ adj fin iter small] in auto)
    then show ?thesis by (auto simp: bfs_complete_def)
  qed
  with v sound show ?thesis by (auto simp: bfs_sound_def)
qed

lemma search_small:
  assumes "symmetric_adj E adj" and "finite E" and "walks_sets iter" and "card (ball E c n) < M"
  shows "bfs iter adj (int n) M c = Some (ball E c n, [])"
  using search_exact [OF assms(1-3), where n = n and M = M and c = c] assms(4) by blast

text \<open>
  C29. The in-memory search returns, and what it returns is near. For every bound, graph and order in
  which sets are walked the loop ends; every node it has seen is within \<open>k_hops\<close> edges of the
  centre; and if that neighbourhood is smaller than \<open>max_nodes\<close> it has seen all of it.
\<close>

theorem buffer_search_exact:
  assumes "symmetric_adj E adj" and "finite E" and "walks_sets iter"
  shows "\<exists>visited. bfs iter adj (int n) M c = Some (visited, []) \<and> c \<in> visited \<and>
    visited \<subseteq> ball E c n \<and> (card (ball E c n) < M \<longrightarrow> visited = ball E c n)"
  using assms by (rule search_exact)

theorem buffer_search_exact_witness:
  "\<exists>visited. bfs sorted_list_of_set (\<lambda>x. if x = ''a'' then {''b''} else if x = ''b'' then {''a''} else {})
     (int 2) 5 ''a'' = Some (visited, []) \<and> visited = {''a'', ''b''}"
proof -
  let ?E = "{(''a'', ''b'')}" and ?adj = "\<lambda>x. if x = ''a'' then {''b''} else if x = ''b'' then {''a''} else {}"
  have b: "ball ?E ''a'' 2 = {''a'', ''b''}"
    by (simp add: numeral_2_eq_2 incident_insert ends_insert insert_commute)
  have "symmetric_adj ?E ?adj" by (auto simp: symmetric_adj_def)
  from buffer_search_exact [OF this, of sorted_list_of_set 2 5 "''a''"] show ?thesis
    unfolding b by (auto simp: walks_sets_def)
qed

text \<open>
  The node bound of the in-memory search can be exceeded. Reaching the bound leaves the loop
  over one node's neighbours but not the queue, and the next queued node may add another: here a
  search for at most three nodes sees four.
\<close>

theorem buffer_bound_exceeded:
  "\<exists>adj visited. symmetric_adj {(''c'', ''a''), (''c'', ''b''), (''a'', ''Z'')} adj \<and>
     bfs sorted_list_of_set adj 2 3 ''c'' = Some (visited, []) \<and> card visited = 4"
proof -
  let ?adj = "\<lambda>x. if x = ''c'' then {''a'', ''b''} else if x = ''a'' then {''Z'', ''c''}
    else if x = ''b'' then {''c''} else if x = ''Z'' then {''a''} else {}"
  have lists: "sorted_list_of_set {''a'', ''b''} = [''a'', ''b'']"
    "sorted_list_of_set {''Z'', ''c''} = [''Z'', ''c'']" by code_simp+
  have "bfs sorted_list_of_set ?adj 2 3 ''c'' = Some ({''Z'', ''b'', ''a'', ''c''}, [])"
    unfolding bfs_def
    by (subst while_option_unfold, simp add: bfs_step_def lists Let_def)+
  moreover have "symmetric_adj {(''c'', ''a''), (''c'', ''b''), (''a'', ''Z'')} ?adj"
    by (auto simp: symmetric_adj_def)
  ultimately show ?thesis by (intro exI [of _ ?adj] exI conjI) auto
qed

subsection \<open>The graph the model was trained on\<close>

lemma lookup_all_ids:
  "lookup_all m xs = Inr ns \<Longrightarrow> (\<And>x n. map_of m x = Some n \<Longrightarrow> nd_txId n = x) \<Longrightarrow> map nd_txId ns = xs"
  by (induction xs arbitrary: ns) (auto simp: result_simps split: option.splits)

lemma add_nodes_ids:
  "(\<And>x n. map_of m x = Some n \<Longrightarrow> nd_txId n = x) \<Longrightarrow>
     map_of (fold (\<lambda>n. AList.update (nd_txId n) n) ns m) x = Some n \<Longrightarrow> nd_txId n = x"
proof (induction ns arbitrary: m)
  case (Cons k ns)
  show ?case
  proof (rule Cons.IH)
    show "nd_txId n = x" if "map_of (AList.update (nd_txId k) k m) x = Some n" for x n
      using that Cons.prems(1) [of x n] by (auto simp: update_conv' split: if_splits)
    show "map_of (fold (\<lambda>n. AList.update (nd_txId n) n) ns (AList.update (nd_txId k) k m)) x = Some n"
      using Cons.prems(2) by simp
  qed
qed simp

lemma edges_nodes [simp]: "gb_nodes (add_edges es b) = gb_nodes b"
proof (induction es arbitrary: b)
  case (Cons e es)
  then show ?case by (simp add: add_edges_def add_edge_def Let_def)
qed (simp add: add_edges_def)

lemma buffer_subgraph:
  assumes l: "get_subgraph iter c (int n) M (add_edges es (add_nodes ns empty_buffer)) = Some (Inr l)"
    and iter: "walks_sets iter" and small: "card (ball (set es) c n) < M"
  shows "nd_txId ` set (lg_nodes l) = ball (set es) c n"
    and "set (lg_edges l) = {(x, y). x \<in> ball (set es) c n \<and> y \<in> ball (set es) c n \<and>
      ((x, y) \<in> set es \<or> (y, x) \<in> set es)}"
proof -
  let ?b = "add_edges es (add_nodes ns empty_buffer)" and ?B = "ball (set es) c n"
  note adj = buffer_adj [of es ns]
  have "bfs iter (gb_adj ?b) (int n) M c = Some (?B, [])"
    by (rule search_small [OF adj finite_set iter small])
  with l obtain nodes where nodes: "lookup_all (gb_nodes ?b) (iter ?B) = Inr nodes"
    "l = \<lparr>lg_nodes = nodes, lg_edges = concat (map (\<lambda>t. map (\<lambda>dest. (t, dest))
      (filter (\<lambda>dest. dest \<in> ?B) (iter (gb_adj ?b t)))) (iter ?B)), lg_center = c\<rparr>"
    by (auto simp: get_subgraph_def result_simps)
  have B: "set (iter ?B) = ?B" using iter by (simp add: walks_sets_def)
  have "map_of (gb_nodes ?b) x = Some n \<Longrightarrow> nd_txId n = x" for x n
    using add_nodes_ids [of "[]" ns x n] by (simp add: add_nodes_def empty_buffer_def)
  from lookup_all_ids [OF nodes(1) this] have "map nd_txId nodes = iter ?B" by blast
  then show "nd_txId ` set (lg_nodes l) = ?B"
    unfolding nodes(2) by (simp, metis B list.set_map)
  have walk: "set (iter (gb_adj ?b x)) = {y. (x, y) \<in> set es \<or> (y, x) \<in> set es}" for x
    using iter finite_adj [OF adj] adj by (simp add: walks_sets_def symmetric_adj_def)
  show "set (lg_edges l) = {(x, y). x \<in> ?B \<and> y \<in> ?B \<and> ((x, y) \<in> set es \<or> (y, x) \<in> set es)}"
    unfolding nodes(2) by (auto simp: B walk)
qed

text \<open>
  C30. What the durable read gives the model and what the in-memory buffer gave it differ by the
  edges of the rim. For the same stored graph, within the bounds, both hold the same transactions;
  but the buffer has every edge between them, in both directions, and the durable read only those
  with an end less than \<open>hops\<close> away: edges joining two transactions at the full distance are missing.
\<close>

theorem durable_misses_rim_edges:
  assumes "get_bounded_subgraph collate scan c n M K mv d = Some g" and "keys_ok d" and "edges_fk d"
    and "1 \<le> M" and "\<not> sg_truncated g" and "links d = set es"
    and "get_subgraph iter c (int n) M' (add_edges es (add_nodes ns empty_buffer)) = Some (Inr l)"
    and "walks_sets iter" and "card (ball (set es) c n) < M'"
  shows "nd_txId ` set (lg_nodes l) = set (node_names g) \<and>
    set (both_directions (sg_edges g)) =
      {(x, y) \<in> set (lg_edges l). x \<in> inner (set es) c n \<or> y \<in> inner (set es) c n}"
proof -
  have g: "set (node_names g) = ball (set es) c n"
    "set (sg_edges g) = incident (set es) (inner (set es) c n)"
    using complete_lemma(2) [OF assms(1-5)] assms(6) by simp_all
  have sub: "ends (incident (set es) (inner (set es) c n)) \<subseteq> ball (set es) c n"
    by (rule ends_inner)
  have near: "x \<in> ball (set es) c n \<and> y \<in> ball (set es) c n"
    if "(x, y) \<in> set es" "x \<in> inner (set es) c n \<or> y \<in> inner (set es) c n" for x y
  proof -
    have "(x, y) \<in> incident (set es) (inner (set es) c n)" using that by (simp add: incident_def)
    then have "x \<in> ends (incident (set es) (inner (set es) c n)) \<and>
        y \<in> ends (incident (set es) (inner (set es) c n))"
      by (auto simp: ends_def intro: rev_image_eqI)
    with sub show ?thesis by blast
  qed
  show ?thesis
    unfolding buffer_subgraph [OF assms(7-9)] set_both_directions g
    by (auto simp: incident_def dest: near)
qed

definition db_triangle :: db where
  "db_triangle = empty_db\<lparr>transactions := [(''a'', sample_tx 1), (''b'', sample_tx 1), (''c'', sample_tx 1)],
     transaction_edges := [((''a'', ''b''), 0), ((''a'', ''c''), 0), ((''b'', ''c''), 0)]\<rparr>"

definition triangle_nodes :: "string stream_node list" where
  "triangle_nodes = map (\<lambda>t. \<lparr>nd_txId = t, nd_features = [], nd_time_step = 1\<rparr>) [''a'', ''b'', ''c'']"

theorem durable_misses_rim_edges_witness:
  "\<exists>g l. get_bounded_subgraph id id ''a'' 1 10 10 None db_triangle = Some g \<and>
     get_subgraph sorted_list_of_set ''a'' (int 1) 10
       (add_edges [(''a'', ''b''), (''a'', ''c''), (''b'', ''c'')] (add_nodes triangle_nodes empty_buffer)) =
         Some (Inr l) \<and>
     (''b'', ''c'') \<in> set (lg_edges l) \<and> (''b'', ''c'') \<notin> set (both_directions (sg_edges g))"
proof -
  let ?es = "[(''a'', ''b''), (''a'', ''c''), (''b'', ''c'')]"
  let ?b = "add_edges ?es (add_nodes triangle_nodes empty_buffer)"
  have ball: "ball (set ?es) ''a'' 1 = {''a'', ''b'', ''c''}"
    by (simp add: incident_insert ends_insert insert_commute)
  have "has_tx db_triangle ''a''" by (simp add: has_tx_def db_triangle_def)
  then obtain g where g: "get_bounded_subgraph id id ''a'' 1 10 10 None db_triangle = Some g"
    using subgraph_exists by blast
  have ok: "keys_ok db_triangle" "edges_fk db_triangle"
    by (simp_all add: keys_ok_def table_ok_def edges_fk_def has_tx_def db_triangle_def empty_db_def)
  have links: "links db_triangle = set ?es" by (auto simp: links_def db_triangle_def)
  have iter: "walks_sets sorted_list_of_set" by (simp add: walks_sets_def)
  have "bfs sorted_list_of_set (gb_adj ?b) (int 1) 10 ''a'' = Some (ball (set ?es) ''a'' 1, [])"
    by (rule search_small [OF buffer_adj finite_set iter]) (simp only: ball, simp)
  moreover have "sorted_list_of_set {''a'', ''b'', ''c''} = [''a'', ''b'', ''c'']" by code_simp
  ultimately obtain l where l: "get_subgraph sorted_list_of_set ''a'' (int 1) 10 ?b = Some (Inr l)"
    unfolding ball
    by (simp add: get_subgraph_def edges_nodes add_nodes_def triangle_nodes_def empty_buffer_def)
  have "\<not> sg_truncated g"
    using complete_lemma(1) [OF g ok] unfolding links ball
    by (simp add: incident_insert)
  from durable_misses_rim_edges [OF g ok _ this links l iter]
  have "set (both_directions (sg_edges g)) =
      {(x, y) \<in> set (lg_edges l). x \<in> inner (set ?es) ''a'' 1 \<or> y \<in> inner (set ?es) ''a'' 1}"
    unfolding ball by simp
  moreover have "(''b'', ''c'') \<in> set (lg_edges l)"
    using buffer_subgraph(2) [OF l iter] unfolding ball by simp
  ultimately show ?thesis using g l by auto
qed

end
