(* ===== verification/Redis_Stream.thy ===== *)
theory Redis_Stream
  imports Prelude
begin

text \<open>
  \<open>shared/redis/stream.py\<close>: the script that appends a result to the Redis Stream once per event id.
  Redis is a service: its commands are the fields of \<open>redis_api\<close>, and \<open>redis_ok\<close> is what their
  documentation promises of them. A script runs alone, so it is one step.
\<close>

type_synonym stream_entry = "string \<times> (string \<times> string) list"

record 'r redis_api =
  ra_get :: "string \<Rightarrow> 'r \<Rightarrow> string option"
  ra_set_ex_nx :: "string \<Rightarrow> string \<Rightarrow> int \<Rightarrow> 'r \<Rightarrow> 'r"
  ra_xadd :: "string \<Rightarrow> int \<Rightarrow> (string \<times> string) list \<Rightarrow> 'r \<Rightarrow> string \<times> 'r"
  ra_stream :: "string \<Rightarrow> 'r \<Rightarrow> stream_entry list"

text \<open>
  \<open>SET ... EX ... NX\<close> sets an absent key only and touches no stream (expiry is a step of its own,
  not of the command); \<open>XADD ... MAXLEN ~ ...\<close> appends one entry with an id not in the stream and
  may drop old entries, but none while the stream is shorter than the bound; it changes no key.
\<close>

definition redis_ok :: "'r redis_api \<Rightarrow> bool" where
  "redis_ok api \<longleftrightarrow>
     (\<forall>k v t r k'. ra_get api k' (ra_set_ex_nx api k v t r) =
        (if k' = k \<and> ra_get api k r = None then Some v else ra_get api k' r)) \<and>
     (\<forall>k v t r s. ra_stream api s (ra_set_ex_nx api k v t r) = ra_stream api s r) \<and>
     (\<forall>s m fs r k. ra_get api k (snd (ra_xadd api s m fs r)) = ra_get api k r) \<and>
     (\<forall>s m fs r. fst (ra_xadd api s m fs r) \<notin> fst ` set (ra_stream api s r) \<and>
        (\<exists>n. ra_stream api s (snd (ra_xadd api s m fs r)) =
               drop n (ra_stream api s r) @ [(fst (ra_xadd api s m fs r), fs)] \<and>
             (int (length (ra_stream api s r)) < m \<longrightarrow> n = 0)))"

definition dedup_key :: "string \<Rightarrow> string \<Rightarrow> string" where
  "dedup_key stream_key event_id = stream_key @ '':published:'' @ event_id"

definition publish_result_to_stream ::
  "'r redis_api \<Rightarrow> string \<Rightarrow> int \<Rightarrow> string \<Rightarrow> string \<Rightarrow> int \<Rightarrow> 'r \<Rightarrow> string \<times> 'r"
where
  "publish_result_to_stream api stream_key max_length event_id payload_json dedup_ttl_seconds r =
     (case ra_get api (dedup_key stream_key event_id) r of
        Some existing \<Rightarrow> (existing, r)
      | None \<Rightarrow>
          let (stream_id, r1) = ra_xadd api stream_key max_length
                [(''event'', payload_json), (''event_id'', event_id)] r
          in (stream_id, ra_set_ex_nx api (dedup_key stream_key event_id) stream_id
                dedup_ttl_seconds r1))"

lemma dedup_key_eq [simp]: "dedup_key s e = dedup_key s e' \<longleftrightarrow> e = e'"
  by (simp add: dedup_key_def)

lemma publish_known:
  "ra_get api (dedup_key s e) r = Some i \<Longrightarrow> publish_result_to_stream api s m e p t r = (i, r)"
  by (simp add: publish_result_to_stream_def)

lemma publish_new:
  assumes "redis_ok api" and "ra_get api (dedup_key s e) r = None"
    and "publish_result_to_stream api s m e p t r = (i, r')"
  shows "ra_get api (dedup_key s e') r' = (if e' = e then Some i else ra_get api (dedup_key s e') r)"
    and "i \<notin> fst ` set (ra_stream api s r)"
    and "\<exists>n. ra_stream api s r' = drop n (ra_stream api s r) @ [(i, [(''event'', p), (''event_id'', e)])] \<and>
      (int (length (ra_stream api s r)) < m \<longrightarrow> n = 0)"
proof -
  obtain r1 where x: "ra_xadd api s m [(''event'', p), (''event_id'', e)] r = (i, r1)"
    and r': "r' = ra_set_ex_nx api (dedup_key s e) i t r1"
    using assms(2,3) by (auto simp: publish_result_to_stream_def split: prod.splits)
  have set: "ra_get api k' (ra_set_ex_nx api k v t r) =
      (if k' = k \<and> ra_get api k r = None then Some v else ra_get api k' r)"
    "ra_stream api s' (ra_set_ex_nx api k v t r) = ra_stream api s' r" for k v t r k' s'
    using assms(1) unfolding redis_ok_def by blast+
  have xadd: "ra_get api k r1 = ra_get api k r" for k
    using assms(1) x unfolding redis_ok_def by (metis snd_conv)
  have add: "i \<notin> fst ` set (ra_stream api s r) \<and>
      (\<exists>n. ra_stream api s r1 = drop n (ra_stream api s r) @ [(i, [(''event'', p), (''event_id'', e)])] \<and>
        (int (length (ra_stream api s r)) < m \<longrightarrow> n = 0))"
    using assms(1) [unfolded redis_ok_def, THEN conjunct2, THEN conjunct2, THEN conjunct2,
        THEN spec [of _ s], THEN spec [of _ m], THEN spec [of _ "[(''event'', p), (''event_id'', e)]"],
        THEN spec [of _ r]]
    by (simp only: x fst_conv snd_conv simp_thms)
  show "ra_get api (dedup_key s e') r' = (if e' = e then Some i else ra_get api (dedup_key s e') r)"
    using assms(2) by (simp add: r' set xadd)
  show "i \<notin> fst ` set (ra_stream api s r)"
    "\<exists>n. ra_stream api s r' = drop n (ra_stream api s r) @ [(i, [(''event'', p), (''event_id'', e)])] \<and>
      (int (length (ra_stream api s r)) < m \<longrightarrow> n = 0)"
    using add by (simp_all add: r' set)
qed

text \<open>
  Publishing is idempotent while the marker lives. Publishing an event id a second time, with
  any payload, returns the stream id of the first publication and changes nothing; the first one
  appends exactly one entry, under a new id, and drops none while the stream is below its bound.
\<close>

theorem stream_publish_idempotent:
  assumes "redis_ok api" and "publish_result_to_stream api s m e p t r = (i, r1)"
  shows "publish_result_to_stream api s m' e p' t' r1 = (i, r1) \<and>
    (ra_get api (dedup_key s e) r = None \<longrightarrow> i \<notin> fst ` set (ra_stream api s r) \<and>
       (\<exists>n. ra_stream api s r1 = drop n (ra_stream api s r) @ [(i, [(''event'', p), (''event_id'', e)])] \<and>
          (int (length (ra_stream api s r)) < m \<longrightarrow> n = 0))) \<and>
    (ra_get api (dedup_key s e) r \<noteq> None \<longrightarrow> r1 = r)"
proof (cases "ra_get api (dedup_key s e) r")
  case None
  from publish_new [OF assms(1) this assms(2)] None show ?thesis
    by (auto simp: publish_known)
next
  case (Some j)
  with assms(2) show ?thesis by (simp add: publish_known)
qed

subsection \<open>A Redis for the witnesses\<close>

record sample_redis =
  sr_keys :: "(string \<times> string) list"
  sr_entries :: "stream_entry list"

text \<open>Ids count up in unary; nothing is trimmed below the bound, everything beyond it is.\<close>

definition next_id :: "stream_entry list \<Rightarrow> string" where
  "next_id es = replicate (Suc (foldr max (map (length \<circ> fst) es) 0)) (CHR ''1'')"

definition sample_redis_api :: "sample_redis redis_api" where
  "sample_redis_api =
     \<lparr>ra_get = (\<lambda>k r. map_of (sr_keys r) k),
      ra_set_ex_nx = (\<lambda>k v t r. if map_of (sr_keys r) k = None
         then r\<lparr>sr_keys := (k, v) # sr_keys r\<rparr> else r),
      ra_xadd = (\<lambda>s m fs r. (next_id (sr_entries r), r\<lparr>sr_entries :=
         (if int (length (sr_entries r)) < m then sr_entries r else []) @ [(next_id (sr_entries r), fs)]\<rparr>)),
      ra_stream = (\<lambda>s r. sr_entries r)\<rparr>"

lemma next_id_fresh: "next_id es \<notin> fst ` set es"
proof
  have le: "length (fst e) \<le> foldr max (map (length \<circ> fst) es) 0" if "e \<in> set es" for e
    using that by (induction es) auto
  assume "next_id es \<in> fst ` set es"
  then obtain e where "e \<in> set es" "fst e = next_id es" by auto
  with le [of e] show False by (simp add: next_id_def)
qed

lemma sample_redis_ok: "redis_ok sample_redis_api"
  unfolding redis_ok_def
proof (intro conjI allI)
  fix s m fs and r :: sample_redis
  show "\<exists>n. ra_stream sample_redis_api s (snd (ra_xadd sample_redis_api s m fs r)) =
      drop n (ra_stream sample_redis_api s r) @ [(fst (ra_xadd sample_redis_api s m fs r), fs)] \<and>
      (int (length (ra_stream sample_redis_api s r)) < m \<longrightarrow> n = 0)"
    by (rule exI [of _ "if int (length (sr_entries r)) < m then 0 else length (sr_entries r)"])
      (simp add: sample_redis_api_def)
qed (auto simp: sample_redis_api_def next_id_fresh)

definition no_redis :: sample_redis where
  "no_redis = \<lparr>sr_keys = [], sr_entries = []\<rparr>"

theorem stream_publish_idempotent_witness:
  "\<exists>i r1. publish_result_to_stream sample_redis_api ''s'' 100 ''e'' ''p'' 86400 no_redis = (i, r1) \<and>
     publish_result_to_stream sample_redis_api ''s'' 100 ''e'' ''q'' 86400 r1 = (i, r1) \<and>
     map fst (sr_entries r1) = [i]"
proof -
  obtain i r1 where p: "publish_result_to_stream sample_redis_api ''s'' 100 ''e'' ''p'' 86400 no_redis = (i, r1)"
    by fastforce
  from stream_publish_idempotent [OF sample_redis_ok p, of 100 "''q''" 86400] p show ?thesis
    by (auto simp: sample_redis_api_def no_redis_def)
qed

end
