(* ===== verification/Redis_Outbox.thy ===== *)
theory Redis_Outbox
  imports Relay Redis_Stream
begin

text \<open>
  \<open>redis_payload\<close> and \<open>publish_redis_outbox\<close> of \<open>services/result_projector/main.py\<close>: the message for
  the gateways built from a stored result, and the loop that publishes pending Redis rows and marks
  them in one transaction. \<open>isof\<close> is \<open>datetime.isoformat\<close>, \<open>dumps\<close> the JSON rendering.
\<close>

text \<open>Python's \<open>round(x, n)\<close>: to the nearest, ties to even.\<close>

definition round_half_even :: "rat \<Rightarrow> int" where
  "round_half_even y =
     (let f = \<lfloor>y\<rfloor>; r = y - of_int f
      in if r < 1 / 2 then f else if 1 / 2 < r then f + 1 else if even f then f else f + 1)"

definition py_round :: "rat \<Rightarrow> nat \<Rightarrow> rat" where
  "py_round x n = of_int (round_half_even (x * 10 ^ n)) / 10 ^ n"

record result_data =
  rm_tx_id :: string
  rm_timestamp :: int
  rm_amount :: rat
  rm_illicit_probability :: rat
  rm_threshold :: rat
  rm_flagged :: bool
  rm_inference_latency_ms :: rat
  rm_queue_delay_ms :: rat
  rm_end_to_end_latency_ms :: rat
  rm_scoring_end_to_end_latency_ms :: rat
  rm_persistence_latency_ms :: rat
  rm_redis_publication_latency_ms :: rat
  rm_ingest_to_redis_ms :: rat
  rm_source_ingested_at :: string
  rm_neighbors :: "string list"
  rm_model_version :: string
  rm_model_checksum :: string
  rm_model_deployed_at :: "string option"
  rm_feature_schema_version :: string
  rm_graph_watermark :: int

record result_message_json =
  rj_type :: string
  rj_event_id :: string
  rj_schema_version :: string
  rj_trace_id :: string
  rj_traceparent :: "string option"
  rj_data :: result_data

text \<open>\<open>abs(float(features[2])) * 10 if len(features) > 2 else 0.0\<close>\<close>

definition amount_of :: "rat list \<Rightarrow> rat" where
  "amount_of features = (if 2 < length features then \<bar>features ! 2\<bar> * 10 else 0)"

text \<open>\<open>int(t.timestamp() * 1_000)\<close> truncates towards zero.\<close>

definition epoch_ms :: "datetime \<Rightarrow> int" where
  "epoch_ms t = (let us = instant t in if us < 0 then - ((- us) div 1000) else us div 1000)"

definition result_data_of ::
  "(datetime \<Rightarrow> string) \<Rightarrow> settings \<Rightarrow> completed_payload \<Rightarrow> entity \<Rightarrow> int \<Rightarrow> int \<Rightarrow> int \<Rightarrow> result_data"
where
  "result_data_of isof cfg p ent persistence_us publication_us ingest_us =
     \<lparr>rm_tx_id = res_tx_id p,
      rm_timestamp = epoch_ms (res_scored_at p),
      rm_amount = py_round (amount_of (ent_features ent)) 6,
      rm_illicit_probability = py_round (res_illicit_probability p) 6,
      rm_threshold = presentation_threshold cfg,
      rm_flagged = (presentation_threshold cfg \<le> res_illicit_probability p),
      rm_inference_latency_ms = py_round (res_inference_latency_ms p) 2,
      rm_queue_delay_ms = py_round (res_queue_delay_ms p) 2,
      rm_end_to_end_latency_ms = py_round (res_end_to_end_latency_ms p) 2,
      rm_scoring_end_to_end_latency_ms = py_round (res_end_to_end_latency_ms p) 2,
      rm_persistence_latency_ms = py_round (clamped_ms persistence_us) 2,
      rm_redis_publication_latency_ms = py_round (clamped_ms publication_us) 2,
      rm_ingest_to_redis_ms = py_round (clamped_ms ingest_us) 2,
      rm_source_ingested_at = isof (res_source_ingested_at p),
      rm_neighbors = ent_neighbors ent,
      rm_model_version = res_model_version p,
      rm_model_checksum = res_model_checksum p,
      rm_model_deployed_at = map_option isof (res_model_deployed_at p),
      rm_feature_schema_version = res_feature_schema_version p,
      rm_graph_watermark = res_graph_watermark p\<rparr>"

text \<open>The row's payload must be a result; \<open>model_validate\<close> refuses anything else.\<close>

definition redis_payload ::
  "(datetime \<Rightarrow> string) \<Rightarrow> (score_entry list \<Rightarrow> score_entry list) \<Rightarrow> settings \<Rightarrow> int \<Rightarrow> outbox_row \<Rightarrow> db
     \<Rightarrow> result_message_json result"
where
  "redis_payload isof scan cfg published_at row d =
     (case ob_payload row of
        Requested _ \<Rightarrow> Inl (ValidationError ''validation error'')
      | Completed ev \<Rightarrow>
          rbind (checked valid_scoring_completed ev) (\<lambda>ev.
          let p = payload ev in
          case get_transaction_entity scan (res_tx_id p) (Some (res_model_version p)) d of
            None \<Rightarrow> Inl (RuntimeError (''transaction '' @ res_tx_id p @ '' disappeared before projection''))
          | Some ent \<Rightarrow>
              rbind (case ent_persisted_at ent of
                       None \<Rightarrow> Inr 0
                     | Some t \<Rightarrow> dt_sub (Aware t) (res_scored_at p)) (\<lambda>persistence_us.
              rbind (dt_sub (Aware published_at) (res_scored_at p)) (\<lambda>publication_us.
              rbind (dt_sub (Aware published_at) (res_source_ingested_at p)) (\<lambda>ingest_us.
              Inr \<lparr>rj_type = ''transaction'', rj_event_id = event_id ev,
                   rj_schema_version = schema_version ev, rj_trace_id = trace_id ev,
                   rj_traceparent = traceparent ev,
                   rj_data = result_data_of isof cfg p ent persistence_us publication_us ingest_us\<rparr>)))))"

subsection \<open>The publishing loop\<close>

definition redis_pending :: "string \<Rightarrow> outbox_row \<Rightarrow> bool" where
  "redis_pending topic row \<longleftrightarrow> ob_topic row = topic \<and> ob_published_at row = None"

definition redis_rows ::
  "(string \<Rightarrow> string) \<Rightarrow> (string \<Rightarrow> bool) \<Rightarrow> string \<Rightarrow> nat \<Rightarrow> db \<Rightarrow> outbox_entry_row list"
where
  "redis_rows collate locked topic limit d =
     take limit (sort_key (\<lambda>(i, row). (ob_created_at row, collate i))
       (filter (\<lambda>(i, row). redis_pending topic row \<and> \<not> locked i) (outbox_events d)))"

text \<open>\<open>rr_log\<close> records which event got which stream id when an entry was appended.\<close>

record 'r redis_relay =
  rr_db :: db
  rr_redis :: 'r
  rr_failures :: int
  rr_log :: "(string \<times> string) list"

datatype redis_fate = RedisOk | RedisFails exn bool

record redis_env =
  rv_locked :: "string \<Rightarrow> bool"
  rv_scan :: "score_entry list \<Rightarrow> score_entry list"
  rv_now :: "nat \<Rightarrow> int"
  rv_clock :: "nat \<Rightarrow> int"
  rv_redis :: "nat \<Rightarrow> redis_fate"
  rv_fate :: db_fate
  rv_backlog :: "exn option"

definition redis_append ::
  "'r redis_api \<Rightarrow> settings \<Rightarrow> string \<Rightarrow> string \<Rightarrow> 'r \<times> (string \<times> string) list
     \<Rightarrow> 'r \<times> (string \<times> string) list"
where
  "redis_append api cfg eid body st =
     (case publish_result_to_stream api (redis_stream_key cfg) (redis_stream_maxlen cfg) eid body
             86400 (fst st) of
        (stream_id, r) \<Rightarrow>
          (r, if ra_get api (dedup_key (redis_stream_key cfg) eid) (fst st) = None
              then snd st @ [(eid, stream_id)] else snd st))"

text \<open>The loop over the rows, up to the first exception.\<close>

fun redis_send ::
  "'r redis_api \<Rightarrow> (datetime \<Rightarrow> string) \<Rightarrow> (result_message_json \<Rightarrow> string) \<Rightarrow> settings \<Rightarrow> redis_env \<Rightarrow> db
     \<Rightarrow> nat \<Rightarrow> outbox_entry_row list \<Rightarrow> 'r \<times> (string \<times> string) list
     \<Rightarrow> ('r \<times> (string \<times> string) list) \<times> exn option"
where
  "redis_send api isof dumps cfg env d k [] st = (st, None)"
| "redis_send api isof dumps cfg env d k ((i, row) # rows) st =
     (case redis_payload isof (rv_scan env) cfg (rv_now env k) row d of
        Inl x \<Rightarrow> (st, Some x)
      | Inr m \<Rightarrow>
          (case rv_redis env k of
             RedisFails x executed \<Rightarrow>
               (if executed then redis_append api cfg (rj_event_id m) (dumps m) st else st, Some x)
           | RedisOk \<Rightarrow> redis_send api isof dumps cfg env d (Suc k) rows
                          (redis_append api cfg (rj_event_id m) (dumps m) st)))"

definition redis_failed :: "settings \<Rightarrow> 'r redis_relay \<Rightarrow> 'r redis_relay \<times> exn option" where
  "redis_failed cfg st =
     (let n = rr_failures st + 1
      in (st\<lparr>rr_failures := n\<rparr>,
          if retry_max_attempts cfg \<le> n
          then Some (RuntimeError ''Redis relay exhausted its bounded retry budget'') else None))"

definition redis_turn ::
  "'r redis_api \<Rightarrow> (datetime \<Rightarrow> string) \<Rightarrow> (result_message_json \<Rightarrow> string) \<Rightarrow> (string \<Rightarrow> string)
     \<Rightarrow> settings \<Rightarrow> redis_env \<Rightarrow> 'r redis_relay \<Rightarrow> 'r redis_relay \<times> exn option"
where
  "redis_turn api isof dumps collate cfg env st =
     (let rows = redis_rows collate (rv_locked env) (redis_topic cfg) (nat (outbox_batch_size cfg)) (rr_db st)
      in case redis_send api isof dumps cfg env (rr_db st) 0 rows (rr_redis st, rr_log st) of
           ((r, l), stop) \<Rightarrow>
             let st1 = st\<lparr>rr_redis := r, rr_log := l\<rparr>;
                 st2 = st1\<lparr>rr_db := mark_all (rv_clock env) rows (rr_db st)\<rparr>
             in case stop of
                  Some x \<Rightarrow> redis_failed cfg st1
                | None \<Rightarrow>
                    (case rv_fate env of
                       DbFails x \<Rightarrow> redis_failed cfg st1
                     | DbCommitLost x \<Rightarrow> redis_failed cfg st2
                     | DbCommits \<Rightarrow>
                         (case rv_backlog env of
                            Some x \<Rightarrow> redis_failed cfg st2
                          | None \<Rightarrow> (st2\<lparr>rr_failures := 0\<rparr>, None))))"

fun redis_run ::
  "'r redis_api \<Rightarrow> (datetime \<Rightarrow> string) \<Rightarrow> (result_message_json \<Rightarrow> string) \<Rightarrow> (string \<Rightarrow> string)
     \<Rightarrow> settings \<Rightarrow> redis_env list \<Rightarrow> 'r redis_relay \<Rightarrow> 'r redis_relay \<times> exn option"
where
  "redis_run api isof dumps collate cfg [] st = (st, None)"
| "redis_run api isof dumps collate cfg (env # envs) st =
     (case redis_turn api isof dumps collate cfg env st of
        (st1, Some x) \<Rightarrow> (st1, Some x)
      | (st1, None) \<Rightarrow> redis_run api isof dumps collate cfg envs st1)"

end
