(* ===== verification/Redis_Props.thy ===== *)
theory Redis_Props
  imports Redis_Outbox Relay_Props
begin

text \<open>
  What the Redis publisher guarantees while the deduplication markers live: each result is appended
  once however often its row is retried, a marked row has been appended, and a row that cannot be
  turned into a message stops the service with nothing marked.
\<close>

subsection \<open>The log of appended entries\<close>

text \<open>The markers in Redis are the log.\<close>

definition log_ok :: "'r redis_api \<Rightarrow> settings \<Rightarrow> 'r \<times> (string \<times> string) list \<Rightarrow> bool" where
  "log_ok api cfg st \<longleftrightarrow> distinct (map fst (snd st)) \<and>
     (\<forall>e. ra_get api (dedup_key (redis_stream_key cfg) e) (fst st) = map_of (snd st) e)"

lemma append_ok:
  assumes "redis_ok api" and "log_ok api cfg st"
  shows "log_ok api cfg (redis_append api cfg e body st) \<and>
    set (snd st) \<subseteq> set (snd (redis_append api cfg e body st)) \<and>
    e \<in> fst ` set (snd (redis_append api cfg e body st))"
proof -
  obtain i r where p: "publish_result_to_stream api (redis_stream_key cfg) (redis_stream_maxlen cfg) e body
      86400 (fst st) = (i, r)" by fastforce
  let ?key = "dedup_key (redis_stream_key cfg)"
  show ?thesis
  proof (cases "ra_get api (?key e) (fst st)")
    case None
    then have fresh: "e \<notin> fst ` set (snd st)"
      using assms(2) by (simp add: log_ok_def map_of_eq_None_iff)
    have "map_of (snd st @ [(e, i)]) e' = (if e' = e then Some i else map_of (snd st) e')" for e'
      using fresh [folded map_of_eq_None_iff] by (auto simp: map_add_def split: option.splits)
    moreover have "ra_get api (?key e') r = (if e' = e then Some i else ra_get api (?key e') (fst st))" for e'
      by (rule publish_new(1) [OF assms(1) None p])
    ultimately show ?thesis
      using assms(2) fresh None by (auto simp: redis_append_def p log_ok_def)
  next
    case (Some j)
    then have "(e, j) \<in> set (snd st)"
      using assms(2) by (auto simp: log_ok_def dest: map_of_SomeD)
    with Some p assms(2) show ?thesis
      by (auto simp: redis_append_def publish_known rev_image_eqI)
  qed
qed

lemma payload_event:
  "redis_payload isof scan cfg now row d = Inr m \<Longrightarrow>
     \<exists>ev. ob_payload row = Completed ev \<and> rj_event_id m = event_id ev \<and> valid_scoring_completed ev"
proof (cases "ob_payload row")
  case (Completed ev)
  assume m: "redis_payload isof scan cfg now row d = Inr m"
  then have v: "valid_scoring_completed ev"
    by (auto simp: redis_payload_def Completed checked_def split: if_splits)
  with m have "rj_event_id m = event_id ev"
    by (cases "get_transaction_entity scan (res_tx_id (payload ev)) (Some (res_model_version (payload ev))) d")
      (auto simp: redis_payload_def Completed checked_def Let_def result_simps)
  with v Completed show ?thesis by blast
qed (simp add: redis_payload_def)

definition logged :: "(string \<times> string) list \<Rightarrow> outbox_row \<Rightarrow> bool" where
  "logged l row \<longleftrightarrow> (\<exists>ev. ob_payload row = Completed ev \<and> event_id ev \<in> fst ` set l)"

lemma logged_mono: "logged l row \<Longrightarrow> set l \<subseteq> set l' \<Longrightarrow> logged l' row"
  by (auto simp: logged_def)

lemma redis_send_ok:
  assumes "redis_ok api" and "log_ok api cfg st"
    and "redis_send api isof dumps cfg env d k rows st = (st', stop)"
  shows "log_ok api cfg st' \<and> set (snd st) \<subseteq> set (snd st') \<and>
    (stop = None \<longrightarrow> (\<forall>(i, row) \<in> set rows. logged (snd st') row))"
  using assms(2,3)
proof (induction rows arbitrary: k st)
  case Nil
  then show ?case by simp
next
  case (Cons r rows)
  obtain i row where r: "r = (i, row)" by (cases r)
  show ?case
  proof (cases "redis_payload isof (rv_scan env) cfg (rv_now env k) row d")
    case (Inl x)
    with Cons.prems r show ?thesis by auto
  next
    case (Inr m)
    let ?st = "redis_append api cfg (rj_event_id m) (dumps m) st"
    note add = append_ok [OF assms(1) Cons.prems(1), of "rj_event_id m" "dumps m"]
    show ?thesis
    proof (cases "rv_redis env k")
      case (RedisFails x executed)
      with Cons.prems Inr r add show ?thesis by (cases executed) auto
    next
      case RedisOk
      with Cons.prems(2) Inr r have "redis_send api isof dumps cfg env d (Suc k) rows ?st = (st', stop)"
        by simp
      note IH = Cons.IH [OF conjunct1 [OF add] this]
      have "logged (snd ?st) row" using add payload_event [OF Inr] unfolding logged_def by metis
      with IH have "logged (snd st') row" by (blast intro: logged_mono)
      with IH add show ?thesis by (auto simp: r)
    qed
  qed
qed

subsection \<open>The rows of a turn\<close>

lemma redis_rows_sub:
  "(i, row) \<in> set (redis_rows collate locked topic n d) \<Longrightarrow>
     (i, row) \<in> set (outbox_events d) \<and> redis_pending topic row \<and> \<not> locked i"
  using set_take_subset by (fastforce simp: redis_rows_def)

lemma distinct_redis_rows:
  assumes "table_ok (outbox_events d)"
  shows "distinct (map fst (redis_rows collate locked topic n d))"
proof -
  have "distinct (map fst (sort_key f (filter P (outbox_events d))))"
    for f :: "string \<times> outbox_row \<Rightarrow> int \<times> string" and P
    using assms by (simp add: table_ok_def distinct_map inj_on_def)
  then show ?thesis unfolding redis_rows_def take_map [symmetric] by (rule distinct_take)
qed

text \<open>What holds between turns: the log, and every marked row of the topic is in it.\<close>

definition redis_inv :: "'r redis_api \<Rightarrow> settings \<Rightarrow> 'r redis_relay \<Rightarrow> bool" where
  "redis_inv api cfg st \<longleftrightarrow> table_ok (outbox_events (rr_db st)) \<and>
     log_ok api cfg (rr_redis st, rr_log st) \<and>
     (\<forall>i row. map_of (outbox_events (rr_db st)) i = Some row \<longrightarrow> ob_topic row = redis_topic cfg \<longrightarrow>
        ob_published_at row \<noteq> None \<longrightarrow> logged (rr_log st) row)"

lemma marked_logged:
  assumes inv: "redis_inv api cfg st"
    and rows: "rows = redis_rows collate locked (redis_topic cfg) n (rr_db st)"
    and l: "set (rr_log st) \<subseteq> set l" "\<forall>(i, row) \<in> set rows. logged l row"
    and row: "map_of (outbox_events (mark_all clock rows (rr_db st))) i = Some row"
    and pub: "ob_topic row = redis_topic cfg" "ob_published_at row \<noteq> None"
  shows "logged l row"
proof (cases "i \<in> fst ` set rows")
  case True
  have ok: "table_ok (outbox_events (rr_db st))" using inv by (simp add: redis_inv_def)
  have sub: "set rows \<subseteq> set (outbox_events (rr_db st))"
    using redis_rows_sub by (auto simp: rows)
  from mark_all_rows(2) [OF ok distinct_redis_rows [OF ok, of collate locked "redis_topic cfg" n, folded rows] sub True] obtain k r where
    "(i, r) \<in> set rows" "map_of (outbox_events (mark_all clock rows (rr_db st))) i = Some (mark_published (clock k) r)"
    unfolding rows by blast
  with l(2) row show ?thesis by (auto simp: logged_def mark_published_def)
next
  case False
  have ok: "table_ok (outbox_events (rr_db st))" using inv by (simp add: redis_inv_def)
  have "map_of (outbox_events (rr_db st)) i = Some row"
    using row mark_all_rows(1) [OF False] by simp
  with inv pub have "logged (rr_log st) row" by (auto simp: redis_inv_def)
  with l(1) show ?thesis by (rule logged_mono [rotated])
qed

lemma redis_failed_keeps:
  "redis_failed cfg st = (st', out) \<Longrightarrow>
     rr_db st' = rr_db st \<and> rr_redis st' = rr_redis st \<and> rr_log st' = rr_log st"
  by (auto simp: redis_failed_def Let_def)

lemma redis_turn_inv:
  assumes "redis_ok api" and inv: "redis_inv api cfg st"
    and turn: "redis_turn api isof dumps collate cfg env st = (st', out)"
  shows "redis_inv api cfg st' \<and> set (rr_log st) \<subseteq> set (rr_log st')"
proof -
  define rows where "rows = redis_rows collate (rv_locked env) (redis_topic cfg)
    (nat (outbox_batch_size cfg)) (rr_db st)"
  obtain r l stop where send: "redis_send api isof dumps cfg env (rr_db st) 0 rows (rr_redis st, rr_log st) =
      ((r, l), stop)" by (metis prod.exhaust)
  have log: "log_ok api cfg (r, l)" "set (rr_log st) \<subseteq> set l"
    "stop = None \<Longrightarrow> \<forall>(i, row) \<in> set rows. logged l row"
    using redis_send_ok [OF assms(1) _ send] inv by (auto simp: redis_inv_def)
  let ?st1 = "st\<lparr>rr_redis := r, rr_log := l\<rparr>"
  let ?st2 = "?st1\<lparr>rr_db := mark_all (rv_clock env) rows (rr_db st)\<rparr>"
  have inv1: "redis_inv api cfg ?st1"
    using inv log(1) by (auto simp: redis_inv_def intro!: logged_mono [OF _ log(2)])
  have inv2: "redis_inv api cfg ?st2" if "stop = None"
    using inv log(1) marked_logged [OF inv rows_def log(2) log(3) [OF that]]
    by (auto simp: redis_inv_def mark_all_table_ok)
  have fail: "redis_inv api cfg s' \<and> set (rr_log st) \<subseteq> set (rr_log s')"
    if "redis_failed cfg s = (s', x)" "redis_inv api cfg s" "rr_log s = l" for s s' x
    using redis_failed_keeps [OF that(1)] that(2,3) log(2) by (simp add: redis_inv_def)
  note turn' = turn [unfolded redis_turn_def Let_def, folded rows_def, unfolded send prod.case]
  show ?thesis
  proof (cases stop)
    case (Some x)
    with turn' fail [OF _ inv1] show ?thesis by simp
  next
    case None
    have ok2: "redis_inv api cfg (?st2\<lparr>rr_failures := 0\<rparr>)"
      using inv2 [OF None] by (simp add: redis_inv_def)
    show ?thesis
      using turn' None fail [OF _ inv1] fail [OF _ inv2 [OF None]] ok2 log(2)
      by (cases "rv_fate env"; cases "rv_backlog env") auto
  qed
qed

lemma redis_run_inv:
  "redis_ok api \<Longrightarrow> redis_inv api cfg st \<Longrightarrow>
     redis_run api isof dumps collate cfg envs st = (st', out) \<Longrightarrow>
     redis_inv api cfg st' \<and> set (rr_log st) \<subseteq> set (rr_log st')"
proof (induction envs arbitrary: st)
  case (Cons env envs)
  obtain st1 x where t: "redis_turn api isof dumps collate cfg env st = (st1, x)" by fastforce
  note one = redis_turn_inv [OF Cons.prems(1,2) t]
  show ?case
  proof (cases x)
    case None
    with Cons.prems(3) t have "redis_run api isof dumps collate cfg envs st1 = (st', out)" by simp
    from Cons.IH [OF Cons.prems(1) conjunct1 [OF one] this] one show ?thesis by blast
  next
    case (Some y)
    with Cons.prems(3) t one show ?thesis by simp
  qed
qed simp

text \<open>
  Each result reaches the Redis Stream exactly once. Over any run of the publisher, with rows
  retried after database failures, lost commits and Redis calls that fail before or after they took
  effect, no event is appended twice, every row marked as published has been appended, and nothing
  that was appended is forgotten. (The markers must not expire in between: they live for a day.)
\<close>

theorem redis_exactly_once:
  assumes "redis_ok api" and "redis_inv api cfg st"
    and "redis_run api isof dumps collate cfg envs st = (st', out)"
  shows "distinct (map fst (rr_log st')) \<and> set (rr_log st) \<subseteq> set (rr_log st') \<and>
    (\<forall>i row. map_of (outbox_events (rr_db st')) i = Some row \<longrightarrow> ob_topic row = redis_topic cfg \<longrightarrow>
       ob_published_at row \<noteq> None \<longrightarrow>
       (\<exists>ev. ob_payload row = Completed ev \<and> event_id ev \<in> fst ` set (rr_log st')))"
  using redis_run_inv [OF assms] by (auto simp: redis_inv_def log_ok_def logged_def)

text \<open>A stored result with time zones is published, with its probability rounded.\<close>

lemma result_publishable:
  assumes "valid_scoring_completed res" and "is_aware (res_scored_at (payload res))"
    and "is_aware (res_source_ingested_at (payload res))" and "has_tx d (res_tx_id (payload res))"
  shows "\<exists>m. redis_payload isof scan cfg published (redis_outbox_entry topic now res) d = Inr m \<and>
    rj_event_id m = event_id res \<and> rm_tx_id (rj_data m) = res_tx_id (payload res) \<and>
    rm_illicit_probability (rj_data m) = py_round (res_illicit_probability (payload res)) 6"
proof -
  from assms(4) obtain ent where ent: "get_transaction_entity scan (res_tx_id (payload res))
      (Some (res_model_version (payload res))) d = Some ent"
    by (auto simp: has_tx_def get_transaction_entity_def Let_def)
  obtain a where a: "(case ent_persisted_at ent of None \<Rightarrow> Inr 0
      | Some t \<Rightarrow> dt_sub (Aware t) (res_scored_at (payload res))) = Inr a"
    using dt_sub_aware [OF is_aware.simps(1) [THEN iffD2, OF TrueI] assms(2)] by (cases "ent_persisted_at ent") auto
  obtain b where b: "dt_sub (Aware published) (res_scored_at (payload res)) = Inr b"
    using dt_sub_aware [of "Aware published"] assms(2) by auto
  obtain e where e: "dt_sub (Aware published) (res_source_ingested_at (payload res)) = Inr e"
    using dt_sub_aware [of "Aware published"] assms(3) by auto
  show ?thesis
    by (simp add: redis_payload_def redis_outbox_entry_def checked_def assms(1) Let_def ent a b e
        result_data_of_def)
qed

subsection \<open>A row that cannot be published\<close>

definition unpublishable ::
  "(datetime \<Rightarrow> string) \<Rightarrow> settings \<Rightarrow> outbox_row \<Rightarrow> db \<Rightarrow> bool"
where
  "unpublishable isof cfg row d \<longleftrightarrow>
     (\<forall>scan now. \<exists>x. redis_payload isof scan cfg now row d = Inl x)"

text \<open>A result whose \<open>scored_at\<close> has no zone is one: the contract admits it, the subtraction does not.\<close>

lemma naive_unpublishable:
  assumes "ob_payload row = Completed ev" and "res_scored_at (payload ev) = Naive t"
  shows "unpublishable isof cfg row d"
  unfolding unpublishable_def
proof (intro allI)
  fix scan now
  show "\<exists>x. redis_payload isof scan cfg now row d = Inl x"
  proof (rule ccontr)
    assume "\<nexists>x. redis_payload isof scan cfg now row d = Inl x"
    then obtain m where "redis_payload isof scan cfg now row d = Inr m" by (meson sum.exhaust)
    then show False
      using assms
      by (cases "get_transaction_entity scan (res_tx_id (payload ev)) (Some (res_model_version (payload ev))) d")
        (auto simp: redis_payload_def checked_def Let_def result_simps split: if_splits)
  qed
qed

lemma redis_send_stops:
  assumes "(i, row) \<in> set rows" and "unpublishable isof cfg row d"
  shows "snd (redis_send api isof dumps cfg env d k rows st) \<noteq> None"
  using assms(1)
proof (induction rows arbitrary: k st)
  case (Cons r rows)
  obtain j row' where r: "r = (j, row')" by (cases r)
  show ?case
  proof (cases "row' = row \<or> (i, row) \<notin> set rows")
    case True
    with Cons.prems r have "row' = row \<or> row = row'" by auto
    with assms(2) obtain x where "redis_payload isof (rv_scan env) cfg (rv_now env k) row' d = Inl x"
      unfolding unpublishable_def by blast
    then show ?thesis by (simp add: r)
  next
    case False
    with Cons.IH show ?thesis
      by (auto simp: r split: sum.splits redis_fate.splits)
  qed
qed simp

lemma redis_turn_poison:
  assumes "(i, row) \<in> set (redis_rows collate (rv_locked env) (redis_topic cfg)
      (nat (outbox_batch_size cfg)) (rr_db st))"
    and "unpublishable isof cfg row (rr_db st)"
  shows "\<exists>st'. redis_turn api isof dumps collate cfg env st = (st',
      if retry_max_attempts cfg \<le> rr_failures st + 1
      then Some (RuntimeError ''Redis relay exhausted its bounded retry budget'') else None) \<and>
    rr_db st' = rr_db st \<and> rr_failures st' = rr_failures st + 1"
proof -
  obtain r l stop where "redis_send api isof dumps cfg env (rr_db st) 0 (redis_rows collate (rv_locked env)
      (redis_topic cfg) (nat (outbox_batch_size cfg)) (rr_db st)) (rr_redis st, rr_log st) = ((r, l), stop)"
    by (metis prod.exhaust)
  moreover from this redis_send_stops [OF assms, of api dumps env 0 "(rr_redis st, rr_log st)"]
  obtain x where "stop = Some x" by auto
  ultimately show ?thesis by (simp add: redis_turn_def redis_failed_def Let_def)
qed

lemma poisoned_run:
  assumes "\<And>env. env \<in> set envs \<Longrightarrow> \<exists>i. (i, row) \<in> set (redis_rows collate (rv_locked env)
      (redis_topic cfg) (nat (outbox_batch_size cfg)) (rr_db st))"
    and "unpublishable isof cfg row (rr_db st)"
    and "rr_failures st + int (length envs) = retry_max_attempts cfg" and "0 < length envs"
  shows "\<exists>st'. redis_run api isof dumps collate cfg envs st =
      (st', Some (RuntimeError ''Redis relay exhausted its bounded retry budget'')) \<and>
    rr_db st' = rr_db st"
  using assms
proof (induction envs arbitrary: st)
  case (Cons env envs)
  from Cons.prems(1) [of env] obtain i where "(i, row) \<in> set (redis_rows collate (rv_locked env)
      (redis_topic cfg) (nat (outbox_batch_size cfg)) (rr_db st))" by auto
  from redis_turn_poison [OF this Cons.prems(2), of api dumps] obtain st1 where
    st1: "redis_turn api isof dumps collate cfg env st = (st1,
      if retry_max_attempts cfg \<le> rr_failures st + 1
      then Some (RuntimeError ''Redis relay exhausted its bounded retry budget'') else None)"
      "rr_db st1 = rr_db st" "rr_failures st1 = rr_failures st + 1" by blast
  show ?case
  proof (cases envs)
    case Nil
    with Cons.prems(3) st1 show ?thesis by simp
  next
    case more: (Cons env' envs')
    with Cons.prems(3) st1 have "redis_turn api isof dumps collate cfg env st = (st1, None)"
      by (simp split: if_splits)
    moreover have "\<exists>st'. redis_run api isof dumps collate cfg envs st1 =
        (st', Some (RuntimeError ''Redis relay exhausted its bounded retry budget'')) \<and>
        rr_db st' = rr_db st1"
      by (rule Cons.IH) (use Cons.prems st1 more in auto)
    ultimately show ?thesis using st1(2) by auto
  qed
qed simp

text \<open>
  One row that cannot be turned into a message stops the publisher for good. While such a row is
  in the batch every turn fails and marks nothing, not even the rows before it, and after the retry
  budget the service raises; a restarted one meets the same row again. A result with a \<open>scored_at\<close>
  without a zone is such a row.
\<close>

theorem redis_poison_stops:
  assumes "\<And>env. env \<in> set envs \<Longrightarrow> \<exists>i. (i, row) \<in> set (redis_rows collate (rv_locked env)
      (redis_topic cfg) (nat (outbox_batch_size cfg)) (rr_db st))"
    and "ob_payload row = Completed ev" and "res_scored_at (payload ev) = Naive t"
    and "rr_failures st = 0" and "1 \<le> retry_max_attempts cfg"
    and "int (length envs) = retry_max_attempts cfg"
  shows "\<exists>st'. redis_run api isof dumps collate cfg envs st =
      (st', Some (RuntimeError ''Redis relay exhausted its bounded retry budget'')) \<and>
    rr_db st' = rr_db st"
proof (rule poisoned_run [OF _ naive_unpublishable [OF assms(2,3)]])
  show "0 < length envs" using assms(5,6) by auto
qed (use assms(1,4,6) in auto)

subsection \<open>Witnesses\<close>

definition sample_redis_row :: "datetime \<Rightarrow> outbox_row" where
  "sample_redis_row scored = redis_outbox_entry (redis_topic (default_settings ''p'' ''h'')) 3
     (sample_result (CHR ''4'') ''a'' (1 / 2) 1 9\<lparr>payload :=
        payload (sample_result (CHR ''4'') ''a'' (1 / 2) 1 9)\<lparr>res_scored_at := scored\<rparr>\<rparr>)"

definition sample_redis_relay :: "datetime \<Rightarrow> sample_redis redis_relay" where
  "sample_redis_relay scored = \<lparr>rr_db = db_ab\<lparr>outbox_events := [(''redis:4'', sample_redis_row scored)]\<rparr>,
     rr_redis = no_redis, rr_failures = 0, rr_log = []\<rparr>"

text \<open>The first turn appends the entry and loses the reply, the second one succeeds.\<close>

definition sample_redis_env :: "redis_fate \<Rightarrow> redis_env" where
  "sample_redis_env fate = \<lparr>rv_locked = (\<lambda>_. False), rv_scan = id, rv_now = (\<lambda>_. 10), rv_clock = (\<lambda>_. 11),
     rv_redis = (\<lambda>_. fate), rv_fate = DbCommits, rv_backlog = None\<rparr>"

lemma sample_redis_inv:
  "redis_inv sample_redis_api (default_settings ''p'' ''h'') (sample_redis_relay scored)"
  by (simp add: redis_inv_def sample_redis_relay_def table_ok_def log_ok_def sample_redis_api_def
      no_redis_def sample_redis_row_def redis_outbox_entry_def)

theorem redis_exactly_once_witness:
  "\<exists>st' out. redis_run sample_redis_api (\<lambda>_. ''t'') (\<lambda>_. ''{}'') id (default_settings ''p'' ''h'')
     [sample_redis_env (RedisFails TimeoutError True), sample_redis_env RedisOk]
     (sample_redis_relay (Aware 9)) = (st', out) \<and> distinct (map fst (rr_log st'))"
proof -
  obtain st' out where run: "redis_run sample_redis_api (\<lambda>_. ''t'') (\<lambda>_. ''{}'') id
      (default_settings ''p'' ''h'') [sample_redis_env (RedisFails TimeoutError True), sample_redis_env RedisOk]
      (sample_redis_relay (Aware 9)) = (st', out)" by fastforce
  from redis_exactly_once [OF sample_redis_ok sample_redis_inv run] run show ?thesis by blast
qed

theorem redis_poison_stops_witness:
  "\<exists>st'. redis_run sample_redis_api (\<lambda>_. ''t'') (\<lambda>_. ''{}'') id (default_settings ''p'' ''h'')
     (replicate 4 (sample_redis_env RedisOk)) (sample_redis_relay (Naive 9)) =
       (st', Some (RuntimeError ''Redis relay exhausted its bounded retry budget''))"
proof -
  have rows: "redis_rows id (\<lambda>_. False) (redis_topic (default_settings ''p'' ''h'')) 100
      (rr_db (sample_redis_relay (Naive 9))) = [(''redis:4'', sample_redis_row (Naive 9))]"
    by (simp add: redis_rows_def sample_redis_relay_def redis_pending_def sample_redis_row_def
        redis_outbox_entry_def)
  obtain ev where ev: "ob_payload (sample_redis_row (Naive 9)) = Completed ev"
    "res_scored_at (payload ev) = Naive 9"
    by (simp add: sample_redis_row_def redis_outbox_entry_def)
  have "\<exists>i. (i, sample_redis_row (Naive 9)) \<in> set (redis_rows id (rv_locked env)
      (redis_topic (default_settings ''p'' ''h'')) (nat (outbox_batch_size (default_settings ''p'' ''h'')))
      (rr_db (sample_redis_relay (Naive 9))))"
    if "env \<in> set (replicate 4 (sample_redis_env RedisOk))" for env
    using that rows by (simp add: sample_redis_env_def default_settings_def)
  moreover have "rr_failures (sample_redis_relay (Naive 9)) = 0"
    "retry_max_attempts (default_settings ''p'' ''h'') = 4"
    by (simp_all add: sample_redis_relay_def default_settings_def)
  ultimately show ?thesis
    using redis_poison_stops [where envs = "replicate 4 (sample_redis_env RedisOk)" and
        st = "sample_redis_relay (Naive 9)" and collate = id and cfg = "default_settings ''p'' ''h''" and
        row = "sample_redis_row (Naive 9)" and api = sample_redis_api and isof = "\<lambda>_. ''t''" and
        dumps = "\<lambda>_. ''{}''", OF _ ev] by fastforce
qed

end
