(* ===== verification/Projector_Service.thy ===== *)
theory Projector_Service
  imports Redis_Props Consumer_Props
begin

text \<open>
  \<open>run\<close> of \<open>services/result_projector/main.py\<close>: the consumer of results and the Redis publisher as two
  tasks on one database, until one of them fails, a stop is requested or the process dies. The other
  services write to the same database meanwhile.
\<close>

datatype projector_phase = Serving | Stopping | Cancelling "exn option" | Down "exn option"

text \<open>The database is the one of \<open>pj_service\<close>; a task that has returned or raised is not active.\<close>

record 'r projector =
  pj_service :: service
  pj_redis :: 'r
  pj_failures :: int
  pj_log :: "(string \<times> string) list"
  pj_consuming :: bool
  pj_publishing :: bool
  pj_phase :: projector_phase

definition pj_db :: "'r projector \<Rightarrow> db" where
  "pj_db st = sv_db (pj_service st)"

definition set_db :: "db \<Rightarrow> 'r projector \<Rightarrow> 'r projector" where
  "set_db d st = st\<lparr>pj_service := (pj_service st)\<lparr>sv_db := d\<rparr>\<rparr>"

text \<open>The part of the state the publisher works on.\<close>

definition publisher :: "'r projector \<Rightarrow> 'r redis_relay" where
  "publisher st = \<lparr>rr_db = pj_db st, rr_redis = pj_redis st, rr_failures = pj_failures st,
     rr_log = pj_log st\<rparr>"

definition with_publisher :: "'r redis_relay \<Rightarrow> 'r projector \<Rightarrow> 'r projector" where
  "with_publisher rl st =
     (set_db (rr_db rl) st)\<lparr>pj_redis := rr_redis rl, pj_failures := rr_failures rl, pj_log := rr_log rl\<rparr>"

subsection \<open>Turns of the two tasks\<close>

text \<open>What a task raises cancels the other one; when a stop is requested its turn is its last.\<close>

definition after_turn_of :: "exn option \<Rightarrow> projector_phase \<Rightarrow> projector_phase" where
  "after_turn_of ex phase = (case ex of None \<Rightarrow> phase | Some x \<Rightarrow> Cancelling (Some x))"

definition goes_on :: "exn option \<Rightarrow> projector_phase \<Rightarrow> bool" where
  "goes_on ex phase \<longleftrightarrow> ex = None \<and> phase = Serving"

definition consumer_turn ::
  "runtime \<Rightarrow> settings \<Rightarrow> (bytes \<Rightarrow> scoring_completed option) \<Rightarrow> kafka_record list \<Rightarrow> step_env
     \<Rightarrow> 'r projector \<Rightarrow> 'r projector"
where
  "consumer_turn rt cfg parse records env st =
     (case service_turn (projector_consume rt cfg parse) records env (pj_service st) of
        (sv, ex) \<Rightarrow> st\<lparr>pj_service := sv, pj_consuming := goes_on ex (pj_phase st),
                      pj_phase := after_turn_of ex (pj_phase st)\<rparr>)"

text \<open>\<open>getone\<close> is outside the inner \<open>try\<close>: what it raises, a timeout apart, ends the task.\<close>

definition poll_raises :: "exn \<Rightarrow> 'r projector \<Rightarrow> 'r projector" where
  "poll_raises x st = st\<lparr>pj_consuming := False, pj_phase := Cancelling (Some x)\<rparr>"

definition publisher_turn ::
  "'r redis_api \<Rightarrow> (datetime \<Rightarrow> string) \<Rightarrow> (result_message_json \<Rightarrow> string) \<Rightarrow> (string \<Rightarrow> string)
     \<Rightarrow> settings \<Rightarrow> redis_env \<Rightarrow> 'r projector \<Rightarrow> 'r projector"
where
  "publisher_turn api isof dumps collate cfg env st =
     (case redis_turn api isof dumps collate cfg env (publisher st) of
        (rl, ex) \<Rightarrow> (with_publisher rl st)\<lparr>pj_publishing := goes_on ex (pj_phase st),
                      pj_phase := after_turn_of ex (pj_phase st)\<rparr>)"

text \<open>
  A cancelled task, or one of a process that dies, has done some part of its turn: a turn in which a
  call failed, after whose failure nothing more is done.
\<close>

definition cut_consumer ::
  "runtime \<Rightarrow> settings \<Rightarrow> (bytes \<Rightarrow> scoring_completed option) \<Rightarrow> kafka_record list \<Rightarrow> step_env
     \<Rightarrow> 'r projector \<Rightarrow> 'r projector"
where
  "cut_consumer rt cfg parse records env st =
     st\<lparr>pj_service := fst (service_turn (projector_consume rt cfg parse) records env (pj_service st)),
        pj_consuming := False\<rparr>"

definition cut_publisher ::
  "'r redis_api \<Rightarrow> (datetime \<Rightarrow> string) \<Rightarrow> (result_message_json \<Rightarrow> string) \<Rightarrow> (string \<Rightarrow> string)
     \<Rightarrow> settings \<Rightarrow> redis_env \<Rightarrow> 'r projector \<Rightarrow> 'r projector"
where
  "cut_publisher api isof dumps collate cfg env st =
     (with_publisher (fst (redis_turn api isof dumps collate cfg env (publisher st))) st)
       \<lparr>pj_publishing := False\<rparr>"

definition tasks_done :: "'r projector \<Rightarrow> bool" where
  "tasks_done st \<longleftrightarrow> \<not> pj_consuming st \<and> \<not> pj_publishing st"

definition start_projector :: "'r projector \<Rightarrow> 'r projector" where
  "start_projector st = st\<lparr>pj_service := restarted (pj_service st), pj_failures := 0,
     pj_consuming := True, pj_publishing := True, pj_phase := Serving\<rparr>"

text \<open>
  The other services leave the scores and the rows of the Redis topic alone and keep the keys of the
  outbox unique.
\<close>

definition of_redis :: "settings \<Rightarrow> outbox_entry_row \<Rightarrow> bool" where
  "of_redis cfg r \<longleftrightarrow> ob_topic (snd r) = redis_topic cfg"

definition elsewhere :: "settings \<Rightarrow> db \<Rightarrow> db \<Rightarrow> bool" where
  "elsewhere cfg d d' \<longleftrightarrow> risk_scores d' = risk_scores d \<and>
     filter (of_redis cfg) (outbox_events d') = filter (of_redis cfg) (outbox_events d) \<and>
     (table_ok (outbox_events d) \<longrightarrow> table_ok (outbox_events d'))"

inductive projector_step ::
  "runtime \<Rightarrow> 'r redis_api \<Rightarrow> (datetime \<Rightarrow> string) \<Rightarrow> (result_message_json \<Rightarrow> string)
     \<Rightarrow> (string \<Rightarrow> string) \<Rightarrow> settings \<Rightarrow> (bytes \<Rightarrow> scoring_completed option) \<Rightarrow> kafka_record list
     \<Rightarrow> 'r projector \<Rightarrow> 'r projector \<Rightarrow> bool"
  for rt api isof dumps collate cfg parse records
where
  consumes: "pj_phase st \<in> {Serving, Stopping} \<Longrightarrow> pj_consuming st \<Longrightarrow>
     projector_step rt api isof dumps collate cfg parse records st
       (consumer_turn rt cfg parse records env st)"
| poll_breaks: "pj_phase st \<in> {Serving, Stopping} \<Longrightarrow> pj_consuming st \<Longrightarrow>
     projector_step rt api isof dumps collate cfg parse records st (poll_raises x st)"
| publishes: "pj_phase st \<in> {Serving, Stopping} \<Longrightarrow> pj_publishing st \<Longrightarrow>
     projector_step rt api isof dumps collate cfg parse records st
       (publisher_turn api isof dumps collate cfg renv st)"
| stop_requested: "pj_phase st = Serving \<Longrightarrow>
     projector_step rt api isof dumps collate cfg parse records st (st\<lparr>pj_phase := Stopping\<rparr>)"
| dies: "pj_phase st \<in> {Serving, Stopping} \<Longrightarrow>
     projector_step rt api isof dumps collate cfg parse records st (st\<lparr>pj_phase := Cancelling ex\<rparr>)"
| consumer_cut: "pj_phase st = Cancelling ex \<Longrightarrow> pj_consuming st \<Longrightarrow>
     projector_step rt api isof dumps collate cfg parse records st
       (cut_consumer rt cfg parse records env st)"
| publisher_cut: "pj_phase st = Cancelling ex \<Longrightarrow> pj_publishing st \<Longrightarrow>
     projector_step rt api isof dumps collate cfg parse records st
       (cut_publisher api isof dumps collate cfg renv st)"
| returns: "pj_phase st = Stopping \<Longrightarrow> tasks_done st \<Longrightarrow>
     projector_step rt api isof dumps collate cfg parse records st (st\<lparr>pj_phase := Down None\<rparr>)"
| cancelled: "pj_phase st = Cancelling ex \<Longrightarrow> tasks_done st \<Longrightarrow>
     projector_step rt api isof dumps collate cfg parse records st (st\<lparr>pj_phase := Down ex\<rparr>)"
| restarts: "pj_phase st = Down ex \<Longrightarrow>
     projector_step rt api isof dumps collate cfg parse records st (start_projector st)"
| others_write: "elsewhere cfg (pj_db st) d \<Longrightarrow>
     projector_step rt api isof dumps collate cfg parse records st (set_db d st)"

inductive_cases projector_stepE:
  "projector_step rt api isof dumps collate cfg parse records st st'"

inductive projector_reach ::
  "runtime \<Rightarrow> 'r redis_api \<Rightarrow> (datetime \<Rightarrow> string) \<Rightarrow> (result_message_json \<Rightarrow> string)
     \<Rightarrow> (string \<Rightarrow> string) \<Rightarrow> settings \<Rightarrow> (bytes \<Rightarrow> scoring_completed option) \<Rightarrow> kafka_record list
     \<Rightarrow> 'r projector \<Rightarrow> 'r projector \<Rightarrow> bool"
  for rt api isof dumps collate cfg parse records
where
  at_start: "projector_reach rt api isof dumps collate cfg parse records st st"
| one_more: "projector_reach rt api isof dumps collate cfg parse records st st' \<Longrightarrow>
     projector_step rt api isof dumps collate cfg parse records st' st'' \<Longrightarrow>
     projector_reach rt api isof dumps collate cfg parse records st st''"

end
