(* ===== verification/Projector_Service_Props.thy ===== *)
theory Projector_Service_Props
  imports Projector_Service
begin

text \<open>
  What the live stream shows: over any run of the projector process, with its two tasks, the other
  writers, stops, crashes and restarts interleaved, each entry is a result that was received and made
  canonical, once, and the pending rows are exactly what is still missing.
\<close>

subsection \<open>The rows of the stream\<close>

definition result_received ::
  "(bytes \<Rightarrow> scoring_completed option) \<Rightarrow> kafka_record list \<Rightarrow> scoring_completed \<Rightarrow> bool"
where
  "result_received parse records ev \<longleftrightarrow>
     (\<exists>rec \<in> set records. decode_value parse valid_scoring_completed (kr_value rec) = Inr ev)"

text \<open>The stored score of the transaction and model is of this result or of one at least as new.\<close>

definition score_reached :: "scoring_completed \<Rightarrow> db \<Rightarrow> bool" where
  "score_reached ev d \<longleftrightarrow>
     (case map_of (risk_scores d) (score_key ev) of None \<Rightarrow> False | Some r \<Rightarrow> score_wins r (score_of 0 ev))"

definition stream_row ::
  "(bytes \<Rightarrow> scoring_completed option) \<Rightarrow> kafka_record list \<Rightarrow> db \<Rightarrow> outbox_entry_row \<Rightarrow> bool"
where
  "stream_row parse records d r \<longleftrightarrow>
     (\<exists>ev. ob_payload (snd r) = Completed ev \<and> fst r = redis_outbox_id ev \<and>
        result_received parse records ev \<and> score_reached ev d)"

definition redis_entries :: "settings \<Rightarrow> db \<Rightarrow> outbox_entry_row list" where
  "redis_entries cfg d = filter (of_redis cfg) (outbox_events d)"

definition rows_ok ::
  "settings \<Rightarrow> (bytes \<Rightarrow> scoring_completed option) \<Rightarrow> kafka_record list \<Rightarrow> db \<Rightarrow> bool"
where
  "rows_ok cfg parse records d \<longleftrightarrow> (\<forall>r \<in> set (redis_entries cfg d). stream_row parse records d r)"

text \<open>Every logged event id is the one of a row.\<close>

definition log_stored :: "settings \<Rightarrow> db \<Rightarrow> (string \<times> string) list \<Rightarrow> bool" where
  "log_stored cfg d l \<longleftrightarrow> (\<forall>e \<in> fst ` set l. ''redis:'' @ e \<in> fst ` set (redis_entries cfg d))"

definition projector_inv ::
  "'r redis_api \<Rightarrow> settings \<Rightarrow> (bytes \<Rightarrow> scoring_completed option) \<Rightarrow> kafka_record list
     \<Rightarrow> 'r projector \<Rightarrow> bool"
where
  "projector_inv api cfg parse records st \<longleftrightarrow> redis_inv api cfg (publisher st) \<and>
     rows_ok cfg parse records (pj_db st) \<and> log_stored cfg (pj_db st) (pj_log st)"

lemma publisher_simps [simp]:
  "rr_db (publisher st) = pj_db st" "rr_redis (publisher st) = pj_redis st"
  "rr_log (publisher st) = pj_log st" "pj_db (set_db d st) = d" "pj_log (set_db d st) = pj_log st"
  "pj_redis (set_db d st) = pj_redis st"
  "pj_db (with_publisher rl st) = rr_db rl" "pj_log (with_publisher rl st) = rr_log rl"
  "pj_redis (with_publisher rl st) = rr_redis rl"
  by (simp_all add: publisher_def set_db_def with_publisher_def pj_db_def)

text \<open>The invariant looks at the database, Redis and the log only.\<close>

lemma projector_inv_cong:
  "projector_inv api cfg parse records st \<Longrightarrow> pj_db st' = pj_db st \<Longrightarrow> pj_redis st' = pj_redis st \<Longrightarrow>
     pj_log st' = pj_log st \<Longrightarrow> projector_inv api cfg parse records st'"
  by (simp add: projector_inv_def redis_inv_def)

subsection \<open>Writes of the others\<close>

lemma entries_lookup:
  assumes "table_ok (outbox_events d)"
  shows "(i, row) \<in> set (redis_entries cfg d) \<longleftrightarrow>
    map_of (outbox_events d) i = Some row \<and> ob_topic row = redis_topic cfg"
  using assms by (auto simp: redis_entries_def of_redis_def map_of_eq_Some_iff_table)

lemma redis_inv_entries:
  "redis_inv api cfg st \<longleftrightarrow> table_ok (outbox_events (rr_db st)) \<and> log_ok api cfg (rr_redis st, rr_log st) \<and>
     (\<forall>(i, row) \<in> set (redis_entries cfg (rr_db st)). ob_published_at row \<noteq> None \<longrightarrow> logged (rr_log st) row)"
  by (cases "table_ok (outbox_events (rr_db st))")
    (simp_all add: redis_inv_def Ball_def split_paired_All entries_lookup, blast)

lemma elsewhere_inv:
  assumes "elsewhere cfg (pj_db st) d" and inv: "projector_inv api cfg parse records st"
  shows "projector_inv api cfg parse records (set_db d st)"
proof -
  have e: "redis_entries cfg d = redis_entries cfg (pj_db st)" "risk_scores d = risk_scores (pj_db st)"
    using assms(1) by (simp_all add: elsewhere_def redis_entries_def)
  then show ?thesis
    using assms
    by (auto simp: projector_inv_def redis_inv_entries rows_ok_def log_stored_def elsewhere_def
        stream_row_def score_reached_def)
qed

lemma filter_insert_rows:
  "\<forall>r \<in> set rows. \<not> P r \<Longrightarrow> filter P (insert_rows rows t) = filter P t"
  by (induction rows arbitrary: t) (auto simp: insert_nothing_def)

lemma filter_update_row:
  assumes "\<And>v. (i, v) \<in> set t \<Longrightarrow> \<not> P (i, v) \<and> \<not> P (i, f v)"
  shows "filter P (update_row i f t) = filter P t"
  using assms
proof (induction t)
  case (Cons r t)
  obtain j v where r: "r = (j, v)" by (cases r)
  have "filter P (update_row i f t) = filter P t" using Cons by simp
  moreover have "\<not> P (i, v) \<and> \<not> P (i, f v)" if "j = i" using Cons.prems [of v] that r by simp
  ultimately show ?case by (auto simp: r update_row_def)
qed (simp add: update_row_def)

text \<open>Graph batches are such writes, where the two topics differ.\<close>

lemma materialize_elsewhere:
  assumes "materialize_graph_batch uuid5 topic c env ev d = Inr (d', r)" and "topic \<noteq> redis_topic cfg"
  shows "elsewhere cfg d d'"
  using assms(1)
proof (cases rule: materialize_shape)
  case (2 t erows orows)
  have "\<not> of_redis cfg r" if "r \<in> set orows" for r
    using that assms(2) unfolding 2(5) by (auto simp: of_redis_def request_rows_def outbox_entry_def)
  with 2 show ?thesis by (simp add: elsewhere_def applied_def filter_insert_rows)
qed (simp add: elsewhere_def)

text \<open>So is every turn of the relay.\<close>

lemma mark_all_other:
  assumes "\<And>i v. i \<in> fst ` set rows \<Longrightarrow> (i, v) \<in> set t \<Longrightarrow> \<not> of_redis cfg (i, v)"
  shows "filter (of_redis cfg)
      (fold (\<lambda>(k, i, _). update_row i (mark_published (clock k))) (enumerate n rows) t) =
    filter (of_redis cfg) t"
  using assms
proof (induction rows arbitrary: n t)
  case (Cons r rows)
  obtain i row where r: "r = (i, row)" by (cases r)
  let ?t = "update_row i (mark_published (clock n)) t"
  have "filter (of_redis cfg) ?t = filter (of_redis cfg) t"
  proof (rule filter_update_row)
    show "\<not> of_redis cfg (i, v) \<and> \<not> of_redis cfg (i, mark_published (clock n) v)"
      if "(i, v) \<in> set t" for v
      using Cons.prems [of i v] that r by (simp add: of_redis_def mark_published_def)
  qed
  moreover have "\<not> of_redis cfg (j, v)" if "j \<in> fst ` set rows" "(j, v) \<in> set ?t" for j v
    using that Cons.prems [of j] r
    by (auto simp: update_row_def of_redis_def mark_published_def split: if_splits)
  ultimately show ?case using Cons.IH [of ?t "Suc n"] r by simp
qed simp

lemma relay_elsewhere:
  assumes ok: "table_ok (outbox_events (rl_db st))"
    and t: "relay_turn rt collate cfg env st = (st', ex)"
  shows "elsewhere cfg (rl_db st) (rl_db st')"
proof -
  define rows where "rows = relay_rows collate (re_locked env) (nat (outbox_batch_size cfg)) (rl_db st)"
  have redis: "is_redis_topic (redis_topic cfg)" by (simp add: is_redis_topic_def redis_topic_def)
  have other: "\<not> of_redis cfg (i, v)" if "i \<in> fst ` set rows" "(i, v) \<in> set (outbox_events (rl_db st))" for i v
  proof -
    from that(1) obtain row where "(i, row) \<in> set rows" by auto
    then have "(i, row) \<in> set (outbox_events (rl_db st))" "pending row"
      using relay_rows_sub unfolding rows_def by blast+
    with that(2) ok redis show ?thesis
      by (auto simp: of_redis_def pending_def map_of_eq_Some_iff_table [symmetric])
  qed
  have mark: "elsewhere cfg (rl_db st) (mark_all clock rows (rl_db st))" for clock
    using mark_all_other [where clock = clock and n = 0, OF other]
    by (simp add: elsewhere_def mark_all_def table_ok_def fold_mark_keys)
  have failing: "elsewhere cfg (rl_db st) (record_failure i x (rl_db st))" if "i \<in> fst ` set rows" for i x
    using filter_update_row [of i "outbox_events (rl_db st)" "of_redis cfg"] other [OF that]
    by (simp add: elsewhere_def record_failure_def of_redis_def)
  have same: "elsewhere cfg (rl_db st) (rl_db st)" by (simp add: elsewhere_def)
  obtain ms stop where send: "relay_send rt (re_send env) 0 rows = (ms, stop)" by fastforce
  show ?thesis
  proof (cases stop)
    case (Some ix)
    with send relay_send_stop have "fst ix \<in> fst ` set rows" by (cases ix) fastforce
    from failing [OF this, of "snd ix"] show ?thesis
      using t Some send same
      by (cases ix; cases "re_record env")
        (auto simp: relay_turn_def relay_publish_def rows_def [symmetric] relay_failed_def Let_def)
  next
    case None
    then show ?thesis
      using t send mark same
      by (auto simp: relay_turn_def relay_publish_def rows_def [symmetric] relay_failed_def Let_def
          split: db_fate.splits option.splits)
  qed
qed

subsection \<open>A turn of the publisher\<close>

text \<open>Marking changes neither keys, topics nor payloads.\<close>

definition row_body :: "outbox_entry_row \<Rightarrow> string \<times> string \<times> outbox_payload" where
  "row_body r = (fst r, ob_topic (snd r), ob_payload (snd r))"

lemma fold_mark_body:
  "map row_body (fold (\<lambda>(k, i, _). update_row i (mark_published (clock k))) (enumerate n rows) t) =
     map row_body t"
proof (induction rows arbitrary: n t)
  case (Cons r rows)
  have "map row_body (update_row i (mark_published c) t) = map row_body t" for i c
    by (auto simp: update_row_def row_body_def mark_published_def)
  with Cons show ?case by (cases r) simp
qed simp

lemma filter_body:
  "map row_body t' = map row_body t \<Longrightarrow>
     map row_body (filter (of_redis cfg) t') = map row_body (filter (of_redis cfg) t)"
proof -
  have "map row_body (filter (of_redis cfg) u) = filter (\<lambda>(_, q, _). q = redis_topic cfg) (map row_body u)" for u
    by (induction u) (auto simp: of_redis_def row_body_def)
  then show "map row_body t' = map row_body t \<Longrightarrow> ?thesis" by simp
qed

lemma entries_marked:
  "map row_body (redis_entries cfg (mark_all clock rows d)) = map row_body (redis_entries cfg d)"
  unfolding redis_entries_def by (rule filter_body) (simp add: mark_all_def fold_mark_body)

lemma redis_turn_shape:
  assumes "redis_turn api isof dumps collate cfg env st = (st', ex)"
  obtains rows stop where
    "rows = redis_rows collate (rv_locked env) (redis_topic cfg) (nat (outbox_batch_size cfg)) (rr_db st)"
    "redis_send api isof dumps cfg env (rr_db st) 0 rows (rr_redis st, rr_log st) =
       ((rr_redis st', rr_log st'), stop)"
    "rr_db st' = rr_db st \<or> rr_db st' = mark_all (rv_clock env) rows (rr_db st)"
proof -
  define rows where "rows = redis_rows collate (rv_locked env) (redis_topic cfg)
    (nat (outbox_batch_size cfg)) (rr_db st)"
  obtain r l stop where send: "redis_send api isof dumps cfg env (rr_db st) 0 rows (rr_redis st, rr_log st) =
      ((r, l), stop)" by (metis prod.exhaust)
  note turn = assms [unfolded redis_turn_def Let_def, folded rows_def, unfolded send prod.case]
  have "rr_redis st' = r \<and> rr_log st' = l \<and>
      (rr_db st' = rr_db st \<or> rr_db st' = mark_all (rv_clock env) rows (rr_db st))"
    using turn
    by (cases stop; cases "rv_fate env"; cases "rv_backlog env") (auto dest: redis_failed_keeps)
  with that [OF rows_def, of stop] send show thesis by simp
qed

lemma append_logs:
  "e' \<in> fst ` set (snd (redis_append api cfg e body st)) \<Longrightarrow> e' = e \<or> e' \<in> fst ` set (snd st)"
  by (auto simp: redis_append_def split: prod.splits if_splits)

text \<open>The new entries are those of the rows.\<close>

lemma redis_send_logs:
  assumes "redis_send api isof dumps cfg env d k rows st = (st', stop)" and "e \<in> fst ` set (snd st')"
  shows "e \<in> fst ` set (snd st) \<or>
    (\<exists>r \<in> set rows. \<exists>ev. ob_payload (snd r) = Completed ev \<and> event_id ev = e)"
  using assms
proof (induction rows arbitrary: k st)
  case (Cons r rows)
  obtain i row where r: "r = (i, row)" by (cases r)
  show ?case
  proof (cases "redis_payload isof (rv_scan env) cfg (rv_now env k) row d")
    case (Inl x)
    with Cons.prems r show ?thesis by auto
  next
    case (Inr m)
    let ?st = "redis_append api cfg (rj_event_id m) (dumps m) st"
    have new: "e \<in> fst ` set (snd ?st) \<Longrightarrow> e \<in> fst ` set (snd st) \<or>
        (\<exists>ev. ob_payload row = Completed ev \<and> event_id ev = e)"
      using payload_event [OF Inr] append_logs by metis
    show ?thesis
    proof (cases "rv_redis env k")
      case (RedisFails x executed)
      with Cons.prems Inr r new show ?thesis by (cases executed) auto
    next
      case RedisOk
      with Cons.prems(1) Inr r have "redis_send api isof dumps cfg env d (Suc k) rows ?st = (st', stop)"
        by simp
      from Cons.IH [OF this Cons.prems(2)] new show ?thesis by (auto simp: r)
    qed
  qed
qed simp

lemma body_image:
  assumes "map row_body t' = map row_body t"
  shows "fst ` set t' = fst ` set t"
proof -
  have "map fst u = map fst (map row_body u)" for u by (simp add: row_body_def)
  with assms have "map fst t' = map fst t" by metis
  then show ?thesis by (metis set_map)
qed

lemma rows_ok_body:
  assumes "map row_body (redis_entries cfg d') = map row_body (redis_entries cfg d)"
    and "risk_scores d' = risk_scores d" and "rows_ok cfg parse records d"
  shows "rows_ok cfg parse records d'"
  unfolding rows_ok_def
proof
  fix r'
  assume "r' \<in> set (redis_entries cfg d')"
  then have "row_body r' \<in> set (map row_body (redis_entries cfg d))" by (simp add: assms(1) [symmetric])
  then obtain r where "r \<in> set (redis_entries cfg d)" "row_body r' = row_body r" by auto
  with assms(2,3) show "stream_row parse records d' r'"
    by (auto simp: rows_ok_def stream_row_def row_body_def score_reached_def)
qed

lemma redis_turn_keeps:
  assumes "redis_ok api" and inv: "projector_inv api cfg parse records st"
    and turn: "redis_turn api isof dumps collate cfg env (publisher st) = (rl, ex)"
  shows "projector_inv api cfg parse records (with_publisher rl st)"
proof -
  from turn obtain rows stop where rows: "rows = redis_rows collate (rv_locked env) (redis_topic cfg)
      (nat (outbox_batch_size cfg)) (pj_db st)"
    and send: "redis_send api isof dumps cfg env (pj_db st) 0 rows (pj_redis st, pj_log st) =
       ((rr_redis rl, rr_log rl), stop)"
    and db: "rr_db rl = pj_db st \<or> rr_db rl = mark_all (rv_clock env) rows (pj_db st)"
    by (rule redis_turn_shape) simp
  have body: "map row_body (redis_entries cfg (rr_db rl)) = map row_body (redis_entries cfg (pj_db st))"
    using db entries_marked by metis
  have scores: "risk_scores (rr_db rl) = risk_scores (pj_db st)"
    using db by (auto simp: mark_all_def)
  have "log_stored cfg (pj_db st) (rr_log rl)"
    unfolding log_stored_def
  proof
    fix e
    assume "e \<in> fst ` set (rr_log rl)"
    with redis_send_logs [OF send, of e] consider "e \<in> fst ` set (pj_log st)"
      | r ev where "r \<in> set rows" "ob_payload (snd r) = Completed ev" "event_id ev = e" by auto
    then show "''redis:'' @ e \<in> fst ` set (redis_entries cfg (pj_db st))"
    proof cases
      case 1
      with inv show ?thesis unfolding projector_inv_def log_stored_def by blast
    next
      case 2
      then have "r \<in> set (redis_entries cfg (pj_db st))"
        using redis_rows_sub [of "fst r" "snd r"]
        by (auto simp: rows redis_entries_def of_redis_def redis_pending_def)
      with 2 inv show ?thesis
        by (force simp: projector_inv_def rows_ok_def stream_row_def redis_outbox_id_def)
    qed
  qed
  then have "log_stored cfg (rr_db rl) (rr_log rl)"
    by (simp add: log_stored_def body_image [OF body])
  moreover have "redis_inv api cfg rl"
    using redis_turn_inv [OF assms(1) _ turn] inv by (simp add: projector_inv_def)
  moreover have "rows_ok cfg parse records (rr_db rl)"
    using rows_ok_body [OF body scores] inv by (simp add: projector_inv_def)
  ultimately show ?thesis by (simp add: projector_inv_def redis_inv_def)
qed

subsection \<open>A turn of the consumer\<close>

lemma consume_db:
  assumes "service_turn (projector_consume rt cfg parse) records env sv = (sv', ex)"
  shows "sv_db sv' = sv_db sv \<or>
    (\<exists>ev r. result_received parse records ev \<and> projector_work cfg ev env (sv_db sv) = Inr (sv_db sv', r))"
proof (cases "se_polled env \<and> sv_position sv < length records")
  case True
  let ?rec = "records ! sv_position sv" and ?sv = "sv\<lparr>sv_position := sv_position sv + 1\<rparr>"
  obtain sv1 ex1 where t: "try_record (decode_value parse valid_scoring_completed) (projector_work cfg)
      ?rec env ?sv = (sv1, ex1)" by fastforce
  have got: "result_received parse records ev"
    if "decode_value parse valid_scoring_completed (kr_value ?rec) = Inr ev" for ev
    using that True nth_mem unfolding result_received_def by blast
  from t have one: "sv_db sv1 = sv_db sv \<or> (\<exists>ev r. result_received parse records ev \<and>
      projector_work cfg ev env (sv_db sv) = Inr (sv_db sv1, r))"
    by (cases rule: try_record_cases) (auto dest: got)
  have "sv_db sv' = sv_db sv1"
  proof (cases ex1)
    case None
    with assms t True show ?thesis
      by (simp add: service_turn_def projector_consume_def consume_one_def)
  next
    case (Some x)
    show ?thesis
    proof (cases "projector_stage x")
      case None
      with assms t True Some show ?thesis
        by (auto simp: service_turn_def projector_consume_def consume_one_def count_failure_def Let_def)
    next
      case (Some stage)
      with assms t True \<open>ex1 = Some x\<close> have "dead_letter_record rt cfg ?rec stage x env sv1 = (sv', ex)"
        by (simp add: service_turn_def projector_consume_def consume_one_def)
      then show ?thesis by (cases rule: dead_letter_record_cases) auto
    qed
  qed
  with one show ?thesis by simp
next
  case False
  with assms show ?thesis by (auto simp: service_turn_def)
qed

lemma reached_mono:
  assumes "project_scoring_result topic c now ev' d = Inr (d', r)" and "score_reached ev d"
  shows "score_reached ev d'"
proof -
  from assms(2) obtain old where old: "map_of (risk_scores d) (score_key ev) = Some old"
    "score_wins old (score_of 0 ev)" by (auto simp: score_reached_def split: option.splits)
  from rows_leD [OF project_scores_le [OF assms(1)] old(1)] obtain new where
    "map_of (risk_scores d') (score_key ev) = Some new" "score_wins new old" by blast
  with old(2) show ?thesis by (auto simp: score_reached_def score_wins_def)
qed

lemma projected_reaches: "supersedes ev d \<Longrightarrow> score_reached ev (projected topic c now ev d)"
  by (simp add: score_reached_def projected_lookup split: option.splits)
    (simp add: score_wins_def score_merge_def score_of_def Let_def)

lemma stream_row_mono:
  assumes "project_scoring_result topic c now ev d = Inr (d', r)" and "stream_row parse records d x"
  shows "stream_row parse records d' x"
  using assms(2) reached_mono [OF assms(1)] unfolding stream_row_def by blast

text \<open>What a projection adds to the rows of the stream.\<close>

lemma projected_entries:
  assumes "map_of (outbox_events d) (redis_outbox_id ev) = None"
  shows "redis_entries cfg (projected (redis_topic cfg) c now ev d) =
    redis_entries cfg d @ [(redis_outbox_id ev, redis_outbox_entry (redis_topic cfg) now ev)]"
  using assms
  by (simp add: redis_entries_def projected_def claimed_by_def insert_nothing_def of_redis_def
      redis_outbox_entry_def)

lemma work_keeps_inv:
  assumes "projector_work cfg ev env (pj_db st) = Inr (d, r)" and got: "result_received parse records ev"
    and inv: "projector_inv api cfg parse records st"
  shows "projector_inv api cfg parse records (set_db d st)"
proof -
  let ?d = "pj_db st" and ?now = "env_now (se_txn env)" and ?c = "result_projector_group cfg"
  have p: "project_scoring_result (redis_topic cfg) ?c ?now ev ?d = Inr (d, r)"
    using assms(1) by (simp add: projector_work_def)
  then show ?thesis
  proof (cases rule: project_cases)
    case seen
    then have "elsewhere cfg ?d d" by (simp add: elsewhere_def)
    then show ?thesis by (rule elsewhere_inv [OF _ inv])
  next
    case stale
    then have "elsewhere cfg ?d d" by (simp add: elsewhere_def claimed_by_def)
    then show ?thesis by (rule elsewhere_inv [OF _ inv])
  next
    case canonical
    let ?new = "(redis_outbox_id ev, redis_outbox_entry (redis_topic cfg) ?now ev)"
    have ok: "table_ok (outbox_events d)"
      using inv by (simp add: projector_inv_def redis_inv_def canonical(4) projected_def)
    have sub: "set (redis_entries cfg ?d) \<subseteq> set (redis_entries cfg d)"
      and new: "set (redis_entries cfg d) \<subseteq> insert ?new (set (redis_entries cfg ?d))"
    proof (atomize (full), cases "map_of (outbox_events ?d) (redis_outbox_id ev)")
      case None
      from projected_entries [OF this] show "set (redis_entries cfg ?d) \<subseteq> set (redis_entries cfg d) \<and>
          set (redis_entries cfg d) \<subseteq> insert ?new (set (redis_entries cfg ?d))"
        by (auto simp: canonical(4))
    next
      case (Some row)
      then show "set (redis_entries cfg ?d) \<subseteq> set (redis_entries cfg d) \<and>
          set (redis_entries cfg d) \<subseteq> insert ?new (set (redis_entries cfg ?d))"
        by (auto simp: canonical(4) redis_entries_def projected_def claimed_by_def insert_nothing_def)
    qed
    have "stream_row parse records d ?new"
      using got projected_reaches [OF canonical(3)]
      by (simp add: stream_row_def redis_outbox_entry_def canonical(4))
    then have rows: "rows_ok cfg parse records d"
      using inv new stream_row_mono [OF p] unfolding projector_inv_def rows_ok_def by blast
    have log: "log_stored cfg d (pj_log st)"
      using inv sub unfolding projector_inv_def log_stored_def by blast
    have "ob_published_at row \<noteq> None \<longrightarrow> logged (pj_log st) row" if "(i, row) \<in> set (redis_entries cfg d)" for i row
    proof (cases "(i, row) = ?new")
      case True
      then show ?thesis by (simp add: redis_outbox_entry_def)
    next
      case False
      with that new inv show ?thesis by (fastforce simp: projector_inv_def redis_inv_entries)
    qed
    then have "redis_inv api cfg (publisher (set_db d st))"
      using inv ok by (simp add: projector_inv_def redis_inv_entries) blast
    with rows log show ?thesis by (simp add: projector_inv_def)
  qed
qed

lemma consumer_keeps:
  assumes "service_turn (projector_consume rt cfg parse) records env (pj_service st) = (sv, ex)"
    and inv: "projector_inv api cfg parse records st"
  shows "projector_inv api cfg parse records (st\<lparr>pj_service := sv\<rparr>)"
proof -
  have "projector_inv api cfg parse records (set_db (sv_db sv) st)"
    using consume_db [OF assms(1)]
  proof
    assume "sv_db sv = sv_db (pj_service st)"
    then show ?thesis using inv by (simp add: set_db_def)
  next
    assume "\<exists>ev r. result_received parse records ev \<and>
      projector_work cfg ev env (sv_db (pj_service st)) = Inr (sv_db sv, r)"
    then show ?thesis using work_keeps_inv [OF _ _ inv] by (auto simp: pj_db_def)
  qed
  then show ?thesis by (rule projector_inv_cong) (simp_all add: pj_db_def set_db_def)
qed

subsection \<open>The entries in Redis\<close>

text \<open>The stream is the log without a first part, which the length bound has trimmed.\<close>

definition stream_tags :: "stream_entry list \<Rightarrow> (string option \<times> string) list" where
  "stream_tags s = map (\<lambda>(i, fields). (map_of fields ''event_id'', i)) s"

definition stream_suffix :: "'r redis_api \<Rightarrow> settings \<Rightarrow> 'r \<times> (string \<times> string) list \<Rightarrow> bool" where
  "stream_suffix api cfg st \<longleftrightarrow> (\<exists>n. stream_tags (ra_stream api (redis_stream_key cfg) (fst st)) =
     drop n (map (\<lambda>(e, i). (Some e, i)) (snd st)))"

lemma append_suffix:
  assumes "redis_ok api" and "stream_suffix api cfg st"
  shows "stream_suffix api cfg (redis_append api cfg e body st)"
proof -
  let ?key = "redis_stream_key cfg"
  obtain i r where p: "publish_result_to_stream api ?key (redis_stream_maxlen cfg) e body
      86400 (fst st) = (i, r)" by fastforce
  show ?thesis
  proof (cases "ra_get api (dedup_key ?key e) (fst st)")
    case None
    from publish_new(3) [OF assms(1) None p] obtain m where
      s: "ra_stream api ?key r = drop m (ra_stream api ?key (fst st)) @
        [(i, [(''event'', body), (''event_id'', e)])]" by blast
    from assms(2) obtain n where
      n: "stream_tags (ra_stream api ?key (fst st)) = drop n (map (\<lambda>(e, i). (Some e, i)) (snd st))"
      unfolding stream_suffix_def by blast
    let ?l = "map (\<lambda>(e, i). (Some e, i)) (snd st)" and ?k = "min (m + n) (length (snd st))"
    have "stream_tags (ra_stream api ?key r) = drop m (drop n ?l) @ [(Some e, i)]"
      using n by (simp add: s stream_tags_def drop_map [symmetric])
    also have "\<dots> = drop ?k (?l @ [(Some e, i)])" by (simp add: min_def)
    finally show ?thesis
      using p None by (auto simp: redis_append_def stream_suffix_def intro!: exI [of _ ?k])
  next
    case (Some j)
    with p assms(2) show ?thesis by (auto simp: redis_append_def publish_known)
  qed
qed

lemma send_suffix:
  "redis_ok api \<Longrightarrow> stream_suffix api cfg st \<Longrightarrow>
     stream_suffix api cfg (fst (redis_send api isof dumps cfg env d k rows st))"
proof (induction rows arbitrary: k st)
  case (Cons r rows)
  then show ?case
    by (cases r) (auto simp: append_suffix split: sum.splits redis_fate.splits)
qed simp

subsection \<open>Every run\<close>

definition service_inv ::
  "'r redis_api \<Rightarrow> settings \<Rightarrow> (bytes \<Rightarrow> scoring_completed option) \<Rightarrow> kafka_record list
     \<Rightarrow> 'r projector \<Rightarrow> bool"
where
  "service_inv api cfg parse records st \<longleftrightarrow> projector_inv api cfg parse records st \<and>
     stream_suffix api cfg (pj_redis st, pj_log st)"

lemma service_inv_cong:
  "service_inv api cfg parse records st \<Longrightarrow> pj_db st' = pj_db st \<Longrightarrow> pj_redis st' = pj_redis st \<Longrightarrow>
     pj_log st' = pj_log st \<Longrightarrow> service_inv api cfg parse records st'"
  unfolding service_inv_def using projector_inv_cong by metis

lemma publisher_keeps:
  assumes "redis_ok api" and inv: "service_inv api cfg parse records st"
    and turn: "redis_turn api isof dumps collate cfg env (publisher st) = (rl, ex)"
  shows "service_inv api cfg parse records (with_publisher rl st)"
proof -
  from turn obtain rows stop where "redis_send api isof dumps cfg env (pj_db st) 0 rows (pj_redis st, pj_log st) =
       ((rr_redis rl, rr_log rl), stop)"
    by (rule redis_turn_shape) simp
  with send_suffix [OF assms(1), of cfg "(pj_redis st, pj_log st)" isof dumps env "pj_db st" 0 rows] inv
  have "stream_suffix api cfg (rr_redis rl, rr_log rl)" by (simp add: service_inv_def)
  with redis_turn_keeps [OF assms(1) _ turn] inv show ?thesis by (simp add: service_inv_def)
qed

lemma consumer_keeps_service:
  assumes "service_turn (projector_consume rt cfg parse) records env (pj_service st) = (sv, ex)"
    and "service_inv api cfg parse records st"
  shows "service_inv api cfg parse records (st\<lparr>pj_service := sv\<rparr>)"
  using consumer_keeps [OF assms(1)] assms(2) by (simp add: service_inv_def)

lemma service_step_keeps:
  assumes api: "redis_ok api"
    and "projector_step rt api isof dumps collate cfg parse records st st'"
    and inv: "service_inv api cfg parse records st"
  shows "service_inv api cfg parse records st'"
  using assms(2)
proof (cases rule: projector_step.cases)
  case (consumes env)
  obtain sv ex where t: "service_turn (projector_consume rt cfg parse) records env (pj_service st) = (sv, ex)"
    by fastforce
  show ?thesis
    by (rule service_inv_cong [OF consumer_keeps_service [OF t inv]])
      (simp_all add: consumes consumer_turn_def t pj_db_def)
next
  case (publishes renv)
  obtain rl ex where t: "redis_turn api isof dumps collate cfg renv (publisher st) = (rl, ex)" by fastforce
  show ?thesis
    by (rule service_inv_cong [OF publisher_keeps [OF api inv t]])
      (simp_all add: publishes publisher_turn_def t pj_db_def with_publisher_def set_db_def)
next
  case (consumer_cut ex env)
  obtain sv x where t: "service_turn (projector_consume rt cfg parse) records env (pj_service st) = (sv, x)"
    by fastforce
  show ?thesis
    by (rule service_inv_cong [OF consumer_keeps_service [OF t inv]])
      (simp_all add: consumer_cut cut_consumer_def t pj_db_def)
next
  case (publisher_cut ex renv)
  obtain rl x where t: "redis_turn api isof dumps collate cfg renv (publisher st) = (rl, x)" by fastforce
  show ?thesis
    by (rule service_inv_cong [OF publisher_keeps [OF api inv t]])
      (simp_all add: publisher_cut cut_publisher_def t pj_db_def with_publisher_def set_db_def)
next
  case (others_write d)
  then show ?thesis
    using elsewhere_inv [OF others_write(2)] inv by (simp add: service_inv_def)
qed (auto intro!: service_inv_cong [OF inv] simp: pj_db_def start_projector_def restarted_def poll_raises_def)

lemma service_reach_keeps:
  "projector_reach rt api isof dumps collate cfg parse records st st' \<Longrightarrow> redis_ok api \<Longrightarrow>
     service_inv api cfg parse records st \<Longrightarrow> service_inv api cfg parse records st'"
  by (induction rule: projector_reach.induct) (auto intro: service_step_keeps)

text \<open>A first deployment: no row and no marker of the stream, the process not started.\<close>

definition fresh_projector :: "'r redis_api \<Rightarrow> settings \<Rightarrow> 'r projector \<Rightarrow> bool" where
  "fresh_projector api cfg st \<longleftrightarrow> pj_phase st = Down None \<and> pj_log st = [] \<and>
     redis_entries cfg (pj_db st) = [] \<and> table_ok (outbox_events (pj_db st)) \<and>
     ra_stream api (redis_stream_key cfg) (pj_redis st) = [] \<and>
     (\<forall>e. ra_get api (dedup_key (redis_stream_key cfg) e) (pj_redis st) = None)"

lemma fresh_inv_service: "fresh_projector api cfg st \<Longrightarrow> service_inv api cfg parse records st"
  by (simp add: fresh_projector_def service_inv_def projector_inv_def redis_inv_entries log_ok_def
      rows_ok_def log_stored_def stream_suffix_def stream_tags_def)

text \<open>
  C7. The live stream shows canonical results, each once. From a first deployment on, however the two
  tasks of the projector, the writes of the other services, failures of Kafka, Redis and the
  database, stops, crashes and restarts interleave: no event was appended twice, and the stream is
  what was appended, up to trimming. Each event appended is a result received from Kafka whose score,
  or one at least as new, is stored. A row marked as published has been appended; so when no row is
  pending, what was appended is exactly the results that have a row. (The markers live for a day and
  must not expire in between.)
\<close>

theorem stream_shows_canonical_results:
  assumes "redis_ok api" and "fresh_projector api cfg st"
    and "projector_reach rt api isof dumps collate cfg parse records st st'"
  shows "distinct (map fst (pj_log st')) \<and>
    stream_suffix api cfg (pj_redis st', pj_log st') \<and>
    (\<forall>e \<in> fst ` set (pj_log st'). \<exists>ev. event_id ev = e \<and> result_received parse records ev \<and>
       score_reached ev (pj_db st')) \<and>
    (\<forall>r \<in> set (redis_entries cfg (pj_db st')). ob_published_at (snd r) \<noteq> None \<longrightarrow>
       logged (pj_log st') (snd r)) \<and>
    ((\<forall>r \<in> set (redis_entries cfg (pj_db st')). ob_published_at (snd r) \<noteq> None) \<longrightarrow>
       (\<lambda>e. ''redis:'' @ e) ` fst ` set (pj_log st') = fst ` set (redis_entries cfg (pj_db st')))"
proof -
  let ?rows = "set (redis_entries cfg (pj_db st'))" and ?ids = "fst ` set (pj_log st')"
  have inv: "projector_inv api cfg parse records st'" "stream_suffix api cfg (pj_redis st', pj_log st')"
    using service_reach_keeps [OF assms(3,1) fresh_inv_service [OF assms(2)]] by (simp_all add: service_inv_def)
  have dist: "distinct (map fst (pj_log st'))"
    using inv(1) by (simp add: projector_inv_def redis_inv_def log_ok_def)
  have row: "stream_row parse records (pj_db st') r" if "r \<in> ?rows" for r
    using inv(1) that by (simp add: projector_inv_def rows_ok_def)
  have stored: "''redis:'' @ e \<in> fst ` ?rows" if "e \<in> ?ids" for e
    using inv(1) that unfolding projector_inv_def log_stored_def by blast
  have shown: "\<exists>ev. event_id ev = e \<and> result_received parse records ev \<and> score_reached ev (pj_db st')"
    if "e \<in> ?ids" for e
    using stored [OF that] row by (fastforce simp: stream_row_def redis_outbox_id_def)
  have marked: "logged (pj_log st') (snd r)" if "r \<in> ?rows" "ob_published_at (snd r) \<noteq> None" for r
    using inv(1) that by (auto simp: projector_inv_def redis_inv_entries case_prod_beta)
  have "fst r \<in> (\<lambda>e. ''redis:'' @ e) ` ?ids" if "r \<in> ?rows" "ob_published_at (snd r) \<noteq> None" for r
  proof -
    from row [OF that(1)] obtain ev where ev: "ob_payload (snd r) = Completed ev" "fst r = ''redis:'' @ event_id ev"
      unfolding stream_row_def redis_outbox_id_def by blast
    with marked [OF that] have "event_id ev \<in> ?ids" by (simp add: logged_def)
    then show ?thesis unfolding ev(2) by (rule imageI)
  qed
  note drained = this
  have all: "(\<lambda>e. ''redis:'' @ e) ` ?ids = fst ` ?rows"
    if "\<forall>r \<in> ?rows. ob_published_at (snd r) \<noteq> None"
  proof (rule equalityI)
    show "(\<lambda>e. ''redis:'' @ e) ` ?ids \<subseteq> fst ` ?rows" by (rule image_subsetI) (rule stored)
    show "fst ` ?rows \<subseteq> (\<lambda>e. ''redis:'' @ e) ` ?ids"
      by (rule image_subsetI) (rule drained, assumption, rule bspec [OF that])
  qed
  have each: "\<forall>e \<in> ?ids. \<exists>ev. event_id ev = e \<and> result_received parse records ev \<and>
      score_reached ev (pj_db st')" by (rule ballI) (rule shown)
  have pub: "\<forall>r \<in> ?rows. ob_published_at (snd r) \<noteq> None \<longrightarrow> logged (pj_log st') (snd r)"
    by (rule ballI, rule impI) (rule marked)
  show ?thesis
    by (rule conjI [OF dist conjI [OF inv(2) conjI [OF each conjI [OF pub impI [OF all]]]]])
qed

text \<open>One result is received, projected and published.\<close>

definition idle_projector :: "sample_redis projector" where
  "idle_projector = \<lparr>pj_service = fresh_service db_ab, pj_redis = no_redis, pj_failures = 0, pj_log = [],
     pj_consuming = False, pj_publishing = False, pj_phase = Down None\<rparr>"

lemma fresh_idle: "fresh_projector sample_redis_api projector_cfg idle_projector"
  by (simp add: fresh_projector_def idle_projector_def pj_db_def fresh_service_def redis_entries_def
      empty_scores sample_redis_api_def no_redis_def)

lemma sample_published:
  fixes ev
  defines "ev \<equiv> sample_result (CHR ''1'') ''a'' (3/10) 1 4"
  assumes "rr_db rl = projected (redis_topic projector_cfg) c now ev db_ab" and "rr_redis rl = no_redis"
    and "rr_log rl = []"
  shows "map fst (rr_log (fst (redis_turn sample_redis_api (\<lambda>_. ''t'') (\<lambda>_. ''{}'') id projector_cfg
    (sample_redis_env RedisOk) rl))) = [event_id ev]"
proof -
  let ?row = "redis_outbox_entry (redis_topic projector_cfg) now ev"
  have tx: "has_tx (rr_db rl) (res_tx_id (payload ev))"
    using has_tx_ab by (simp add: assms(2) projected_def claimed_by_def has_tx_def ev_def sample_result_def)
  have rows: "redis_rows id (\<lambda>_. False) (redis_topic projector_cfg) 100 (rr_db rl) = [(redis_outbox_id ev, ?row)]"
    by (simp add: assms(2) redis_rows_def projected_def claimed_by_def empty_scores insert_nothing_def
        redis_pending_def redis_outbox_entry_def)
  have "valid_scoring_completed ev"
    using valid_sample_result [of "''a''" "3/10" 1 "CHR ''1''" 4] by (simp add: ev_def)
  moreover have "is_aware (res_scored_at (payload ev))" "is_aware (res_source_ingested_at (payload ev))"
    by (simp_all add: ev_def sample_result_def)
  ultimately obtain m where m: "redis_payload (\<lambda>_. ''t'') id projector_cfg 10 ?row (rr_db rl) = Inr m"
    "rj_event_id m = event_id ev"
    using result_publishable [OF _ _ _ tx] by blast
  obtain i r where p: "publish_result_to_stream sample_redis_api (redis_stream_key projector_cfg)
      (redis_stream_maxlen projector_cfg) (event_id ev) ''{}'' 86400 no_redis = (i, r)" by fastforce
  have "redis_append sample_redis_api projector_cfg (event_id ev) ''{}'' (no_redis, []) = (r, [(event_id ev, i)])"
    by (simp add: redis_append_def p, simp add: sample_redis_api_def no_redis_def)
  moreover have "outbox_batch_size projector_cfg = 100" by (simp add: projector_cfg_def default_settings_def)
  ultimately show ?thesis
    using m by (simp add: redis_turn_def rows sample_redis_env_def Let_def assms(3,4))
qed

theorem stream_shows_canonical_results_witness:
  "\<exists>st'. projector_reach sample_runtime sample_redis_api (\<lambda>_. ''t'') (\<lambda>_. ''{}'') id projector_cfg result_parse
       [graph_record 0 ''r''] idle_projector st' \<and> length (pj_log st') = 1 \<and>
     stream_suffix sample_redis_api projector_cfg (pj_redis st', pj_log st')"
proof -
  let ?ev = "sample_result (CHR ''1'') ''a'' (3/10) 1 4" and ?rs = "[graph_record 0 ''r'']"
  let ?reach = "projector_reach sample_runtime sample_redis_api (\<lambda>_. ''t'') (\<lambda>_. ''{}'') id projector_cfg
    result_parse ?rs idle_projector"
  let ?st1 = "start_projector idle_projector"
  let ?st2 = "consumer_turn sample_runtime projector_cfg result_parse ?rs (step_with DbCommits) ?st1"
  let ?st3 = "publisher_turn sample_redis_api (\<lambda>_. ''t'') (\<lambda>_. ''{}'') id projector_cfg
    (sample_redis_env RedisOk) ?st2"
  let ?d = "projected (redis_topic projector_cfg) (result_projector_group projector_cfg) 5 ?ev db_ab"
  have sv: "pj_service ?st1 = fresh_service db_ab"
    by (simp add: start_projector_def idle_projector_def restarted_def fresh_service_def)
  have dec: "decode_value result_parse valid_scoring_completed (kr_value (graph_record 0 ''r'')) = Inr ?ev"
    using valid_sample_result [of "''a''" "3/10" 1 "CHR ''1''" 4]
    by (simp add: decode_value_def graph_record_def result_parse_def)
  have ok: "projector_work projector_cfg ?ev (step_with DbCommits) db_ab = Inr (?d, True)"
    using sample_projected [of "3/10" 1] by (simp add: projector_work_def step_with_def sample_env_def)
  have turn: "service_turn (projector_consume sample_runtime projector_cfg result_parse) ?rs
      (step_with DbCommits) (pj_service ?st1) =
    ((fresh_service db_ab)\<lparr>sv_position := 1, sv_db := ?d, sv_committed := 1, sv_failures := 0\<rparr>, None)"
    using turn_success [of "step_with DbCommits" "fresh_service db_ab" ?rs
        "decode_value result_parse valid_scoring_completed" ?ev "projector_work projector_cfg" ?d True] ok dec
    by (simp add: sv projector_consume_def) (simp add: fresh_service_def step_with_def graph_record_def)
  have st2: "pj_db ?st2 = ?d" "pj_redis ?st2 = no_redis" "pj_log ?st2 = []" "pj_publishing ?st2"
    "pj_phase ?st2 = Serving"
    by (simp_all only: consumer_turn_def turn prod.case)
      (simp_all add: pj_db_def start_projector_def idle_projector_def after_turn_of_def)
  have log: "length (pj_log ?st3) = 1"
    using sample_published [of "publisher ?st2" "result_projector_group projector_cfg" 5] st2(1-3)
    by (auto simp: publisher_turn_def split: prod.splits dest: arg_cong [of _ _ length])
  have "?reach ?st1"
    by (rule one_more [OF at_start restarts [of _ None]]) (simp add: idle_projector_def)
  then have "?reach ?st2"
    by (rule one_more [OF _ consumes]) (simp_all add: start_projector_def)
  then have reach: "?reach ?st3" by (rule one_more [OF _ publishes]) (simp_all add: st2)
  note shown = stream_shows_canonical_results [OF sample_redis_ok fresh_idle reach]
  show ?thesis
    by (rule exI [of _ ?st3], rule conjI [OF reach conjI [OF log shown [THEN conjunct2, THEN conjunct1]]])
qed

end
