(* ===== verification/Broadcaster.thy ===== *)
theory Broadcaster
  imports Redis_Stream Settings Flow "HOL-Library.AList"
begin

text \<open>
  \<open>services/api_gateway/broadcaster.py\<close>: stream ids, the registered clients with their bounded
  queues, the task that tails the Redis Stream and fans its entries out. \<open>loads\<close> is \<open>json.loads\<close>;
  a reply of Redis is an input. Tracing of a message is taken not to fail.
\<close>

subsection \<open>Stream ids\<close>

definition is_digit :: "char \<Rightarrow> bool" where
  "is_digit c \<longleftrightarrow> 48 \<le> (of_char c :: nat) \<and> (of_char c :: nat) \<le> 57"

definition int_space :: "char \<Rightarrow> bool" where
  "int_space c \<longleftrightarrow> (of_char c :: nat) \<in> {9, 10, 11, 12, 13, 28, 29, 30, 31, 32, 133, 160}"

text \<open>The decimal digits \<open>int(s)\<close> accepts: single underscores may stand between digits.\<close>

fun int_body :: "bool \<Rightarrow> nat \<Rightarrow> string \<Rightarrow> nat option" where
  "int_body seen a [] = (if seen then Some a else None)"
| "int_body seen a (c # cs) =
     (if is_digit c then int_body True (10 * a + digit_val c) cs
      else if c = CHR ''_'' \<and> seen then int_body False a cs else None)"

definition strip :: "string \<Rightarrow> string" where
  "strip s = rev (dropWhile int_space (rev (dropWhile int_space s)))"

definition py_int :: "string \<Rightarrow> int result" where
  "py_int s =
     (let t = strip s;
          v = (case t of
                 [] \<Rightarrow> None
               | c # r \<Rightarrow> if c = CHR ''-'' then map_option (\<lambda>n. - int n) (int_body False 0 r)
                          else if c = CHR ''+'' then map_option int (int_body False 0 r)
                          else map_option int (int_body False 0 t))
      in case v of None \<Rightarrow> Inl (ValueError ''invalid literal for int() with base 10'') | Some i \<Rightarrow> Inr i)"

definition stream_id_tuple :: "string \<Rightarrow> (int \<times> int) result" where
  "stream_id_tuple stream_id =
     (case dropWhile (\<lambda>c. c \<noteq> CHR ''-'') stream_id of
        [] \<Rightarrow> Inl (ValueError ''not enough values to unpack (expected 2, got 1)'')
      | _ # sequence \<Rightarrow>
          rbind (py_int (takeWhile (\<lambda>c. c \<noteq> CHR ''-'') stream_id)) (\<lambda>ms.
          rbind (py_int sequence) (\<lambda>sq. Inr (ms, sq))))"

subsection \<open>Clients\<close>

type_synonym ws_message = "(string \<times> json) list"

record stream_client =
  cl_maxsize :: int
  cl_queue :: "(string \<times> ws_message) list"
  cl_closed :: bool

definition new_client :: "int \<Rightarrow> stream_client" where
  "new_client queue_size = \<lparr>cl_maxsize = queue_size, cl_queue = [], cl_closed = False\<rparr>"

text \<open>An \<open>asyncio.Queue\<close> is unbounded unless its size is positive.\<close>

definition put_nowait :: "string \<times> ws_message \<Rightarrow> stream_client \<Rightarrow> stream_client option" where
  "put_nowait x cl =
     (if 0 < cl_maxsize cl \<and> cl_maxsize cl \<le> int (length (cl_queue cl)) then None
      else Some (cl\<lparr>cl_queue := cl_queue cl @ [x]\<rparr>))"

text \<open>
  Clients are objects: \<open>bc_objects\<close> holds every client created, numbered in order, \<open>bc_clients\<close> is
  the set of those registered. A handler may still hold a client that is no longer registered.
\<close>

record broadcaster =
  bc_clients :: "nat list"
  bc_objects :: "nat \<Rightarrow> stream_client"
  bc_next :: nat
  bc_cursor :: string
  bc_stopped :: bool

definition new_broadcaster :: broadcaster where
  "new_broadcaster = \<lparr>bc_clients = [], bc_objects = (\<lambda>_. new_client 0), bc_next = 0,
     bc_cursor = ''$'', bc_stopped = False\<rparr>"

definition set_client :: "nat \<Rightarrow> stream_client \<Rightarrow> broadcaster \<Rightarrow> broadcaster" where
  "set_client c cl b = b\<lparr>bc_objects := (bc_objects b)(c := cl)\<rparr>"

definition register :: "settings \<Rightarrow> broadcaster \<Rightarrow> (nat \<times> broadcaster) result" where
  "register cfg b =
     (if websocket_max_clients cfg \<le> int (length (bc_clients b))
      then Inl (RuntimeError ''gateway WebSocket capacity reached'')
      else Inr (bc_next b,
             (set_client (bc_next b) (new_client (websocket_client_queue_size cfg)) b)
               \<lparr>bc_clients := bc_clients b @ [bc_next b], bc_next := Suc (bc_next b)\<rparr>))"

definition discard :: "nat \<Rightarrow> broadcaster \<Rightarrow> broadcaster" where
  "discard c b =
     (set_client c (bc_objects b c\<lparr>cl_closed := True\<rparr>) b)\<lparr>bc_clients := removeAll c (bc_clients b)\<rparr>"

definition unregister :: "nat \<Rightarrow> broadcaster \<Rightarrow> broadcaster" where
  "unregister c b = discard c b"

definition stop_broadcaster :: "broadcaster \<Rightarrow> broadcaster" where
  "stop_broadcaster b =
     (fold (\<lambda>c b. set_client c (bc_objects b c\<lparr>cl_closed := True\<rparr>) b) (bc_clients b)
        (b\<lparr>bc_stopped := True\<rparr>))\<lparr>bc_clients := []\<rparr>"

text \<open>\<open>client.queue.get()\<close> when a message is there.\<close>

definition queue_get :: "nat \<Rightarrow> broadcaster \<Rightarrow> ((string \<times> ws_message) \<times> broadcaster) option" where
  "queue_get c b =
     (case cl_queue (bc_objects b c) of
        [] \<Rightarrow> None
      | x # q \<Rightarrow> Some (x, set_client c (bc_objects b c\<lparr>cl_queue := q\<rparr>) b))"

subsection \<open>Fan-out\<close>

definition offer :: "string \<times> ws_message \<Rightarrow> nat \<Rightarrow> broadcaster \<Rightarrow> broadcaster" where
  "offer x c b =
     (case put_nowait x (bc_objects b c) of
        Some cl \<Rightarrow> set_client c cl b
      | None \<Rightarrow> discard c b)"

definition broadcast :: "string \<Rightarrow> ws_message \<Rightarrow> broadcaster \<Rightarrow> broadcaster" where
  "broadcast stream_id m b = fold (offer (stream_id, m)) (bc_clients b) b"

subsection \<open>Replay and tail\<close>

text \<open>An empty \<open>event\<close> field counts as missing.\<close>

definition decode_entry :: "(string \<Rightarrow> json result) \<Rightarrow> stream_entry \<Rightarrow> (string \<times> ws_message) result" where
  "decode_entry loads entry =
     (case map_of (snd entry) ''event'' of
        None \<Rightarrow> Inl (TypeError ''the JSON object must be str, bytes or bytearray, not NoneType'')
      | Some raw \<Rightarrow>
          if raw = [] then Inl (TypeError ''the JSON object must be str, bytes or bytearray, not NoneType'')
          else rbind (loads raw) (\<lambda>v.
            case v of
              JObj m \<Rightarrow> Inr (fst entry, AList.update ''stream_id'' (JStr (fst entry)) m)
            | _ \<Rightarrow> Inl (TypeError ''object does not support item assignment'')))"

fun decode_all :: "(string \<Rightarrow> json result) \<Rightarrow> stream_entry list \<Rightarrow> (string \<times> ws_message) list result" where
  "decode_all loads [] = Inr []"
| "decode_all loads (e # es) =
     rbind (decode_entry loads e) (\<lambda>x. rbind (decode_all loads es) (\<lambda>xs. Inr (x # xs)))"

text \<open>\<open>xrange key min count\<close> and \<open>xrevrange key count\<close> are the calls to Redis.\<close>

definition replay_after ::
  "(string \<Rightarrow> json result) \<Rightarrow> (string \<Rightarrow> string \<Rightarrow> int \<Rightarrow> stream_entry list result) \<Rightarrow> settings \<Rightarrow> string
     \<Rightarrow> (string \<times> ws_message) list result"
where
  "replay_after loads xrange cfg last_event_id =
     rbind (xrange (redis_stream_key cfg) (CHR ''('' # last_event_id) (redis_replay_limit cfg))
       (decode_all loads)"

definition replay_recent ::
  "(string \<Rightarrow> json result) \<Rightarrow> (string \<Rightarrow> int \<Rightarrow> stream_entry list result) \<Rightarrow> settings
     \<Rightarrow> (string \<times> ws_message) list result"
where
  "replay_recent loads xrevrange cfg =
     rbind (xrevrange (redis_stream_key cfg) (redis_replay_limit cfg)) (\<lambda>rows. decode_all loads (rev rows))"

fun tail_entries ::
  "(string \<Rightarrow> json result) \<Rightarrow> stream_entry list \<Rightarrow> broadcaster \<Rightarrow> broadcaster \<times> exn option"
where
  "tail_entries loads [] b = (b, None)"
| "tail_entries loads (e # es) b =
     (case decode_entry loads e of
        Inl x \<Rightarrow> (b, Some x)
      | Inr (decoded_id, m) \<Rightarrow>
          let b1 = b\<lparr>bc_cursor := decoded_id\<rparr>
          in case stream_id_tuple decoded_id of
               Inl x \<Rightarrow> (b1, Some x)
             | Inr _ \<Rightarrow> tail_entries loads es (broadcast decoded_id m b1))"

definition tail_backoff :: "nat \<Rightarrow> rat" where
  "tail_backoff failures = min (1 / 2 * 2 ^ min (failures - 1) 4) 5"

text \<open>
  One turn: \<open>xread cursor\<close> is the reply to the blocking read. The result is the broadcaster, the
  count of consecutive failures and the sleep after a failure.
\<close>

definition tail_turn ::
  "(string \<Rightarrow> json result) \<Rightarrow> (string \<Rightarrow> stream_entry list result) \<Rightarrow> broadcaster \<times> nat
     \<Rightarrow> (broadcaster \<times> nat) \<times> rat option"
where
  "tail_turn loads xread st =
     (case xread (bc_cursor (fst st)) of
        Inl x \<Rightarrow> ((fst st, Suc (snd st)), Some (tail_backoff (Suc (snd st))))
      | Inr entries \<Rightarrow>
          (case tail_entries loads entries (fst st) of
             (b, None) \<Rightarrow> ((b, 0), None)
           | (b, Some x) \<Rightarrow> ((b, Suc (snd st)), Some (tail_backoff (Suc (snd st))))))"

fun tail_run ::
  "(string \<Rightarrow> json result) \<Rightarrow> (string \<Rightarrow> stream_entry list result) list \<Rightarrow> broadcaster \<times> nat
     \<Rightarrow> broadcaster \<times> nat"
where
  "tail_run loads [] st = st"
| "tail_run loads (xread # xreads) st =
     (if bc_stopped (fst st) then st else tail_run loads xreads (fst (tail_turn loads xread st)))"

end
