(* ===== verification/Broadcaster_Props.thy ===== *)
theory Broadcaster_Props
  imports Broadcaster
begin

text \<open>
  What the broadcaster guarantees: stream ids are read back as they were written; the bounds on
  clients and queues are an invariant; every client's queue is a bounded FIFO channel fed with the
  consecutive entries of the stream until it overflows; an entry that cannot be decoded stops it.
\<close>

subsection \<open>Stream ids\<close>

lemma is_digit_char: "d < 10 \<Longrightarrow> is_digit (digit_char d)"
  by (simp add: is_digit_def of_char_digit_char)

lemma digit_not_int_space: "is_digit c \<Longrightarrow> \<not> int_space c"
  by (auto simp: is_digit_def int_space_def)

lemma digit_not_sign: "is_digit c \<Longrightarrow> c \<noteq> CHR ''-'' \<and> c \<noteq> CHR ''+''"
  by (auto simp: is_digit_def)

lemma str_nat_all_digits: "c \<in> set (str_nat n) \<Longrightarrow> is_digit c"
  using str_nat_digits is_digit_char by blast

lemma str_nat_not_Nil [simp]: "str_nat n \<noteq> []"
  by (simp add: str_nat.simps [of n])

lemma int_body_digits:
  "\<forall>c \<in> set s. is_digit c \<Longrightarrow> seen \<or> s \<noteq> [] \<Longrightarrow>
     int_body seen a s = Some (foldl (\<lambda>a c. 10 * a + digit_val c) a s)"
  by (induction s arbitrary: seen a) auto

lemma strip_digits: "\<forall>c \<in> set s. is_digit c \<Longrightarrow> strip s = s"
proof -
  assume d: "\<forall>c \<in> set s. is_digit c"
  have id: "dropWhile int_space t = t" if "\<forall>c \<in> set t. is_digit c" for t
    using that digit_not_int_space by (cases t) auto
  show ?thesis using d id [of s] id [of "rev s"] by (simp add: strip_def)
qed

lemma py_int_str_nat [simp]: "py_int (str_nat n) = Inr (int n)"
proof -
  have d: "\<forall>c \<in> set (str_nat n). is_digit c" using str_nat_all_digits by blast
  obtain c r where cr: "str_nat n = c # r" using str_nat_not_Nil [of n] by (cases "str_nat n") auto
  have "c \<noteq> CHR ''-'' \<and> c \<noteq> CHR ''+''" using d cr digit_not_sign by simp
  moreover have "int_body False 0 (str_nat n) = Some n"
    using int_body_digits [OF d, of False 0] nat_of_digits_str_nat [of n]
    by (simp add: nat_of_digits_def)
  moreover have "strip (str_nat n) = c # r" using strip_digits [OF d] cr by simp
  ultimately show ?thesis by (simp add: py_int_def cr Let_def del: int_body.simps)
qed

lemma minus_split:
  assumes "CHR ''-'' \<notin> set a"
  shows "takeWhile (\<lambda>c. c \<noteq> CHR ''-'') (a @ CHR ''-'' # r) = a"
    and "dropWhile (\<lambda>c. c \<noteq> CHR ''-'') (a @ CHR ''-'' # r) = CHR ''-'' # r"
  using assms by (induction a) auto

lemma stream_id_tuple_str:
  "stream_id_tuple (str_nat ms @ ''-'' @ str_nat sq) = Inr (int ms, int sq)"
  by (simp add: stream_id_tuple_def minus_split str_nat_no_minus)

text \<open>
  Reading a stream id gives back the numbers it was made of, so the gateway orders entries as
  Redis does, whatever the number of digits.
\<close>

theorem stream_id_roundtrip:
  "stream_id_tuple (str_nat ms @ ''-'' @ str_nat sq) = Inr (int ms, int sq)"
  by (rule stream_id_tuple_str)

subsection \<open>What the operations do to a client\<close>

definition offered :: "string \<times> ws_message \<Rightarrow> stream_client \<Rightarrow> stream_client" where
  "offered x cl = (case put_nowait x cl of Some cl' \<Rightarrow> cl' | None \<Rightarrow> cl\<lparr>cl_closed := True\<rparr>)"

lemma set_client_simps [simp]:
  "bc_objects (set_client c cl b) = (bc_objects b)(c := cl)"
  "bc_clients (set_client c cl b) = bc_clients b"
  "bc_next (set_client c cl b) = bc_next b"
  "bc_cursor (set_client c cl b) = bc_cursor b"
  "bc_stopped (set_client c cl b) = bc_stopped b"
  by (simp_all add: set_client_def)

lemma discard_simps [simp]:
  "bc_objects (discard c b) = (bc_objects b)(c := bc_objects b c\<lparr>cl_closed := True\<rparr>)"
  "bc_clients (discard c b) = removeAll c (bc_clients b)"
  "bc_next (discard c b) = bc_next b" "bc_cursor (discard c b) = bc_cursor b"
  "bc_stopped (discard c b) = bc_stopped b"
  by (simp_all add: discard_def)

lemma offer_simps [simp]:
  "bc_objects (offer x c b) = (bc_objects b)(c := offered x (bc_objects b c))"
  "bc_next (offer x c b) = bc_next b" "bc_cursor (offer x c b) = bc_cursor b"
  "bc_stopped (offer x c b) = bc_stopped b"
  by (auto simp: offer_def offered_def split: option.splits)

lemma offer_clients:
  "bc_clients (offer x c b) =
     (if put_nowait x (bc_objects b c) = None then removeAll c (bc_clients b) else bc_clients b)"
  by (auto simp: offer_def split: option.splits)

lemma fold_offer:
  assumes "distinct cs"
  shows "bc_objects (fold (offer x) cs b) d =
      (if d \<in> set cs then offered x (bc_objects b d) else bc_objects b d)"
    and "bc_clients (fold (offer x) cs b) =
      filter (\<lambda>d. \<not> (d \<in> set cs \<and> put_nowait x (bc_objects b d) = None)) (bc_clients b)"
    and "bc_next (fold (offer x) cs b) = bc_next b"
    and "bc_cursor (fold (offer x) cs b) = bc_cursor b"
    and "bc_stopped (fold (offer x) cs b) = bc_stopped b"
  using assms
proof (induction cs arbitrary: b)
  case (Cons c cs)
  {
    case 1
    then show ?case using Cons.IH(1) [of "offer x c b"] by auto
  next
    case 2
    then show ?case
      using Cons.IH(2) [of "offer x c b"]
      by (auto simp: offer_clients removeAll_filter_not_eq intro!: filter_cong)
  next
    case 3
    then show ?case using Cons.IH(3) [of "offer x c b"] by simp
  next
    case 4
    then show ?case using Cons.IH(4) [of "offer x c b"] by simp
  next
    case 5
    then show ?case using Cons.IH(5) [of "offer x c b"] by simp
  }
qed simp_all

lemma broadcast_simps:
  assumes "distinct (bc_clients b)"
  shows "bc_objects (broadcast i m b) d =
      (if d \<in> set (bc_clients b) then offered (i, m) (bc_objects b d) else bc_objects b d)"
    and "bc_clients (broadcast i m b) =
      filter (\<lambda>d. put_nowait (i, m) (bc_objects b d) \<noteq> None) (bc_clients b)"
    and "bc_next (broadcast i m b) = bc_next b" and "bc_cursor (broadcast i m b) = bc_cursor b"
    and "bc_stopped (broadcast i m b) = bc_stopped b"
  using fold_offer [OF assms, of "(i, m)" b] by (auto simp: broadcast_def intro!: filter_cong)

lemma broadcast_cursor [simp]: "bc_cursor (broadcast i m b) = bc_cursor b"
proof -
  have "bc_cursor (fold (offer x) cs b) = bc_cursor b" for x cs b
    by (induction cs arbitrary: b) simp_all
  then show ?thesis by (simp add: broadcast_def)
qed

subsection \<open>The bounds\<close>

definition gw_ok :: "settings \<Rightarrow> broadcaster \<Rightarrow> bool" where
  "gw_ok cfg b \<longleftrightarrow>
     distinct (bc_clients b) \<and> (\<forall>c \<in> set (bc_clients b). c < bc_next b \<and> \<not> cl_closed (bc_objects b c)) \<and>
     int (length (bc_clients b)) \<le> websocket_max_clients cfg \<and>
     (\<forall>c < bc_next b. cl_maxsize (bc_objects b c) = websocket_client_queue_size cfg \<and>
        int (length (cl_queue (bc_objects b c))) \<le> websocket_client_queue_size cfg)"

text \<open>Everything that happens to a broadcaster, labelled with what it does to the queues.\<close>

datatype gw_event = Fan "string \<times> ws_message" | Got nat "string \<times> ws_message" | Opened nat | Other

inductive gw_step :: "settings \<Rightarrow> broadcaster \<Rightarrow> gw_event \<Rightarrow> broadcaster \<Rightarrow> bool"
  for cfg
where
  fanned: "gw_step cfg b (Fan (i, m)) (broadcast i m b)"
| moved: "gw_step cfg b Other (b\<lparr>bc_cursor := i\<rparr>)"
| got: "queue_get c b = Some (x, b') \<Longrightarrow> gw_step cfg b (Got c x) b'"
| opened: "register cfg b = Inr (c, b') \<Longrightarrow> gw_step cfg b (Opened c) b'"
| gone: "c < bc_next b \<Longrightarrow> gw_step cfg b Other (unregister c b)"
| stopping: "gw_step cfg b Other (stop_broadcaster b)"

lemma stop_simps [simp]:
  "bc_clients (stop_broadcaster b) = []"
  "bc_next (stop_broadcaster b) = bc_next b"
  "cl_queue (bc_objects (stop_broadcaster b) c) = cl_queue (bc_objects b c)"
  "cl_maxsize (bc_objects (stop_broadcaster b) c) = cl_maxsize (bc_objects b c)"
proof -
  let ?f = "\<lambda>c b. set_client c (bc_objects b c\<lparr>cl_closed := True\<rparr>) b"
  have *: "bc_next (fold ?f cs b) = bc_next b \<and>
      cl_queue (bc_objects (fold ?f cs b) c) = cl_queue (bc_objects b c) \<and>
      cl_maxsize (bc_objects (fold ?f cs b) c) = cl_maxsize (bc_objects b c)" for cs b
    by (induction cs arbitrary: b) simp_all
  show "bc_clients (stop_broadcaster b) = []" "bc_next (stop_broadcaster b) = bc_next b"
    "cl_queue (bc_objects (stop_broadcaster b) c) = cl_queue (bc_objects b c)"
    "cl_maxsize (bc_objects (stop_broadcaster b) c) = cl_maxsize (bc_objects b c)"
    using * [of "bc_clients b" "b\<lparr>bc_stopped := True\<rparr>"] by (simp_all add: stop_broadcaster_def)
qed

lemma put_Some:
  "put_nowait x cl = Some cl' \<Longrightarrow> cl' = cl\<lparr>cl_queue := cl_queue cl @ [x]\<rparr> \<and>
     (0 < cl_maxsize cl \<longrightarrow> int (length (cl_queue cl)) < cl_maxsize cl)"
  by (auto simp: put_nowait_def split: if_splits)

lemma put_None: "put_nowait x cl = None \<longleftrightarrow> 0 < cl_maxsize cl \<and> cl_maxsize cl \<le> int (length (cl_queue cl))"
  by (simp add: put_nowait_def)

lemma offered_simps:
  "cl_maxsize (offered x cl) = cl_maxsize cl"
  "cl_queue (offered x cl) = (if put_nowait x cl = None then cl_queue cl else cl_queue cl @ [x])"
  "cl_closed (offered x cl) = (put_nowait x cl = None \<or> cl_closed cl)"
  by (auto simp: offered_def dest!: put_Some split: option.splits)

lemma offered_bound:
  "0 < cl_maxsize cl \<Longrightarrow> int (length (cl_queue cl)) \<le> cl_maxsize cl \<Longrightarrow>
     int (length (cl_queue (offered x cl))) \<le> cl_maxsize cl"
  by (auto simp: offered_simps put_None)

lemma register_Inr:
  "register cfg b = Inr (c, b') \<Longrightarrow> c = bc_next b \<and> bc_next b' = Suc c \<and>
     bc_clients b' = bc_clients b @ [c] \<and> int (length (bc_clients b)) < websocket_max_clients cfg \<and>
     bc_objects b' = (bc_objects b)(c := new_client (websocket_client_queue_size cfg)) \<and>
     bc_cursor b' = bc_cursor b"
  by (auto simp: register_def split: if_splits)

lemma queue_get_Some:
  "queue_get c b = Some (x, b') \<Longrightarrow> cl_queue (bc_objects b c) = x # cl_queue (bc_objects b' c) \<and>
     bc_clients b' = bc_clients b \<and> bc_next b' = bc_next b \<and> bc_cursor b' = bc_cursor b \<and>
     cl_maxsize (bc_objects b' c) = cl_maxsize (bc_objects b c) \<and>
     cl_closed (bc_objects b' c) = cl_closed (bc_objects b c) \<and>
     (\<forall>d. d \<noteq> c \<longrightarrow> bc_objects b' d = bc_objects b d)"
  by (auto simp: queue_get_def split: list.splits)

lemma gw_ok_step:
  assumes "gw_step cfg b ev b'" and "gw_ok cfg b" and "1 \<le> websocket_client_queue_size cfg"
  shows "gw_ok cfg b'"
  using assms
proof cases
  case (fanned i m)
  have d: "distinct (bc_clients b)" using assms(2) by (simp add: gw_ok_def)
  have "int (length (filter P (bc_clients b))) \<le> int (length (bc_clients b))" for P by simp
  then have l: "int (length (filter P (bc_clients b))) \<le> websocket_max_clients cfg" for P
    using assms(2) unfolding gw_ok_def by (meson order_trans)
  have q: "int (length (cl_queue (offered (i, m) (bc_objects b c)))) \<le> websocket_client_queue_size cfg"
    if "c < bc_next b" for c
    using that assms(2,3) offered_bound [of "bc_objects b c" "(i, m)"] by (auto simp: gw_ok_def)
  show ?thesis
    unfolding fanned(2) gw_ok_def broadcast_simps [OF d]
    using assms(2) l q by (auto simp: gw_ok_def offered_simps)
next
  case (moved i)
  then show ?thesis using assms(2) by (simp add: gw_ok_def)
next
  case (got c x)
  note g = queue_get_Some [OF got(2)]
  have "cl_closed (bc_objects b' d) = cl_closed (bc_objects b d) \<and>
      cl_maxsize (bc_objects b' d) = cl_maxsize (bc_objects b d) \<and>
      length (cl_queue (bc_objects b' d)) \<le> length (cl_queue (bc_objects b d))" for d
    using g by (cases "d = c") auto
  then show ?thesis
    using assms(2) g unfolding gw_ok_def by (auto intro: order_trans [OF of_nat_mono])
next
  case (opened c)
  from register_Inr [OF opened(2)] assms(2,3) show ?thesis
    unfolding gw_ok_def by (auto simp: new_client_def less_Suc_eq)
next
  case (gone c)
  have "int (length (removeAll c (bc_clients b))) \<le> int (length (bc_clients b))" by simp
  then have "int (length (removeAll c (bc_clients b))) \<le> websocket_max_clients cfg"
    using assms(2) unfolding gw_ok_def by linarith
  with gone assms(2) show ?thesis
    unfolding gw_ok_def unregister_def by (auto simp: distinct_removeAll)
next
  case stopping
  then show ?thesis using assms(2) by (auto simp: gw_ok_def)
qed

subsection \<open>Histories\<close>

inductive gw_run :: "settings \<Rightarrow> broadcaster \<Rightarrow> gw_event list \<Rightarrow> broadcaster \<Rightarrow> bool"
  for cfg b
where
  nothing: "gw_run cfg b [] b"
| again: "gw_run cfg b evs b' \<Longrightarrow> gw_step cfg b' ev b'' \<Longrightarrow> gw_run cfg b (evs @ [ev]) b''"

definition fans :: "gw_event list \<Rightarrow> (string \<times> ws_message) list" where
  "fans evs = concat (map (\<lambda>ev. case ev of Fan x \<Rightarrow> [x] | _ \<Rightarrow> []) evs)"

definition taken :: "nat \<Rightarrow> gw_event list \<Rightarrow> (string \<times> ws_message) list" where
  "taken c evs = concat (map (\<lambda>ev. case ev of Got d x \<Rightarrow> if d = c then [x] else [] | _ \<Rightarrow> []) evs)"

definition accepted :: "nat \<Rightarrow> broadcaster \<Rightarrow> gw_event \<Rightarrow> (string \<times> ws_message) list" where
  "accepted c b ev =
     (case ev of
        Fan x \<Rightarrow> if c \<in> set (bc_clients b) \<and> put_nowait x (bc_objects b c) \<noteq> None then [x] else []
      | _ \<Rightarrow> [])"

lemma event_lists [simp]:
  "fans [] = []" "taken c [] = []"
  "fans (evs @ evs') = fans evs @ fans evs'" "taken c (evs @ evs') = taken c evs @ taken c evs'"
  by (simp_all add: fans_def taken_def)

lemma gw_ok_run:
  "gw_run cfg b evs b' \<Longrightarrow> gw_ok cfg b \<Longrightarrow> 1 \<le> websocket_client_queue_size cfg \<Longrightarrow> gw_ok cfg b'"
  by (induction rule: gw_run.induct) (auto intro: gw_ok_step)

lemma next_step: "gw_step cfg b ev b' \<Longrightarrow> gw_ok cfg b \<Longrightarrow> bc_next b \<le> bc_next b'"
  by (cases rule: gw_step.cases)
    (auto simp: broadcast_simps gw_ok_def unregister_def dest!: register_Inr queue_get_Some)

lemma next_run:
  "gw_run cfg b evs b' \<Longrightarrow> gw_ok cfg b \<Longrightarrow> 1 \<le> websocket_client_queue_size cfg \<Longrightarrow>
     bc_next b \<le> bc_next b'"
proof (induction rule: gw_run.induct)
  case (again evs b' ev b'')
  then show ?case using next_step [OF again(2) gw_ok_run [OF again(1,4,5)]] by simp
qed simp

definition client_move ::
  "settings \<Rightarrow> nat \<Rightarrow> broadcaster \<Rightarrow> (string \<times> ws_message) list \<Rightarrow> (string \<times> ws_message) list
     \<Rightarrow> broadcaster \<Rightarrow> bool"
where
  "client_move cfg c b ins outs b' \<longleftrightarrow>
     (\<exists>ev. gw_step cfg b ev b' \<and> gw_ok cfg b \<and> 1 \<le> websocket_client_queue_size cfg \<and>
        c < bc_next b \<and> ins = accepted c b ev \<and> outs = taken c [ev])"

lemma client_step:
  assumes "gw_step cfg b ev b'" and "gw_ok cfg b" and "c < bc_next b"
  shows "cl_queue (bc_objects b c) @ accepted c b ev = taken c [ev] @ cl_queue (bc_objects b' c) \<and>
    (c \<in> set (bc_clients b') \<longrightarrow> c \<in> set (bc_clients b) \<and> accepted c b ev = fans [ev])"
  using assms
proof (induction rule: gw_step.induct)
  case (fanned b i m)
  then have "distinct (bc_clients b)" by (simp add: gw_ok_def)
  from broadcast_simps [OF this, of i m] show ?case
    by (auto simp: accepted_def taken_def fans_def offered_simps)
next
  case (got d b x b')
  note g = queue_get_Some [OF got(1)]
  then show ?case by (cases "d = c") (auto simp: accepted_def taken_def fans_def)
next
  case (opened b d b')
  note register_Inr [OF opened(1)]
  with opened(3) show ?case by (simp add: accepted_def taken_def fans_def)
qed (auto simp: accepted_def taken_def fans_def unregister_def)

interpretation client: fifo_channel "\<lambda>b. cl_queue (bc_objects b c)"
  "\<lambda>b. nat (cl_maxsize (bc_objects b c))" "client_move cfg c" for cfg c
proof
  fix b ins outs b'
  assume "client_move cfg c b ins outs b'"
  then obtain ev where s: "gw_step cfg b ev b'" and ok: "gw_ok cfg b" "c < bc_next b"
    and size: "1 \<le> websocket_client_queue_size cfg" and eq: "ins = accepted c b ev" "outs = taken c [ev]"
    by (auto simp: client_move_def)
  show "cl_queue (bc_objects b c) @ ins = outs @ cl_queue (bc_objects b' c)"
    using client_step [OF s ok] by (simp add: eq)
  have ok': "gw_ok cfg b'" and next': "c < bc_next b'"
    using gw_ok_step [OF s ok(1) size] next_step [OF s ok(1)] ok(2) by simp_all
  then show "nat (cl_maxsize (bc_objects b' c)) = nat (cl_maxsize (bc_objects b c))"
    using ok by (simp add: gw_ok_def)
  show "length (cl_queue (bc_objects b' c)) \<le> nat (cl_maxsize (bc_objects b' c))"
    using ok' next' unfolding gw_ok_def by (metis nat_int nat_mono)
qed

lemma client_flow:
  assumes "gw_run cfg b evs b'" and "gw_ok cfg b" and "1 \<le> websocket_client_queue_size cfg"
    and "c < bc_next b"
  shows "\<exists>ins rest. flows (client_move cfg c) b ins (taken c evs) b' \<and> fans evs = ins @ rest \<and>
    (c \<in> set (bc_clients b') \<longrightarrow> c \<in> set (bc_clients b) \<and> rest = [])"
  using assms
proof (induction rule: gw_run.induct)
  case nothing
  show ?case using flows.stay [of "client_move cfg c" b] by auto
next
  case (again evs b' ev b'')
  then obtain ins rest where f: "flows (client_move cfg c) b ins (taken c evs) b'"
    and rest: "fans evs = ins @ rest" "c \<in> set (bc_clients b') \<longrightarrow> c \<in> set (bc_clients b) \<and> rest = []"
    by auto
  have ok: "gw_ok cfg b'" by (rule gw_ok_run [OF again(1,4,5)])
  have next': "c < bc_next b'" using next_run [OF again(1,4,5)] again(6) by simp
  note s = client_step [OF again(2) ok next']
  have m: "client_move cfg c b' (accepted c b' ev) (taken c [ev]) b''"
    using again(2,5) ok next' by (auto simp: client_move_def)
  from flows.more [OF f m]
  have f': "flows (client_move cfg c) b (ins @ accepted c b' ev) (taken c (evs @ [ev])) b''" by simp
  have "\<exists>rest'. fans (evs @ [ev]) = (ins @ accepted c b' ev) @ rest' \<and>
      (c \<in> set (bc_clients b'') \<longrightarrow> c \<in> set (bc_clients b) \<and> rest' = [])"
  proof (cases "accepted c b' ev = []")
    case True
    then show ?thesis using rest s by (intro exI [of _ "rest @ fans [ev]"]) auto
  next
    case False
    then have "c \<in> set (bc_clients b')" "accepted c b' ev = fans [ev]"
      by (auto simp: accepted_def fans_def split: gw_event.splits if_splits)
    then show ?thesis using rest by (intro exI [of _ "[]"]) simp
  qed
  with f' show ?case by blast
qed

text \<open>
  Every client is fed the stream, in order and without gaps, until it is too slow. Whatever a
  gateway does from the moment a client is registered, what its sender has taken and what waits in
  its queue are together the first entries fanned out since, all of them while the client stays
  registered; and the queue never holds more than \<open>websocket_client_queue_size\<close> entries.
\<close>

theorem client_feed:
  assumes "gw_run cfg b evs b'" and "gw_ok cfg b" and "1 \<le> websocket_client_queue_size cfg"
    and "c \<in> set (bc_clients b)" and "cl_queue (bc_objects b c) = []"
  shows "\<exists>rest. fans evs = taken c evs @ cl_queue (bc_objects b' c) @ rest \<and>
    (c \<in> set (bc_clients b') \<longrightarrow> rest = []) \<and>
    int (length (cl_queue (bc_objects b' c))) \<le> websocket_client_queue_size cfg"
proof -
  have c: "c < bc_next b" using assms(2,4) by (simp add: gw_ok_def)
  obtain ins rest where f: "flows (client_move cfg c) b ins (taken c evs) b'"
    and rest: "fans evs = ins @ rest" "c \<in> set (bc_clients b') \<longrightarrow> rest = []"
    using client_flow [OF assms(1-3) c] by blast
  have "c < bc_next b'" using next_run [OF assms(1-3)] c by simp
  then have "int (length (cl_queue (bc_objects b' c))) \<le> websocket_client_queue_size cfg"
    using gw_ok_run [OF assms(1-3)] by (simp add: gw_ok_def)
  then show ?thesis using client.flow_from_empty(1) [OF f] assms(5) rest by auto
qed

text \<open>
  C33. The bounds of the gateway hold at any time: never more than \<open>websocket_max_clients\<close> clients are
  registered, all of them open, and no queue exceeds its size, whatever the order of connections,
  disconnections, fan-outs, slow clients and a shutdown.
\<close>

theorem broadcaster_bounds:
  assumes "gw_run cfg new_broadcaster evs b" and "1 \<le> websocket_client_queue_size cfg"
    and "0 \<le> websocket_max_clients cfg"
  shows "int (length (bc_clients b)) \<le> websocket_max_clients cfg \<and> distinct (bc_clients b) \<and>
    (\<forall>c \<in> set (bc_clients b). \<not> cl_closed (bc_objects b c) \<and>
       int (length (cl_queue (bc_objects b c))) \<le> websocket_client_queue_size cfg)"
proof -
  have "gw_ok cfg new_broadcaster" using assms(3) by (simp add: gw_ok_def new_broadcaster_def)
  from gw_ok_run [OF assms(1) this assms(2)] show ?thesis by (auto simp: gw_ok_def)
qed

subsection \<open>The tail\<close>

lemma decode_entry_id: "decode_entry loads e = Inr (i, m) \<Longrightarrow> i = fst e"
proof -
  assume d: "decode_entry loads e = Inr (i, m)"
  then obtain raw v where raw: "map_of (snd e) ''event'' = Some raw" "raw \<noteq> []" "loads raw = Inr v"
    by (auto simp: decode_entry_def result_simps split: option.splits if_splits)
  with d show ?thesis by (cases v) (auto simp: decode_entry_def)
qed

text \<open>A turn of the tail fans out the entries it decodes, in order.\<close>

lemma tail_entries_run:
  assumes "tail_entries loads es b = (b', x)" and "gw_run cfg b0 evs b"
  shows "\<exists>evs'. gw_run cfg b0 (evs @ evs') b' \<and> (\<exists>n. map fst (fans evs') = take n (map fst es)) \<and>
    (x = None \<longrightarrow> map fst (fans evs') = map fst es \<and>
       bc_cursor b' = (if es = [] then bc_cursor b else fst (last es)))"
  using assms
proof (induction es arbitrary: b evs)
  case Nil
  then show ?case by (intro exI [of _ "[]"]) auto
next
  case (Cons e es)
  show ?case
  proof (cases "decode_entry loads e")
    case (Inl y)
    then have "b' = b" "x = Some y" using Cons.prems(1) by auto
    then show ?thesis using Cons.prems(2) by (intro exI [of _ "[]"]) (auto intro: exI [of _ 0])
  next
    case (Inr im)
    obtain i m where im: "im = (i, m)" by (cases im)
    have i: "i = fst e"
      using Inr im by (simp add: decode_entry_id)
    let ?b1 = "b\<lparr>bc_cursor := i\<rparr>"
    have r1: "gw_run cfg b0 (evs @ [Other]) ?b1" by (rule gw_run.again [OF Cons.prems(2) gw_step.moved])
    show ?thesis
    proof (cases "stream_id_tuple i")
      case (Inl y)
      then have "b' = ?b1" "x = Some y" using Cons.prems(1) Inr im by (auto simp: Let_def)
      then show ?thesis using r1
        by (intro exI [of _ "[Other]"]) (auto simp: fans_def intro: exI [of _ 0])
    next
      case (Inr t)
      then have t: "tail_entries loads es (broadcast i m ?b1) = (b', x)"
        using Cons.prems(1) \<open>decode_entry loads e = Inr im\<close> im by (simp add: Let_def)
      have r2: "gw_run cfg b0 ((evs @ [Other]) @ [Fan (i, m)]) (broadcast i m ?b1)"
        by (rule gw_run.again [OF r1 gw_step.fanned])
      from Cons.IH [OF t r2] obtain evs' n where
        evs': "gw_run cfg b0 (((evs @ [Other]) @ [Fan (i, m)]) @ evs') b'"
        and n: "map fst (fans evs') = take n (map fst es)"
        and last: "x = None \<longrightarrow> map fst (fans evs') = map fst es \<and>
          bc_cursor b' = (if es = [] then bc_cursor (broadcast i m ?b1) else fst (last es))"
        by blast
      have all: "x = None \<longrightarrow> map fst (fans evs') = map fst es \<and>
          bc_cursor b' = (if es = [] then i else fst (last es))"
        using last by (cases "es = []") auto
      let ?evs = "[Other, Fan (i, m)] @ evs'"
      have f: "fans ?evs = (i, m) # fans evs'" by (simp add: fans_def)
      have "gw_run cfg b0 (evs @ ?evs) b'" using evs' by simp
      moreover have "map fst (fans ?evs) = take (Suc n) (map fst (e # es))"
        unfolding f using n i by (simp only: list.map fst_conv take_Suc_Cons)
      moreover have "x = None \<longrightarrow> map fst (fans ?evs) = map fst (e # es) \<and>
          bc_cursor b' = (if e # es = [] then bc_cursor b else fst (last (e # es)))"
        unfolding f using all i by auto
      ultimately show ?thesis by blast
    qed
  qed
qed

lemma tail_backoff_bounds: "0 < tail_backoff n \<and> tail_backoff n \<le> 5"
  by (simp add: tail_backoff_def)

text \<open>
  One entry the gateway cannot decode stops its live feed for good. If the first entry after the
  cursor is such an entry, every turn of the tail fails on it, moves neither the cursor nor any
  client, and sleeps for up to five seconds; entries appended behind it are never fanned out.
\<close>

theorem undecodable_stops_tail:
  assumes "\<And>xread. xread \<in> set xreads \<Longrightarrow> \<exists>rest. xread (bc_cursor b) = Inr (bad # rest)"
    and "decode_entry loads bad = Inl x"
  shows "fst (tail_run loads xreads (b, n)) = b \<and>
    snd (tail_run loads xreads (b, n)) = (if bc_stopped b then n else n + length xreads)"
  using assms(1)
proof (induction xreads arbitrary: n)
  case (Cons xread xreads)
  obtain rest where "xread (bc_cursor b) = Inr (bad # rest)" using Cons.prems by auto
  then have "fst (tail_turn loads xread (b, n)) = (b, Suc n)"
    using assms(2) by (simp add: tail_turn_def)
  then show ?case using Cons.IH [of "Suc n"] Cons.prems by simp
qed simp

subsection \<open>Witnesses\<close>

definition one_client :: "settings \<Rightarrow> broadcaster" where
  "one_client cfg = new_broadcaster
     \<lparr>bc_clients := [0], bc_next := 1, bc_objects := (\<lambda>_. new_client 0)(0 := new_client (websocket_client_queue_size cfg))\<rparr>"

lemma one_client_opened:
  "1 \<le> websocket_max_clients cfg \<Longrightarrow> gw_step cfg new_broadcaster (Opened 0) (one_client cfg)"
  by (rule gw_step.opened)
    (simp add: register_def one_client_def new_broadcaster_def set_client_def)

lemma one_client_ok:
  "1 \<le> websocket_max_clients cfg \<Longrightarrow> 1 \<le> websocket_client_queue_size cfg \<Longrightarrow> gw_ok cfg (one_client cfg)"
  by (simp add: gw_ok_def one_client_def new_client_def)

lemma sample_limits:
  "websocket_max_clients (default_settings n h) = 2000"
  "websocket_client_queue_size (default_settings n h) = 256"
  by (simp_all add: default_settings_def)

theorem broadcaster_bounds_witness:
  "distinct (bc_clients (one_client (default_settings ''g'' ''h''))) \<and>
     bc_clients (one_client (default_settings ''g'' ''h'')) = [0]"
proof -
  have "gw_run (default_settings ''g'' ''h'') new_broadcaster ([] @ [Opened 0])
      (one_client (default_settings ''g'' ''h''))"
    by (rule gw_run.again [OF gw_run.nothing one_client_opened]) (simp add: sample_limits)
  from broadcaster_bounds [OF this] show ?thesis by (simp add: sample_limits one_client_def)
qed

theorem client_feed_witness:
  "\<exists>evs b'. gw_run (default_settings ''g'' ''h'') (one_client (default_settings ''g'' ''h'')) evs b' \<and>
     fans evs = [(''1-0'', []), (''2-0'', [])] \<and> taken 0 evs @ cl_queue (bc_objects b' 0) = fans evs \<and>
     0 \<in> set (bc_clients b')"
proof -
  let ?cfg = "default_settings ''g'' ''h''"
  let ?b = "one_client ?cfg"
  let ?b1 = "broadcast ''1-0'' [] ?b"
  let ?b2 = "broadcast ''2-0'' [] ?b1"
  have r: "gw_run ?cfg ?b (([] @ [Fan (''1-0'', [])]) @ [Fan (''2-0'', [])]) ?b2"
    by (rule gw_run.again [OF gw_run.again [OF gw_run.nothing gw_step.fanned] gw_step.fanned])
  have c: "0 \<in> set (bc_clients ?b2)"
    by (simp add: one_client_def broadcast_def offer_clients put_nowait_def sample_limits new_client_def
        offered_def)
  have q: "0 \<in> set (bc_clients ?b)" "cl_queue (bc_objects ?b 0) = []"
    by (simp_all add: one_client_def new_client_def)
  have "gw_ok ?cfg ?b" by (rule one_client_ok) (simp_all add: sample_limits)
  from client_feed [OF r this _ q] c show ?thesis
    by (intro exI [of _ "([] @ [Fan (''1-0'', [])]) @ [Fan (''2-0'', [])]"] exI [of _ ?b2] conjI r)
      (auto simp: sample_limits fans_def)
qed

theorem undecodable_stops_tail_witness:
  "fst (tail_run (\<lambda>_. Inl (ValueError ''Expecting value'')) (replicate 5 (\<lambda>_. Inr [(''1-0'', [(''event'', ''x'')])]))
     (new_broadcaster, 0)) = new_broadcaster"
proof -
  have "decode_entry (\<lambda>_. Inl (ValueError ''Expecting value'')) (''1-0'', [(''event'', ''x'')]) =
      Inl (ValueError ''Expecting value'')"
    by (simp add: decode_entry_def)
  from undecodable_stops_tail [OF _ this, of "replicate 5 (\<lambda>_. Inr [(''1-0'', [(''event'', ''x'')])])"
    new_broadcaster 0] show ?thesis by simp
qed

end
