(* ===== verification/Gateway_Socket.thy ===== *)
theory Gateway_Socket
  imports Broadcaster Redis_Outbox Consumers
begin

text \<open>
  The WebSocket side of \<open>services/api_gateway/main.py\<close> with the control messages of
  \<open>services/api_gateway/schemas.py\<close>: what is sent for an entry of the stream, the sender and receiver
  tasks, turn by turn, and the handler around them. Every failure of the socket, of Redis and of the
  database is an input; metrics, logs and tracing are left out.
\<close>

subsection \<open>Python values\<close>

text \<open>
  \<open>json.loads\<close>, pydantic's JSON parser and its lax conversion of a value to a float, \<open>float(s)\<close> of a
  text, \<open>dict(xs)\<close> of a non-empty list, \<open>str\<close> of a value that is no text, and
  \<open>datetime.fromisoformat\<close>; no result is where they raise.
\<close>

record gateway_env =
  gp_loads :: "string \<Rightarrow> json result"
  gp_parse_json :: "string \<Rightarrow> json option"
  gp_lax_float :: "json \<Rightarrow> rat option"
  gp_float_of_str :: "string \<Rightarrow> rat option"
  gp_dict_of_list :: "json list \<Rightarrow> ws_message option"
  gp_str :: "json \<Rightarrow> string"
  gp_fromisoformat :: "string \<Rightarrow> datetime option"

fun truthy :: "json \<Rightarrow> bool" where
  "truthy JNull = False"
| "truthy (JBool b) = b"
| "truthy (JNum r) = (r \<noteq> 0)"
| "truthy (JStr s) = (s \<noteq> [])"
| "truthy (JArr xs) = (xs \<noteq> [])"
| "truthy (JObj m) = (m \<noteq> [])"

fun py_str :: "gateway_env \<Rightarrow> json \<Rightarrow> string" where
  "py_str gp (JStr s) = s"
| "py_str gp v = gp_str gp v"

fun py_dict :: "gateway_env \<Rightarrow> json \<Rightarrow> ws_message result" where
  "py_dict gp (JObj m) = Inr m"
| "py_dict gp (JArr xs) = 
     (if xs = [] then Inr []
      else case gp_dict_of_list gp xs of
             None \<Rightarrow> Inl (TypeError ''cannot convert dictionary update sequence'')
           | Some m \<Rightarrow> Inr m)"
| "py_dict gp (JStr s) =
     (if s = [] then Inr []
      else Inl (ValueError ''dictionary update sequence element #0 has length 1; 2 is required''))"
| "py_dict gp v = Inl (TypeError ''object is not iterable'')"

fun py_float :: "gateway_env \<Rightarrow> json \<Rightarrow> rat result" where
  "py_float gp (JNum r) = Inr r"
| "py_float gp (JBool b) = Inr (if b then 1 else 0)"
| "py_float gp (JStr s) =
     (case gp_float_of_str gp s of
        None \<Rightarrow> Inl (ValueError ''could not convert string to float'') | Some r \<Rightarrow> Inr r)"
| "py_float gp v = Inl (TypeError ''float() argument must be a string or a real number'')"

definition get_or :: "string \<Rightarrow> json \<Rightarrow> ws_message \<Rightarrow> json" where
  "get_or k d m = (case map_of m k of None \<Rightarrow> d | Some v \<Rightarrow> v)"

subsection \<open>What is sent\<close>

definition personalize :: "gateway_env \<Rightarrow> ws_message \<Rightarrow> rat \<Rightarrow> ws_message result" where
  "personalize gp m threshold =
     rbind (py_dict gp (get_or ''data'' (JObj []) m)) (\<lambda>data.
     rbind (py_float gp (get_or ''illicit_probability'' (JNum 0) data)) (\<lambda>probability.
     Inr (AList.update ''data''
            (JObj (AList.update ''flagged'' (JBool (threshold \<le> probability))
               (AList.update ''threshold'' (JNum threshold) data))) m)))"

definition redis_latency :: "gateway_env \<Rightarrow> rat \<Rightarrow> ws_message \<Rightarrow> ws_message \<Rightarrow> ws_message result" where
  "redis_latency gp now_ms m data =
     (case map_of m ''stream_id'' of
        None \<Rightarrow> Inr data
      | Some v \<Rightarrow>
          if truthy v
          then rbind (stream_id_tuple (py_str gp v)) (\<lambda>t.
            Inr (AList.update ''redis_to_websocket_latency_ms''
                   (JNum (py_round (max (now_ms - of_int (fst t)) 0) 2)) data))
          else Inr data)"

definition source_latency :: "gateway_env \<Rightarrow> rat \<Rightarrow> ws_message \<Rightarrow> ws_message" where
  "source_latency gp now_ms data =
     (case map_of data ''source_ingested_at'' of
        None \<Rightarrow> data
      | Some v \<Rightarrow>
          if truthy v
          then (case gp_fromisoformat gp (py_str gp v) of
                  None \<Rightarrow> data
                | Some t \<Rightarrow> AList.update ''end_to_end_latency_ms''
                    (JNum (py_round (max (now_ms - of_int (instant t) / 1000) 0) 2)) data)
          else data)"

definition annotate_delivery :: "gateway_env \<Rightarrow> rat \<Rightarrow> bool \<Rightarrow> ws_message \<Rightarrow> ws_message result" where
  "annotate_delivery gp now_ms replayed m =
     (if get_or ''type'' JNull m \<noteq> JStr ''transaction'' then Inr m
      else
        rbind (py_dict gp (get_or ''data'' (JObj []) m)) (\<lambda>data.
        rbind (redis_latency gp now_ms m data) (\<lambda>data.
        Inr (AList.update ''data''
               (JObj (AList.update ''delivery_mode'' (JStr (if replayed then ''replay'' else ''live''))
                  (source_latency gp now_ms data))) m))))"

text \<open>What becomes of one send: it arrives, the client is too slow, or the socket raises.\<close>

datatype ws_fate = WsOk | WsTimesOut | WsFails exn

datatype frame = Text ws_message | Closed int string

definition send_message ::
  "gateway_env \<Rightarrow> rat \<Rightarrow> ws_fate \<Rightarrow> bool \<Rightarrow> ws_message \<Rightarrow> frame list \<times> exn option"
where
  "send_message gp now_ms fate replayed m =
     (case annotate_delivery gp now_ms replayed m of
        Inl x \<Rightarrow> ([], Some x)
      | Inr out \<Rightarrow>
          (case fate of
             WsOk \<Rightarrow> ([Text out], None)
           | WsTimesOut \<Rightarrow> ([], Some TimeoutError)
           | WsFails x \<Rightarrow> ([], Some x)))"

definition replay_telemetry :: "settings \<Rightarrow> db_fate \<Rightarrow> int \<Rightarrow> db \<Rightarrow> db \<times> ws_message" where
  "replay_telemetry cfg fate now d =
     (case in_transaction fate
             (\<lambda>d. fetch_replay_control (stream_name cfg) (replay_events_per_second cfg) now d) d of
        (d', Inr (status, rate)) \<Rightarrow>
          (d', [(''replay_status'', JStr status), (''replay_events_per_second'', JNum rate)])
      | (d', Inl x) \<Rightarrow> (d', []))"

subsection \<open>Control messages\<close>

datatype control = ThresholdMessage rat | SpeedMessage rat | ReplayStatusMessage string

definition validate_control :: "gateway_env \<Rightarrow> string \<Rightarrow> control option" where
  "validate_control gp raw =
     (case gp_parse_json gp raw of
        Some (JObj m) \<Rightarrow>
          if fst ` set m = {''type'', ''value''} \<and> map_of m ''type'' = Some (JStr ''set_threshold'')
          then (case gp_lax_float gp (get_or ''value'' JNull m) of
                  Some v \<Rightarrow> if in_range 0 1 v then Some (ThresholdMessage v) else None
                | None \<Rightarrow> None)
          else if fst ` set m = {''type'', ''interval''} \<and> map_of m ''type'' = Some (JStr ''set_speed'')
          then (case gp_lax_float gp (get_or ''interval'' JNull m) of
                  Some v \<Rightarrow> if 0 < v \<and> v \<le> 10 then Some (SpeedMessage v) else None
                | None \<Rightarrow> None)
          else if fst ` set m = {''type''} \<and>
            get_or ''type'' JNull m \<in> {JStr ''pause_replay'', JStr ''resume_replay''}
          then Some (ReplayStatusMessage (py_str gp (get_or ''type'' JNull m)))
          else None
      | _ \<Rightarrow> None)"

subsection \<open>The state of a connection\<close>

text \<open>
  The phases of \<open>websocket_handler\<close>. \<open>Escaped\<close> is an exception that leaves the handler, \<open>Finished\<close> a
  normal end.
\<close>

datatype phase = Greeting | Fetching | Replaying "(string \<times> ws_message) list" | Live | Finished | Escaped exn

record conn =
  co_client :: nat
  co_phase :: phase
  co_threshold :: rat
  co_last :: "string option"
  co_frames :: "frame list"

definition emit :: "frame list \<Rightarrow> conn \<Rightarrow> conn" where
  "emit fs c = c\<lparr>co_frames := co_frames c @ fs\<rparr>"

text \<open>\<open>if last_event_id\<close>: an empty text counts as none.\<close>

definition present :: "string option \<Rightarrow> bool" where
  "present s \<longleftrightarrow> s \<noteq> None \<and> s \<noteq> Some []"

text \<open>\<open>STREAM_ID_PATTERN\<close>, for ASCII digits.\<close>

definition stream_id_pattern :: "string \<Rightarrow> bool" where
  "stream_id_pattern s \<longleftrightarrow>
     (case dropWhile is_digit s of
        [] \<Rightarrow> False
      | c # rest \<Rightarrow> c = CHR ''-'' \<and> takeWhile is_digit s \<noteq> [] \<and> rest \<noteq> [] \<and> list_all is_digit rest)"

definition websocket_open ::
  "settings \<Rightarrow> string option \<Rightarrow> broadcaster \<Rightarrow> (frame + conn) \<times> broadcaster"
where
  "websocket_open cfg last_event_id b =
     (if present last_event_id \<and> \<not> stream_id_pattern (the last_event_id)
      then (Inl (Closed 1008 ''invalid last_event_id''), b)
      else case register cfg b of
             Inl x \<Rightarrow> (Inl (Closed 1013 ''gateway at capacity''), b)
           | Inr (client, b') \<Rightarrow>
               (Inr \<lparr>co_client = client, co_phase = Greeting, co_threshold = presentation_threshold cfg,
                     co_last = last_event_id, co_frames = []\<rparr>, b'))"

fun json_opt :: "string option \<Rightarrow> json" where
  "json_opt None = JNull"
| "json_opt (Some s) = JStr s"

definition connected_message :: "settings \<Rightarrow> string option \<Rightarrow> ws_message \<Rightarrow> ws_message" where
  "connected_message cfg last_event_id telemetry =
     [(''type'', JStr ''connected''), (''gateway_instance'', JStr (instance_id cfg)),
      (''heartbeat_seconds'', JNum (websocket_heartbeat_seconds cfg)),
      (''last_event_id'', json_opt last_event_id)] @ telemetry"

definition heartbeat_message :: "int \<Rightarrow> string option \<Rightarrow> ws_message \<Rightarrow> ws_message" where
  "heartbeat_message timestamp last_event_id telemetry =
     [(''type'', JStr ''heartbeat''), (''timestamp'', JNum (of_int timestamp)),
      (''last_event_id'', json_opt last_event_id)] @ telemetry"

subsection \<open>One step of the handler\<close>

text \<open>
  What the environment decides in a step. \<open>we_others\<close> is what other sessions commit between the two
  statements of a control transaction.
\<close>

record ws_env =
  we_now_ms :: rat
  we_now :: int
  we_accept :: "exn option"
  we_send :: ws_fate
  we_beat :: ws_fate
  we_telemetry :: db_fate
  we_txn :: db_fate
  we_others :: "db \<Rightarrow> db"
  we_raw :: "string result"

text \<open>\<open>accept\<close> and the \<open>connected\<close> message stand before the \<open>try\<close>.\<close>

definition greet_step ::
  "gateway_env \<Rightarrow> settings \<Rightarrow> ws_env \<Rightarrow> conn \<Rightarrow> db \<Rightarrow> conn \<times> db"
where
  "greet_step gp cfg env c d =
     (case we_accept env of
        Some x \<Rightarrow> (c\<lparr>co_phase := Escaped x\<rparr>, d)
      | None \<Rightarrow>
          (case replay_telemetry cfg (we_telemetry env) (we_now env) d of (d', telemetry) \<Rightarrow>
             case send_message gp (we_now_ms env) (we_send env) False
                    (connected_message cfg (co_last c) telemetry) of
               (fs, Some x) \<Rightarrow> (c\<lparr>co_phase := Escaped x\<rparr>, d')
             | (fs, None) \<Rightarrow> (emit fs c\<lparr>co_phase := Fetching\<rparr>, d')))"

fun is_disconnect :: "exn \<Rightarrow> bool" where
  "is_disconnect (OtherError c _) = (c = ''WebSocketDisconnect'')"
| "is_disconnect _ = False"

text \<open>The \<open>except\<close> branches and the \<open>finally\<close>: \<open>closing\<close> tells whether the last close succeeds.\<close>

definition fail_conn :: "bool \<Rightarrow> exn \<Rightarrow> conn \<Rightarrow> broadcaster \<Rightarrow> conn \<times> broadcaster" where
  "fail_conn closing x c b =
     (emit (if is_disconnect x \<or> \<not> closing then [] else [Closed 1011 ''gateway error'']) c
        \<lparr>co_phase := Finished\<rparr>,
      unregister (co_client c) b)"

definition fetch_step ::
  "gateway_env \<Rightarrow> settings \<Rightarrow> (string \<Rightarrow> string \<Rightarrow> int \<Rightarrow> stream_entry list result)
     \<Rightarrow> (string \<Rightarrow> int \<Rightarrow> stream_entry list result) \<Rightarrow> bool \<Rightarrow> conn \<Rightarrow> broadcaster \<Rightarrow> conn \<times> broadcaster"
where
  "fetch_step gp cfg xrange xrevrange closing c b =
     (case if present (co_last c) then replay_after (gp_loads gp) xrange cfg (the (co_last c))
           else replay_recent (gp_loads gp) xrevrange cfg of
        Inl x \<Rightarrow> fail_conn closing x c b
      | Inr events \<Rightarrow> (c\<lparr>co_phase := Replaying events\<rparr>, b))"

definition replay_step ::
  "gateway_env \<Rightarrow> ws_env \<Rightarrow> bool \<Rightarrow> conn \<Rightarrow> broadcaster \<Rightarrow> conn \<times> broadcaster"
where
  "replay_step gp env closing c b =
     (case co_phase c of
        Replaying [] \<Rightarrow> (c\<lparr>co_phase := Live\<rparr>, b)
      | Replaying ((stream_id, m) # events) \<Rightarrow>
          (case personalize gp m (co_threshold c) of
             Inl x \<Rightarrow> fail_conn closing x c b
           | Inr out \<Rightarrow>
               (case send_message gp (we_now_ms env) (we_send env) True out of
                  (fs, Some x) \<Rightarrow> fail_conn closing x c b
                | (fs, None) \<Rightarrow>
                    (emit fs c\<lparr>co_last := Some stream_id, co_phase := Replaying events\<rparr>, b)))
      | _ \<Rightarrow> (c, b))"

text \<open>A task goes on, returns, or ends with an exception.\<close>

datatype task = Continues | Returns | Raises exn

definition heartbeat ::
  "gateway_env \<Rightarrow> settings \<Rightarrow> ws_env \<Rightarrow> conn \<Rightarrow> db \<Rightarrow> conn \<times> db \<times> task"
where
  "heartbeat gp cfg env c d =
     (case replay_telemetry cfg (we_telemetry env) (we_now env) d of (d', telemetry) \<Rightarrow>
        case send_message gp (we_now_ms env) (we_beat env) False
               (heartbeat_message \<lfloor>we_now_ms env\<rfloor> (co_last c) telemetry) of
          (fs, Some x) \<Rightarrow> (c, d', Raises x)
        | (fs, None) \<Rightarrow> (emit fs c, d', Continues))"

text \<open>\<open>stream_id_tuple(stream_id) <= stream_id_tuple(last)\<close>, when a last id is there.\<close>

definition already_sent :: "string \<Rightarrow> string option \<Rightarrow> bool result" where
  "already_sent stream_id prev =
     (if present prev
      then rbind (stream_id_tuple stream_id) (\<lambda>a.
           rbind (stream_id_tuple (the prev)) (\<lambda>b. Inr (a \<le> b)))
      else Inr False)"

text \<open>
  One round of \<open>websocket_sender\<close>. With nothing queued the wait for a message ends in a heartbeat;
  a \<open>TimeoutError\<close> of the send is caught by the same \<open>except\<close>.
\<close>

definition sender_turn ::
  "gateway_env \<Rightarrow> settings \<Rightarrow> ws_env \<Rightarrow> conn \<Rightarrow> broadcaster \<Rightarrow> db \<Rightarrow> conn \<times> broadcaster \<times> db \<times> task"
where
  "sender_turn gp cfg env c b d =
     (if cl_closed (bc_objects b (co_client c)) then (c, b, d, Returns)
      else case queue_get (co_client c) b of
        None \<Rightarrow> (case heartbeat gp cfg env c d of (c', d', t) \<Rightarrow> (c', b, d', t))
      | Some ((stream_id, m), b') \<Rightarrow>
          (case already_sent stream_id (co_last c) of
             Inl x \<Rightarrow> (c, b', d, Raises x)
           | Inr True \<Rightarrow> (c, b', d, Continues)
           | Inr False \<Rightarrow>
               (case rbind (personalize gp m (co_threshold c)) (\<lambda>out.
                       case send_message gp (we_now_ms env) (we_send env) False out of
                         (fs, Some x) \<Rightarrow> Inl x
                       | (fs, None) \<Rightarrow> Inr fs) of
                  Inr fs \<Rightarrow> (emit fs c\<lparr>co_last := Some stream_id\<rparr>, b', d, Continues)
                | Inl TimeoutError \<Rightarrow>
                    (case heartbeat gp cfg env c d of (c', d', t) \<Rightarrow> (c', b', d', t))
                | Inl x \<Rightarrow> (c, b', d, Raises x))))"

definition events_per_second :: "rat \<Rightarrow> rat" where
  "events_per_second interval = min (max (1 / interval) (1 / 10)) 10000"

text \<open>
  The transaction of a \<open>pause_replay\<close> or \<open>resume_replay\<close>. The read locks no row, so other sessions can
  write the control row between it and the write, unless this transaction has just inserted the row.
\<close>

definition change_status ::
  "settings \<Rightarrow> string \<Rightarrow> int \<Rightarrow> (db \<Rightarrow> db) \<Rightarrow> db \<Rightarrow> (db \<times> unit) result"
where
  "change_status cfg kind now others d =
     rbind (fetch_replay_control (stream_name cfg) (replay_events_per_second cfg) now d)
       (\<lambda>(d1, current_status, rate).
          if current_status \<noteq> ''completed''
          then let d2 = (if map_of (replay_control d) (stream_name cfg) = None then d1 else others d1)
               in rbind (update_replay_control (stream_name cfg)
                          (Some (if kind = ''pause_replay'' then ''paused'' else ''running'')) None now d2)
                    (\<lambda>d3. Inr (d3, ()))
          else Inr (d1, ()))"

definition change_speed :: "settings \<Rightarrow> rat \<Rightarrow> int \<Rightarrow> db \<Rightarrow> (db \<times> unit) result" where
  "change_speed cfg interval now d =
     rbind (update_replay_control (stream_name cfg) None (Some (events_per_second interval)) now d)
       (\<lambda>d1. Inr (d1, ()))"

text \<open>One round of \<open>websocket_receiver\<close>; \<open>we_raw\<close> is the text received, or what \<open>receive_text\<close> raises.\<close>

definition receiver_turn ::
  "gateway_env \<Rightarrow> settings \<Rightarrow> ws_env \<Rightarrow> conn \<Rightarrow> db \<Rightarrow> conn \<times> db \<times> task"
where
  "receiver_turn gp cfg env c d =
     (case we_raw env of
        Inl x \<Rightarrow> (c, d, Raises x)
      | Inr raw \<Rightarrow>
          if websocket_max_message_bytes cfg < int (length raw)
          then (emit [Closed 1009 ''message too large''] c, d, Returns)
          else case validate_control gp raw of
            None \<Rightarrow>
              (case send_message gp (we_now_ms env) (we_send env) False
                      [(''type'', JStr ''error''), (''message'', JStr ''invalid control message'')] of
                 (fs, Some x) \<Rightarrow> (c, d, Raises x)
               | (fs, None) \<Rightarrow> (emit fs c, d, Continues))
          | Some (ThresholdMessage v) \<Rightarrow> (c\<lparr>co_threshold := v\<rparr>, d, Continues)
          | Some (SpeedMessage interval) \<Rightarrow>
              (case in_transaction (we_txn env) (change_speed cfg interval (we_now env)) d of
                 (d', Inl x) \<Rightarrow> (c, d', Raises x)
               | (d', Inr _) \<Rightarrow> (c, d', Continues))
          | Some (ReplayStatusMessage kind) \<Rightarrow>
              (case in_transaction (we_txn env) (change_status cfg kind (we_now env) (we_others env)) d of
                 (d', Inl x) \<Rightarrow> (c, d', Raises x)
               | (d', Inr _) \<Rightarrow> (c, d', Continues)))"

text \<open>
  What follows the first task that is done: \<open>results\<close> are those of the tasks in \<open>done\<close>, among them
  \<open>Returns\<close> of the closer when the client is closed.
\<close>

fun first_error :: "task list \<Rightarrow> exn option" where
  "first_error [] = None"
| "first_error (Raises x # ts) = (if is_disconnect x then first_error ts else Some x)"
| "first_error (_ # ts) = first_error ts"

definition finish_live :: "bool \<Rightarrow> task list \<Rightarrow> conn \<Rightarrow> broadcaster \<Rightarrow> conn \<times> broadcaster" where
  "finish_live closing results c b =
     (case first_error results of
        Some x \<Rightarrow> fail_conn closing x c b
      | None \<Rightarrow>
          (emit (if closing \<and> cl_closed (bc_objects b (co_client c)) then [Closed 1013 ''slow client''] else []) c
             \<lparr>co_phase := Finished\<rparr>,
           unregister (co_client c) b))"

end
