(* ===== verification/Gateway_World.thy ===== *)
theory Gateway_World
  imports Gateway_Socket Broadcaster_Props
begin

text \<open>
  One connection in its surroundings: the Redis Stream that grows, the tail that fans it out, other
  connections of the same gateway, and the handler of \<open>services/api_gateway/main.py\<close> step by step.
  Redis answers as documented: ids grow, \<open>XRANGE\<close> returns the first and \<open>XREVRANGE\<close> the last entries
  of the range asked for, \<open>XREAD\<close> those after the cursor, in order, and from \<open>$\<close> those appended while
  it waits. Entries are not trimmed meanwhile.
\<close>

subsection \<open>The stream\<close>

definition key_of :: "string \<Rightarrow> int \<times> int" where
  "key_of i = (case stream_id_tuple i of Inr t \<Rightarrow> t | Inl _ \<Rightarrow> (0, 0))"

definition sid :: "stream_entry \<Rightarrow> int \<times> int" where
  "sid e = key_of (fst e)"

definition stream_ok :: "stream_entry list \<Rightarrow> bool" where
  "stream_ok s \<longleftrightarrow> (\<forall>e \<in> set s. stream_id_tuple (fst e) = Inr (sid e)) \<and> sorted_wrt (<) (map sid s)"

definition entries_after :: "string \<Rightarrow> stream_entry list \<Rightarrow> stream_entry list" where
  "entries_after i s = (case stream_id_tuple i of Inr t \<Rightarrow> filter (\<lambda>e. t < sid e) s | Inl _ \<Rightarrow> [])"

definition ranges_ok ::
  "stream_entry list \<Rightarrow> (string \<Rightarrow> string \<Rightarrow> int \<Rightarrow> stream_entry list result)
     \<Rightarrow> (string \<Rightarrow> int \<Rightarrow> stream_entry list result) \<Rightarrow> bool"
where
  "ranges_ok s xrange xrevrange \<longleftrightarrow>
     (\<forall>key i n rows. xrange key (CHR ''('' # i) n = Inr rows \<longrightarrow> rows = take (nat n) (entries_after i s)) \<and>
     (\<forall>key n rows. xrevrange key n = Inr rows \<longrightarrow> rows = take (nat n) (rev s))"

subsection \<open>Steps\<close>

text \<open>
  \<open>wo_call\<close> is the outstanding \<open>XREAD\<close> from \<open>$\<close>: how many entries the stream had when Redis received it.
\<close>

record world =
  wo_stream :: "stream_entry list"
  wo_call :: "nat option"
  wo_bc :: broadcaster
  wo_db :: db
  wo_conn :: conn

text \<open>What the handler does when a turn of a task ends.\<close>

definition after_turn :: "bool \<Rightarrow> task \<Rightarrow> conn \<Rightarrow> broadcaster \<Rightarrow> conn \<times> broadcaster" where
  "after_turn closing t c b = (if t = Continues then (c, b) else finish_live closing [t] c b)"

text \<open>
  \<open>capped\<close> allows a replay that is cut off at \<open>redis_replay_limit\<close>, \<open>slow\<close> a send that times out while
  the connection is live. A bystander is any step of the broadcaster for other connections. \<open>rely\<close> says
  what the other sessions of the database may commit, between two steps and between the check and the
  write of a control transaction.

  Before its first entry the tail reads from \<open>$\<close>, which means what is appended after the call reached
  Redis. A call that ends with nothing, or with an error, is repeated, and what was appended between
  two calls is not among what either returns.
\<close>

definition times_out :: "ws_fate \<Rightarrow> bool" where
  "times_out f \<longleftrightarrow> f = WsTimesOut \<or> f = WsFails TimeoutError"

inductive ws_step :: "gateway_env \<Rightarrow> settings \<Rightarrow> (db \<Rightarrow> db \<Rightarrow> bool) \<Rightarrow> bool \<Rightarrow> bool \<Rightarrow> world \<Rightarrow> world \<Rightarrow> bool"
  for gp cfg rely capped slow
where
  appended: "stream_ok (wo_stream w @ [e]) \<Longrightarrow>
     ws_step gp cfg rely capped slow w (w\<lparr>wo_stream := wo_stream w @ [e]\<rparr>)"
| tailed: "stream_id_tuple (bc_cursor (wo_bc w)) = Inr t \<Longrightarrow>
     find (\<lambda>e. t < sid e) (wo_stream w) = Some e \<Longrightarrow>
     tail_entries (gp_loads gp) [e] (wo_bc w) = (b, x) \<Longrightarrow>
     ws_step gp cfg rely capped slow w (w\<lparr>wo_bc := b\<rparr>)"
| read_new: "bc_cursor (wo_bc w) = ''$'' \<Longrightarrow> wo_call w = None \<Longrightarrow>
     ws_step gp cfg rely capped slow w (w\<lparr>wo_call := Some (length (wo_stream w))\<rparr>)"
| read_over: "ws_step gp cfg rely capped slow w (w\<lparr>wo_call := None\<rparr>)"
| tailed_new: "bc_cursor (wo_bc w) = ''$'' \<Longrightarrow> wo_call w = Some n \<Longrightarrow> n < length (wo_stream w) \<Longrightarrow>
     tail_entries (gp_loads gp) [wo_stream w ! n] (wo_bc w) = (b, x) \<Longrightarrow>
     ws_step gp cfg rely capped slow w (w\<lparr>wo_bc := b, wo_call := None\<rparr>)"
| others: "rely (wo_db w) d \<Longrightarrow> ws_step gp cfg rely capped slow w (w\<lparr>wo_db := d\<rparr>)"
| bystander: "gw_step cfg (wo_bc w) ev b \<Longrightarrow> bc_cursor b = bc_cursor (wo_bc w) \<Longrightarrow>
     cl_queue (bc_objects b (co_client (wo_conn w))) =
       cl_queue (bc_objects (wo_bc w) (co_client (wo_conn w))) \<Longrightarrow>
     (co_client (wo_conn w) \<in> set (bc_clients b) \<Longrightarrow>
        co_client (wo_conn w) \<in> set (bc_clients (wo_bc w))) \<Longrightarrow>
     ws_step gp cfg rely capped slow w (w\<lparr>wo_bc := b\<rparr>)"
| greeted: "co_phase (wo_conn w) = Greeting \<Longrightarrow>
     greet_step gp cfg env (wo_conn w) (wo_db w) = (c, d) \<Longrightarrow>
     ws_step gp cfg rely capped slow w (w\<lparr>wo_conn := c, wo_db := d\<rparr>)"
| fetched: "co_phase (wo_conn w) = Fetching \<Longrightarrow> ranges_ok (wo_stream w) xrange xrevrange \<Longrightarrow>
     fetch_step gp cfg xrange xrevrange closing (wo_conn w) (wo_bc w) = (c, b) \<Longrightarrow>
     capped \<or> \<not> present (co_last (wo_conn w)) \<or>
       int (length (entries_after (the (co_last (wo_conn w))) (wo_stream w))) \<le> redis_replay_limit cfg \<Longrightarrow>
     ws_step gp cfg rely capped slow w (w\<lparr>wo_conn := c, wo_bc := b\<rparr>)"
| replayed: "co_phase (wo_conn w) = Replaying es \<Longrightarrow>
     replay_step gp env closing (wo_conn w) (wo_bc w) = (c, b) \<Longrightarrow>
     ws_step gp cfg rely capped slow w (w\<lparr>wo_conn := c, wo_bc := b\<rparr>)"
| sending: "co_phase (wo_conn w) = Live \<Longrightarrow> slow \<or> \<not> times_out (we_send env) \<Longrightarrow>
     sender_turn gp cfg env (wo_conn w) (wo_bc w) (wo_db w) = (c, b, d, t) \<Longrightarrow>
     after_turn closing t c b = (c', b') \<Longrightarrow>
     ws_step gp cfg rely capped slow w (w\<lparr>wo_conn := c', wo_bc := b', wo_db := d\<rparr>)"
| receiving: "co_phase (wo_conn w) = Live \<Longrightarrow>
     we_others env (wo_db w) = wo_db w \<or> rely (wo_db w) (we_others env (wo_db w)) \<Longrightarrow>
     receiver_turn gp cfg env (wo_conn w) (wo_db w) = (c, d, t) \<Longrightarrow>
     after_turn closing t c (wo_bc w) = (c', b') \<Longrightarrow>
     ws_step gp cfg rely capped slow w (w\<lparr>wo_conn := c', wo_bc := b', wo_db := d\<rparr>)"
| closer: "co_phase (wo_conn w) = Live \<Longrightarrow> cl_closed (bc_objects (wo_bc w) (co_client (wo_conn w))) \<Longrightarrow>
     finish_live closing [Returns] (wo_conn w) (wo_bc w) = (c, b) \<Longrightarrow>
     ws_step gp cfg rely capped slow w (w\<lparr>wo_conn := c, wo_bc := b\<rparr>)"

inductive ws_reach :: "gateway_env \<Rightarrow> settings \<Rightarrow> (db \<Rightarrow> db \<Rightarrow> bool) \<Rightarrow> bool \<Rightarrow> bool \<Rightarrow> world \<Rightarrow> world \<Rightarrow> bool"
  for gp cfg rely capped slow w
where
  here: "ws_reach gp cfg rely capped slow w w"
| on: "ws_reach gp cfg rely capped slow w w' \<Longrightarrow> ws_step gp cfg rely capped slow w' w'' \<Longrightarrow> ws_reach gp cfg rely capped slow w w''"

subsection \<open>What reached the browser\<close>

fun frame_id :: "frame \<Rightarrow> string list" where
  "frame_id (Text m) = (case map_of m ''stream_id'' of Some (JStr s) \<Rightarrow> [s] | _ \<Rightarrow> [])"
| "frame_id (Closed code reason) = []"

definition sent_ids :: "conn \<Rightarrow> string list" where
  "sent_ids c = concat (map frame_id (co_frames c))"

definition tagged :: "string \<times> ws_message \<Rightarrow> bool" where
  "tagged x \<longleftrightarrow> map_of (snd x) ''stream_id'' = Some (JStr (fst x))"

lemma decode_tagged: "decode_entry loads e = Inr x \<Longrightarrow> tagged x \<and> fst x = fst e"
proof -
  assume d: "decode_entry loads e = Inr x"
  then obtain raw v where "map_of (snd e) ''event'' = Some raw" "raw \<noteq> []" "loads raw = Inr v"
    by (auto simp: decode_entry_def result_simps split: option.splits if_splits)
  with d show ?thesis by (cases v) (auto simp: decode_entry_def tagged_def update_conv')
qed

lemma decode_all_tagged:
  "decode_all loads es = Inr xs \<Longrightarrow> list_all tagged xs \<and> map fst xs = map fst es"
  by (induction es arbitrary: xs) (auto simp: result_simps dest: decode_tagged)

lemma personalize_id:
  "personalize gp m th = Inr out \<Longrightarrow> map_of out ''stream_id'' = map_of m ''stream_id''"
  by (auto simp: personalize_def result_simps update_conv')

lemma annotate_id:
  "annotate_delivery gp now r m = Inr out \<Longrightarrow> map_of out ''stream_id'' = map_of m ''stream_id''"
  by (auto simp: annotate_delivery_def result_simps update_conv' split: if_splits)

lemma send_frames:
  assumes "send_message gp now fate r m = (fs, x)"
  shows "concat (map frame_id fs) = (if x = None then frame_id (Text m) else [])"
  using assms annotate_id
  by (force simp: send_message_def split: sum.splits ws_fate.splits)

lemma telemetry_id: "replay_telemetry cfg fate now d = (d', t) \<Longrightarrow> map_of t ''stream_id'' = None"
  by (auto simp: replay_telemetry_def split: prod.splits sum.splits)

lemma plain_messages:
  "map_of t ''stream_id'' = None \<Longrightarrow> frame_id (Text (connected_message cfg i t)) = []"
  "map_of t ''stream_id'' = None \<Longrightarrow> frame_id (Text (heartbeat_message ts i t)) = []"
  "frame_id (Text [(''type'', v), (''message'', u)]) = []"
  by (simp_all add: connected_message_def heartbeat_message_def)

lemma emit_simps [simp]:
  "co_client (emit fs c) = co_client c" "co_phase (emit fs c) = co_phase c"
  "co_threshold (emit fs c) = co_threshold c" "co_last (emit fs c) = co_last c"
  "sent_ids (emit fs c) = sent_ids c @ concat (map frame_id fs)"
  by (simp_all add: emit_def sent_ids_def)

lemma sent_ids_update [simp]:
  "sent_ids (c\<lparr>co_phase := p\<rparr>) = sent_ids c" "sent_ids (c\<lparr>co_last := l\<rparr>) = sent_ids c"
  "sent_ids (c\<lparr>co_threshold := r\<rparr>) = sent_ids c"
  by (simp_all add: sent_ids_def)

subsection \<open>What a step does to the connection\<close>

text \<open>Most steps leave the connection where it is; some end it.\<close>

definition same_place :: "conn \<Rightarrow> conn \<Rightarrow> bool" where
  "same_place c c' \<longleftrightarrow> co_client c' = co_client c \<and> sent_ids c' = sent_ids c \<and> co_last c' = co_last c \<and>
     co_phase c' = co_phase c"

definition ended :: "conn \<Rightarrow> conn \<Rightarrow> bool" where
  "ended c c' \<longleftrightarrow> co_client c' = co_client c \<and> sent_ids c' = sent_ids c \<and>
     (co_phase c' = Finished \<or> (\<exists>x. co_phase c' = Escaped x))"

lemma fail_conn_ended:
  "fail_conn closing x c b = (c', b') \<Longrightarrow> ended c c' \<and> b' = unregister (co_client c) b"
  by (auto simp: fail_conn_def ended_def)

lemma finish_live_ended:
  "finish_live closing ts c b = (c', b') \<Longrightarrow> ended c c' \<and> b' = unregister (co_client c) b"
  by (auto simp: finish_live_def ended_def dest: fail_conn_ended split: option.splits)

lemma after_turn_cases:
  assumes "after_turn closing t c b = (c', b')"
  obtains (goes) "t = Continues" "c' = c" "b' = b"
  | (ends) "t \<noteq> Continues" "ended c c'" "b' = unregister (co_client c) b"
  using assms finish_live_ended by (auto simp: after_turn_def split: if_splits)

lemma greet_cases:
  assumes "greet_step gp cfg env c d = (c', d')"
  obtains (left) "ended c c'"
  | (greeted) "co_client c' = co_client c" "sent_ids c' = sent_ids c" "co_last c' = co_last c"
      "co_phase c' = Fetching"
proof (cases "we_accept env")
  case (Some x)
  then show thesis using assms by (intro left) (auto simp: greet_step_def ended_def)
next
  case None
  obtain d1 t where t: "replay_telemetry cfg (we_telemetry env) (we_now env) d = (d1, t)" by fastforce
  obtain fs x where s: "send_message gp (we_now_ms env) (we_send env) False
      (connected_message cfg (co_last c) t) = (fs, x)" by fastforce
  have "concat (map frame_id fs) = []"
    using send_frames [OF s] plain_messages(1) [OF telemetry_id [OF t]] by simp
  then show thesis using assms None t s
    by (cases x) (auto simp: greet_step_def ended_def intro: left greeted)
qed

lemma heartbeat_cases:
  assumes "heartbeat gp cfg env c d = (c', d', t)"
  shows "same_place c c'"
proof -
  obtain d1 tel where tel: "replay_telemetry cfg (we_telemetry env) (we_now env) d = (d1, tel)" by fastforce
  obtain fs x where s: "send_message gp (we_now_ms env) (we_beat env) False
      (heartbeat_message \<lfloor>we_now_ms env\<rfloor> (co_last c) tel) = (fs, x)" by fastforce
  have "concat (map frame_id fs) = []"
    using send_frames [OF s] plain_messages(2) [OF telemetry_id [OF tel]] by simp
  then show ?thesis using assms tel s
    by (cases x) (auto simp: heartbeat_def same_place_def)
qed

lemma receiver_cases:
  assumes "receiver_turn gp cfg env c d = (c', d', t)"
  shows "same_place c c'"
proof -
  obtain fs x where s: "send_message gp (we_now_ms env) (we_send env) False
      [(''type'', JStr ''error''), (''message'', JStr ''invalid control message'')] = (fs, x)" by fastforce
  have "concat (map frame_id fs) = []" using send_frames [OF s] plain_messages(3) by simp
  then show ?thesis using assms s
    by (auto simp: receiver_turn_def same_place_def
        split: sum.splits option.splits control.splits if_splits prod.splits)
qed

lemma send_not_timeout:
  assumes "rbind (personalize gp m th) (\<lambda>out. case send_message gp now fate False out of
      (fs, Some x) \<Rightarrow> Inl x | (fs, None) \<Rightarrow> Inr fs) = Inl TimeoutError"
  shows "times_out fate"
proof -
  have d: "py_dict gp v \<noteq> Inl TimeoutError" "py_float gp v \<noteq> Inl TimeoutError" for v
    by (cases v; simp split: option.splits)+
  have i: "stream_id_tuple s \<noteq> Inl TimeoutError" for s
    by (auto simp: stream_id_tuple_def py_int_def Let_def result_simps split: list.splits option.splits)
  have "personalize gp m th \<noteq> Inl TimeoutError"
    using d by (auto simp: personalize_def result_simps)
  moreover have "annotate_delivery gp now False out \<noteq> Inl TimeoutError" for out
    using d i by (auto simp: annotate_delivery_def redis_latency_def result_simps split: option.splits if_splits)
  ultimately show ?thesis using assms
    by (cases "personalize gp m th")
      (auto simp: send_message_def times_out_def split: sum.splits ws_fate.splits)
qed

text \<open>A turn of the sender: nothing new, an entry taken without effect, an entry sent, or the end.\<close>

lemma sender_cases:
  assumes "sender_turn gp cfg env c b d = (c', b', d', t)"
    and tagged: "\<forall>x \<in> set (cl_queue (bc_objects b (co_client c))). tagged x"
  obtains (idle) "same_place c c'" "b' = b"
  | (taken) x where "queue_get (co_client c) b = Some (x, b')" "same_place c c'"
      "already_sent (fst x) (co_last c) = Inr True \<or>
       already_sent (fst x) (co_last c) = Inr False \<and> (t \<noteq> Continues \<or> times_out (we_send env)) \<or>
       (\<exists>y. already_sent (fst x) (co_last c) = Inl y) \<and> t \<noteq> Continues"
  | (sent) x where "queue_get (co_client c) b = Some (x, b')" "t = Continues"
      "already_sent (fst x) (co_last c) = Inr False"
      "co_client c' = co_client c" "co_phase c' = co_phase c"
      "co_last c' = Some (fst x)" "sent_ids c' = sent_ids c @ [fst x]"
proof (cases "cl_closed (bc_objects b (co_client c))")
  case True
  then show thesis using assms by (intro idle) (auto simp: sender_turn_def same_place_def)
next
  case open': False
  show thesis
  proof (cases "queue_get (co_client c) b")
    case None
    then show thesis using assms open'
      by (intro idle) (auto simp: sender_turn_def dest: heartbeat_cases split: prod.splits)
  next
    case (Some xb)
    obtain i m b1 where xb: "xb = ((i, m), b1)" by (cases xb) auto
    have tag: "map_of m ''stream_id'' = Some (JStr i)"
      using tagged queue_get_Some [OF Some [unfolded xb]] by (auto simp: tagged_def)
    show thesis
    proof (cases "already_sent i (co_last c)")
      case (Inl y)
      then show thesis using assms open' Some xb
        by (intro taken [of "(i, m)"]) (auto simp: sender_turn_def same_place_def)
    next
      case (Inr old)
      show thesis
      proof (cases old)
        case True
        then show thesis using assms open' Some xb Inr
          by (intro taken [of "(i, m)"]) (auto simp: sender_turn_def same_place_def)
      next
        case False
        let ?r = "rbind (personalize gp m (co_threshold c)) (\<lambda>out.
            case send_message gp (we_now_ms env) (we_send env) False out of
              (fs, Some x) \<Rightarrow> Inl x | (fs, None) \<Rightarrow> Inr fs)"
        show thesis
        proof (cases ?r)
          case (Inr fs)
          then obtain out where out: "personalize gp m (co_threshold c) = Inr out"
            "send_message gp (we_now_ms env) (we_send env) False out = (fs, None)"
            by (cases "personalize gp m (co_threshold c)") (auto split: prod.splits option.splits)
          have "concat (map frame_id fs) = [i]"
            using send_frames [OF out(2)] personalize_id [OF out(1)] tag by simp
          then show thesis using assms open' Some xb False \<open>already_sent i (co_last c) = Inr old\<close> Inr
            by (intro sent [of "(i, m)"]) (auto simp: sender_turn_def)
        next
          case (Inl x)
          have step: "(c', b', d', t) = (case x of
              TimeoutError \<Rightarrow> (case heartbeat gp cfg env c d of (c', d', t) \<Rightarrow> (c', b1, d', t))
            | x \<Rightarrow> (c, b1, d, Raises x))"
            using assms(1) open' Some xb False \<open>already_sent i (co_last c) = Inr old\<close> Inl
            by (simp add: sender_turn_def split: exn.splits)
          have "t \<noteq> Continues \<or> times_out (we_send env)"
            using step send_not_timeout [of gp m "co_threshold c" "we_now_ms env" "we_send env"] Inl
            by (cases x) auto
          moreover have "same_place c c' \<and> b' = b1"
            using step by (auto simp: same_place_def [of c c] dest: heartbeat_cases
                split: exn.splits prod.splits)
          ultimately show thesis using Some xb False \<open>already_sent i (co_last c) = Inr old\<close>
            by (intro taken [of "(i, m)"]) auto
        qed
      qed
    qed
  qed
qed

end
