(* ===== verification/Gateway_Props.thy ===== *)
theory Gateway_Props
  imports Gateway_World
begin

text \<open>
  What a browser sees of a connection: entries in order and once. \<open>Gateway_Gap\<close> shows when they come
  without a gap, \<open>Gateway_Runs\<close> how one is lost.
\<close>

subsection \<open>Ids\<close>

lemma key_of_Inr: "stream_id_tuple i = Inr t \<Longrightarrow> key_of i = t"
  by (simp add: key_of_def)

definition parses :: "string \<Rightarrow> bool" where
  "parses i \<longleftrightarrow> stream_id_tuple i = Inr (key_of i)"

lemma parsesI: "stream_id_tuple i = Inr t \<Longrightarrow> parses i"
  by (simp add: parses_def key_of_Inr)

lemma entries_after_parses: "parses i \<Longrightarrow> entries_after i s = filter (\<lambda>e. key_of i < sid e) s"
  by (simp add: entries_after_def parses_def)

lemma parses_not_Nil: "parses i \<Longrightarrow> i \<noteq> []"
  by (auto simp: parses_def stream_id_tuple_def)

lemma present_Some: "parses i \<Longrightarrow> present (Some i)"
  by (auto simp: present_def dest: parses_not_Nil)

lemma int_body_all_digits: "\<forall>c \<in> set s. is_digit c \<Longrightarrow> s \<noteq> [] \<Longrightarrow> \<exists>n. py_int s = Inr n"
proof -
  assume d: "\<forall>c \<in> set s. is_digit c" and ne: "s \<noteq> []"
  obtain n where "int_body False 0 s = Some n" using int_body_digits [OF d] ne by blast
  moreover obtain c r where cr: "s = c # r" using ne by (cases s) auto
  moreover have "c \<noteq> CHR ''-'' \<and> c \<noteq> CHR ''+''" using d cr digit_not_sign by simp
  ultimately show ?thesis
    using strip_digits [OF d] by (auto simp: py_int_def Let_def simp del: int_body.simps)
qed

lemma pattern_parses: "stream_id_pattern s \<Longrightarrow> parses s"
proof -
  assume p: "stream_id_pattern s"
  then obtain r where r: "dropWhile is_digit s = CHR ''-'' # r" "r \<noteq> []" "list_all is_digit r"
    and ne: "takeWhile is_digit s \<noteq> []"
    by (auto simp: stream_id_pattern_def split: list.splits)
  let ?a = "takeWhile is_digit s"
  have s: "s = ?a @ CHR ''-'' # r" using r(1) by (metis takeWhile_dropWhile_id)
  have a: "\<forall>c \<in> set ?a. is_digit c" by (meson set_takeWhileD)
  then have "CHR ''-'' \<notin> set ?a" using digit_not_sign by blast
  note split = minus_split [OF this, of r, folded s]
  obtain m n where "py_int ?a = Inr m" "py_int r = Inr n"
    using int_body_all_digits [OF a ne] int_body_all_digits [of r] r(2,3) by (auto simp: list_all_iff)
  then have "stream_id_tuple s = Inr (m, n)" unfolding stream_id_tuple_def split by simp
  then show ?thesis by (rule parsesI)
qed

definition id_less :: "string \<Rightarrow> string \<Rightarrow> bool" where
  "id_less i j \<longleftrightarrow> key_of i < key_of j"

lemma already_sent_False:
  "already_sent i prev = Inr False \<Longrightarrow> present prev \<Longrightarrow> parses i \<and> id_less (the prev) i"
  by (auto simp: already_sent_def result_simps id_less_def parses_def not_le key_of_def)

subsection \<open>Queues hold parsed and tagged entries\<close>

definition well_tagged :: "string \<times> ws_message \<Rightarrow> bool" where
  "well_tagged x \<longleftrightarrow> tagged x \<and> parses (fst x)"

definition queue_of :: "world \<Rightarrow> (string \<times> ws_message) list" where
  "queue_of w = cl_queue (bc_objects (wo_bc w) (co_client (wo_conn w)))"

lemma tail_one:
  assumes "tail_entries loads [e] b = (b', x)"
  obtains (bad) "b' = b"
  | (moved) "b' = b\<lparr>bc_cursor := fst e\<rparr>" "\<not> parses (fst e)"
  | (fanned) m where "b' = broadcast (fst e) m (b\<lparr>bc_cursor := fst e\<rparr>)" "well_tagged (fst e, m)"
proof (cases "decode_entry loads e")
  case (Inl y)
  then show thesis using assms bad by simp
next
  case (Inr y)
  obtain m where y: "y = (fst e, m)" using decode_tagged [OF Inr] by (cases y) auto
  show thesis
  proof (cases "stream_id_tuple (fst e)")
    case (Inl z)
    then show thesis using assms Inr y moved by (simp add: Let_def parses_def)
  next
    case (Inr t)
    then have "well_tagged (fst e, m)"
      using decode_tagged [OF \<open>decode_entry loads e = Inr y\<close>] y by (simp add: well_tagged_def parsesI)
    then show thesis using assms Inr \<open>decode_entry loads e = Inr y\<close> y
      by (intro fanned [of m]) (auto simp: Let_def)
  qed
qed

lemma broadcast_queue:
  assumes "gw_ok cfg b"
  shows "cl_queue (bc_objects (broadcast i m b) c) =
    (if c \<in> set (bc_clients b) \<and> put_nowait (i, m) (bc_objects b c) \<noteq> None
     then cl_queue (bc_objects b c) @ [(i, m)] else cl_queue (bc_objects b c))"
proof -
  have "distinct (bc_clients b)" using assms by (simp add: gw_ok_def)
  from broadcast_simps(1) [OF this] show ?thesis by (simp add: offered_simps)
qed

lemma unregister_queue [simp]: "cl_queue (bc_objects (unregister d b) c) = cl_queue (bc_objects b c)"
  by (simp add: unregister_def)

lemma gw_ok_cursor [simp]: "gw_ok cfg (b\<lparr>bc_cursor := i\<rparr>) = gw_ok cfg b"
  by (simp add: gw_ok_def)

text \<open>Every step keeps the broadcaster within its bounds and our client where it is.\<close>

definition sound :: "settings \<Rightarrow> world \<Rightarrow> bool" where
  "sound cfg w \<longleftrightarrow> gw_ok cfg (wo_bc w) \<and> co_client (wo_conn w) < bc_next (wo_bc w) \<and>
     list_all well_tagged (queue_of w)"

lemma tagged_queue: "sound cfg w \<Longrightarrow> \<forall>x \<in> set (queue_of w). tagged x"
  by (auto simp: sound_def list_all_iff well_tagged_def)

lemma sound_gw:
  assumes "sound cfg w" and "1 \<le> websocket_client_queue_size cfg" and "gw_step cfg (wo_bc w) ev b"
    and "co_client c = co_client (wo_conn w)" and "wo_bc w' = b" and "wo_conn w' = c"
    and "set (cl_queue (bc_objects b (co_client c))) \<subseteq> set (queue_of w)"
  shows "sound cfg w'"
  using assms gw_ok_step [OF assms(3) _ assms(2)] next_step [OF assms(3)]
  by (auto simp: sound_def queue_of_def list_all_iff)

lemma sound_unregister:
  assumes "sound cfg w" and "1 \<le> websocket_client_queue_size cfg"
    and "wo_bc w' = unregister (co_client (wo_conn w)) (wo_bc w)"
    and "co_client (wo_conn w') = co_client (wo_conn w)"
  shows "sound cfg w'"
proof -
  have "gw_step cfg (wo_bc w) Other (unregister (co_client (wo_conn w)) (wo_bc w))"
    using assms(1) by (intro gw_step.gone) (simp add: sound_def)
  from sound_gw [OF assms(1,2) this assms(4,3) refl] show ?thesis
    by (simp add: queue_of_def assms(4))
qed

lemma fetch_cases:
  assumes "fetch_step gp cfg xrange xrevrange closing c b = (c', b')"
    and "ranges_ok s xrange xrevrange"
  obtains (failed) "ended c c'" "b' = unregister (co_client c) b"
  | (rows) es where "co_phase c' = Replaying es" "co_client c' = co_client c" "sent_ids c' = sent_ids c"
      "co_last c' = co_last c" "b' = b" "list_all tagged es"
      "map fst es = map fst (if present (co_last c)
         then take (nat (redis_replay_limit cfg)) (entries_after (the (co_last c)) s)
         else rev (take (nat (redis_replay_limit cfg)) (rev s)))"
proof (cases "if present (co_last c) then replay_after (gp_loads gp) xrange cfg (the (co_last c))
    else replay_recent (gp_loads gp) xrevrange cfg")
  case (Inl x)
  then show thesis using assms(1) failed fail_conn_ended by (auto simp: fetch_step_def)
next
  case (Inr es)
  have "list_all tagged es \<and> map fst es = map fst (if present (co_last c)
         then take (nat (redis_replay_limit cfg)) (entries_after (the (co_last c)) s)
         else rev (take (nat (redis_replay_limit cfg)) (rev s)))"
    using Inr assms(2)
    by (auto simp: replay_after_def replay_recent_def result_simps ranges_ok_def rev_map
        dest!: decode_all_tagged split: if_splits)
  then show thesis using assms(1) Inr by (intro rows [of es]) (auto simp: fetch_step_def)
qed

lemma replay_cases:
  assumes "replay_step gp env closing c b = (c', b')" and "co_phase c = Replaying es"
    and "list_all tagged es"
  obtains (live) "es = []" "c' = c\<lparr>co_phase := Live\<rparr>" "b' = b"
  | (failed) "ended c c'" "b' = unregister (co_client c) b"
  | (sent) x rest where "es = x # rest" "co_phase c' = Replaying rest" "co_client c' = co_client c"
      "co_last c' = Some (fst x)" "sent_ids c' = sent_ids c @ [fst x]" "b' = b"
proof (cases es)
  case Nil
  then show thesis using assms(1,2) live by (simp add: replay_step_def)
next
  case (Cons x rest)
  obtain i m where x: "x = (i, m)" by (cases x)
  show thesis
  proof (cases "personalize gp m (co_threshold c)")
    case (Inl y)
    then show thesis using assms(1,2) Cons x failed fail_conn_ended by (auto simp: replay_step_def)
  next
    case (Inr out)
    obtain fs e where s: "send_message gp (we_now_ms env) (we_send env) True out = (fs, e)" by fastforce
    show thesis
    proof (cases e)
      case None
      have "concat (map frame_id fs) = [i]"
        using send_frames [OF s] None personalize_id [OF Inr] assms(3) Cons x by (simp add: tagged_def)
      then show thesis using assms(1,2) Cons x Inr s None
        by (intro sent [of x rest]) (auto simp: replay_step_def)
    next
      case (Some y)
      then show thesis using assms(1,2) Cons x Inr s failed fail_conn_ended by (auto simp: replay_step_def)
    qed
  qed
qed

subsection \<open>Soundness is kept by every step\<close>

lemma sound_tail:
  assumes "tail_entries loads [e] (wo_bc w) = (b, x)" and "sound cfg w"
    and "1 \<le> websocket_client_queue_size cfg"
    and "wo_bc w' = b" and "wo_conn w' = wo_conn w"
  shows "sound cfg w'"
  using assms(1)
proof (cases rule: tail_one)
  case (fanned m)
  let ?b = "wo_bc w\<lparr>bc_cursor := fst e\<rparr>"
  have ok: "gw_ok cfg ?b" using assms(2) by (simp add: sound_def)
  have step: "gw_step cfg ?b (Fan (fst e, m)) b" unfolding fanned(1) by (rule gw_step.fanned)
  have "gw_ok cfg b" by (rule gw_ok_step [OF step ok assms(3)])
  moreover have "bc_next (wo_bc w) \<le> bc_next b" using next_step [OF step ok] by simp
  ultimately show ?thesis
    using assms(2) fanned(2) broadcast_queue [OF ok, of "fst e" m]
    by (simp add: sound_def queue_of_def assms(4,5)) (simp add: fanned(1))
qed (use assms(2,4,5) in \<open>simp_all add: sound_def queue_of_def\<close>)

lemma sound_step:
  assumes "ws_step gp cfg rely capped slow w w'" and "sound cfg w" and "1 \<le> websocket_client_queue_size cfg"
    and "\<And>es. co_phase (wo_conn w) = Replaying es \<Longrightarrow> list_all tagged es"
  shows "sound cfg w'"
  using assms
proof (induction rule: ws_step.induct)
  case (tailed w t e b x)
  show ?case by (rule sound_tail [OF tailed(3-5)]) simp_all
next
  case (tailed_new w n b x)
  show ?case by (rule sound_tail [OF tailed_new(4-6)]) simp_all
next
  case (bystander w ev b)
  show ?case
    by (rule sound_gw [OF bystander(5,6,1), of "wo_conn w"]) (simp_all add: queue_of_def bystander(3))
next
  case (greeted w env c d)
  from greeted(2) show ?case
    by (cases rule: greet_cases) (use greeted in \<open>simp_all add: sound_def queue_of_def ended_def\<close>)
next
  case (fetched w xrange xrevrange closing c b)
  from fetched(3,2) show ?case
  proof (cases rule: fetch_cases)
    case failed
    then show ?thesis
      by (intro sound_unregister [OF fetched(5,6)]) (simp_all add: ended_def)
  next
    case (rows es)
    then show ?thesis using fetched(5) by (simp add: sound_def queue_of_def)
  qed
next
  case (replayed w es env closing c b)
  from replayed(2,1) replayed(5) [OF replayed(1)] show ?case
  proof (cases rule: replay_cases)
    case failed
    then show ?thesis
      by (intro sound_unregister [OF replayed(3,4)]) (simp_all add: ended_def)
  qed (use replayed(3) in \<open>simp_all add: sound_def queue_of_def\<close>)
next
  case (sending w env c b d t closing c' b')
  have tag: "\<forall>x \<in> set (cl_queue (bc_objects (wo_bc w) (co_client (wo_conn w)))). tagged x"
    using tagged_queue [OF sending(5)] by (simp add: queue_of_def)
  have mid: "sound cfg (w\<lparr>wo_conn := c, wo_bc := b, wo_db := d\<rparr>) \<and> co_client c = co_client (wo_conn w)"
    using sending(3) tag
  proof (cases rule: sender_cases)
    case idle
    then show ?thesis using sending(5) by (simp add: sound_def queue_of_def same_place_def)
  next
    case (taken x)
    have "sound cfg (w\<lparr>wo_conn := c, wo_bc := b, wo_db := d\<rparr>)"
      by (rule sound_gw [OF sending(5,6) gw_step.got [OF taken(1)], of c])
        (use taken(2) queue_get_Some [OF taken(1)] in \<open>auto simp: same_place_def queue_of_def\<close>)
    then show ?thesis using taken(2) by (simp add: same_place_def)
  next
    case (sent x)
    have "sound cfg (w\<lparr>wo_conn := c, wo_bc := b, wo_db := d\<rparr>)"
      by (rule sound_gw [OF sending(5,6) gw_step.got [OF sent(1)], of c])
        (use sent(4) queue_get_Some [OF sent(1)] in \<open>auto simp: queue_of_def\<close>)
    then show ?thesis using sent(4) by simp
  qed
  from sending(4) show ?case
  proof (cases rule: after_turn_cases)
    case goes
    then show ?thesis using mid by simp
  next
    case ends
    then show ?thesis
      by (intro sound_unregister [OF conjunct1 [OF mid] sending(6)]) (simp_all add: ended_def)
  qed
next
  case (receiving w env c d t closing c' b')
  have same: "same_place (wo_conn w) c" by (rule receiver_cases [OF receiving(3)])
  then have mid: "sound cfg (w\<lparr>wo_conn := c, wo_db := d\<rparr>)"
    using receiving(5) by (simp add: sound_def queue_of_def same_place_def)
  from receiving(4) show ?case
  proof (cases rule: after_turn_cases)
    case goes
    then show ?thesis using mid by (simp add: sound_def queue_of_def)
  next
    case ends
    then show ?thesis
      by (intro sound_unregister [OF mid receiving(6)]) (simp_all add: ended_def)
  qed
next
  case (closer w closing c b)
  show ?case
    by (rule sound_unregister [OF closer(4,5)])
      (use finish_live_ended [OF closer(3)] in \<open>simp_all add: ended_def\<close>)
qed (simp_all add: sound_def queue_of_def)

subsection \<open>Order\<close>

lemma stream_ids:
  assumes "stream_ok s"
  shows "sorted_wrt id_less (map fst s)" and "list_all parses (map fst s)"
proof -
  show "sorted_wrt id_less (map fst s)"
    using assms by (simp add: stream_ok_def sorted_wrt_map id_less_def sid_def)
  have "parses (fst e)" if "e \<in> set s" for e
    using assms that unfolding stream_ok_def by (intro parsesI) blast
  then show "list_all parses (map fst s)" by (simp add: list_all_iff)
qed

lemma fetched_ids:
  assumes "stream_ok s" and "present (co_last c) \<Longrightarrow> parses (the (co_last c))"
    and "ids = map fst (if present (co_last c) then take n (entries_after (the (co_last c)) s)
         else rev (take n (rev s)))"
  shows "sorted_wrt id_less ids" and "list_all parses ids"
    and "present (co_last c) \<Longrightarrow> i \<in> set ids \<Longrightarrow> id_less (the (co_last c)) i"
proof -
  have sub: "\<exists>P k m. ids = map fst (take k (drop m (filter P s))) \<and>
      (present (co_last c) \<longrightarrow> P = (\<lambda>e. key_of (the (co_last c)) < sid e))"
  proof (cases "present (co_last c)")
    case True
    then show ?thesis using assms(2,3)
      by (intro exI [of _ "\<lambda>e. key_of (the (co_last c)) < sid e"] exI [of _ n] exI [of _ 0])
        (simp add: entries_after_parses)
  next
    case False
    then show ?thesis using assms(3)
      by (intro exI [of _ "\<lambda>_. True"] exI [of _ "length s"] exI [of _ "length s - n"])
        (simp add: take_rev)
  qed
  then obtain P k m where ids: "ids = map fst (take k (drop m (filter P s)))"
    and P: "present (co_last c) \<Longrightarrow> P = (\<lambda>e. key_of (the (co_last c)) < sid e)" by blast
  have "sorted_wrt (\<lambda>x y. id_less (fst x) (fst y)) s"
    using stream_ids(1) [OF assms(1)] by (simp add: sorted_wrt_map)
  then show "sorted_wrt id_less ids"
    unfolding ids sorted_wrt_map by (intro sorted_wrt_take sorted_wrt_drop sorted_wrt_filter)
  have "set (take k (drop m (filter P s))) \<subseteq> set (filter P s)"
    by (rule order_trans [OF set_take_subset set_drop_subset])
  then have mem: "i \<in> set ids \<Longrightarrow> \<exists>e \<in> set s. i = fst e \<and> P e" for i
    unfolding ids by auto
  have "\<forall>e \<in> set s. parses (fst e)" using stream_ids(2) [OF assms(1)] by (simp add: list_all_iff)
  then show "list_all parses ids" using mem unfolding list_all_iff by blast
  show "id_less (the (co_last c)) i" if "present (co_last c)" "i \<in> set ids"
    using mem [OF that(2)] P [OF that(1)] by (auto simp: id_less_def sid_def)
qed

fun owed_ids :: "phase \<Rightarrow> string list" where
  "owed_ids (Replaying es) = map fst es"
| "owed_ids _ = []"

fun over :: "phase \<Rightarrow> bool" where
  "over Finished = True"
| "over (Escaped _) = True"
| "over _ = False"

lemma ended_simps: "ended c c' \<Longrightarrow> owed_ids (co_phase c') = [] \<and> over (co_phase c')"
  by (auto simp: ended_def)

definition in_order :: "string option \<Rightarrow> conn \<Rightarrow> bool" where
  "in_order start c \<longleftrightarrow>
     list_all parses (sent_ids c @ owed_ids (co_phase c)) \<and>
     sorted_wrt id_less (sent_ids c @ owed_ids (co_phase c)) \<and>
     (present start \<longrightarrow> (\<forall>i \<in> set (sent_ids c @ owed_ids (co_phase c)). id_less (the start) i)) \<and>
     (\<not> over (co_phase c) \<longrightarrow> co_last c = (if sent_ids c = [] then start else Some (last (sent_ids c)))) \<and>
     (co_phase c \<in> {Greeting, Fetching} \<longrightarrow> sent_ids c = []) \<and>
     (\<forall>es. co_phase c = Replaying es \<longrightarrow> list_all tagged es)"

lemma in_order_ended: "in_order start c \<Longrightarrow> ended c c' \<Longrightarrow> in_order start c'"
  using ended_simps [of c c'] by (auto simp: in_order_def ended_def sorted_wrt_append)

lemma in_order_same: "in_order start c \<Longrightarrow> same_place c c' \<Longrightarrow> in_order start c'"
  by (simp add: in_order_def same_place_def)

lemma in_order_after:
  "after_turn closing t c b = (c', b') \<Longrightarrow> in_order start c \<Longrightarrow> in_order start c'"
  by (erule after_turn_cases) (auto intro: in_order_ended)

text \<open>What is sent live comes after everything sent before.\<close>

lemma in_order_sent:
  assumes "in_order start c" and "co_phase c = Live" and "parses i"
    and "already_sent i (co_last c) = Inr False" and "present start \<Longrightarrow> parses (the start)"
    and "co_phase c' = Live" and "co_last c' = Some i" and "sent_ids c' = sent_ids c @ [i]"
  shows "in_order start c'"
proof -
  have "\<forall>j \<in> set (sent_ids c). id_less j i \<and> (present start \<longrightarrow> id_less (the start) i)"
  proof
    fix j assume j: "j \<in> set (sent_ids c)"
    then have ne: "sent_ids c \<noteq> []" by auto
    then have l: "co_last c = Some (last (sent_ids c))" "parses (last (sent_ids c))"
      using assms(1,2) by (auto simp: in_order_def list_all_iff)
    have up: "id_less (last (sent_ids c)) i"
      using already_sent_False [OF assms(4)] present_Some [OF l(2)] l(1) by simp
    have "sorted_wrt id_less (butlast (sent_ids c) @ [last (sent_ids c)])"
      using assms(1,2) ne by (simp add: in_order_def)
    then have "j = last (sent_ids c) \<or> id_less j (last (sent_ids c))"
      using j ne by (metis append_butlast_last_id insert_iff list.set(2) rotate1.simps(2) set_rotate1
          sorted_wrt_append list.set_intros(1))
    moreover have "present start \<longrightarrow> id_less (the start) (last (sent_ids c))"
      using assms(1,2) ne by (simp add: in_order_def)
    ultimately show "id_less j i \<and> (present start \<longrightarrow> id_less (the start) i)"
      using up unfolding id_less_def by (meson less_trans)
  qed
  moreover have "sent_ids c \<noteq> [] \<Longrightarrow> present start \<longrightarrow> id_less (the start) i"
    using calculation last_in_set [of "sent_ids c"] by blast
  moreover have "sent_ids c = [] \<Longrightarrow> present start \<longrightarrow> id_less (the start) i"
    using assms(1,2) already_sent_False [OF assms(4)] by (auto simp: in_order_def)
  ultimately show ?thesis
    using assms by (cases "sent_ids c = []") (auto simp: in_order_def sorted_wrt_append)
qed

lemma order_step:
  assumes "ws_step gp cfg rely capped slow w w'" and "in_order start (wo_conn w)" and "sound cfg w"
    and "stream_ok (wo_stream w)" and "present start \<Longrightarrow> parses (the start)"
  shows "in_order start (wo_conn w') \<and> stream_ok (wo_stream w')"
  using assms
proof (induction rule: ws_step.induct)
  case (greeted w env c d)
  from greeted(2) show ?case
  proof (cases rule: greet_cases)
    case left
    then show ?thesis using greeted by (auto intro: in_order_ended)
  next
    case greeted': greeted
    then show ?thesis using greeted by (auto simp: in_order_def)
  qed
next
  case (fetched w xrange xrevrange closing c b)
  from fetched(3,2) show ?case
  proof (cases rule: fetch_cases)
    case failed
    then show ?thesis using fetched by (auto intro: in_order_ended)
  next
    case (rows es)
    have l: "co_last (wo_conn w) = start" "sent_ids (wo_conn w) = []"
      using fetched(1,5) by (auto simp: in_order_def)
    note ids = fetched_ids [OF fetched(7), of "wo_conn w", OF _ rows(7), unfolded l, OF fetched(8)]
    show ?thesis using rows l ids fetched(7) by (auto simp: in_order_def)
  qed
next
  case (replayed w es env closing c b)
  have tag: "list_all tagged es" using replayed(1,3) by (auto simp: in_order_def)
  from replayed(2,1) tag show ?case
  proof (cases rule: replay_cases)
    case live
    then show ?thesis using replayed(1,3,5) by (auto simp: in_order_def)
  next
    case failed
    then show ?thesis using replayed by (auto intro: in_order_ended)
  next
    case (sent x rest)
    then show ?thesis using replayed(1,3,5) by (auto simp: in_order_def)
  qed
next
  case (sending w env c b d t closing c' b')
  have tag: "\<forall>x \<in> set (cl_queue (bc_objects (wo_bc w) (co_client (wo_conn w)))). tagged x"
    using tagged_queue [OF sending(6)] by (simp add: queue_of_def)
  have "in_order start c"
    using sending(3) tag
  proof (cases rule: sender_cases)
    case (sent x)
    have "x \<in> set (queue_of w)" using queue_get_Some [OF sent(1)] by (simp add: queue_of_def)
    then have "parses (fst x)" using sending(6) by (auto simp: sound_def list_all_iff well_tagged_def)
    then show ?thesis
      by (rule in_order_sent [OF sending(5,1) _ sent(3) sending(8)])
        (use sent sending(1) in auto)
  qed (use sending(5) in \<open>auto intro: in_order_same\<close>)
  then show ?case using sending(4,7) by (auto intro: in_order_after)
next
  case (receiving w env c d t closing c' b')
  have "in_order start c" by (rule in_order_same [OF receiving(5) receiver_cases [OF receiving(3)]])
  then show ?case using receiving(4,7) by (auto intro: in_order_after)
next
  case (closer w closing c b)
  then show ?case using finish_live_ended [OF closer(3)] by (auto intro: in_order_ended)
qed simp_all

lemma order_reach:
  assumes "ws_reach gp cfg rely capped slow w w'" and "in_order start (wo_conn w)" and "sound cfg w"
    and "stream_ok (wo_stream w)" and "present start \<Longrightarrow> parses (the start)"
    and "1 \<le> websocket_client_queue_size cfg"
  shows "in_order start (wo_conn w') \<and> stream_ok (wo_stream w') \<and> sound cfg w'"
  using assms
proof (induction rule: ws_reach.induct)
  case (on w' w'')
  then have IH: "in_order start (wo_conn w')" "stream_ok (wo_stream w')" "sound cfg w'" by auto
  from order_step [OF on(2) IH(1,3,2) on(7)] sound_step [OF on(2) IH(3) on(8)] IH(1)
  show ?case by (auto simp: in_order_def)
qed simp

text \<open>A connection just accepted.\<close>

definition opened_world :: "nat option \<Rightarrow> stream_entry list \<Rightarrow> db \<Rightarrow> conn \<Rightarrow> broadcaster \<Rightarrow> world" where
  "opened_world call s d c b = \<lparr>wo_stream = s, wo_call = call, wo_bc = b, wo_db = d, wo_conn = c\<rparr>"

lemma opened:
  assumes "websocket_open cfg start b = (Inr c, b')" and "gw_ok cfg b"
    and "1 \<le> websocket_client_queue_size cfg"
  shows "in_order start c" and "sound cfg (opened_world call s d c b')"
    and "present start \<Longrightarrow> parses (the start)" and "co_phase c = Greeting" and "co_last c = start"
    and "co_client c \<in> set (bc_clients b')" and "queue_of (opened_world call s d c b') = []"
    and "bc_cursor b' = bc_cursor b"
proof -
  have r: "register cfg b = Inr (co_client c, b')" and
    c: "c = \<lparr>co_client = co_client c, co_phase = Greeting, co_threshold = presentation_threshold cfg,
      co_last = start, co_frames = []\<rparr>" and p: "present start \<Longrightarrow> stream_id_pattern (the start)"
    using assms(1) by (auto simp: websocket_open_def split: if_splits sum.splits)
  show "present start \<Longrightarrow> parses (the start)" using p pattern_parses by blast
  show c1: "co_phase c = Greeting" and c2: "co_last c = start" by (subst c, simp)+
  have "sent_ids c = []" by (subst c) (simp add: sent_ids_def)
  then show "in_order start c" using c1 c2 by (simp add: in_order_def)
  note reg = register_Inr [OF r]
  show q: "queue_of (opened_world call s d c b') = []"
    using reg by (simp add: queue_of_def opened_world_def new_client_def)
  have "gw_ok cfg b'" by (rule gw_ok_step [OF gw_step.opened [OF r] assms(2,3)])
  then show "sound cfg (opened_world call s d c b')"
    using reg q by (simp add: sound_def opened_world_def)
  show "co_client c \<in> set (bc_clients b')" "bc_cursor b' = bc_cursor b" using reg by simp_all
qed

text \<open>
  C16. A browser receives the entries of the stream in order, each at most once, and none it already
  had. Whatever the other connections, the tail, the controls, other sessions of the database and
  failures do, also when the tail has read nothing yet, a replay is cut off or sends time out, the ids of what is sent on a connection grow strictly, from the last id
  the browser asked to resume after.
\<close>

theorem delivered_in_order:
  assumes "websocket_open cfg start b = (Inr c, b')" and "gw_ok cfg b" and "stream_ok s"
    and "1 \<le> websocket_client_queue_size cfg"
    and "ws_reach gp cfg rely True True (opened_world call s d c b') w"
  shows "sorted_wrt id_less (sent_ids (wo_conn w)) \<and>
    (present start \<longrightarrow> (\<forall>i \<in> set (sent_ids (wo_conn w)). id_less (the start) i))"
proof -
  note o = opened [OF assms(1,2,4)]
  have "in_order start (wo_conn w)"
    using order_reach [OF assms(5) _ o(2) _ o(3) assms(4)] o(1) assms(3) by (simp add: opened_world_def)
  then show ?thesis by (simp add: in_order_def sorted_wrt_append)
qed

end
