(* ===== verification/Gateway_Gap.thy ===== *)
theory Gateway_Gap
  imports Gateway_Props
begin

text \<open>
  No gaps: once the tail has read an entry, while no replay is cut off and no live send times out, what
  is sent on a connection is a contiguous piece of the stream, from the entry after the one the browser named. The positions in
  the stream behind it: the queue starts at \<open>a\<close>, the tail is at \<open>u\<close>, what was sent or is about to
  be replayed is the piece from \<open>k\<close> to \<open>j\<close>.
\<close>

subsection \<open>Positions in a sorted stream\<close>

definition pos :: "string option \<Rightarrow> stream_entry list \<Rightarrow> nat" where
  "pos start s = length (filter (\<lambda>e. sid e \<le> key_of (the start)) s)"

lemma sorted_split:
  assumes "sorted_wrt (<) (map sid s)"
  shows "filter (\<lambda>e. t < sid e) s = drop (length (filter (\<lambda>e. sid e \<le> t) s)) s"
    and "filter (\<lambda>e. sid e \<le> t) s = take (length (filter (\<lambda>e. sid e \<le> t) s)) s"
proof -
  have "filter (\<lambda>e. t < sid e) s = drop (length (filter (\<lambda>e. sid e \<le> t) s)) s \<and>
      filter (\<lambda>e. sid e \<le> t) s = take (length (filter (\<lambda>e. sid e \<le> t) s)) s"
    using assms
  proof (induction s)
    case (Cons e s)
    show ?case
    proof (cases "sid e \<le> t")
      case True
      then show ?thesis using Cons by auto
    next
      case False
      then have "\<forall>x \<in> set s. t < sid x" using Cons.prems by (auto intro: less_trans)
      then have "filter (\<lambda>e. sid e \<le> t) s = []" "filter (\<lambda>e. t < sid e) s = s"
        by (auto simp: filter_empty_conv filter_id_conv)
      then show ?thesis using False by auto
    qed
  qed simp
  then show "filter (\<lambda>e. t < sid e) s = drop (length (filter (\<lambda>e. sid e \<le> t) s)) s"
    and "filter (\<lambda>e. sid e \<le> t) s = take (length (filter (\<lambda>e. sid e \<le> t) s)) s" by blast+
qed

lemma after_drop: "stream_ok s \<Longrightarrow> parses (the start) \<Longrightarrow> entries_after (the start) s = drop (pos start s) s"
  by (simp add: entries_after_parses pos_def sorted_split(1) stream_ok_def)

lemma pos_le [simp]: "pos start s \<le> length s"
  by (simp add: pos_def)

lemma pos_less:
  assumes "stream_ok s" and "i < length s"
  shows "id_less (the start) (fst (s ! i)) \<longleftrightarrow> pos start s \<le> i"
proof
  note split = sorted_split [of s "key_of (the start)", folded pos_def]
  have sorted: "sorted_wrt (<) (map sid s)" using assms(1) by (simp add: stream_ok_def)
  assume less: "id_less (the start) (fst (s ! i))"
  show "pos start s \<le> i"
  proof (rule ccontr)
    assume "\<not> pos start s \<le> i"
    then have "s ! i \<in> set (take (pos start s) s)"
      using assms(2) by (metis in_set_conv_nth length_take min_less_iff_conj not_le nth_take)
    then have "s ! i \<in> set (filter (\<lambda>e. sid e \<le> key_of (the start)) s)"
      using split(2) [OF sorted] by metis
    then show False using less by (auto simp: id_less_def sid_def)
  qed
next
  note split = sorted_split [of s "key_of (the start)", folded pos_def]
  have sorted: "sorted_wrt (<) (map sid s)" using assms(1) by (simp add: stream_ok_def)
  assume le: "pos start s \<le> i"
  then have "drop (pos start s) s ! (i - pos start s) = s ! i" using assms(2) by simp
  moreover have "i - pos start s < length (drop (pos start s) s)" using le assms(2) by simp
  ultimately have "s ! i \<in> set (drop (pos start s) s)" by (metis nth_mem)
  then have "s ! i \<in> set (filter (\<lambda>e. key_of (the start) < sid e) s)"
    using split(1) [OF sorted] by metis
  then show "id_less (the start) (fst (s ! i))" by (auto simp: id_less_def sid_def)
qed

lemma nth_id_less:
  assumes "stream_ok s" and "i < length s" and "j < length s"
  shows "id_less (fst (s ! i)) (fst (s ! j)) \<longleftrightarrow> i < j"
proof -
  have sorted: "sorted_wrt id_less (map fst s)" by (rule stream_ids(1) [OF assms(1)])
  have up: "id_less (fst (s ! x)) (fst (s ! y))" if "x < y" "y < length s" for x y
    using sorted_wrt_nth_less [OF sorted that(1)] that by simp
  show ?thesis
    using up [of i j] up [of j i] assms(2,3) by (cases i j rule: linorder_cases) (auto simp: id_less_def)
qed

lemma next_entry:
  assumes "stream_ok s" and "1 \<le> u" and "u \<le> length s" and "stream_id_tuple (fst (s ! (u - 1))) = Inr t"
    and "find (\<lambda>e. t < sid e) s = Some e"
  shows "u < length s \<and> e = s ! u"
proof -
  obtain i where i: "i < length s" "t < sid (s ! i)" "e = s ! i" "\<forall>j < i. \<not> t < sid (s ! j)"
    using assms(5) by (auto simp: find_Some_iff)
  have less: "t < sid (s ! x) \<longleftrightarrow> u - 1 < x" if "x < length s" for x
    using nth_id_less [OF assms(1) _ that, of "u - 1"] assms(2,3) key_of_Inr [OF assms(4)]
    by (simp add: id_less_def sid_def)
  have "u - 1 < i" using less i by blast
  moreover have "\<not> u < i" using less [of u] i(1,4) assms(2) by fastforce
  ultimately have "i = u" by simp
  then show ?thesis using i by simp
qed

subsection \<open>Pieces\<close>

definition slice :: "'a list \<Rightarrow> nat \<Rightarrow> nat \<Rightarrow> 'a list" where
  "slice xs a e = take (e - a) (drop a xs)"

lemma slice_same [simp]: "slice xs a a = []"
  by (simp add: slice_def)

lemma slice_Nil: "a \<le> e \<Longrightarrow> e \<le> length xs \<Longrightarrow> slice xs a e = [] \<longleftrightarrow> a = e"
  by (auto simp: slice_def)

lemma slice_append: "e \<le> length xs \<Longrightarrow> slice (xs @ ys) a e = slice xs a e"
  by (cases "a \<le> length xs") (auto simp: slice_def)

lemma slice_Suc: "a \<le> e \<Longrightarrow> e < length xs \<Longrightarrow> slice xs a (Suc e) = slice xs a e @ [xs ! e]"
  by (simp add: slice_def Suc_diff_le take_Suc_conv_app_nth)

lemma slice_Cons:
  assumes "x # ys = slice xs a e" and "e \<le> length xs"
  shows "a < e \<and> x = xs ! a \<and> ys = slice xs (Suc a) e"
proof -
  have "a < e" using assms(1) by (cases "a < e") (auto simp: slice_def)
  then have "slice xs a e = xs ! a # slice xs (Suc a) e"
    using assms(2) Cons_nth_drop_Suc [of a xs]
    by (simp add: slice_def Suc_diff_Suc [symmetric] del: Cons_nth_drop_Suc) 
      (metis Suc_diff_Suc take_Suc_Cons)
  then show ?thesis using assms(1) \<open>a < e\<close> by simp
qed

lemma slice_prefix:
  assumes "xs @ ys = slice zs a e" and "a \<le> e" and "e \<le> length zs"
  shows "xs = slice zs a (a + length xs) \<and> a + length xs \<le> e"
proof -
  have "length xs + length ys = e - a"
    using arg_cong [OF assms(1), of length] assms(2,3) by (simp add: slice_def)
  moreover have "take (length xs) (xs @ ys) = take (length xs) (slice zs a e)" by (simp add: assms(1))
  ultimately show ?thesis using assms(2) by (simp add: slice_def min_def)
qed

lemma slice_last: "a < e \<Longrightarrow> e \<le> length xs \<Longrightarrow> last (slice xs a e) = xs ! (e - 1)"
  by (cases e) (auto simp: slice_Suc)

subsection \<open>The invariant\<close>

definition queue_at :: "string list \<Rightarrow> broadcaster \<Rightarrow> nat \<Rightarrow> nat \<Rightarrow> nat \<Rightarrow> nat \<Rightarrow> bool" where
  "queue_at ids b c a e u \<longleftrightarrow>
     1 \<le> u \<and> u \<le> length ids \<and> bc_cursor b = ids ! (u - 1) \<and> a \<le> e \<and> e \<le> u \<and>
     map fst (cl_queue (bc_objects b c)) = slice ids a e \<and> (c \<in> set (bc_clients b) \<longrightarrow> e = u)"

fun early :: "phase \<Rightarrow> bool" where
  "early Greeting = True"
| "early Fetching = True"
| "early _ = False"

definition sent_at :: "string option \<Rightarrow> stream_entry list \<Rightarrow> conn \<Rightarrow> nat \<Rightarrow> nat \<Rightarrow> nat \<Rightarrow> bool" where
  "sent_at start s c a k j \<longleftrightarrow>
     k \<le> j \<and> j \<le> length s \<and> sent_ids c @ owed_ids (co_phase c) = slice (map fst s) k j \<and>
     (present start \<longrightarrow> k = pos start s) \<and> (early (co_phase c) \<longrightarrow> k = j) \<and>
     (over (co_phase c) \<or> early (co_phase c) \<or> a \<le> j \<and> (k = j \<longrightarrow> present start))"

definition gapless :: "string option \<Rightarrow> world \<Rightarrow> bool" where
  "gapless start w \<longleftrightarrow>
     (\<exists>a e u k j. queue_at (map fst (wo_stream w)) (wo_bc w) (co_client (wo_conn w)) a e u \<and>
        sent_at start (wo_stream w) (wo_conn w) a k j)"

lemma sent_at_ended:
  assumes "sent_at start s c a k j" and "ended c c'"
  shows "\<exists>j'. sent_at start s c' a' k j'"
proof -
  have p: "sent_ids c = slice (map fst s) k (k + length (sent_ids c))" "k + length (sent_ids c) \<le> j"
    using slice_prefix [of "sent_ids c"] assms(1) by (auto simp: sent_at_def)
  have e: "sent_ids c' = sent_ids c" "owed_ids (co_phase c') = []" "over (co_phase c')"
    "\<not> early (co_phase c')"
    using assms(2) by (auto simp: ended_def)
  have "sent_at start s c' a' k (k + length (sent_ids c))"
    unfolding sent_at_def e(1,2) using p e(3,4) assms(1) by (simp add: sent_at_def)
  then show ?thesis by blast
qed

lemma queue_at_unregister: "queue_at ids b c a e u \<Longrightarrow> queue_at ids (unregister c b) c a e u"
  by (simp add: queue_at_def unregister_def)

lemma gapless_ended:
  assumes "gapless start w" and "ended (wo_conn w) c"
    and "b = wo_bc w \<or> b = unregister (co_client (wo_conn w)) (wo_bc w)"
  shows "gapless start (w\<lparr>wo_conn := c, wo_bc := b, wo_db := d\<rparr>)"
proof -
  obtain a e u k j where q: "queue_at (map fst (wo_stream w)) (wo_bc w) (co_client (wo_conn w)) a e u"
    and s: "sent_at start (wo_stream w) (wo_conn w) a k j"
    using assms(1) by (auto simp: gapless_def)
  from sent_at_ended [OF s assms(2), of a] obtain j' where "sent_at start (wo_stream w) c a k j'" by blast
  moreover have "queue_at (map fst (wo_stream w)) b (co_client c) a e u"
    using assms(2,3) q queue_at_unregister [OF q] by (auto simp: ended_def)
  ultimately show ?thesis by (auto simp: gapless_def)
qed

subsection \<open>The invariant is kept\<close>

lemma sent_at_append:
  assumes "stream_ok (s @ [x])" and "sent_at start s c a k j"
  shows "\<exists>k' j'. sent_at start (s @ [x]) c a k' j'"
proof (cases "k = j \<and> present start")
  case True
  then have "pos start s = j" "pos start s \<le> pos start (s @ [x])"
    using assms(2) by (auto simp: sent_at_def pos_def)
  then have "sent_at start (s @ [x]) c a (pos start (s @ [x])) (pos start (s @ [x]))"
    using True assms(2) pos_le [of start "s @ [x]"] by (auto simp: sent_at_def simp del: pos_le)
  then show ?thesis by blast
next
  case False
  have "pos start (s @ [x]) = pos start s" if "present start"
  proof -
    have k: "k < j" "j \<le> length s" "k = pos start s"
      using False assms(2) that by (auto simp: sent_at_def)
    have "stream_ok s" using assms(1) by (auto simp: stream_ok_def sorted_wrt_append)
    then have "id_less (the start) (fst (s ! k))" using pos_less [of s k start] k by simp
    moreover have "sid (s ! k) < sid x"
      using assms(1) k by (auto simp: stream_ok_def sorted_wrt_append)
    ultimately have "key_of (the start) < sid x" unfolding id_less_def sid_def by (rule less_trans)
    then show ?thesis by (simp add: pos_def not_le [symmetric])
  qed
  then have "sent_at start (s @ [x]) c a k j" using assms(2) by (auto simp: sent_at_def slice_append)
  then show ?thesis by blast
qed

lemma queue_at_append: "queue_at ids b c a e u \<Longrightarrow> queue_at (ids @ xs) b c a e u"
  by (auto simp: queue_at_def slice_append nth_append)

lemma already_sent_old: "already_sent i prev = Inr old \<Longrightarrow> present prev \<Longrightarrow> old \<longleftrightarrow> \<not> id_less (the prev) i"
  by (auto simp: already_sent_def result_simps id_less_def key_of_def not_less)

lemma already_sent_pos:
  assumes "in_order start c" and "co_phase c = Live" and "sent_at start s c a k j" and "stream_ok s"
    and "a < length s" and "already_sent (fst (s ! a)) (co_last c) = Inr old"
  shows "old \<longleftrightarrow> a < j"
proof -
  have sent: "sent_ids c = slice (map fst s) k j" "k \<le> j" "j \<le> length s"
    using assms(2,3) by (simp_all add: sent_at_def)
  have prev: "co_last c = (if sent_ids c = [] then start else Some (last (sent_ids c)))"
    using assms(1,2) by (simp add: in_order_def)
  show ?thesis
  proof (cases "k = j")
    case True
    then have "present start" "pos start s = j" using assms(2,3) by (auto simp: sent_at_def)
    moreover from this have "old \<longleftrightarrow> \<not> id_less (the start) (fst (s ! a))"
      using already_sent_old [OF assms(6)] prev sent(1) True by simp
    ultimately show ?thesis using pos_less [OF assms(4,5), of start] by auto
  next
    case False
    then have j: "k < j" using sent(2) by simp
    then have ne: "sent_ids c \<noteq> []" using sent slice_Nil [of k j "map fst s"] by simp
    then have "parses (last (sent_ids c))" using assms(1) by (auto simp: in_order_def list_all_iff)
    then have "old \<longleftrightarrow> \<not> id_less (last (sent_ids c)) (fst (s ! a))"
      using already_sent_old [OF assms(6)] prev ne present_Some by simp
    moreover have "last (sent_ids c) = fst (s ! (j - 1))"
      using slice_last [OF j, of "map fst s"] sent j by simp
    ultimately show ?thesis using nth_id_less [OF assms(4) _ assms(5), of "j - 1"] j sent(3) by auto
  qed
qed

lemma queue_at_got:
  assumes "queue_at ids b c a e u" and "queue_get c b = Some (x, b')"
  shows "queue_at ids b' c (Suc a) e u" and "fst x = ids ! a" and "a < length ids"
proof -
  note g = queue_get_Some [OF assms(2)]
  have "fst x # map fst (cl_queue (bc_objects b' c)) = slice ids a e" "e \<le> length ids"
    using assms(1) g by (auto simp: queue_at_def)
  from slice_Cons [OF this] have s: "a < e" "fst x = ids ! a"
    "map fst (cl_queue (bc_objects b' c)) = slice ids (Suc a) e" by blast+
  then show "queue_at ids b' c (Suc a) e u" "fst x = ids ! a" "a < length ids"
    using assms(1) g by (auto simp: queue_at_def)
qed

lemma queue_at_fanned:
  assumes "queue_at ids b c a e u" and "gw_ok cfg b" and "u < length ids" and "ids ! u = i"
  shows "\<exists>e'. queue_at ids (broadcast i m (b\<lparr>bc_cursor := i\<rparr>)) c a e' (Suc u)"
proof -
  let ?b = "b\<lparr>bc_cursor := i\<rparr>"
  have ok: "gw_ok cfg ?b" and d: "distinct (bc_clients ?b)" using assms(2) by (simp_all add: gw_ok_def)
  note q = broadcast_queue [OF ok, of i m c] and cs = broadcast_simps(2) [OF d, of i m]
  show ?thesis
  proof (cases "c \<in> set (bc_clients b) \<and> put_nowait (i, m) (bc_objects b c) \<noteq> None")
    case True
    then have "queue_at ids (broadcast i m ?b) c a (Suc e) (Suc u)"
      using assms q cs by (auto simp: queue_at_def slice_Suc)
    then show ?thesis by blast
  next
    case False
    then have "queue_at ids (broadcast i m ?b) c a e (Suc u)"
      using assms q cs by (auto simp: queue_at_def)
    then show ?thesis by blast
  qed
qed

lemma sent_at_sent:
  assumes "sent_at start s c j k j" and "co_phase c = Live" and "j < length s" and "co_phase c' = Live"
    and "sent_ids c' = sent_ids c @ [fst (s ! j)]"
  shows "sent_at start s c' (Suc j) k (Suc j)"
  using assms by (auto simp: sent_at_def slice_Suc)

lemma sent_at_fetched:
  assumes "stream_ok s" and "sent_at start s c a k j" and "in_order start c" and "co_phase c = Fetching"
    and "1 \<le> length s" and "a \<le> length s" and "1 \<le> n"
    and "present start \<Longrightarrow> parses (the start)"
    and "present start \<Longrightarrow> length (entries_after (the start) s) \<le> n"
    and "co_phase c' = Replaying es" and "sent_ids c' = sent_ids c"
    and "map fst es = map fst (if present start then take n (entries_after (the start) s)
      else rev (take n (rev s)))"
  shows "\<exists>k j. sent_at start s c' a k j"
proof -
  have none: "sent_ids c' = []" using assms(3,4,11) by (simp add: in_order_def)
  show ?thesis
  proof (cases "present start")
    case True
    then have "map fst es = slice (map fst s) (pos start s) (length s)"
      using assms(9,12) after_drop [OF assms(1) assms(8)] by (simp add: slice_def drop_map)
    then have "sent_at start s c' a (pos start s) (length s)"
      using True none assms(6,10) by (simp add: sent_at_def)
    then show ?thesis by blast
  next
    case False
    then have "map fst es = slice (map fst s) (length s - n) (length s)"
      using assms(12) by (simp add: slice_def take_rev drop_map)
    then have "sent_at start s c' a (length s - n) (length s)"
      using False none assms(5-7,10) by (auto simp: sent_at_def)
    then show ?thesis by blast
  qed
qed

lemma gaplessI:
  "queue_at (map fst (wo_stream w)) (wo_bc w) (co_client (wo_conn w)) a e u \<Longrightarrow>
     sent_at start (wo_stream w) (wo_conn w) a k j \<Longrightarrow> gapless start w"
  by (auto simp: gapless_def)

lemma gaplessE:
  assumes "gapless start w"
  obtains a e u k j where "queue_at (map fst (wo_stream w)) (wo_bc w) (co_client (wo_conn w)) a e u"
    and "sent_at start (wo_stream w) (wo_conn w) a k j"
  using assms by (auto simp: gapless_def)

lemma sent_at_cong:
  "sent_at start s c a k j \<Longrightarrow> sent_ids c' = sent_ids c \<Longrightarrow> co_phase c' = co_phase c \<Longrightarrow>
     sent_at start s c' a k j"
  by (simp add: sent_at_def)

text \<open>A turn of the sender before the handler looks at how it ended.\<close>

lemma gapless_sender:
  assumes "sender_turn gp cfg env (wo_conn w) (wo_bc w) (wo_db w) = (c, b, d, t)"
    and "co_phase (wo_conn w) = Live" and "\<not> times_out (we_send env)"
    and "gapless start w" and "in_order start (wo_conn w)" and "sound cfg w" and "stream_ok (wo_stream w)"
  shows "co_client c = co_client (wo_conn w) \<and>
    (gapless start (w\<lparr>wo_conn := c, wo_bc := b, wo_db := d\<rparr>) \<or>
     t \<noteq> Continues \<and> (\<forall>c'. ended c c' \<longrightarrow>
       gapless start (w\<lparr>wo_conn := c', wo_bc := unregister (co_client c) b, wo_db := d\<rparr>)))"
proof -
  let ?s = "wo_stream w" and ?ids = "map fst (wo_stream w)"
  obtain a e u k j where q: "queue_at ?ids (wo_bc w) (co_client (wo_conn w)) a e u"
    and s: "sent_at start ?s (wo_conn w) a k j" by (rule gaplessE [OF assms(4)])
  have tag: "\<forall>x \<in> set (cl_queue (bc_objects (wo_bc w) (co_client (wo_conn w)))). tagged x"
    using tagged_queue [OF assms(6)] by (simp add: queue_of_def)
  from assms(1) tag show ?thesis
  proof (cases rule: sender_cases)
    case idle
    then have "gapless start (w\<lparr>wo_conn := c, wo_bc := b, wo_db := d\<rparr>)"
      using q s by (intro gaplessI [where a = a and e = e and u = u and k = k and j = j])
        (auto simp: same_place_def intro: sent_at_cong)
    then show ?thesis using idle by (simp add: same_place_def)
  next
    case (taken x)
    note g = queue_at_got [OF q taken(1)]
    have same: "co_client c = co_client (wo_conn w)" "sent_at start ?s c a k j"
      using taken(2) s by (auto simp: same_place_def intro: sent_at_cong)
    consider (old) "already_sent (fst x) (co_last (wo_conn w)) = Inr True" | (out) "t \<noteq> Continues"
      using taken(3) assms(3) by auto
    then show ?thesis
    proof cases
      case old
      have "already_sent (fst (?s ! a)) (co_last (wo_conn w)) = Inr True" "a < length ?s"
        using old g(2,3) by simp_all
      from already_sent_pos [OF assms(5,2) s assms(7) this(2,1)] have "Suc a \<le> j" by simp
      then have "sent_at start ?s c (Suc a) k j" using same(2) by (simp add: sent_at_def)
      with g(1) have "gapless start (w\<lparr>wo_conn := c, wo_bc := b, wo_db := d\<rparr>)"
        by (intro gaplessI) (simp_all add: same(1))
      then show ?thesis using same(1) by simp
    next
      case out
      have "gapless start (w\<lparr>wo_conn := c', wo_bc := unregister (co_client c) b, wo_db := d\<rparr>)"
        if fin: "ended c c'" for c'
      proof -
        obtain j' where "sent_at start ?s c' (Suc a) k j'" using sent_at_ended [OF same(2) fin] by blast
        with queue_at_unregister [OF g(1)] show ?thesis
          using fin by (intro gaplessI) (simp_all add: ended_def same(1))
      qed
      then show ?thesis using out same(1) by blast
    qed
  next
    case (sent x)
    note g = queue_at_got [OF q sent(1)]
    have "already_sent (fst (?s ! a)) (co_last (wo_conn w)) = Inr False" "a < length ?s"
      using sent(3) g(2,3) by simp_all
    from already_sent_pos [OF assms(5,2) s assms(7) this(2,1)] have "j \<le> a" by simp
    moreover have "a \<le> j" using s assms(2) by (simp add: sent_at_def)
    ultimately have a: "a = j" by simp
    have "sent_at start ?s c (Suc j) k (Suc j)"
      by (rule sent_at_sent [OF s [unfolded a] assms(2)]) (use sent g a assms(2) in simp_all)
    with g(1) have "gapless start (w\<lparr>wo_conn := c, wo_bc := b, wo_db := d\<rparr>)"
      unfolding a by (intro gaplessI) (simp_all add: sent(4))
    then show ?thesis using sent(4) by simp
  qed
qed

lemma gapless_step:
  assumes "ws_step gp cfg rely False False w w'" and "gapless start w" and "in_order start (wo_conn w)"
    and "sound cfg w" and "stream_ok (wo_stream w)" and "present start \<Longrightarrow> parses (the start)"
    and "1 \<le> redis_replay_limit cfg"
  shows "gapless start w'"
  using assms
proof (induction rule: ws_step.induct)
  case (appended w x)
  obtain a e u k j where q: "queue_at (map fst (wo_stream w)) (wo_bc w) (co_client (wo_conn w)) a e u"
    and s: "sent_at start (wo_stream w) (wo_conn w) a k j" by (rule gaplessE [OF appended(2)])
  from sent_at_append [OF appended(1) s] queue_at_append [OF q] show ?case by (auto simp: gapless_def)
next
  case (tailed w t x b y)
  obtain a e u k j where q: "queue_at (map fst (wo_stream w)) (wo_bc w) (co_client (wo_conn w)) a e u"
    and s: "sent_at start (wo_stream w) (wo_conn w) a k j" by (rule gaplessE [OF tailed(4)])
  have u: "1 \<le> u" "u \<le> length (wo_stream w)" "stream_id_tuple (fst (wo_stream w ! (u - 1))) = Inr t"
    using q tailed(1) by (auto simp: queue_at_def)
  note nx = next_entry [OF tailed(7) u tailed(2)]
  have ok: "gw_ok cfg (wo_bc w)" using tailed(6) by (simp add: sound_def)
  from tailed(3) show ?case
  proof (cases rule: tail_one)
    case bad
    then show ?thesis using tailed(4) by simp
  next
    case moved
    then show ?thesis using nx stream_ids(2) [OF tailed(7)] by (auto simp: list_all_iff)
  next
    case (fanned m)
    have "map fst (wo_stream w) ! u = fst x" using nx by simp
    from queue_at_fanned [OF q ok _ this, of m] fanned nx s show ?thesis
      by (auto simp: gapless_def)
  qed
next
  case (read_new w)
  then show ?case by (simp add: gapless_def)
next
  case (read_over w)
  then show ?case by (simp add: gapless_def)
next
  case (tailed_new w n b x)
  obtain a e u k j where q: "queue_at (map fst (wo_stream w)) (wo_bc w) (co_client (wo_conn w)) a e u"
    by (rule gaplessE [OF tailed_new(5)])
  have "parses ''$''"
    using q tailed_new(1) stream_ids(2) [OF tailed_new(8)] by (auto simp: queue_at_def list_all_iff)
  then show ?case by (simp add: parses_def stream_id_tuple_def)
next
  case (others w d)
  then show ?case by (simp add: gapless_def)
next
  case (bystander w ev b)
  obtain a e u k j where q: "queue_at (map fst (wo_stream w)) (wo_bc w) (co_client (wo_conn w)) a e u"
    and s: "sent_at start (wo_stream w) (wo_conn w) a k j" by (rule gaplessE [OF bystander(5)])
  then show ?case using bystander(2-4)
    by (intro gaplessI [of _ a e u _ k j]) (auto simp: queue_at_def)
next
  case (greeted w env c d)
  from greeted(2) show ?case
  proof (cases rule: greet_cases)
    case left
    then show ?thesis using gapless_ended [OF greeted(3) left, of "wo_bc w"] by simp
  next
    case greeted': greeted
    obtain a e u k j where q: "queue_at (map fst (wo_stream w)) (wo_bc w) (co_client (wo_conn w)) a e u"
      and s: "sent_at start (wo_stream w) (wo_conn w) a k j" by (rule gaplessE [OF greeted(3)])
    then show ?thesis using greeted(1) greeted'
      by (intro gaplessI [of _ a e u _ k j]) (auto simp: sent_at_def)
  qed
next
  case (fetched w xrange xrevrange closing c b)
  from fetched(3,2) show ?case
  proof (cases rule: fetch_cases)
    case failed
    then show ?thesis using gapless_ended [OF fetched(5) failed(1), of b "wo_db w"] by simp
  next
    case (rows es)
    obtain a e u k j where q: "queue_at (map fst (wo_stream w)) (wo_bc w) (co_client (wo_conn w)) a e u"
      and s: "sent_at start (wo_stream w) (wo_conn w) a k j" by (rule gaplessE [OF fetched(5)])
    have l: "co_last (wo_conn w) = start" using fetched(1,6) by (auto simp: in_order_def)
    have len: "1 \<le> length (wo_stream w)" "a \<le> length (wo_stream w)" using q by (auto simp: queue_at_def)
    have n: "1 \<le> nat (redis_replay_limit cfg)" using fetched(10) by simp
    have "\<exists>k j. sent_at start (wo_stream w) c a k j"
      by (rule sent_at_fetched [OF fetched(8) s fetched(6,1) len n fetched(9) _ rows(1,3) rows(7) [unfolded l]])
        (use fetched(4) in \<open>simp_all add: l le_nat_iff\<close>)
    then show ?thesis using q rows(2,5) by (auto simp: gapless_def)
  qed
next
  case (replayed w es env closing c b)
  obtain a e u k j where q: "queue_at (map fst (wo_stream w)) (wo_bc w) (co_client (wo_conn w)) a e u"
    and s: "sent_at start (wo_stream w) (wo_conn w) a k j" by (rule gaplessE [OF replayed(3)])
  have tag: "list_all tagged es" using replayed(1,4) by (auto simp: in_order_def)
  from replayed(2,1) tag show ?case
  proof (cases rule: replay_cases)
    case live
    then show ?thesis using q s replayed(1)
      by (intro gaplessI [of _ a e u _ k j]) (auto simp: sent_at_def)
  next
    case failed
    then show ?thesis using gapless_ended [OF replayed(3) failed(1), of b "wo_db w"] by simp
  next
    case (sent x rest)
    then show ?thesis using q s replayed(1)
      by (intro gaplessI [of _ a e u _ k j]) (auto simp: sent_at_def)
  qed
next
  case (sending w env c b d t closing c' b')
  have "\<not> times_out (we_send env)" using sending(2) by simp
  note mid = gapless_sender [OF sending(3,1) this sending(5-8)]
  from sending(4) show ?case
  proof (cases rule: after_turn_cases)
    case goes
    then show ?thesis using mid by auto
  next
    case ends
    then show ?thesis using mid
      gapless_ended [of start "w\<lparr>wo_conn := c, wo_bc := b, wo_db := d\<rparr>" c' b' d] by auto
  qed
next
  case (receiving w env c d t closing c' b')
  have same: "same_place (wo_conn w) c" by (rule receiver_cases [OF receiving(3)])
  obtain a e u k j where q: "queue_at (map fst (wo_stream w)) (wo_bc w) (co_client (wo_conn w)) a e u"
    and s: "sent_at start (wo_stream w) (wo_conn w) a k j" by (rule gaplessE [OF receiving(5)])
  have mid: "gapless start (w\<lparr>wo_conn := c, wo_db := d\<rparr>)"
    by (rule gaplessI [of _ a e u _ k j])
      (use q s same in \<open>auto simp: same_place_def intro: sent_at_cong\<close>)
  from receiving(4) show ?case
  proof (cases rule: after_turn_cases)
    case goes
    then show ?thesis using mid by simp
  next
    case ends
    then show ?thesis using gapless_ended [OF mid, of c' b' d] by simp
  qed
next
  case (closer w closing c b)
  then show ?case
    using finish_live_ended [OF closer(3)] gapless_ended [OF closer(4), of c b "wo_db w"] by simp
qed

lemma gapless_reach:
  assumes "ws_reach gp cfg rely False False w w'" and "gapless start w" and "in_order start (wo_conn w)"
    and "sound cfg w" and "stream_ok (wo_stream w)" and "present start \<Longrightarrow> parses (the start)"
    and "1 \<le> redis_replay_limit cfg" and "1 \<le> websocket_client_queue_size cfg"
  shows "gapless start w'"
  using assms
proof (induction rule: ws_reach.induct)
  case (on w' w'')
  from order_reach [OF on(1,5-8,10)] gapless_step [OF on(2) on(3) _ _ _ on(8,9)] on show ?case by blast
qed

lemma gapless_opened:
  assumes "websocket_open cfg start b = (Inr c, b')" and "gw_ok cfg b"
    and "1 \<le> websocket_client_queue_size cfg"
    and "1 \<le> u" and "u \<le> length s" and "bc_cursor b = fst (s ! (u - 1))"
  shows "gapless start (opened_world call s d c b')"
proof -
  note o = opened [OF assms(1-3)]
  let ?k = "if present start then pos start s else 0"
  have "queue_at (map fst s) b' (co_client c) u u u"
    using assms(4-6) o(7,8) by (simp add: queue_at_def queue_of_def opened_world_def)
  moreover have "sent_at start s c u ?k ?k"
    using o(1,4) by (simp add: sent_at_def in_order_def)
  ultimately show ?thesis by (auto simp: gapless_def opened_world_def)
qed

text \<open>
  C6. A connection delivers the stream without a gap under three conditions: when it is opened the tail
  of its gateway has read an entry, so that its cursor is an id of the stream and no longer \<open>$\<close>; the
  replay is not cut off at \<open>redis_replay_limit\<close>; and no live send times out. Then at any moment, whatever
  else happens, what was sent is a contiguous piece of the stream; and a browser that resumes after an
  id gets the entries from the next one on, replayed and live ones without a seam. \<open>Gateway_Runs\<close> shows
  for each condition how an entry is lost without it.
\<close>

theorem delivered_without_gap:
  assumes "websocket_open cfg start b = (Inr c, b')" and "gw_ok cfg b" and "stream_ok s"
    and "1 \<le> websocket_client_queue_size cfg" and "1 \<le> redis_replay_limit cfg"
    and "1 \<le> u" and "u \<le> length s" and "bc_cursor b = fst (s ! (u - 1))"
    and "ws_reach gp cfg rely False False (opened_world call s d c b') w"
  shows "\<exists>k n. sent_ids (wo_conn w) = take n (drop k (map fst (wo_stream w))) \<and>
    (present start \<longrightarrow> drop k (wo_stream w) = entries_after (the start) (wo_stream w))"
proof -
  note o = opened [OF assms(1,2,4)]
  have start: "in_order start (wo_conn (opened_world call s d c b'))" "stream_ok (wo_stream (opened_world call s d c b'))"
    using o(1) assms(3) by (simp_all add: opened_world_def)
  have "gapless start w"
    by (rule gapless_reach [OF assms(9) gapless_opened [OF assms(1,2,4,6-8)] start(1) o(2) start(2)
          o(3) assms(5,4)])
  then obtain a k j where s: "sent_at start (wo_stream w) (wo_conn w) a k j" by (rule gaplessE)
  then have "sent_ids (wo_conn w) = slice (map fst (wo_stream w)) k (k + length (sent_ids (wo_conn w)))"
    using slice_prefix [of "sent_ids (wo_conn w)"] by (auto simp: sent_at_def)
  then have "sent_ids (wo_conn w) = take (length (sent_ids (wo_conn w))) (drop k (map fst (wo_stream w)))"
    by (simp add: slice_def)
  moreover have "drop k (wo_stream w) = entries_after (the start) (wo_stream w)" if "present start"
  proof -
    have "stream_ok (wo_stream w)" using order_reach [OF assms(9) start(1) o(2) start(2) o(3) assms(4)] by blast
    from after_drop [OF this o(3) [OF that]] show ?thesis using s that by (simp add: sent_at_def)
  qed
  ultimately show ?thesis by blast
qed

end
