(* ===== verification/Gateway_Runs.thy ===== *)
theory Gateway_Runs
  imports Gateway_Gap
begin

text \<open>
  Runs of a connection: how an entry is lost by a replay that is cut off, by a tail that has read
  nothing yet and by a send that times out, and runs at which the theorems on order and gaps apply. The parameters of these runs are a JSON
  parser that returns an empty object, and a gateway with one client.
\<close>

subsection \<open>A gateway with one client\<close>

definition sample_gp :: gateway_env where
  "sample_gp = \<lparr>gp_loads = (\<lambda>_. Inr (JObj [])), gp_parse_json = (\<lambda>_. None), gp_lax_float = (\<lambda>_. None),
     gp_float_of_str = (\<lambda>_. None), gp_dict_of_list = (\<lambda>_. None), gp_str = (\<lambda>_. []),
     gp_fromisoformat = (\<lambda>_. None)\<rparr>"

definition silent_env :: ws_env where
  "silent_env = \<lparr>we_now_ms = 0, we_now = 0, we_accept = None, we_send = WsOk, we_beat = WsOk,
     we_telemetry = DbFails TimeoutError, we_txn = DbCommits, we_others = id, we_raw = Inl TimeoutError\<rparr>"

definition entry :: "string \<Rightarrow> stream_entry" where
  "entry i = (i, [(''event'', ''{}'')])"

definition bare :: "string \<Rightarrow> string \<times> ws_message" where
  "bare i = (i, [(''stream_id'', JStr i)])"

definition gw_with :: "settings \<Rightarrow> string \<Rightarrow> (string \<times> ws_message) list \<Rightarrow> broadcaster" where
  "gw_with cfg cursor q = \<lparr>bc_clients = [0],
     bc_objects = (\<lambda>_. new_client 0)(0 := \<lparr>cl_maxsize = websocket_client_queue_size cfg, cl_queue = q, cl_closed = False\<rparr>),
     bc_next = 1, bc_cursor = cursor, bc_stopped = False\<rparr>"

definition seen_at :: "world \<Rightarrow> stream_entry list \<Rightarrow> broadcaster \<Rightarrow> phase \<Rightarrow> string option \<Rightarrow> string list \<Rightarrow> bool"
where
  "seen_at w s b p l ids \<longleftrightarrow> wo_stream w = s \<and> wo_bc w = b \<and> co_client (wo_conn w) = 0 \<and>
     co_phase (wo_conn w) = p \<and> co_last (wo_conn w) = l \<and> sent_ids (wo_conn w) = ids"

lemma decode_sample: "decode_entry (gp_loads sample_gp) (entry i) = Inr (bare i)"
  by (simp add: decode_entry_def sample_gp_def entry_def bare_def)

lemma decode_all_sample: "decode_all (gp_loads sample_gp) (map entry is) = Inr (map bare is)"
  by (induction "is") (simp_all add: decode_sample)

lemma personalize_sample:
  "\<exists>out. personalize sample_gp (snd (bare i)) th = Inr out \<and> get_or ''type'' JNull out = JNull \<and>
     map_of out ''stream_id'' = Some (JStr i)"
  by (simp add: personalize_def bare_def get_or_def)

lemma send_sample:
  "get_or ''type'' JNull m = JNull \<Longrightarrow> send_message sample_gp now WsOk r m = ([Text m], None)"
  by (simp add: send_message_def annotate_delivery_def)

lemma greet_at:
  assumes "seen_at w s b Greeting l []"
  shows "\<exists>w'. ws_step sample_gp cfg rely capped slow w w' \<and> seen_at w' s b Fetching l []"
proof -
  obtain c d where g: "greet_step sample_gp cfg silent_env (wo_conn w) (wo_db w) = (c, d)" by fastforce
  have "c = emit [Text (connected_message cfg l [])] (wo_conn w)\<lparr>co_phase := Fetching\<rparr>"
    using g assms
    by (simp add: greet_step_def silent_env_def replay_telemetry_def in_transaction_def send_message_def
        annotate_delivery_def get_or_def connected_message_def seen_at_def)
  then have "seen_at (w\<lparr>wo_conn := c, wo_db := d\<rparr>) s b Fetching l []"
    using assms plain_messages(1) [of "[]" cfg l] by (simp add: seen_at_def)
  moreover have "ws_step sample_gp cfg rely capped slow w (w\<lparr>wo_conn := c, wo_db := d\<rparr>)"
    using assms by (intro ws_step.greeted [OF _ g]) (simp add: seen_at_def)
  ultimately show ?thesis by blast
qed

lemma fetch_at:
  assumes "seen_at w (map entry ids) b Fetching (Some i) []" and "parses i"
    and "entries_after i (map entry ids) = map entry rest"
    and "n = nat (redis_replay_limit cfg)"
    and "capped \<or> int (length rest) \<le> redis_replay_limit cfg"
  shows "\<exists>w'. ws_step sample_gp cfg rely capped slow w w' \<and>
    seen_at w' (map entry ids) b (Replaying (map bare (take n rest))) (Some i) []"
proof -
  let ?s = "map entry ids"
  let ?xr = "\<lambda>key lo n. Inr (take (nat n) (entries_after (tl lo) ?s)) :: stream_entry list result"
  let ?xv = "\<lambda>key n. Inr (take (nat n) (rev ?s)) :: stream_entry list result"
  have r: "ranges_ok (wo_stream w) ?xr ?xv" using assms(1) by (simp add: ranges_ok_def seen_at_def)
  obtain c b' where f: "fetch_step sample_gp cfg ?xr ?xv True (wo_conn w) (wo_bc w) = (c, b')" by fastforce
  have "present (Some i)" by (rule present_Some [OF assms(2)])
  then have "c = wo_conn w\<lparr>co_phase := Replaying (map bare (take n rest))\<rparr> \<and> b' = wo_bc w"
    using f assms(1,3,4)
    by (simp add: fetch_step_def seen_at_def replay_after_def take_map decode_all_sample)
  then have "seen_at (w\<lparr>wo_conn := c, wo_bc := b'\<rparr>) ?s b (Replaying (map bare (take n rest))) (Some i) []"
    using assms(1) by (simp add: seen_at_def)
  moreover have "ws_step sample_gp cfg rely capped slow w (w\<lparr>wo_conn := c, wo_bc := b'\<rparr>)"
    using assms(1,3,5) by (intro ws_step.fetched [OF _ r f]) (auto simp: seen_at_def)
  ultimately show ?thesis by blast
qed

lemma replay_turn_at:
  assumes "seen_at w s b (Replaying (map bare (i # is))) l ids"
  shows "\<exists>w'. ws_step sample_gp cfg rely capped slow w w' \<and>
    seen_at w' s b (Replaying (map bare is)) (Some i) (ids @ [i])"
proof -
  obtain out where out: "personalize sample_gp (snd (bare i)) (co_threshold (wo_conn w)) = Inr out"
    "get_or ''type'' JNull out = JNull" "map_of out ''stream_id'' = Some (JStr i)"
    using personalize_sample by blast
  obtain c b' where r: "replay_step sample_gp silent_env True (wo_conn w) (wo_bc w) = (c, b')" by fastforce
  have "c = emit [Text out] (wo_conn w)\<lparr>co_last := Some i, co_phase := Replaying (map bare is)\<rparr> \<and> b' = wo_bc w"
    using r assms out send_sample [OF out(2)]
    by (simp add: replay_step_def seen_at_def silent_env_def bare_def)
  then have "seen_at (w\<lparr>wo_conn := c, wo_bc := b'\<rparr>) s b (Replaying (map bare is)) (Some i) (ids @ [i])"
    using assms out(3) by (simp add: seen_at_def)
  moreover have "ws_step sample_gp cfg rely capped slow w (w\<lparr>wo_conn := c, wo_bc := b'\<rparr>)"
    using assms by (intro ws_step.replayed [OF _ r]) (simp add: seen_at_def)
  ultimately show ?thesis by blast
qed

lemma live_at:
  assumes "seen_at w s b (Replaying []) l ids"
  shows "\<exists>w'. ws_step sample_gp cfg rely capped slow w w' \<and> seen_at w' s b Live l ids"
proof -
  obtain c b' where r: "replay_step sample_gp silent_env True (wo_conn w) (wo_bc w) = (c, b')" by fastforce
  then have "seen_at (w\<lparr>wo_conn := c, wo_bc := b'\<rparr>) s b Live l ids"
    using assms by (auto simp: replay_step_def seen_at_def)
  moreover have "ws_step sample_gp cfg rely capped slow w (w\<lparr>wo_conn := c, wo_bc := b'\<rparr>)"
    using assms by (intro ws_step.replayed [OF _ r]) (simp add: seen_at_def)
  ultimately show ?thesis by blast
qed

lemma tail_at:
  assumes "seen_at w (map entry ids) (gw_with cfg cur q) p l sent" and "parses cur" and "parses i"
    and "find (\<lambda>e. key_of cur < sid e) (map entry ids) = Some (entry i)"
    and "int (length q) < websocket_client_queue_size cfg"
  shows "\<exists>w'. ws_step sample_gp cfg rely capped slow w w' \<and>
    seen_at w' (map entry ids) (gw_with cfg i (q @ [bare i])) p l sent"
proof -
  have t: "tail_entries (gp_loads sample_gp) [entry i] (wo_bc w) = (gw_with cfg i (q @ [bare i]), None)"
    using assms(1,3,5) decode_sample [of i]
    by (simp add: seen_at_def bare_def parses_def broadcast_def offer_def gw_with_def put_nowait_def
        set_client_def Let_def)
  have "ws_step sample_gp cfg rely capped slow w (w\<lparr>wo_bc := gw_with cfg i (q @ [bare i])\<rparr>)"
    by (rule ws_step.tailed [of _ "key_of cur" "entry i", OF _ _ t])
      (use assms in \<open>simp_all add: seen_at_def gw_with_def parses_def\<close>)
  then show ?thesis using assms(1) by (auto simp: seen_at_def)
qed

lemma send_at:
  assumes "seen_at w s (gw_with cfg cur (bare i # q)) Live l ids" and "already_sent i l = Inr False"
  shows "\<exists>w'. ws_step sample_gp cfg rely capped slow w w' \<and> seen_at w' s (gw_with cfg cur q) Live (Some i) (ids @ [i])"
proof -
  obtain out where out: "personalize sample_gp (snd (bare i)) (co_threshold (wo_conn w)) = Inr out"
    "get_or ''type'' JNull out = JNull" "map_of out ''stream_id'' = Some (JStr i)"
    using personalize_sample by blast
  have g: "queue_get 0 (gw_with cfg cur (bare i # q)) = Some (bare i, gw_with cfg cur q)"
    by (simp add: queue_get_def gw_with_def set_client_def)
  let ?c = "emit [Text out] (wo_conn w)\<lparr>co_last := Some i\<rparr>"
  have t: "sender_turn sample_gp cfg silent_env (wo_conn w) (wo_bc w) (wo_db w) =
      (?c, gw_with cfg cur q, wo_db w, Continues)"
    using assms out send_sample [OF out(2)] g
    by (simp add: sender_turn_def seen_at_def silent_env_def bare_def gw_with_def)
  have "ws_step sample_gp cfg rely capped slow w (w\<lparr>wo_conn := ?c, wo_bc := gw_with cfg cur q, wo_db := wo_db w\<rparr>)"
    by (rule ws_step.sending [OF _ _ t])
      (use assms(1) in \<open>simp_all add: seen_at_def silent_env_def times_out_def after_turn_def\<close>)
  then show ?thesis using assms(1) out(3) by (auto simp: seen_at_def)
qed

subsection \<open>Four entries\<close>

lemma four_ids:
  "stream_id_tuple ''1-0'' = Inr (1, 0)" "stream_id_tuple ''2-0'' = Inr (2, 0)"
  "stream_id_tuple ''3-0'' = Inr (3, 0)" "stream_id_tuple ''4-0'' = Inr (4, 0)"
  by code_simp+

lemma four_parse:
  "parses ''1-0''" "parses ''2-0''" "parses ''3-0''" "parses ''4-0''"
  using four_ids by (blast intro: parsesI)+

definition four :: "string list" where
  "four = [''1-0'', ''2-0'', ''3-0'', ''4-0'']"

lemma four_keys:
  "sid (entry ''1-0'') = (1, 0)" "sid (entry ''2-0'') = (2, 0)"
  "sid (entry ''3-0'') = (3, 0)" "sid (entry ''4-0'') = (4, 0)"
  "key_of ''1-0'' = (1, 0)" "key_of ''3-0'' = (3, 0)"
  by (simp_all add: sid_def entry_def key_of_def four_ids)

lemma four_ok: "stream_ok (map entry four)"
  using four_ids by (simp add: stream_ok_def four_def four_keys) (simp add: entry_def)

lemma four_after: "entries_after ''1-0'' (map entry four) = map entry [''2-0'', ''3-0'', ''4-0'']"
  by (simp add: entries_after_parses [OF four_parse(1)] four_def four_keys)

lemma four_next: "find (\<lambda>e. key_of ''3-0'' < sid e) (map entry four) = Some (entry ''4-0'')"
  by (simp add: four_def four_keys)

definition opened_conn :: "settings \<Rightarrow> conn" where
  "opened_conn cfg = \<lparr>co_client = 0, co_phase = Greeting, co_threshold = presentation_threshold cfg,
     co_last = Some ''1-0'', co_frames = []\<rparr>"

lemma open_first:
  assumes "1 \<le> websocket_max_clients cfg"
  shows "websocket_open cfg (Some ''1-0'') (new_broadcaster\<lparr>bc_cursor := i\<rparr>) =
    (Inr (opened_conn cfg), gw_with cfg i [])"
proof -
  have "stream_id_pattern ''1-0''" by (simp add: stream_id_pattern_def is_digit_def)
  then show ?thesis using assms
    by (simp add: websocket_open_def register_def new_broadcaster_def opened_conn_def gw_with_def
        set_client_def new_client_def)
qed

lemma start_at:
  "seen_at (opened_world call s d (opened_conn cfg) b) s b Greeting (Some ''1-0'') []"
  by (simp add: seen_at_def opened_world_def opened_conn_def sent_ids_def)

lemma reach_step:
  "ws_reach gp cfg rely capped slow w w1 \<Longrightarrow>
     \<exists>w2. ws_step gp cfg rely capped slow w1 w2 \<and> seen_at w2 s b p l ids \<Longrightarrow>
     \<exists>w2. ws_reach gp cfg rely capped slow w w2 \<and> seen_at w2 s b p l ids"
  by (blast intro: ws_reach.on)

text \<open>The replay, whatever its limit.\<close>

lemma replay_all_at:
  assumes "ws_reach sample_gp cfg rely capped slow w0 w" and "seen_at w s b (Replaying (map bare is)) l ids"
  shows "\<exists>w'. ws_reach sample_gp cfg rely capped slow w0 w' \<and>
    seen_at w' s b Live (if is = [] then l else Some (last is)) (ids @ is)"
  using assms
proof (induction "is" arbitrary: w l ids)
  case Nil
  from reach_step [OF Nil(1) live_at] Nil(2) show ?case by simp
next
  case (Cons i js)
  from reach_step [OF Cons(2) replay_turn_at [OF Cons(3)]] obtain w1 where
    "ws_reach sample_gp cfg rely capped slow w0 w1" "seen_at w1 s b (Replaying (map bare js)) (Some i) (ids @ [i])"
    by blast
  from Cons.IH [OF this] show ?case by (cases "js = []") auto
qed

lemma live_run:
  assumes "1 \<le> redis_replay_limit cfg" and "1 \<le> websocket_client_queue_size cfg"
    and "capped \<or> 3 \<le> redis_replay_limit cfg"
  shows "\<exists>w. ws_reach sample_gp cfg rely capped slow
      (opened_world call (map entry four) d (opened_conn cfg) (gw_with cfg ''3-0'' [])) w \<and>
    seen_at w (map entry four) (gw_with cfg ''4-0'' [bare ''4-0'']) Live
      (Some (last (take (nat (redis_replay_limit cfg)) [''2-0'', ''3-0'', ''4-0''])))
      (take (nat (redis_replay_limit cfg)) [''2-0'', ''3-0'', ''4-0''])"
proof -
  let ?b = "gw_with cfg ''3-0'' []" and ?n = "nat (redis_replay_limit cfg)"
  let ?w = "opened_world call (map entry four) d (opened_conn cfg) ?b"
  obtain w1 where w1: "ws_reach sample_gp cfg rely capped slow ?w w1"
    "seen_at w1 (map entry four) ?b Fetching (Some ''1-0'') []"
    using reach_step [OF ws_reach.here greet_at [OF start_at]] by blast
  obtain w2 where w2: "ws_reach sample_gp cfg rely capped slow ?w w2"
    "seen_at w2 (map entry four) ?b (Replaying (map bare (take ?n [''2-0'', ''3-0'', ''4-0'']))) (Some ''1-0'') []"
    using reach_step [OF w1(1) fetch_at [OF w1(2) four_parse(1) four_after refl]] assms(3) by auto
  have ne: "take ?n [''2-0'', ''3-0'', ''4-0''] \<noteq> []" using assms(1) by simp
  obtain w3 where w3: "ws_reach sample_gp cfg rely capped slow ?w w3"
    "seen_at w3 (map entry four) ?b Live (Some (last (take ?n [''2-0'', ''3-0'', ''4-0''])))
       (take ?n [''2-0'', ''3-0'', ''4-0''])"
    using replay_all_at [OF w2] ne by auto
  from reach_step [OF w3(1) tail_at [OF w3(2) four_parse(3,4) four_next]] assms(2) show ?thesis by simp
qed

text \<open>
  A replay that is cut off leaves a gap. The queue of a client holds only entries fanned out after
  it registered, a replay at most \<open>redis_replay_limit\<close> entries after the id asked for; entries in
  between reach the browser neither way: here it resumes after the first of four entries, is replayed
  the second, then sent the fourth, and the third is lost.
\<close>

theorem cut_replay_loses_entries:
  "\<exists>gp cfg c b d w.
     websocket_open cfg (Some ''1-0'') (new_broadcaster\<lparr>bc_cursor := ''3-0''\<rparr>) = (Inr c, b) \<and>
     redis_replay_limit cfg = 1 \<and>
     ws_reach gp cfg (\<lambda>_ _. True) True False (opened_world None (map entry [''1-0'', ''2-0'', ''3-0'', ''4-0'']) d c b) w \<and>
     co_phase (wo_conn w) = Live \<and> sent_ids (wo_conn w) = [''2-0'', ''4-0'']"
proof -
  let ?cfg = "default_settings ''g'' ''h''\<lparr>redis_replay_limit := 1\<rparr>"
  have lim: "redis_replay_limit ?cfg = 1" "1 \<le> websocket_client_queue_size ?cfg" "1 \<le> websocket_max_clients ?cfg"
    by (simp_all add: sample_limits)
  obtain w where w: "ws_reach sample_gp ?cfg (\<lambda>_ _. True) True False
      (opened_world None (map entry four) empty_db (opened_conn ?cfg) (gw_with ?cfg ''3-0'' [])) w"
    "seen_at w (map entry four) (gw_with ?cfg ''4-0'' [bare ''4-0'']) Live (Some ''2-0'') [''2-0'']"
    using live_run [of ?cfg True "\<lambda>_ _. True" False None empty_db] lim by auto
  have "already_sent ''4-0'' (Some ''2-0'') = Inr False"
    by (simp add: already_sent_def four_ids present_def)
  from reach_step [OF w(1) send_at [OF w(2) this]] obtain w' where
    "ws_reach sample_gp ?cfg (\<lambda>_ _. True) True False
      (opened_world None (map entry four) empty_db (opened_conn ?cfg) (gw_with ?cfg ''3-0'' [])) w'"
    "seen_at w' (map entry four) (gw_with ?cfg ''4-0'' []) Live (Some ''4-0'') [''2-0'', ''4-0'']" by auto
  then show ?thesis using open_first [OF lim(3)] lim(1) unfolding four_def seen_at_def by blast
qed

subsection \<open>A tail that has read nothing yet\<close>

lemma append_at:
  assumes "seen_at w s b p l ids" and "wo_call w = call" and "stream_ok (s @ [e])"
  shows "\<exists>w'. ws_step gp cfg rely capped slow w w' \<and> seen_at w' (s @ [e]) b p l ids \<and> wo_call w' = call"
  using assms
  by (intro exI [of _ "w\<lparr>wo_stream := wo_stream w @ [e]\<rparr>"] conjI ws_step.appended) (simp_all add: seen_at_def)

lemma call_over_at:
  assumes "seen_at w s b p l ids"
  shows "\<exists>w'. ws_step gp cfg rely capped slow w w' \<and> seen_at w' s b p l ids \<and> wo_call w' = None"
  using assms by (intro exI [of _ "w\<lparr>wo_call := None\<rparr>"] conjI ws_step.read_over) (simp_all add: seen_at_def)

lemma call_at:
  assumes "seen_at w s (gw_with cfg ''$'' q) p l ids" and "wo_call w = None"
  shows "\<exists>w'. ws_step gp cfg rely capped slow w w' \<and> seen_at w' s (gw_with cfg ''$'' q) p l ids \<and>
    wo_call w' = Some (length s)"
  using assms
  by (intro exI [of _ "w\<lparr>wo_call := Some (length (wo_stream w))\<rparr>"] conjI ws_step.read_new)
    (simp_all add: seen_at_def gw_with_def)

lemma tail_new_at:
  assumes "seen_at w (map entry ids) (gw_with cfg ''$'' q) p l sent" and "wo_call w = Some n"
    and "n < length ids" and "ids ! n = i" and "parses i" and "int (length q) < websocket_client_queue_size cfg"
  shows "\<exists>w'. ws_step sample_gp cfg rely capped slow w w' \<and>
    seen_at w' (map entry ids) (gw_with cfg i (q @ [bare i])) p l sent"
proof -
  have t: "tail_entries (gp_loads sample_gp) [wo_stream w ! n] (wo_bc w) = (gw_with cfg i (q @ [bare i]), None)"
    using assms decode_sample [of i]
    by (simp add: seen_at_def bare_def parses_def broadcast_def offer_def gw_with_def put_nowait_def
        set_client_def Let_def)
  have "ws_step sample_gp cfg rely capped slow w (w\<lparr>wo_bc := gw_with cfg i (q @ [bare i]), wo_call := None\<rparr>)"
    by (rule ws_step.tailed_new [OF _ assms(2) _ t]) (use assms in \<open>simp_all add: seen_at_def gw_with_def\<close>)
  then show ?thesis using assms(1) by (auto simp: seen_at_def)
qed

lemma reach_call:
  "ws_reach gp cfg rely capped slow w w1 \<Longrightarrow>
     \<exists>w2. ws_step gp cfg rely capped slow w1 w2 \<and> seen_at w2 s b p l ids \<and> wo_call w2 = call \<Longrightarrow>
     \<exists>w2. ws_reach gp cfg rely capped slow w w2 \<and> seen_at w2 s b p l ids \<and> wo_call w2 = call"
  by (blast intro: ws_reach.on)

lemma prefixes_ok: "stream_ok (map entry [''1-0''] @ [entry ''2-0''])"
    "stream_ok (map entry [''1-0'', ''2-0''] @ [entry ''3-0''])"
  using four_ids by (simp_all add: stream_ok_def four_keys) (simp_all add: entry_def)

text \<open>
  A gateway that has read no entry yet can miss one. Its tail reads from \<open>$\<close>, and a call that ends after
  its second of waiting is repeated from \<open>$\<close>: an entry appended between the two calls is in neither. A
  browser that resumed at the end of the stream before it never gets it, although nothing is cut off
  and no send times out: here it is at the first of three entries, and gets the third alone.
\<close>

theorem new_gateway_misses_entry:
  "\<exists>gp cfg c b d w.
     websocket_open cfg (Some ''1-0'') (new_broadcaster\<lparr>bc_cursor := ''$''\<rparr>) = (Inr c, b) \<and>
     ws_reach gp cfg (\<lambda>_ _. True) False False (opened_world None [entry ''1-0''] d c b) w \<and>
     map fst (wo_stream w) = [''1-0'', ''2-0'', ''3-0''] \<and> sent_ids (wo_conn w) = [''3-0'']"
proof -
  let ?cfg = "default_settings ''g'' ''h''" and ?b = "gw_with (default_settings ''g'' ''h'') ''$'' []"
  let ?reach = "ws_reach sample_gp ?cfg (\<lambda>_ _. True) False False
    (opened_world None [entry ''1-0''] empty_db (opened_conn ?cfg) ?b)"
  have lim: "1 \<le> websocket_max_clients ?cfg" "int (length []) < websocket_client_queue_size ?cfg"
    "int (length []) \<le> redis_replay_limit ?cfg" by (simp_all add: sample_limits) (simp add: default_settings_def)
  have none: "entries_after ''1-0'' (map entry [''1-0'']) = map entry []"
    by (simp add: entries_after_parses [OF four_parse(1)] four_keys)
  have "\<exists>w. ?reach w \<and> seen_at w (map entry [''1-0'']) ?b Fetching (Some ''1-0'') []"
    using reach_step [OF ws_reach.here greet_at [OF start_at]] by simp
  then obtain w1 where w1: "?reach w1" "seen_at w1 (map entry [''1-0'']) ?b Fetching (Some ''1-0'') []" by blast
  have "\<exists>w. ?reach w \<and> seen_at w (map entry [''1-0'']) ?b (Replaying (map bare [])) (Some ''1-0'') []"
    using reach_step [OF w1(1) fetch_at [OF w1(2) four_parse(1) none refl]] lim(3) by simp
  then obtain w2 where w2: "?reach w2" "seen_at w2 (map entry [''1-0'']) ?b (Replaying []) (Some ''1-0'') []" by auto
  from reach_step [OF w2(1) live_at [OF w2(2)]] obtain w3 where
    w3: "?reach w3" "seen_at w3 (map entry [''1-0'']) ?b Live (Some ''1-0'') []" by blast
  from reach_call [OF w3(1) call_over_at [OF w3(2)]] obtain w4 where
    w4: "?reach w4" "seen_at w4 (map entry [''1-0'']) ?b Live (Some ''1-0'') []" "wo_call w4 = None" by blast
  from reach_call [OF w4(1) append_at [OF w4(2,3) prefixes_ok(1)]] obtain w5 where
    w5: "?reach w5" "seen_at w5 (map entry [''1-0'', ''2-0'']) ?b Live (Some ''1-0'') []" "wo_call w5 = None" by auto
  from reach_call [OF w5(1) call_at [OF w5(2,3)]] obtain w6 where
    w6: "?reach w6" "seen_at w6 (map entry [''1-0'', ''2-0'']) ?b Live (Some ''1-0'') []" "wo_call w6 = Some 2" by auto
  from reach_call [OF w6(1) append_at [OF w6(2,3) prefixes_ok(2)]] obtain w7 where
    w7: "?reach w7" "seen_at w7 (map entry [''1-0'', ''2-0'', ''3-0'']) ?b Live (Some ''1-0'') []"
      "wo_call w7 = Some 2" by auto
  from reach_step [OF w7(1) tail_new_at [OF w7(2,3) _ _ four_parse(3) lim(2)]] obtain w8 where
    w8: "?reach w8" "seen_at w8 (map entry [''1-0'', ''2-0'', ''3-0'']) (gw_with ?cfg ''3-0'' [bare ''3-0'']) Live
      (Some ''1-0'') []" by auto
  have "already_sent ''3-0'' (Some ''1-0'') = Inr False" by (simp add: already_sent_def four_ids present_def)
  from reach_step [OF w8(1) send_at [OF w8(2) this]] obtain w9 where
    "?reach w9" "seen_at w9 (map entry [''1-0'', ''2-0'', ''3-0'']) (gw_with ?cfg ''3-0'' []) Live (Some ''3-0'') [''3-0'']"
    by auto
  then show ?thesis using open_first [OF lim(1), of "''$''"] unfolding seen_at_def by (force simp: entry_def)
qed

subsection \<open>A send that times out\<close>

text \<open>One turn on a client that is too slow for one message.\<close>

lemma timed_out_turn:
  assumes "\<not> cl_closed (bc_objects b (co_client c))"
    and "queue_get (co_client c) b = Some ((i, m), b')" and "already_sent i (co_last c) = Inr False"
    and "personalize gp m (co_threshold c) = Inr out"
    and "annotate_delivery gp (we_now_ms env) False out = Inr out'"
    and "we_send env = WsTimesOut" and "we_beat env = WsOk"
  shows "\<exists>c' d'. sender_turn gp cfg env c b d = (c', b', d', Continues) \<and> same_place c c' \<and>
    co_threshold c' = co_threshold c"
proof -
  obtain c' d' t where h: "heartbeat gp cfg env c d = (c', d', t)" by (cases "heartbeat gp cfg env c d")
  then have "t = Continues \<and> co_threshold c' = co_threshold c"
    using assms(7) by (auto simp: heartbeat_def send_message_def annotate_delivery_def get_or_def
        heartbeat_message_def split: prod.splits)
  moreover have "sender_turn gp cfg env c b d = (c', b', d', t)"
    using assms(1-6) h by (simp add: sender_turn_def send_message_def)
  ultimately show ?thesis using heartbeat_cases [OF h] by blast
qed

text \<open>
  A message whose send times out is lost while the connection goes on. The timeout of the send is
  taken for an idle queue: the browser gets a heartbeat, the message is gone from the queue, and the
  next one is sent as if nothing were missing. Since what is sent then carries a newer id, a browser
  that reconnects with its last id does not get the lost one either.
\<close>

theorem timed_out_message_lost:
  assumes "\<not> cl_closed (bc_objects b (co_client c))"
    and "cl_queue (bc_objects b (co_client c)) = (i, m) # (j, n) # q"
    and "already_sent i (co_last c) = Inr False" and "already_sent j (co_last c) = Inr False"
    and "tagged (j, n)"
    and "personalize gp m (co_threshold c) = Inr out1"
    and "annotate_delivery gp (we_now_ms env1) False out1 = Inr out1'"
    and "personalize gp n (co_threshold c) = Inr out2"
    and "annotate_delivery gp (we_now_ms env2) False out2 = Inr out2'"
    and "we_send env1 = WsTimesOut" and "we_beat env1 = WsOk" and "we_send env2 = WsOk"
  shows "\<exists>c1 b1 d1 c2 b2 d2. sender_turn gp cfg env1 c b d = (c1, b1, d1, Continues) \<and>
    sender_turn gp cfg env2 c1 b1 d1 = (c2, b2, d2, Continues) \<and>
    sent_ids c2 = sent_ids c @ [j] \<and> co_last c2 = Some j \<and> cl_queue (bc_objects b2 (co_client c)) = q"
proof -
  obtain b1 where g1: "queue_get (co_client c) b = Some ((i, m), b1)"
    using assms(2) by (simp add: queue_get_def)
  note q1 = queue_get_Some [OF g1]
  obtain c1 d1 where t1: "sender_turn gp cfg env1 c b d = (c1, b1, d1, Continues)"
    and same: "same_place c c1" "co_threshold c1 = co_threshold c"
    using timed_out_turn [OF assms(1) g1 assms(3,6,7,10,11)] by blast
  obtain b2 where g2: "queue_get (co_client c1) b1 = Some ((j, n), b2)"
    using assms(2) q1 same by (auto simp: queue_get_def same_place_def)
  note q2 = queue_get_Some [OF g2]
  let ?c2 = "emit [Text out2'] c1\<lparr>co_last := Some j\<rparr>"
  have t2: "sender_turn gp cfg env2 c1 b1 d1 = (?c2, b2, d1, Continues)"
    using assms(1,4,8,9,12) same q1 g2 by (simp add: sender_turn_def send_message_def same_place_def)
  have "frame_id (Text out2') = [j]"
    using annotate_id [OF assms(9)] personalize_id [OF assms(8)] assms(5) by (simp add: tagged_def)
  then have "sent_ids ?c2 = sent_ids c @ [j]" using same by (simp add: same_place_def)
  moreover have "cl_queue (bc_objects b2 (co_client c)) = q"
    using q1 q2 same assms(2) by (simp add: same_place_def)
  ultimately show ?thesis using t1 t2 by (intro exI conjI) auto
qed

subsection \<open>Witnesses\<close>

theorem timed_out_message_lost_witness:
  "\<exists>c1 b1 d1 c2 b2 d2.
     sender_turn sample_gp (default_settings ''g'' ''h'') (silent_env\<lparr>we_send := WsTimesOut\<rparr>)
       (opened_conn (default_settings ''g'' ''h'')\<lparr>co_phase := Live\<rparr>)
       (gw_with (default_settings ''g'' ''h'') ''3-0'' [bare ''2-0'', bare ''3-0'']) empty_db = (c1, b1, d1, Continues) \<and>
     sender_turn sample_gp (default_settings ''g'' ''h'') silent_env c1 b1 d1 = (c2, b2, d2, Continues) \<and>
     sent_ids c2 = [''3-0'']"
proof -
  let ?cfg = "default_settings ''g'' ''h''" and ?env = "silent_env\<lparr>we_send := WsTimesOut\<rparr>"
  let ?c = "opened_conn ?cfg\<lparr>co_phase := Live\<rparr>" and ?b = "gw_with ?cfg ''3-0'' [bare ''2-0'', bare ''3-0'']"
  obtain o1 where o1: "personalize sample_gp (snd (bare ''2-0'')) (co_threshold ?c) = Inr o1"
    "get_or ''type'' JNull o1 = JNull" using personalize_sample by blast
  obtain o2 where o2: "personalize sample_gp (snd (bare ''3-0'')) (co_threshold ?c) = Inr o2"
    "get_or ''type'' JNull o2 = JNull" using personalize_sample by blast
  have a: "annotate_delivery sample_gp x False o1 = Inr o1" "annotate_delivery sample_gp x False o2 = Inr o2" for x
    using o1 o2 by (simp_all add: annotate_delivery_def)
  have new: "already_sent ''2-0'' (co_last ?c) = Inr False" "already_sent ''3-0'' (co_last ?c) = Inr False"
    by (simp_all add: already_sent_def four_ids present_def opened_conn_def)
  have q: "\<not> cl_closed (bc_objects ?b (co_client ?c))"
    "cl_queue (bc_objects ?b (co_client ?c)) = (''2-0'', snd (bare ''2-0'')) # (''3-0'', snd (bare ''3-0'')) # []"
    by (simp_all add: gw_with_def opened_conn_def bare_def)
  have e: "we_send ?env = WsTimesOut" "we_beat ?env = WsOk" "we_send silent_env = WsOk"
    "tagged (''3-0'', snd (bare ''3-0''))"
    by (simp_all add: silent_env_def tagged_def bare_def)
  from timed_out_message_lost [OF q new e(4) o1(1) a(1) o2(1) a(2) e(1-3), of ?cfg empty_db]
  show ?thesis by (simp add: sent_ids_def opened_conn_def) blast
qed

lemma new_broadcaster_ok: "0 \<le> websocket_max_clients cfg \<Longrightarrow> gw_ok cfg (new_broadcaster\<lparr>bc_cursor := i\<rparr>)"
  by (simp add: gw_ok_def new_broadcaster_def)

theorem delivered_in_order_witness:
  "\<exists>w. ws_reach sample_gp (default_settings ''g'' ''h'') (\<lambda>_ _. True) True True
      (opened_world None (map entry four) empty_db (opened_conn (default_settings ''g'' ''h''))
         (gw_with (default_settings ''g'' ''h'') ''3-0'' [])) w \<and>
    sent_ids (wo_conn w) = [''2-0'', ''3-0'', ''4-0''] \<and> sorted_wrt id_less (sent_ids (wo_conn w))"
proof -
  let ?cfg = "default_settings ''g'' ''h''"
  have lim: "redis_replay_limit ?cfg = 500" "1 \<le> websocket_client_queue_size ?cfg"
    "1 \<le> websocket_max_clients ?cfg" by (simp_all add: sample_limits) (simp add: default_settings_def)
  obtain w where w: "ws_reach sample_gp ?cfg (\<lambda>_ _. True) True True
      (opened_world None (map entry four) empty_db (opened_conn ?cfg) (gw_with ?cfg ''3-0'' [])) w"
    "sent_ids (wo_conn w) = [''2-0'', ''3-0'', ''4-0'']"
    using live_run [of ?cfg True "\<lambda>_ _. True" True None empty_db] lim by (auto simp: seen_at_def)
  from delivered_in_order [OF open_first [OF lim(3)] new_broadcaster_ok four_ok lim(2) w(1)] lim(3) w
  show ?thesis by auto
qed

theorem delivered_without_gap_witness:
  "\<exists>w k n. ws_reach sample_gp (default_settings ''g'' ''h'') (\<lambda>_ _. True) False False
      (opened_world None (map entry four) empty_db (opened_conn (default_settings ''g'' ''h''))
         (gw_with (default_settings ''g'' ''h'') ''3-0'' [])) w \<and>
    sent_ids (wo_conn w) = [''2-0'', ''3-0'', ''4-0''] \<and>
    sent_ids (wo_conn w) = take n (drop k (map fst (wo_stream w)))"
proof -
  let ?cfg = "default_settings ''g'' ''h''"
  have lim: "redis_replay_limit ?cfg = 500" "1 \<le> websocket_client_queue_size ?cfg"
    "1 \<le> websocket_max_clients ?cfg" by (simp_all add: sample_limits) (simp add: default_settings_def)
  obtain w where w: "ws_reach sample_gp ?cfg (\<lambda>_ _. True) False False
      (opened_world None (map entry four) empty_db (opened_conn ?cfg) (gw_with ?cfg ''3-0'' [])) w"
    "sent_ids (wo_conn w) = [''2-0'', ''3-0'', ''4-0'']"
    using live_run [of ?cfg False "\<lambda>_ _. True" False None empty_db] lim by (auto simp: seen_at_def)
  have "bc_cursor (new_broadcaster\<lparr>bc_cursor := ''3-0''\<rparr>) = fst (map entry four ! (3 - 1))"
    by (simp add: four_def entry_def)
  from delivered_without_gap [OF open_first [OF lim(3)] new_broadcaster_ok four_ok lim(2) _ _ _ this w(1)]
    lim obtain k n where "sent_ids (wo_conn w) = take n (drop k (map fst (wo_stream w)))"
    by (auto simp: four_def)
  with w show ?thesis by blast
qed

end
