(* ===== verification/Gateway_Control.thy ===== *)
theory Gateway_Control
  imports Gateway_Runs
begin

text \<open>
  The control messages of a browser and the handshake of \<open>services/api_gateway/main.py\<close>: what the
  receiver task may do to the replay control of the stream while other gateways and the producer write
  it too, that the presentation threshold changes
  only how a message is shown, and what a handshake that fails leaves behind.
\<close>

subsection \<open>Replay control\<close>

text \<open>\<open>replay_at d s\<close> is the stored status and rate of a stream.\<close>

definition replay_at :: "db \<Rightarrow> string \<Rightarrow> (string \<times> rat) option" where
  "replay_at d stream = map_option (\<lambda>r. (rp_status r, rp_events_per_second r)) (map_of (replay_control d) stream)"

definition replay_valid :: "db \<Rightarrow> bool" where
  "replay_valid d \<longleftrightarrow> replay_ok d \<and> table_ok (replay_control d)"

lemma replay_valid_iff:
  "replay_valid d \<longleftrightarrow> table_ok (replay_control d) \<and>
     (\<forall>k r. map_of (replay_control d) k = Some r \<longrightarrow> replay_row_ok r)"
  by (auto simp: replay_valid_def replay_ok_def map_of_eq_Some_iff_table)

lemma fetch_replay_Inr:
  assumes "fetch_replay_control stream rate now d = Inr (d', status, r)"
  shows "replay_at d' stream = Some (status, r)"
    and "replay_at d stream = Some p \<Longrightarrow> p = (status, r)"
    and "replay_at d stream = None \<Longrightarrow> r = rate"
    and "other \<noteq> stream \<Longrightarrow> replay_at d' other = replay_at d other"
    and "d' = d\<lparr>replay_control := replay_control d'\<rparr>"
    and "replay_valid d \<Longrightarrow> replay_valid d'"
  using assms
  by (auto simp: fetch_replay_control_def Let_def result_simps replay_at_def table_simps replay_valid_iff
      split: option.splits if_splits)

lemma update_replay_Inr:
  assumes "update_replay_control stream status rate now d = Inr d'"
  shows "replay_at d' stream = Some
      (case replay_at d stream of
         None \<Rightarrow> (rp_status (replay_insert_values status rate now),
                  rp_events_per_second (replay_insert_values status rate now))
       | Some (s, r) \<Rightarrow> ((case status of None \<Rightarrow> s | Some s' \<Rightarrow> s'), (case rate of None \<Rightarrow> r | Some r' \<Rightarrow> r')))"
    and "other \<noteq> stream \<Longrightarrow> replay_at d' other = replay_at d other"
    and "d' = d\<lparr>replay_control := replay_control d'\<rparr>"
    and "replay_valid d \<Longrightarrow> replay_valid d'"
  using assms
  by (auto simp: update_replay_control_def Let_def result_simps replay_at_def table_simps upserted_def
      replay_set_values_def replay_valid_iff split: option.splits if_splits)

definition good_rate :: "rat \<Rightarrow> bool" where
  "good_rate r \<longleftrightarrow> in_range (1 / 10) 10000 r"

lemma good_rate_speed: "good_rate (events_per_second interval)"
  by (simp add: good_rate_def in_range_def events_per_second_def)

text \<open>
  What the other writers of a control row do: gateways and the producer read it, which inserts it when
  it is missing, and set its status, its rate or both. The rate they write or have configured is
  within the bounds.
\<close>

inductive control_writes :: "settings \<Rightarrow> db \<Rightarrow> db \<Rightarrow> bool" for cfg where
  none: "control_writes cfg d d"
| read: "control_writes cfg d d1 \<Longrightarrow> good_rate rate \<Longrightarrow>
     fetch_replay_control (stream_name cfg) rate now d1 = Inr (d2, status, r) \<Longrightarrow> control_writes cfg d d2"
| written: "control_writes cfg d d1 \<Longrightarrow> opt_ok good_rate rate \<Longrightarrow>
     update_replay_control (stream_name cfg) status rate now d1 = Inr d2 \<Longrightarrow> control_writes cfg d d2"

definition completed :: "settings \<Rightarrow> db \<Rightarrow> bool" where
  "completed cfg d \<longleftrightarrow> (\<exists>r. replay_at d (stream_name cfg) = Some (''completed'', r))"

subsection \<open>A relation kept by every connection\<close>

text \<open>
  \<open>R\<close> is a preorder on databases that the other sessions keep, and each of the statements a connection
  makes. Then a connection keeps it, whatever it is sent and whatever fails.
\<close>

locale control_relation =
  fixes cfg :: settings and rely R :: "db \<Rightarrow> db \<Rightarrow> bool"
  assumes R_refl: "R d d"
    and R_trans: "R d d1 \<Longrightarrow> R d1 d2 \<Longrightarrow> R d d2"
    and R_rely: "rely d d1 \<Longrightarrow> R d d1"
    and R_read: "fetch_replay_control (stream_name cfg) (replay_events_per_second cfg) now d = Inr (d1, status, r)
      \<Longrightarrow> R d d1"
    and R_speed: "change_speed cfg interval now d = Inr (d1, u) \<Longrightarrow> R d d1"
    and R_status: "change_status cfg kind now oth d = Inr (d1, u) \<Longrightarrow> R d (oth d) \<Longrightarrow> R d d1"
begin

lemma in_txn:
  assumes "\<And>d1 u. work d = Inr (d1, u) \<Longrightarrow> R d d1" and "in_transaction fate work d = (d', r)"
  shows "R d d'"
  using assms R_refl by (auto simp: in_transaction_def split: db_fate.splits sum.splits)

lemma telemetry:
  assumes "replay_telemetry cfg fate now d = (d', m)"
  shows "R d d'"
proof -
  obtain r where "in_transaction fate
      (\<lambda>d. fetch_replay_control (stream_name cfg) (replay_events_per_second cfg) now d) d = (d', r)"
    using assms by (auto simp: replay_telemetry_def split: prod.splits sum.splits)
  then show ?thesis by (rule in_txn [rotated]) (auto dest: R_read)
qed

lemma receiver:
  assumes "receiver_turn gp cfg env c d = (c', d', t)"
    and "we_others env d = d \<or> rely d (we_others env d)"
  shows "R d d'"
proof -
  have oth: "R d (we_others env d)" using assms(2) R_refl [of d] R_rely by metis
  have speed: "R d d1" if "in_transaction fate (change_speed cfg interval now) d = (d1, r)" for fate interval now d1 r
    by (rule in_txn [OF R_speed that])
  have status: "R d d1" if "in_transaction fate (change_status cfg kind now (we_others env)) d = (d1, r)"
    for fate kind now d1 r
    by (rule in_txn [OF R_status that]) (assumption, rule oth)
  show ?thesis
    using assms(1) R_refl [of d]
    by (auto simp: receiver_turn_def dest: speed status
        split: sum.splits if_splits option.splits control.splits prod.splits)
qed

lemma beat: "heartbeat gp cfg env c d = (c', d', t) \<Longrightarrow> R d d'"
  by (auto simp: heartbeat_def dest: telemetry split: prod.splits option.splits)

lemma greeting: "greet_step gp cfg env c d = (c', d') \<Longrightarrow> R d d'"
  using R_refl [of d] by (auto simp: greet_step_def dest: telemetry split: prod.splits option.splits)

lemma sender: "sender_turn gp cfg env c b d = (c', b', d', t) \<Longrightarrow> R d d'"
  using R_refl [of d]
  by (auto simp: sender_turn_def dest: beat
      split: prod.splits option.splits if_splits sum.splits exn.splits bool.splits)

lemma step: "ws_step gp cfg rely capped slow w w' \<Longrightarrow> R (wo_db w) (wo_db w')"
  by (induction rule: ws_step.induct) (auto simp: R_refl dest: greeting sender receiver R_rely)

lemma reach: "ws_reach gp cfg rely capped slow w w' \<Longrightarrow> R (wo_db w) (wo_db w')"
proof (induction rule: ws_reach.induct)
  case (on w' w'')
  from R_trans [OF on(3) step [OF on(2)]] show ?case .
qed (rule R_refl)

end

subsection \<open>The control row stays within its bounds\<close>

text \<open>One control transaction, of either kind.\<close>

definition keeps_control :: "settings \<Rightarrow> db \<Rightarrow> db \<Rightarrow> bool" where
  "keeps_control cfg d d' \<longleftrightarrow>
     d' = d\<lparr>replay_control := replay_control d'\<rparr> \<and> (replay_valid d \<longrightarrow> replay_valid d') \<and>
     (\<forall>other. other \<noteq> stream_name cfg \<longrightarrow> replay_at d' other = replay_at d other) \<and>
     (good_rate (replay_events_per_second cfg) \<and>
        (\<forall>p. replay_at d (stream_name cfg) = Some p \<longrightarrow> good_rate (snd p)) \<longrightarrow>
        (\<forall>p. replay_at d' (stream_name cfg) = Some p \<longrightarrow> good_rate (snd p)))"

lemma keeps_control_refl [simp]: "keeps_control cfg d d"
  by (simp add: keeps_control_def)

lemma keeps_control_trans:
  assumes "keeps_control cfg d d1" and "keeps_control cfg d1 d2"
  shows "keeps_control cfg d d2"
proof -
  have "d2 = d\<lparr>replay_control := replay_control d2\<rparr>"
    using assms unfolding keeps_control_def by (metis db.surjective db.update_convs(7))
  then show ?thesis using assms unfolding keeps_control_def by metis
qed

lemma fetch_keeps:
  assumes "fetch_replay_control (stream_name cfg) rate now d = Inr (d', status, r)"
    and "rate = replay_events_per_second cfg \<or> good_rate rate"
  shows "keeps_control cfg d d'"
  unfolding keeps_control_def
  using fetch_replay_Inr [OF assms(1)] assms(2)
  by (cases "replay_at d (stream_name cfg)") auto

lemma update_keeps:
  assumes "update_replay_control (stream_name cfg) status rate now d = Inr d'" and "opt_ok good_rate rate"
  shows "keeps_control cfg d d'"
proof -
  have "good_rate 20" "\<not> good_rate 0" by (simp_all add: good_rate_def in_range_def)
  then show ?thesis
    unfolding keeps_control_def using update_replay_Inr [OF assms(1)] assms(2)
    by (auto simp: replay_insert_values_def split: option.splits)
qed

lemma control_writes_keeps: "control_writes cfg d d' \<Longrightarrow> keeps_control cfg d d'"
  by (induction rule: control_writes.induct)
    (auto intro: keeps_control_trans fetch_keeps update_keeps)

lemma fetch_existing:
  "fetch_replay_control stream rate now d = Inr (d', status, r) \<Longrightarrow> map_of (replay_control d) stream \<noteq> None \<Longrightarrow>
     d' = d"
  by (auto simp: fetch_replay_control_def Let_def insert_nothing_def result_simps split: option.splits if_splits)

text \<open>The row was completed when it was read, or it is written, over what others made of it.\<close>

lemma change_status_cases:
  assumes "change_status cfg kind now oth d = Inr (d', u)"
  obtains (kept) rate r where "fetch_replay_control (stream_name cfg) rate now d = Inr (d', ''completed'', r)"
      "rate = replay_events_per_second cfg"
  | (set) d1 status r d2 where
      "fetch_replay_control (stream_name cfg) (replay_events_per_second cfg) now d = Inr (d1, status, r)"
      "status \<noteq> ''completed''" "d2 = d1 \<or> d1 = d \<and> d2 = oth d"
      "update_replay_control (stream_name cfg)
         (Some (if kind = ''pause_replay'' then ''paused'' else ''running'')) None now d2 = Inr d'"
proof -
  obtain d1 status r where f: "fetch_replay_control (stream_name cfg) (replay_events_per_second cfg) now d
      = Inr (d1, status, r)"
    using assms by (auto simp: change_status_def result_simps)
  show thesis
  proof (cases "status = ''completed''")
    case True
    then show thesis using assms f by (intro kept) (auto simp: change_status_def)
  next
    case False
    let ?d2 = "if map_of (replay_control d) (stream_name cfg) = None then d1 else oth d1"
    have "update_replay_control (stream_name cfg)
        (Some (if kind = ''pause_replay'' then ''paused'' else ''running'')) None now ?d2 = Inr d'"
      using assms f False by (auto simp: change_status_def result_simps Let_def)
    then show thesis using set [OF f False, of ?d2] fetch_existing [OF f] by auto
  qed
qed

lemma change_status_keeps:
  assumes "change_status cfg kind now oth d = Inr (d', u)" and "keeps_control cfg d (oth d)"
  shows "keeps_control cfg d d'"
  using assms(1)
proof (cases rule: change_status_cases)
  case (kept rate r)
  then show ?thesis by (blast intro: fetch_keeps)
next
  case (set d1 status r d2)
  have "keeps_control cfg d d2" using set(1,3) assms(2) by (blast intro: fetch_keeps)
  moreover have "keeps_control cfg d2 d'" by (rule update_keeps [OF set(4)]) simp
  ultimately show ?thesis by (rule keeps_control_trans)
qed

lemma change_speed_keeps:
  assumes "change_speed cfg interval now d = Inr (d', u)"
  shows "keeps_control cfg d d'"
proof -
  have "update_replay_control (stream_name cfg) None (Some (events_per_second interval)) now d = Inr d'"
    using assms by (auto simp: change_speed_def result_simps)
  then show ?thesis by (rule update_keeps) (simp add: good_rate_speed)
qed

interpretation bounded: control_relation cfg "control_writes cfg" "keeps_control cfg" for cfg
  by unfold_locales (blast intro: keeps_control_refl keeps_control_trans control_writes_keeps fetch_keeps
      change_speed_keeps change_status_keeps)+

text \<open>
  C32. A connection's effect on the database is bounded. Whatever a connection does and is sent, and
  whatever the other gateways and the producer do to the control row meanwhile, also between the check
  and the write of a control message, nothing but the control row of the gateway's own stream changes,
  it keeps its constraints, and its rate stays between 0.1 and 10000 transactions per second.
\<close>

theorem controls_bounded:
  assumes "ws_reach gp cfg (control_writes cfg) True True w w'" and "replay_valid (wo_db w)"
    and "in_range (1 / 10) 10000 (replay_events_per_second cfg)"
    and "\<And>s r. replay_at (wo_db w) (stream_name cfg) = Some (s, r) \<Longrightarrow> in_range (1 / 10) 10000 r"
  shows "wo_db w' = wo_db w\<lparr>replay_control := replay_control (wo_db w')\<rparr> \<and> replay_valid (wo_db w') \<and>
    (\<forall>other. other \<noteq> stream_name cfg \<longrightarrow> replay_at (wo_db w') other = replay_at (wo_db w) other) \<and>
    (\<forall>s r. replay_at (wo_db w') (stream_name cfg) = Some (s, r) \<longrightarrow> in_range (1 / 10) 10000 r)"
proof -
  note k = bounded.reach [OF assms(1), unfolded keeps_control_def]
  have "good_rate (replay_events_per_second cfg) \<and>
      (\<forall>p. replay_at (wo_db w) (stream_name cfg) = Some p \<longrightarrow> good_rate (snd p))"
    using assms(3,4) by (auto simp: good_rate_def)
  then have "\<forall>p. replay_at (wo_db w') (stream_name cfg) = Some p \<longrightarrow> good_rate (snd p)" using k by blast
  then show ?thesis using k assms(2) by (auto simp: good_rate_def)
qed

subsection \<open>Completion\<close>

definition keep_completion :: "settings \<Rightarrow> db \<Rightarrow> db \<Rightarrow> bool" where
  "keep_completion cfg d d' \<longleftrightarrow> control_writes cfg d d' \<and> (completed cfg d \<longrightarrow> completed cfg d')"

interpretation terminal: control_relation cfg "keep_completion cfg" "\<lambda>d d'. completed cfg d \<longrightarrow> completed cfg d'" for cfg
proof (unfold_locales, goal_cases)
  case (4 now d d1 status r)
  then show ?case using fetch_replay_Inr(1,2) [OF 4] by (auto simp: completed_def)
next
  case (5 interval now d d1 u)
  then have "update_replay_control (stream_name cfg) None (Some (events_per_second interval)) now d = Inr d1"
    by (auto simp: change_speed_def result_simps)
  from update_replay_Inr(1) [OF this] show ?case by (auto simp: completed_def)
next
  case (6 kind now oth d d1 u)
  from 6(1) show ?case
  proof (cases rule: change_status_cases)
    case (kept rate r)
    from fetch_replay_Inr(1) [OF kept(1)] show ?thesis by (auto simp: completed_def)
  next
    case (set d2 status r d3)
    from fetch_replay_Inr(2) [OF set(1)] set(2) show ?thesis by (auto simp: completed_def)
  qed
qed (auto simp: keep_completion_def)

text \<open>
  C31. A connection does not reopen a completed replay that it sees completed. From any moment at which
  the replay is completed and the connection is not between the check and the write of a control
  message, whatever control messages it receives, in whatever order and with whatever failures of the
  database, the replay stays completed as long as the other writers of the control row keep it so.
  Between the check and the write they may write the row too. That is where the guarantee ends, see
  \<open>completion_undone\<close>.
\<close>

theorem completed_stays:
  assumes "ws_reach gp cfg (keep_completion cfg) True True w w'"
    and "replay_at (wo_db w) (stream_name cfg) = Some (''completed'', r)"
  shows "\<exists>r'. replay_at (wo_db w') (stream_name cfg) = Some (''completed'', r')"
  using terminal.reach [OF assms(1)] assms(2) by (auto simp: completed_def)

text \<open>
  The gateway's check and its write are two statements, and reading locks nothing: a replay that
  completes in between is set back to paused, by a browser's pause that arrived before the end.
\<close>

theorem completion_undone:
  assumes "replay_at d (stream_name cfg) = Some (status, r)" and "status \<noteq> ''completed''"
    and "update_replay_control (stream_name cfg) (Some ''completed'') None now1 d = Inr (oth d)"
    and "change_status cfg ''pause_replay'' now oth d = Inr (d', u)"
  shows "replay_at (oth d) (stream_name cfg) = Some (''completed'', r) \<and> control_writes cfg d (oth d) \<and>
    replay_at d' (stream_name cfg) = Some (''paused'', r)"
proof -
  have oth: "replay_at (oth d) (stream_name cfg) = Some (''completed'', r)"
    using update_replay_Inr(1) [OF assms(3)] assms(1) by simp
  have writes: "control_writes cfg d (oth d)"
    by (rule control_writes.written [OF control_writes.none _ assms(3)]) simp
  obtain d1 s r' where f: "fetch_replay_control (stream_name cfg) (replay_events_per_second cfg) now d
      = Inr (d1, s, r')"
    using assms(4) by (auto simp: change_status_def result_simps)
  have row: "map_of (replay_control d) (stream_name cfg) \<noteq> None" using assms(1) by (auto simp: replay_at_def)
  have "d1 = d" by (rule fetch_existing [OF f row])
  moreover have "s = status" using fetch_replay_Inr(2) [OF f assms(1)] by simp
  ultimately have "update_replay_control (stream_name cfg) (Some ''paused'') None now (oth d) = Inr d'"
    using assms(2,4) f row by (auto simp: change_status_def result_simps)
  from update_replay_Inr(1) [OF this] oth writes show ?thesis by simp
qed

subsection \<open>Handshakes that fail\<close>

text \<open>\<open>websocket_handler\<close> up to its \<open>try\<close>: the refusal, or the connection as the greeting leaves it.\<close>

definition handshake ::
  "gateway_env \<Rightarrow> settings \<Rightarrow> string option \<Rightarrow> ws_env \<Rightarrow> broadcaster \<times> db
     \<Rightarrow> (frame + conn) \<times> broadcaster \<times> db"
where
  "handshake gp cfg last_event_id env st =
     (case websocket_open cfg last_event_id (fst st) of
        (Inl f, b) \<Rightarrow> (Inl f, b, snd st)
      | (Inr c, b) \<Rightarrow> (case greet_step gp cfg env c (snd st) of (c', d) \<Rightarrow> (Inr c', b, d)))"

fun handshakes ::
  "gateway_env \<Rightarrow> settings \<Rightarrow> (string option \<times> ws_env) list \<Rightarrow> broadcaster \<times> db \<Rightarrow> broadcaster \<times> db"
where
  "handshakes gp cfg [] st = st"
| "handshakes gp cfg ((start, env) # hs) st = handshakes gp cfg hs (snd (handshake gp cfg start env st))"

definition admissible :: "string option \<Rightarrow> bool" where
  "admissible start \<longleftrightarrow> (present start \<longrightarrow> stream_id_pattern (the start))"

lemma handshake_clients:
  assumes "admissible start"
  shows "int (length (bc_clients (fst (snd (handshake gp cfg start env st))))) =
    (if websocket_max_clients cfg \<le> int (length (bc_clients (fst st)))
     then int (length (bc_clients (fst st))) else int (length (bc_clients (fst st))) + 1)"
  using assms
  by (auto simp: handshake_def websocket_open_def register_def admissible_def split: prod.splits)

lemma handshakes_fill:
  "\<forall>(start, env) \<in> set hs. admissible start \<Longrightarrow>
     websocket_max_clients cfg \<le> int (length (bc_clients (fst st))) + int (length hs) \<Longrightarrow>
     websocket_max_clients cfg \<le> int (length (bc_clients (fst (handshakes gp cfg hs st))))"
proof (induction hs arbitrary: st)
  case (Cons h hs)
  obtain start env where h: "h = (start, env)" by (cases h)
  have "admissible start" using Cons.prems(1) h by simp
  note n = handshake_clients [OF this, of gp cfg env st]
  show ?case
    unfolding h handshakes.simps
    by (rule Cons.IH) (use Cons.prems n in \<open>auto split: if_splits\<close>)
qed simp

text \<open>
  A handshake that fails keeps its place. Accepting a connection and greeting it stand before the
  handler's \<open>try\<close>, so when either fails the exception escapes and the client stays registered. After
  as many failing handshakes as places are free, none of them leaving a connection, every further
  browser is refused as if the gateway were full.
\<close>

theorem failed_handshakes_fill_gateway:
  assumes "\<forall>(start, env) \<in> set hs. admissible start \<and> we_accept env = Some x"
    and "websocket_max_clients cfg \<le> int (length (bc_clients b)) + int (length hs)"
    and "handshakes gp cfg hs (b, d) = (b', d')" and "admissible start"
  shows "websocket_open cfg start b' = (Inl (Closed 1013 ''gateway at capacity''), b') \<and>
    (\<forall>(start, env) \<in> set hs. \<forall>st c. fst (handshake gp cfg start env st) = Inr c \<longrightarrow> co_phase c = Escaped x)"
proof -
  have "websocket_max_clients cfg \<le> int (length (bc_clients b'))"
    using handshakes_fill [of hs cfg "(b, d)" gp] assms(1-3) by auto
  then have "websocket_open cfg start b' = (Inl (Closed 1013 ''gateway at capacity''), b')"
    using assms(4) by (auto simp: websocket_open_def register_def admissible_def)
  moreover have "co_phase c = Escaped x"
    if "(start, env) \<in> set hs" "fst (handshake gp cfg start env st) = Inr c" for start env st c
    using assms(1) that by (fastforce simp: handshake_def greet_step_def split: prod.splits sum.splits)
  ultimately show ?thesis by blast
qed

text \<open>The places are given back only by fan-outs that overflow the queues nobody reads.\<close>

subsection \<open>Presentation\<close>

text \<open>
  The threshold a browser chooses changes only the presentation. A personalised message differs
  from the stored one in exactly two fields of its data: the threshold, and the flag, which says
  whether the probability reaches that threshold.
\<close>

theorem threshold_only_presents:
  assumes "personalize gp m threshold = Inr out" and "map_of m ''data'' = Some (JObj data)"
    and "map_of data ''illicit_probability'' = Some (JNum p)"
  shows "(\<forall>k. k \<noteq> ''data'' \<longrightarrow> map_of out k = map_of m k) \<and>
    (\<exists>shown. map_of out ''data'' = Some (JObj shown) \<and>
       map_of shown ''threshold'' = Some (JNum threshold) \<and>
       map_of shown ''flagged'' = Some (JBool (threshold \<le> p)) \<and>
       (\<forall>k. k \<noteq> ''threshold'' \<longrightarrow> k \<noteq> ''flagged'' \<longrightarrow> map_of shown k = map_of data k))"
  using assms by (auto simp: personalize_def get_or_def update_conv')

text \<open>
  The message carries the probability rounded to six digits, the entity endpoint the stored one, so
  the two can flag differently just below the threshold.
\<close>

lemma rounded_flag:
  "\<exists>p threshold :: rat. p < threshold \<and> threshold \<le> py_round p 6"
proof -
  have "\<lfloor>8999999 / 10 :: rat\<rfloor> = 899999" by (simp add: floor_eq_iff)
  then show ?thesis
    by (intro exI [of _ "8999999 / 10000000"] exI [of _ "9 / 10"])
      (simp add: py_round_def round_half_even_def Let_def)
qed

subsection \<open>Witnesses\<close>

definition resume_gp :: gateway_env where
  "resume_gp = sample_gp\<lparr>gp_parse_json := (\<lambda>_. Some (JObj [(''type'', JStr ''resume_replay'')]))\<rparr>"

definition done_db :: "settings \<Rightarrow> db" where
  "done_db cfg = empty_db\<lparr>replay_control := [(stream_name cfg,
     \<lparr>rp_status = ''completed'', rp_events_per_second = 20, rp_updated_at = 0\<rparr>)]\<rparr>"

abbreviation resume_world :: "settings \<Rightarrow> world" where
  "resume_world cfg \<equiv> opened_world None [] (done_db cfg) (opened_conn cfg\<lparr>co_phase := Live\<rparr>) (gw_with cfg ''3-0'' [])"

lemma resumed: "\<exists>w'. ws_step resume_gp cfg rely True True (resume_world cfg) w'"
proof -
  let ?w = "resume_world cfg" and ?env = "silent_env\<lparr>we_raw := Inr ''{}''\<rparr>"
  obtain c d t where r: "receiver_turn resume_gp cfg ?env (wo_conn ?w) (wo_db ?w) = (c, d, t)"
    by (cases "receiver_turn resume_gp cfg ?env (wo_conn ?w) (wo_db ?w)")
  obtain c' b' where a: "after_turn True t c (wo_bc ?w) = (c', b')" by fastforce
  have "co_phase (wo_conn ?w) = Live" "we_others ?env (wo_db ?w) = wo_db ?w"
    by (simp_all add: opened_world_def silent_env_def)
  then show ?thesis using ws_step.receiving [OF _ _ r a] by blast
qed

lemma done_at: "replay_at (wo_db (resume_world cfg)) (stream_name cfg) = Some (''completed'', 20)"
  by (simp add: replay_at_def opened_world_def done_db_def)

theorem completed_stays_witness:
  "\<exists>w' r'. ws_step resume_gp (default_settings ''g'' ''h'') (keep_completion (default_settings ''g'' ''h'')) True True
      (resume_world (default_settings ''g'' ''h'')) w' \<and>
     replay_at (wo_db w') (stream_name (default_settings ''g'' ''h'')) = Some (''completed'', r')"
proof -
  let ?cfg = "default_settings ''g'' ''h''"
  obtain w' where w': "ws_step resume_gp ?cfg (keep_completion ?cfg) True True (resume_world ?cfg) w'"
    using resumed by blast
  from completed_stays [OF ws_reach.on [OF ws_reach.here w'] done_at] w' show ?thesis by blast
qed

theorem controls_bounded_witness:
  "\<exists>w'. ws_step resume_gp (default_settings ''g'' ''h'') (control_writes (default_settings ''g'' ''h'')) True True
      (resume_world (default_settings ''g'' ''h'')) w' \<and> replay_valid (wo_db w')"
proof -
  let ?cfg = "default_settings ''g'' ''h''"
  obtain w' where w': "ws_step resume_gp ?cfg (control_writes ?cfg) True True (resume_world ?cfg) w'"
    using resumed by blast
  have v: "replay_valid (wo_db (resume_world ?cfg))"
    by (simp add: replay_valid_def replay_ok_def replay_row_ok_def opened_world_def done_db_def table_ok_def)
  have "in_range (1 / 10) 10000 (replay_events_per_second ?cfg)"
    by (simp add: default_settings_def in_range_def)
  from controls_bounded [OF ws_reach.on [OF ws_reach.here w'] v this] done_at w' show ?thesis
    by (auto simp: in_range_def)
qed

text \<open>A replay that completes while a browser's pause is between its check and its write.\<close>

lemma completion_undone_witness:
  "\<exists>d d' oth. replay_at (oth d) ''s'' = Some (''completed'', 20) \<and> replay_at d' ''s'' = Some (''paused'', 20) \<and>
     change_status (default_settings ''g'' ''h''\<lparr>stream_name := ''s''\<rparr>) ''pause_replay'' 2 oth d = Inr (d', ())"
proof -
  let ?cfg = "default_settings ''g'' ''h''\<lparr>stream_name := ''s''\<rparr>"
  let ?at = "\<lambda>st. empty_db\<lparr>replay_control := [(''s'', \<lparr>rp_status = st, rp_events_per_second = 20, rp_updated_at = 0\<rparr>)]\<rparr>"
  have row: "replay_at (?at ''running'') (stream_name ?cfg) = Some (''running'', 20)" by (simp add: replay_at_def)
  have fin: "update_replay_control (stream_name ?cfg) (Some ''completed'') None 0 (?at ''running'') =
      Inr ((\<lambda>_. ?at ''completed'') (?at ''running''))"
    by (simp add: update_replay_control_def Let_def replay_insert_values_def replay_set_values_def replay_row_ok_def
        upsert_def update_row_def guard_r_def)
  obtain d' where set: "change_status ?cfg ''pause_replay'' 2 (\<lambda>_. ?at ''completed'') (?at ''running'') = Inr (d', ())"
    by (simp add: change_status_def fetch_replay_control_def update_replay_control_def Let_def insert_nothing_def
        replay_insert_values_def replay_set_values_def replay_row_ok_def default_settings_def guard_r_def)
  from completion_undone [OF row _ fin set] set show ?thesis
    by (intro exI [of _ "?at ''running''"] exI [of _ d'] exI [of _ "\<lambda>_. ?at ''completed''"]) auto
qed

theorem failed_handshakes_fill_gateway_witness:
  "\<exists>b' d'. handshakes sample_gp (default_settings ''g'' ''h'')
       (replicate 2000 (None, silent_env\<lparr>we_accept := Some (OtherError ''WebSocketDisconnect'' [])\<rparr>))
       (new_broadcaster, empty_db) = (b', d') \<and>
     websocket_open (default_settings ''g'' ''h'') None b' = (Inl (Closed 1013 ''gateway at capacity''), b')"
proof -
  let ?cfg = "default_settings ''g'' ''h''"
  let ?hs = "replicate 2000 (None, silent_env\<lparr>we_accept := Some (OtherError ''WebSocketDisconnect'' [])\<rparr>)"
  obtain b' d' where h: "handshakes sample_gp ?cfg ?hs (new_broadcaster, empty_db) = (b', d')" by fastforce
  have "websocket_open ?cfg None b' = (Inl (Closed 1013 ''gateway at capacity''), b')"
    by (rule conjunct1 [OF failed_handshakes_fill_gateway [OF _ _ h]])
      (auto simp: admissible_def present_def sample_limits)
  with h show ?thesis by blast
qed

theorem threshold_only_presents_witness:
  "\<exists>out. personalize sample_gp [(''data'', JObj [(''illicit_probability'', JNum (1 / 2))])] (1 / 4) = Inr out \<and>
     (\<exists>shown. map_of out ''data'' = Some (JObj shown) \<and> map_of shown ''flagged'' = Some (JBool True))"
proof -
  let ?m = "[(''data'', JObj [(''illicit_probability'', JNum (1 / 2))])]"
  obtain out where o: "personalize sample_gp ?m (1 / 4) = Inr out"
    by (auto simp: personalize_def get_or_def)
  from threshold_only_presents [OF o, of "[(''illicit_probability'', JNum (1 / 2))]" "1 / 2"] o
  show ?thesis by auto
qed

end
