(* ===== verification/Gateway_Rest.thy ===== *)
theory Gateway_Rest
  imports Subgraph_Props Settings
begin

text \<open>
  The REST side of \<open>services/api_gateway/main.py\<close>: health, the entity endpoint and the subgraph endpoint
  with its cache in Redis. An answer is a status code with a detail, or a body. Failures of the
  database and of Redis are inputs; \<open>isof\<close> is \<open>isoformat\<close>, \<open>dumps\<close> and \<open>loads\<close> are \<open>json\<close>'s.
\<close>

type_synonym 'a answer = "(int \<times> string) + 'a"

subsection \<open>Transaction ids\<close>

definition tx_id_char :: "char \<Rightarrow> bool" where
  "tx_id_char c \<longleftrightarrow>
     (let n = (of_char c :: nat)
      in 65 \<le> n \<and> n \<le> 90 \<or> 97 \<le> n \<and> n \<le> 122 \<or> 48 \<le> n \<and> n \<le> 57 \<or> c = CHR ''_'' \<or> c = CHR ''-'')"

definition validate_tx_id :: "string \<Rightarrow> string answer" where
  "validate_tx_id tx_id =
     (if len_in 1 64 tx_id \<and> list_all tx_id_char tx_id then Inr tx_id
      else Inl (422, ''invalid transaction ID''))"

subsection \<open>Health\<close>

definition dependencies_ready :: "exn option \<Rightarrow> bool result \<Rightarrow> bool \<times> bool \<times> bool" where
  "dependencies_ready query ping =
     (let database_ok = (query = None);
          redis_ok = (case ping of Inl _ \<Rightarrow> False | Inr pong \<Rightarrow> pong)
      in (database_ok \<and> redis_ok, database_ok, redis_ok))"

record health_body =
  hb_status :: string
  hb_scoring_ready :: bool
  hb_error :: "string option"
  hb_postgres :: bool
  hb_redis :: bool

definition health_ready :: "exn option \<Rightarrow> bool result \<Rightarrow> int \<times> string \<times> bool \<times> bool" where
  "health_ready query ping =
     (case dependencies_ready query ping of (ready, postgres, redis) \<Rightarrow>
        (if ready then 200 else 503, if ready then ''ready'' else ''not_ready'', postgres, redis))"

definition health_legacy :: "exn option \<Rightarrow> bool result \<Rightarrow> int \<times> health_body" where
  "health_legacy query ping =
     (case dependencies_ready query ping of (ready, postgres, redis) \<Rightarrow>
        (if ready then 200 else 503,
         \<lparr>hb_status = (if ready then ''ok'' else ''degraded''), hb_scoring_ready = ready,
          hb_error = (if ready then None else Some ''gateway dependency unavailable''),
          hb_postgres = postgres, hb_redis = redis\<rparr>))"

subsection \<open>The entity endpoint\<close>

record entity_body =
  eb_tx_id :: string
  eb_risk_score :: rat
  eb_flagged :: bool
  eb_neighbors :: "string list"
  eb_cached :: bool
  eb_model_version :: "string option"
  eb_model_deployed_at :: "string option"
  eb_graph_watermark :: int
  eb_inference_latency_ms :: "rat option"
  eb_end_to_end_latency_ms :: "rat option"

definition unavailable :: "int \<times> string" where
  "unavailable = (503, ''serving dependency unavailable'')"

definition entity_body_of :: "(datetime \<Rightarrow> string) \<Rightarrow> rat \<Rightarrow> entity \<Rightarrow> entity_body" where
  "entity_body_of isof threshold result =
     \<lparr>eb_tx_id = ent_tx_id result,
      eb_risk_score = (case ent_risk_score result of Some p \<Rightarrow> p | None \<Rightarrow> 0),
      eb_flagged = (case ent_risk_score result of Some p \<Rightarrow> threshold \<le> p | None \<Rightarrow> False),
      eb_neighbors = ent_neighbors result, eb_cached = ent_cached result,
      eb_model_version = ent_model_version result,
      eb_model_deployed_at = map_option isof (ent_model_deployed_at result),
      eb_graph_watermark = ent_graph_watermark result,
      eb_inference_latency_ms = ent_inference_latency_ms result,
      eb_end_to_end_latency_ms = ent_end_to_end_latency_ms result\<rparr>"

text \<open>\<open>fails\<close> is what the session or the query raises.\<close>

definition entity_endpoint ::
  "(datetime \<Rightarrow> string) \<Rightarrow> (score_entry list \<Rightarrow> score_entry list) \<Rightarrow> settings \<Rightarrow> string \<Rightarrow> rat
     \<Rightarrow> exn option \<Rightarrow> db \<Rightarrow> entity_body answer"
where
  "entity_endpoint isof scan cfg tx_id threshold fails d =
     (if \<not> (len_in 1 64 tx_id \<and> in_range 0 1 threshold) then Inl (422, ''validation error'')
      else rbind (validate_tx_id tx_id) (\<lambda>tx_id.
        case fails of
          Some _ \<Rightarrow> Inl unavailable
        | None \<Rightarrow>
            (case get_transaction_entity scan tx_id (Some (cfg_model_version cfg)) d of
               None \<Rightarrow> Inl (404, ''Transaction '' @ tx_id @ '' not found'')
             | Some result \<Rightarrow> Inr (entity_body_of isof threshold result))))"

subsection \<open>The subgraph endpoint\<close>

record subgraph_query =
  sq_tx_id :: string
  sq_hops :: nat
  sq_max_nodes :: "nat option"
  sq_max_edges :: "nat option"

definition valid_query :: "subgraph_query \<Rightarrow> bool" where
  "valid_query q \<longleftrightarrow> len_in 1 64 (sq_tx_id q) \<and> in_range 1 4 (sq_hops q) \<and>
     opt_ok (in_range 1 5000) (sq_max_nodes q) \<and> opt_ok (in_range 1 20000) (sq_max_edges q)"

text \<open>\<open>min(asked or most, most)\<close>\<close>

definition limit_of :: "nat option \<Rightarrow> int \<Rightarrow> nat" where
  "limit_of asked most =
     min (case asked of None \<Rightarrow> nat most | Some n \<Rightarrow> if n = 0 then nat most else n) (nat most)"

record subgraph_body =
  sb_nodes :: "(string \<times> rat) list"
  sb_edges :: "(string \<times> string) list"
  sb_center :: string
  sb_graph_watermark :: int
  sb_truncated :: bool

definition subgraph_body_of :: "subgraph \<Rightarrow> subgraph_body" where
  "subgraph_body_of result =
     \<lparr>sb_nodes = map (\<lambda>node. (sn_txId node, sn_risk_score node)) (sg_nodes result),
      sb_edges = sg_edges result, sb_center = sg_center result,
      sb_graph_watermark = sg_graph_watermark result, sb_truncated = sg_truncated result\<rparr>"

text \<open>
  One request: the two databases it reads, in the session of the watermark and in the later one of
  the query, the failures of its four calls, and the order in which an unordered query returns rows.
\<close>

record subgraph_env =
  sv_query :: subgraph_query
  sv_first :: db
  sv_second :: db
  sv_scan :: "score_entry list \<Rightarrow> score_entry list"
  sv_watermark_fails :: "exn option"
  sv_get_fails :: "exn option"
  sv_query_fails :: "exn option"
  sv_set_fails :: "exn option"
  sv_alive :: "string \<Rightarrow> bool"

definition query_key :: "settings \<Rightarrow> subgraph_env \<Rightarrow> string" where
  "query_key cfg env =
     subgraph_cache_key (sq_tx_id (sv_query env)) (int (sq_hops (sv_query env)))
       (int (limit_of (sq_max_nodes (sv_query env)) (graph_max_nodes cfg)))
       (int (limit_of (sq_max_edges (sv_query env)) (graph_max_edges cfg)))
       (fetch_graph_watermark (stream_name cfg) (sv_first env)) (cfg_model_version cfg)"

definition query_answer :: "(string \<Rightarrow> string) \<Rightarrow> settings \<Rightarrow> subgraph_env \<Rightarrow> subgraph option" where
  "query_answer collate cfg env =
     get_bounded_subgraph collate (sv_scan env) (sq_tx_id (sv_query env)) (sq_hops (sv_query env))
       (limit_of (sq_max_nodes (sv_query env)) (graph_max_nodes cfg))
       (limit_of (sq_max_edges (sv_query env)) (graph_max_edges cfg))
       (Some (cfg_model_version cfg)) (sv_second env)"

text \<open>An empty cached text counts as none.\<close>

definition subgraph_endpoint ::
  "(subgraph \<Rightarrow> string) \<Rightarrow> (string \<Rightarrow> subgraph result) \<Rightarrow> (string \<Rightarrow> string) \<Rightarrow> settings \<Rightarrow> subgraph_env
     \<Rightarrow> (string \<Rightarrow> string option) \<Rightarrow> subgraph_body answer \<times> (string \<Rightarrow> string option)"
where
  "subgraph_endpoint dumps loads collate cfg env cache =
     (if \<not> valid_query (sv_query env) then (Inl (422, ''validation error''), cache)
      else case validate_tx_id (sq_tx_id (sv_query env)) of
        Inl refused \<Rightarrow> (Inl refused, cache)
      | Inr tx_id \<Rightarrow>
          if sv_watermark_fails env \<noteq> None then (Inl unavailable, cache)
          else
            let key = query_key cfg env;
                cached = (if sv_get_fails env \<noteq> None then None else cache key)
            in if cached \<noteq> None \<and> cached \<noteq> Some [] then
                 (case loads (the cached) of
                    Inl _ \<Rightarrow> (Inl unavailable, cache)
                  | Inr result \<Rightarrow> (Inr (subgraph_body_of result), cache))
               else if sv_query_fails env \<noteq> None then (Inl unavailable, cache)
               else (case query_answer collate cfg env of
                       None \<Rightarrow> (Inl (404, ''Transaction '' @ tx_id @ '' not found''), cache)
                     | Some result \<Rightarrow>
                         (Inr (subgraph_body_of result),
                          if sv_set_fails env \<noteq> None then cache else cache(key \<mapsto> dumps result))))"

text \<open>Requests one after the other; \<open>sv_alive\<close> are the keys that have not expired before each.\<close>

fun serve ::
  "(subgraph \<Rightarrow> string) \<Rightarrow> (string \<Rightarrow> subgraph result) \<Rightarrow> (string \<Rightarrow> string) \<Rightarrow> settings
     \<Rightarrow> subgraph_env list \<Rightarrow> (string \<Rightarrow> string option) \<Rightarrow> subgraph_body answer list \<times> (string \<Rightarrow> string option)"
where
  "serve dumps loads collate cfg [] cache = ([], cache)"
| "serve dumps loads collate cfg (env # envs) cache =
     (case subgraph_endpoint dumps loads collate cfg env (cache |` {k. sv_alive env k}) of
        (body, cache1) \<Rightarrow>
          (case serve dumps loads collate cfg envs cache1 of (bodies, cache2) \<Rightarrow> (body # bodies, cache2)))"

end
