(* ===== verification/Gateway_Rest_Props.thy ===== *)
theory Gateway_Rest_Props
  imports Gateway_Rest Samples "HOL-Library.Countable"
begin

text \<open>
  The cache of the subgraph endpoint never answers another question: keys tell queries apart, and
  over any sequence of requests every answer is one the database gave to the same question at the
  same watermark. What it need not be is current: scores may have been stored since.
\<close>

subsection \<open>Keys\<close>

lemma tx_char_no_colon: "tx_id_char c \<Longrightarrow> c \<noteq> CHR '':''"
  by (auto simp: tx_id_char_def Let_def)

lemma valid_tx_no_colon: "validate_tx_id tx = Inr tx' \<Longrightarrow> tx' = tx \<and> CHR '':'' \<notin> set tx"
  using tx_char_no_colon by (auto simp: validate_tx_id_def list_all_iff split: if_splits)

lemma colon_cancel:
  assumes "a @ '':'' @ p = b @ '':'' @ q" and "CHR '':'' \<notin> set a" and "CHR '':'' \<notin> set b"
  shows "a = b" and "p = q"
  using split_first [of a "CHR '':''" p b q] assms by auto

lemma cache_key_inj:
  assumes "subgraph_cache_key tx h n e w mv = subgraph_cache_key tx' h' n' e' w' mv'"
    and "CHR '':'' \<notin> set tx" and "CHR '':'' \<notin> set tx'"
  shows "tx = tx' \<and> h = h' \<and> n = n' \<and> e = e' \<and> w = w' \<and> mv = mv'"
proof -
  have eq: "tx @ '':'' @ str_int h @ '':'' @ str_int n @ '':'' @ str_int e @ '':'' @ str_int w @ '':'' @ mv =
      tx' @ '':'' @ str_int h' @ '':'' @ str_int n' @ '':'' @ str_int e' @ '':'' @ str_int w' @ '':'' @ mv'"
    using assms(1) by (simp add: subgraph_cache_key_def)
  note c = str_int_no_colon
  note t = colon_cancel [OF eq assms(2,3)]
  note h = colon_cancel [OF t(2) c c]
  note n = colon_cancel [OF h(2) c c]
  note e = colon_cancel [OF n(2) c c]
  note w = colon_cancel [OF e(2) c c]
  show ?thesis using t(1) h(1) n(1) e(1) w str_int_inj by blast
qed

subsection \<open>What the cache holds\<close>

text \<open>The question a request asks, with the watermark it saw.\<close>

definition same_question :: "settings \<Rightarrow> subgraph_env \<Rightarrow> subgraph_env \<Rightarrow> bool" where
  "same_question cfg env env' \<longleftrightarrow>
     sq_tx_id (sv_query env) = sq_tx_id (sv_query env') \<and> sq_hops (sv_query env) = sq_hops (sv_query env') \<and>
     limit_of (sq_max_nodes (sv_query env)) (graph_max_nodes cfg) =
       limit_of (sq_max_nodes (sv_query env')) (graph_max_nodes cfg) \<and>
     limit_of (sq_max_edges (sv_query env)) (graph_max_edges cfg) =
       limit_of (sq_max_edges (sv_query env')) (graph_max_edges cfg) \<and>
     fetch_graph_watermark (stream_name cfg) (sv_first env) =
       fetch_graph_watermark (stream_name cfg) (sv_first env')"

lemma query_key_inj:
  assumes "query_key cfg env = query_key cfg env'"
    and "validate_tx_id (sq_tx_id (sv_query env)) = Inr t" and "validate_tx_id (sq_tx_id (sv_query env')) = Inr t'"
  shows "same_question cfg env env'"
  using cache_key_inj [OF assms(1) [unfolded query_key_def]] valid_tx_no_colon [OF assms(2)]
    valid_tx_no_colon [OF assms(3)]
  by (simp add: same_question_def)

definition cache_of ::
  "(subgraph \<Rightarrow> string) \<Rightarrow> (string \<Rightarrow> string) \<Rightarrow> settings \<Rightarrow> subgraph_env set \<Rightarrow> (string \<Rightarrow> string option) \<Rightarrow> bool"
where
  "cache_of dumps collate cfg past cache \<longleftrightarrow>
     (\<forall>key v. cache key = Some v \<longrightarrow>
        (\<exists>env \<in> past. \<exists>t g. key = query_key cfg env \<and> validate_tx_id (sq_tx_id (sv_query env)) = Inr t \<and>
           query_answer collate cfg env = Some g \<and> v = dumps g))"

definition answered_from ::
  "(string \<Rightarrow> string) \<Rightarrow> settings \<Rightarrow> subgraph_env set \<Rightarrow> subgraph_env \<Rightarrow> subgraph_body answer \<Rightarrow> bool"
where
  "answered_from collate cfg past env body \<longleftrightarrow>
     (\<forall>b. body = Inr b \<longrightarrow>
        (\<exists>env' \<in> past. \<exists>g. same_question cfg env env' \<and> query_answer collate cfg env' = Some g \<and>
           b = subgraph_body_of g))"

lemma endpoint_step:
  assumes "cache_of dumps collate cfg past cache" and "\<And>g. loads (dumps g) = Inr g"
    and "subgraph_endpoint dumps loads collate cfg env cache = (body, cache')"
  shows "answered_from collate cfg (insert env past) env body"
    and "cache_of dumps collate cfg (insert env past) cache'"
proof -
  have keep: "cache_of dumps collate cfg (insert env past) cache"
    using assms(1) by (fastforce simp: cache_of_def)
  show "answered_from collate cfg (insert env past) env body"
  proof (cases "\<exists>b t. body = Inr b \<and> validate_tx_id (sq_tx_id (sv_query env)) = Inr t")
    case False
    then show ?thesis using assms(3)
      by (auto simp: answered_from_def subgraph_endpoint_def split: if_splits sum.splits)
  next
    case True
    then obtain b t where b: "body = Inr b" and t: "validate_tx_id (sq_tx_id (sv_query env)) = Inr t" by blast
    consider (hit) v g where "cache (query_key cfg env) = Some v" "loads v = Inr g"
        "b = subgraph_body_of g"
      | (miss) g where "query_answer collate cfg env = Some g" "b = subgraph_body_of g"
      using assms(3) b t
      by (auto simp: subgraph_endpoint_def Let_def split: if_splits sum.splits option.splits)
    then show ?thesis
    proof cases
      case hit
      obtain env' t' g' where env': "env' \<in> past" "query_key cfg env = query_key cfg env'"
        "validate_tx_id (sq_tx_id (sv_query env')) = Inr t'" "query_answer collate cfg env' = Some g'"
        "v = dumps g'"
        using assms(1) hit(1) unfolding cache_of_def by blast
      then have "g = g'" using hit(2) assms(2) by simp
      then show ?thesis
        using env' hit(3) b query_key_inj [OF env'(2) t env'(3)] by (auto simp: answered_from_def)
    next
      case miss
      then show ?thesis using b by (auto simp: answered_from_def same_question_def)
    qed
  qed
  show "cache_of dumps collate cfg (insert env past) cache'"
  proof (cases "cache' = cache")
    case True
    then show ?thesis using keep by simp
  next
    case False
    then obtain t g where "validate_tx_id (sq_tx_id (sv_query env)) = Inr t"
      "query_answer collate cfg env = Some g" "cache' = cache(query_key cfg env \<mapsto> dumps g)"
      using assms(3) by (auto simp: subgraph_endpoint_def Let_def split: if_splits sum.splits option.splits)
    then show ?thesis using keep by (auto simp: cache_of_def)
  qed
qed

lemma cache_expires:
  "cache_of dumps collate cfg past cache \<Longrightarrow> cache_of dumps collate cfg past (cache |` K)"
  by (simp add: cache_of_def restrict_map_def)

lemma answered_mono:
  "answered_from collate cfg past env body \<Longrightarrow> past \<subseteq> past' \<Longrightarrow> answered_from collate cfg past' env body"
  unfolding answered_from_def by blast

lemma serve_answers:
  assumes "\<And>g. loads (dumps g) = Inr g" and "cache_of dumps collate cfg past cache"
    and "serve dumps loads collate cfg envs cache = (bodies, cache')"
  shows "list_all2 (answered_from collate cfg (past \<union> set envs)) envs bodies"
  using assms(2,3)
proof (induction envs arbitrary: past cache bodies)
  case (Cons env envs)
  obtain body cache1 where s: "subgraph_endpoint dumps loads collate cfg env (cache |` {k. sv_alive env k}) =
      (body, cache1)" by fastforce
  obtain rest where r: "serve dumps loads collate cfg envs cache1 = (rest, cache')" "bodies = body # rest"
    using Cons.prems(2) s by (auto split: prod.splits)
  note e = endpoint_step [OF cache_expires [OF Cons.prems(1)] assms(1) s]
  have "list_all2 (answered_from collate cfg (insert env past \<union> set envs)) envs rest"
    by (rule Cons.IH [OF e(2) r(1)])
  moreover have "answered_from collate cfg (insert env past \<union> set envs) env body"
    by (rule answered_mono [OF e(1)]) auto
  ultimately show ?case using r(2) by simp
qed simp

lemma answered:
  assumes "\<And>g. loads (dumps g) = Inr g"
    and "serve dumps loads collate cfg envs Map.empty = (bodies, cache')" and "i < length envs"
    and "bodies ! i = Inr b"
  obtains env' g where "env' \<in> set envs" and "same_question cfg (envs ! i) env'"
    and "query_answer collate cfg env' = Some g" and "b = subgraph_body_of g"
proof -
  have "cache_of dumps collate cfg {} Map.empty" by (simp add: cache_of_def)
  from serve_answers [OF assms(1) this assms(2)] have
    "list_all2 (answered_from collate cfg (set envs)) envs bodies" by simp
  then have "answered_from collate cfg (set envs) (envs ! i) (bodies ! i)"
    using assms(3) by (simp add: list_all2_conv_all_nth)
  then show thesis using assms(4) that unfolding answered_from_def by blast
qed

text \<open>
  C34. The subgraph cache is transparent up to the watermark. Over any sequence of requests, with the
  database changing in between, keys expiring, and Redis and the database failing, every body that is
  returned is what the database itself gave for the same transaction, hops and limits to one of these
  requests that saw the same watermark.
\<close>

theorem subgraph_cache_transparent:
  assumes "\<And>g. loads (dumps g) = Inr g"
    and "serve dumps loads collate cfg envs Map.empty = (bodies, cache')" and "i < length envs"
    and "bodies ! i = Inr b"
  shows "\<exists>env' \<in> set envs. \<exists>g. same_question cfg (envs ! i) env' \<and>
    query_answer collate cfg env' = Some g \<and> b = subgraph_body_of g"
  using answered [OF assms] by blast

lemma limit_bounds: "1 \<le> most \<Longrightarrow> 1 \<le> limit_of asked most \<and> int (limit_of asked most) \<le> most"
  by (auto simp: limit_of_def min_def split: option.splits)

lemma limit_le: "0 \<le> most \<Longrightarrow> int (limit_of asked most) \<le> most"
  by (auto simp: limit_of_def min_def split: option.splits)

text \<open>
  No request gets more than the server allows. However much a request asks for, a body has at
  most \<open>graph_max_nodes\<close> distinct transactions, the one asked for among them, and at most
  \<open>graph_max_edges\<close> edges, all between returned transactions, cached or not.
\<close>

theorem subgraph_body_bounded:
  assumes "\<And>g. loads (dumps g) = Inr g"
    and "serve dumps loads collate cfg envs Map.empty = (bodies, cache')" and "i < length envs"
    and "bodies ! i = Inr b"
    and "\<And>env. env \<in> set envs \<Longrightarrow> keys_ok (sv_second env) \<and> edges_fk (sv_second env)"
    and "1 \<le> graph_max_nodes cfg" and "0 \<le> graph_max_edges cfg"
  shows "int (length (sb_nodes b)) \<le> graph_max_nodes cfg \<and> distinct (map fst (sb_nodes b)) \<and>
    int (length (sb_edges b)) \<le> graph_max_edges cfg \<and>
    sq_tx_id (sv_query (envs ! i)) \<in> fst ` set (sb_nodes b) \<and>
    set (sb_edges b) \<subseteq> fst ` set (sb_nodes b) \<times> fst ` set (sb_nodes b)"
proof -
  obtain env g where env: "env \<in> set envs" "same_question cfg (envs ! i) env"
    and g: "query_answer collate cfg env = Some g" and b: "b = subgraph_body_of g"
    by (rule answered [OF assms(1-4)])
  have names: "map fst (sb_nodes b) = node_names g" "sb_edges b = sg_edges g"
    by (simp_all add: b subgraph_body_of_def node_names_def)
  have tx: "sq_tx_id (sv_query (envs ! i)) = sq_tx_id (sv_query env)"
    using env(2) by (simp add: same_question_def)
  note n = limit_bounds [OF assms(6), of "sq_max_nodes (sv_query env)"]
  note sound = sound_lemma [OF g [unfolded query_answer_def] conjunct1 [OF assms(5) [OF env(1)]]
      conjunct2 [OF assms(5) [OF env(1)]] conjunct1 [OF n]]
  have len: "length (sb_nodes b) = length (node_names g)" using names(1) by (metis length_map)
  have set: "fst ` set (sb_nodes b) = set (node_names g)" using names(1) by (metis list.set_map)
  show ?thesis
    unfolding names set len tx
    using sound n limit_le [OF assms(7), of "sq_max_edges (sv_query env)"] by auto
qed

subsection \<open>Witnesses\<close>

text \<open>A rendering of subgraphs as texts, and its inverse.\<close>

definition flat :: "subgraph \<Rightarrow> string \<times> (string \<times> rat list \<times> int \<times> rat) list \<times> edge list \<times> int \<times> bool" where
  "flat g = (sg_center g,
     map (\<lambda>n. (sn_txId n, sn_features n, sn_time_step n, sn_risk_score n)) (sg_nodes g),
     sg_edges g, sg_graph_watermark g, sg_truncated g)"

definition unflat :: "string \<times> (string \<times> rat list \<times> int \<times> rat) list \<times> edge list \<times> int \<times> bool \<Rightarrow> subgraph" where
  "unflat t = (case t of (c, ns, es, w, b) \<Rightarrow>
     \<lparr>sg_center = c, sg_nodes = map (\<lambda>(i, fs, s, r). \<lparr>sn_txId = i, sn_features = fs, sn_time_step = s, sn_risk_score = r\<rparr>) ns,
      sg_edges = es, sg_graph_watermark = w, sg_truncated = b\<rparr>)"

definition unary_dumps :: "subgraph \<Rightarrow> string" where
  "unary_dumps g = replicate (Suc (to_nat (flat g))) (CHR ''1'')"

definition unary_loads :: "string \<Rightarrow> subgraph result" where
  "unary_loads s = Inr (unflat (from_nat (length s - 1)))"

lemma unary_roundtrip: "unary_loads (unary_dumps g) = Inr g"
proof -
  have "map (\<lambda>n. \<lparr>sn_txId = sn_txId n, sn_features = sn_features n, sn_time_step = sn_time_step n,
      sn_risk_score = sn_risk_score n\<rparr>) ns = ns" for ns
    by (induction ns) simp_all
  then have "unflat (flat g) = g" by (simp add: flat_def unflat_def comp_def)
  then show ?thesis by (simp add: unary_loads_def unary_dumps_def)
qed

definition ask_a :: "db \<Rightarrow> subgraph_env" where
  "ask_a d = \<lparr>sv_query = \<lparr>sq_tx_id = ''a'', sq_hops = 2, sq_max_nodes = None, sq_max_edges = None\<rparr>,
     sv_first = d, sv_second = d, sv_scan = id, sv_watermark_fails = None, sv_get_fails = None,
     sv_query_fails = None, sv_set_fails = None, sv_alive = (\<lambda>_. True)\<rparr>"

lemma ask_answered:
  "\<exists>bodies cache' b. serve unary_dumps unary_loads id (default_settings ''g'' ''h'') [ask_a db_ab, ask_a db_ab]
     Map.empty = (bodies, cache') \<and> bodies ! 1 = Inr b"
proof -
  let ?cfg = "default_settings ''g'' ''h''"
  obtain g where g: "query_answer id ?cfg (ask_a db_ab) = Some g"
    using subgraph_exists [OF has_tx_ab(1), of id id 2] by (simp add: query_answer_def ask_a_def) blast
  have v: "valid_query (sv_query (ask_a db_ab))" "validate_tx_id (sq_tx_id (sv_query (ask_a db_ab))) = Inr ''a''"
    by (simp_all add: valid_query_def ask_a_def len_in_def in_range_def validate_tx_id_def tx_id_char_def)
  have s: "sv_watermark_fails (ask_a d) = None" "sv_get_fails (ask_a d) = None"
    "sv_query_fails (ask_a d) = None" "sv_set_fails (ask_a d) = None" "sv_alive (ask_a d) k" for d k
    by (simp_all add: ask_a_def)
  have full: "unary_dumps g \<noteq> []" by (simp add: unary_dumps_def)
  show ?thesis
    by (simp add: subgraph_endpoint_def v g s full unary_roundtrip Let_def restrict_map_def)
qed

theorem subgraph_cache_transparent_witness:
  "\<exists>bodies cache' b g. serve unary_dumps unary_loads id (default_settings ''g'' ''h'') [ask_a db_ab, ask_a db_ab]
     Map.empty = (bodies, cache') \<and> bodies ! 1 = Inr b \<and>
     query_answer id (default_settings ''g'' ''h'') (ask_a db_ab) = Some g \<and> b = subgraph_body_of g"
proof -
  obtain bodies cache' b where s: "serve unary_dumps unary_loads id (default_settings ''g'' ''h'')
      [ask_a db_ab, ask_a db_ab] Map.empty = (bodies, cache')" "bodies ! 1 = Inr b"
    using ask_answered by blast
  from subgraph_cache_transparent [OF unary_roundtrip s(1) _ s(2)] s show ?thesis by auto
qed

theorem subgraph_body_bounded_witness:
  "\<exists>bodies cache' b. serve unary_dumps unary_loads id (default_settings ''g'' ''h'') [ask_a db_ab, ask_a db_ab]
     Map.empty = (bodies, cache') \<and> bodies ! 1 = Inr b \<and>
     int (length (sb_nodes b)) \<le> graph_max_nodes (default_settings ''g'' ''h'')"
proof -
  let ?cfg = "default_settings ''g'' ''h''"
  obtain bodies cache' b where s: "serve unary_dumps unary_loads id ?cfg
      [ask_a db_ab, ask_a db_ab] Map.empty = (bodies, cache')" "bodies ! 1 = Inr b"
    using ask_answered by blast
  have m: "1 \<le> graph_max_nodes ?cfg" "0 \<le> graph_max_edges ?cfg" by (simp_all add: default_settings_def)
  have d: "keys_ok (sv_second env) \<and> edges_fk (sv_second env)" if "env \<in> set [ask_a db_ab, ask_a db_ab]" for env
    using that db_ab_ok by (auto simp: ask_a_def)
  from subgraph_body_bounded [OF unary_roundtrip s(1) _ s(2) d m] s show ?thesis by auto
qed

end
