(* ===== verification/Replay.thy ===== *)
theory Replay
  imports Streaming Consumers
begin

text \<open>
  \<open>services/replay_producer/main.py\<close>: the dataset and its batches, the producer's own checkpoint, and
  the loop that sends one graph batch per time step, waiting while the replay is paused. Clocks, the
  stop signal, other writers of the database and every failure of Kafka and the database are inputs.
\<close>

subsection \<open>The dataset\<close>

record elliptic_dataset =
  ds_nodes :: "int node_frame_row list"
  ds_edges :: "(int \<times> int) list"

definition time_steps :: "elliptic_dataset \<Rightarrow> int list" where
  "time_steps ds = sorted_list_of_set (nf_time_step ` set (ds_nodes ds))"

definition batch_node :: "int \<Rightarrow> int node_frame_row \<Rightarrow> graph_node" where
  "batch_node time_step row =
     \<lparr>node_tx_id = str_int (nf_txId row), node_time_step = time_step, node_features = nf_features row\<rparr>"

definition batch_edge :: "int \<times> int \<Rightarrow> graph_edge" where
  "batch_edge row = \<lparr>source_tx_id = str_int (fst row), destination_tx_id = str_int (snd row)\<rparr>"

fun all_valid :: "('e \<Rightarrow> bool) \<Rightarrow> 'e list \<Rightarrow> 'e list result" where
  "all_valid valid [] = Inr []"
| "all_valid valid (e # es) =
     rbind (checked valid e) (\<lambda>e. rbind (all_valid valid es) (\<lambda>es. Inr (e # es)))"

text \<open>\<open>int(node.tx_id)\<close> of \<open>str(int(row["txId"]))\<close> is the number of the row.\<close>

definition dataset_batch :: "elliptic_dataset \<Rightarrow> int \<Rightarrow> (graph_node list \<times> graph_edge list) result" where
  "dataset_batch ds time_step =
     (let rows = filter (\<lambda>r. nf_time_step r = time_step) (ds_nodes ds);
          current_ids = nf_txId ` set rows;
          edge_rows = filter (\<lambda>(s, t). s \<in> current_ids \<and> t \<in> current_ids) (ds_edges ds)
      in rbind (all_valid valid_node (map (batch_node time_step) rows)) (\<lambda>nodes.
         rbind (all_valid valid_edge (map batch_edge (filter (\<lambda>(s, t). s \<noteq> t) edge_rows))) (\<lambda>edges.
         Inr (nodes, edges))))"

definition pacing_delay_seconds :: "nat \<Rightarrow> rat \<Rightarrow> rat" where
  "pacing_delay_seconds transaction_count transactions_per_second =
     of_nat transaction_count / transactions_per_second"

subsection \<open>The producer's checkpoint\<close>

definition producer_stream :: "string \<Rightarrow> string" where
  "producer_stream stream = stream @ '':producer''"

definition producer_checkpoint :: "string \<Rightarrow> db \<Rightarrow> int \<times> int" where
  "producer_checkpoint stream d =
     (case map_of (stream_checkpoints d) (producer_stream stream) of
        None \<Rightarrow> (0, -1)
      | Some row \<Rightarrow> (cp_last_completed_time_step row, cp_source_offset row))"

definition save_producer_checkpoint :: "string \<Rightarrow> int \<Rightarrow> int \<Rightarrow> int \<Rightarrow> db \<Rightarrow> (db \<times> unit) result" where
  "save_producer_checkpoint stream time_step source_offset now d =
     rbind (guard_r (int4 time_step \<and> int8 source_offset) data_error) (\<lambda>_.
     Inr (d\<lparr>stream_checkpoints :=
              fst (upsert (\<lambda>_ _. True) (\<lambda>excluded old.
                       old\<lparr>cp_last_completed_time_step := cp_last_completed_time_step excluded,
                           cp_source_offset := cp_source_offset excluded, cp_updated_at := now\<rparr>)
                     (producer_stream stream)
                     \<lparr>cp_last_completed_time_step = time_step, cp_source_offset = source_offset,
                      cp_updated_at = now\<rparr> (stream_checkpoints d))\<rparr>, ()))"

subsection \<open>One time step\<close>

text \<open>One look at the replay control: what others wrote before, its outcome, the stop signal after.\<close>

record poll =
  pl_others :: "db \<Rightarrow> db"
  pl_fate :: db_fate
  pl_now :: int
  pl_stop :: bool

record replay_env =
  rx_stop :: bool
  rx_polls :: "poll list"
  rx_stop_after :: bool
  rx_now :: int
  rx_span :: "string option"
  rx_send :: "(exn \<times> bool) option"
  rx_save :: db_fate

text \<open>How a run ends; \<open>Paused\<close> is a run that still waits when the last look is over.\<close>

datatype run_end = Stopped | Paused | Crashed exn | Drained

text \<open>The inner loop: it goes on with a rate, or the run ends.\<close>

fun await_running :: "settings \<Rightarrow> poll list \<Rightarrow> db \<Rightarrow> db \<times> (run_end + rat)" where
  "await_running cfg [] d = (d, Inl Paused)"
| "await_running cfg (p # ps) d =
     (case in_transaction (pl_fate p) (\<lambda>d. fetch_replay_control (stream_name cfg)
             (replay_events_per_second cfg) (pl_now p) d) (pl_others p d) of
        (d', Inl x) \<Rightarrow> (d', Inl (Crashed x))
      | (d', Inr (status, rate)) \<Rightarrow>
          if status \<noteq> ''paused'' then (d', Inr rate)
          else if pl_stop p then (d', Inl Stopped)
          else await_running cfg ps d')"

text \<open>\<open>datetime(2020, 1, 1, tzinfo=UTC) + timedelta(minutes=time_step)\<close>\<close>

definition event_time :: "int \<Rightarrow> datetime" where
  "event_time time_step = Aware (1577836800000000 + time_step * 60000000)"

definition batch_event_id :: "runtime \<Rightarrow> settings \<Rightarrow> int \<Rightarrow> string" where
  "batch_event_id rt cfg time_step =
     deterministic_event_id (rt_uuid5 rt) ''risk.graph-batch.observed.v1''
       [SPart (stream_name cfg), IPart time_step]"

definition batch_event ::
  "runtime \<Rightarrow> settings \<Rightarrow> replay_env \<Rightarrow> int \<Rightarrow> int \<Rightarrow> graph_node list \<times> graph_edge list \<Rightarrow> graph_batch_event"
where
  "batch_event rt cfg env source_offset time_step batch =
     \<lparr>event_id = batch_event_id rt cfg time_step,
      event_type = ''risk.graph-batch.observed.v1'',
      schema_version = SCHEMA_VERSION_V1,
      occurred_at = event_time time_step,
      produced_at = Aware (rx_now env),
      producer = service_name cfg,
      trace_id = (case rx_span env of
                    Some t \<Rightarrow> t
                  | None \<Rightarrow> filter (\<lambda>c. c \<noteq> CHR ''-'') (batch_event_id rt cfg time_step)),
      traceparent = current_traceparent rt,
      correlation_id = stream_name cfg @ '':'' @ str_int time_step,
      causation_id = None,
      payload =
        \<lparr>batch_stream_name = stream_name cfg, batch_time_step = time_step,
         batch_sequence = time_step, batch_source_offset = source_offset,
         batch_feature_schema_version = cfg_feature_schema_version cfg,
         batch_nodes = fst batch, batch_edges = snd batch\<rparr>\<rparr>"

definition batch_message ::
  "runtime \<Rightarrow> settings \<Rightarrow> graph_batch_event \<Rightarrow> graph_batch_event message"
where
  "batch_message rt cfg ev =
     \<lparr>msg_topic = graph_batch_topic cfg, msg_key = stream_name cfg, msg_value = ev,
      msg_headers = inject_kafka_trace rt (kafka_headers ev)\<rparr>"

text \<open>The state: the database, what the topic received, the pauses slept.\<close>

record replay =
  ry_db :: db
  ry_sent :: "graph_batch_event message list"
  ry_slept :: "rat list"

definition produce_step ::
  "runtime \<Rightarrow> settings \<Rightarrow> elliptic_dataset \<Rightarrow> int \<Rightarrow> int \<Rightarrow> replay_env \<Rightarrow> replay \<Rightarrow> replay \<times> run_end option"
where
  "produce_step rt cfg ds source_offset time_step env st =
     (if rx_stop env then (st, Some Stopped)
      else case await_running cfg (rx_polls env) (ry_db st) of
        (d, Inl fin) \<Rightarrow> (st\<lparr>ry_db := d\<rparr>, Some fin)
      | (d, Inr rate) \<Rightarrow>
          let st1 = st\<lparr>ry_db := d\<rparr> in
          if rx_stop_after env then (st1, Some Stopped)
          else case rbind (dataset_batch ds time_step) (\<lambda>batch.
                 checked valid_graph_batch (batch_event rt cfg env source_offset time_step batch)) of
            Inl x \<Rightarrow> (st1, Some (Crashed x))
          | Inr ev \<Rightarrow>
              let st2 = st1\<lparr>ry_sent := ry_sent st1 @ [batch_message rt cfg ev]\<rparr> in
              case rx_send env of
                Some (x, delivered) \<Rightarrow> (if delivered then st2 else st1, Some (Crashed x))
              | None \<Rightarrow>
                  (case in_transaction (rx_save env)
                          (save_producer_checkpoint (stream_name cfg) time_step source_offset (rx_now env))
                          (ry_db st2) of
                     (d, Inl x) \<Rightarrow> (st2\<lparr>ry_db := d\<rparr>, Some (Crashed x))
                   | (d, Inr _) \<Rightarrow>
                       (st2\<lparr>ry_db := d,
                            ry_slept := ry_slept st2 @
                              [pacing_delay_seconds (length (batch_nodes (payload ev))) rate]\<rparr>, None)))"

fun replay_loop ::
  "runtime \<Rightarrow> settings \<Rightarrow> elliptic_dataset \<Rightarrow> replay_env list \<Rightarrow> int \<Rightarrow> int list \<Rightarrow> replay \<Rightarrow> replay \<times> run_end"
where
  "replay_loop rt cfg ds envs source_offset [] st = (st, Drained)"
| "replay_loop rt cfg ds [] source_offset (time_step # steps) st = (st, Paused)"
| "replay_loop rt cfg ds (env # envs) source_offset (time_step # steps) st =
     (case produce_step rt cfg ds source_offset time_step env st of
        (st1, Some fin) \<Rightarrow> (st1, fin)
      | (st1, None) \<Rightarrow> replay_loop rt cfg ds envs (source_offset + 1) steps st1)"

text \<open>The end of \<open>run\<close>: with every step sent and no stop signal the replay is marked as completed.\<close>

definition finish_replay :: "settings \<Rightarrow> db_fate \<Rightarrow> int \<Rightarrow> bool \<Rightarrow> replay \<times> run_end \<Rightarrow> replay \<times> run_end" where
  "finish_replay cfg fate now stop r =
     (if snd r = Drained \<and> \<not> stop
      then case in_transaction fate (\<lambda>d.
                  rbind (update_replay_control (stream_name cfg) (Some ''completed'') None now d)
                    (\<lambda>d. Inr (d, ()))) (ry_db (fst r)) of
             (d, Inl x) \<Rightarrow> ((fst r)\<lparr>ry_db := d\<rparr>, Crashed x)
           | (d, Inr _) \<Rightarrow> ((fst r)\<lparr>ry_db := d\<rparr>, Drained)
      else r)"

record run_env =
  ru_steps :: "replay_env list"
  ru_fate :: db_fate
  ru_now :: int
  ru_stop :: bool

definition replay_run ::
  "runtime \<Rightarrow> settings \<Rightarrow> elliptic_dataset \<Rightarrow> run_env \<Rightarrow> replay \<Rightarrow> replay \<times> run_end"
where
  "replay_run rt cfg ds env st =
     (case producer_checkpoint (stream_name cfg) (ry_db st) of (last_step, last_source_offset) \<Rightarrow>
        finish_replay cfg (ru_fate env) (ru_now env) (ru_stop env)
          (replay_loop rt cfg ds (ru_steps env) (last_source_offset + 1)
             (filter (\<lambda>step. last_step < step) (time_steps ds)) st))"

text \<open>The service and its restarts, on the database they share.\<close>

fun replay_runs ::
  "runtime \<Rightarrow> settings \<Rightarrow> elliptic_dataset \<Rightarrow> run_env list \<Rightarrow> replay \<Rightarrow> replay"
where
  "replay_runs rt cfg ds [] st = st"
| "replay_runs rt cfg ds (env # envs) st = replay_runs rt cfg ds envs (fst (replay_run rt cfg ds env st))"

end
