(* ===== verification/Replay_Props.thy ===== *)
theory Replay_Props
  imports Replay Samples
begin

text \<open>
  What the replay producer guarantees: its batches are the simulator's, and over any number of runs,
  crashes and pauses the time steps are sent in order, none is skipped, and one that is sent again
  has the same event id and source offset.
\<close>

subsection \<open>Batches\<close>

lemma all_valid_Inr [simp]: "all_valid valid es = Inr es' \<longleftrightarrow> list_all valid es \<and> es' = es"
  by (induction es arbitrary: es') (auto simp: result_simps)

text \<open>
  The producer replays what the simulator replayed. Its time steps are the simulator's, and the
  batch of a step has the simulator's nodes, with ids as text, and its edges without the self loops.
\<close>

theorem batch_matches_simulator:
  assumes "dataset_batch ds t = Inr (nodes, edges)"
  shows "time_steps ds = sim_timesteps (new_simulator (ds_nodes ds) (ds_edges ds)) \<and>
    nodes = map (\<lambda>n. \<lparr>node_tx_id = str_int (nd_txId n), node_time_step = nd_time_step n,
        node_features = nd_features n\<rparr>) (sv_nodes (event_at (ds_nodes ds) (ds_edges ds) t)) \<and>
    edges = map batch_edge (filter (\<lambda>(s, d). s \<noteq> d) (sv_edges (event_at (ds_nodes ds) (ds_edges ds) t)))"
  using assms
  by (auto simp: dataset_batch_def event_at_def Let_def result_simps batch_node_def comp_def
      time_steps_def new_simulator_def sorted_list_of_set_sort_remdups [symmetric] simp flip: set_map)

subsection \<open>Positions among the time steps\<close>

definition rank :: "int list \<Rightarrow> int \<Rightarrow> int" where
  "rank ts c = int (card {t \<in> set ts. 0 < t \<and> t \<le> c})"

lemma time_step_next:
  assumes "filter (\<lambda>s. c < s) ts = t # rest" and "sorted ts" and "distinct ts" and "0 \<le> c"
  shows "t \<in> set ts" and "c < t" and "\<forall>s \<in> set ts. s < t \<longrightarrow> s \<le> c"
    and "rest = filter (\<lambda>s. t < s) ts" and "rank ts t = rank ts c + 1"
proof -
  have m: "t \<in> set (filter (\<lambda>s. c < s) ts)" by (simp add: assms(1))
  then show t: "t \<in> set ts" and c: "c < t" by simp_all
  have sd: "sorted (t # rest)" "distinct (t # rest)"
    unfolding assms(1) [symmetric] using assms(2,3) by (simp_all add: sorted_wrt_filter)
  show up: "\<forall>s \<in> set ts. s < t \<longrightarrow> s \<le> c"
  proof (intro ballI impI)
    fix s assume "s \<in> set ts" "s < t"
    show "s \<le> c"
    proof (rule ccontr)
      assume "\<not> s \<le> c"
      then have "s \<in> set (t # rest)" unfolding assms(1) [symmetric] using \<open>s \<in> set ts\<close> by simp
      then show False using sd(1) \<open>s < t\<close> by auto
    qed
  qed
  have "filter (\<lambda>s. t < s) ts = filter (\<lambda>s. t < s) (filter (\<lambda>s. c < s) ts)"
    using c by (auto intro!: filter_cong)
  also have "\<dots> = filter (\<lambda>s. t < s) rest" unfolding assms(1) by simp
  also have "\<dots> = rest" using sd by (auto simp: filter_id_conv order_less_le)
  finally show "rest = filter (\<lambda>s. t < s) ts" by simp
  have "{s \<in> set ts. 0 < s \<and> s \<le> t} = insert t {s \<in> set ts. 0 < s \<and> s \<le> c}"
    using t c up assms(4) by force
  moreover have "t \<notin> {s \<in> set ts. 0 < s \<and> s \<le> c}" using c by simp
  ultimately show "rank ts t = rank ts c + 1" by (simp add: rank_def)
qed

lemma time_steps_sorted: "sorted (time_steps ds)" "distinct (time_steps ds)"
  by (simp_all add: time_steps_def)

subsection \<open>What a step does\<close>

definition sent_step :: "graph_batch_event message \<Rightarrow> int" where
  "sent_step m = batch_time_step (payload (msg_value m))"

definition sent_offset :: "graph_batch_event message \<Rightarrow> int" where
  "sent_offset m = batch_source_offset (payload (msg_value m))"

definition checkpoint_of :: "settings \<Rightarrow> db \<Rightarrow> int \<times> int" where
  "checkpoint_of cfg d = producer_checkpoint (stream_name cfg) d"

definition leaves_checkpoint :: "settings \<Rightarrow> (db \<Rightarrow> db) \<Rightarrow> bool" where
  "leaves_checkpoint cfg f \<longleftrightarrow> (\<forall>d. checkpoint_of cfg (f d) = checkpoint_of cfg d)"

definition others_leave :: "settings \<Rightarrow> replay_env list \<Rightarrow> bool" where
  "others_leave cfg envs \<longleftrightarrow> (\<forall>env \<in> set envs. \<forall>p \<in> set (rx_polls env). leaves_checkpoint cfg (pl_others p))"

lemma transaction_checkpoint:
  assumes "\<And>d d' r. work d = Inr (d', r) \<Longrightarrow> checkpoint_of cfg d' = checkpoint_of cfg d"
    and "in_transaction fate work d = (d', r)"
  shows "checkpoint_of cfg d' = checkpoint_of cfg d"
  using assms by (auto simp: in_transaction_def split: db_fate.splits sum.splits)

lemma fetch_checkpoint:
  "fetch_replay_control s r now d = Inr (d', x) \<Longrightarrow> checkpoint_of cfg d' = checkpoint_of cfg d"
  by (auto simp: fetch_replay_control_def Let_def result_simps checkpoint_of_def producer_checkpoint_def
      split: option.splits)

lemma update_checkpoint:
  "update_replay_control s st r now d = Inr d' \<Longrightarrow> checkpoint_of cfg d' = checkpoint_of cfg d"
  by (auto simp: update_replay_control_def Let_def result_simps checkpoint_of_def producer_checkpoint_def)

lemma save_checkpoint:
  "save_producer_checkpoint (stream_name cfg) t k now d = Inr (d', x) \<Longrightarrow> checkpoint_of cfg d' = (t, k)"
  by (auto simp: save_producer_checkpoint_def result_simps checkpoint_of_def producer_checkpoint_def
      table_simps upserted_def split: option.splits)

lemma await_checkpoint:
  "await_running cfg ps d = (d', r) \<Longrightarrow> \<forall>p \<in> set ps. leaves_checkpoint cfg (pl_others p) \<Longrightarrow>
     checkpoint_of cfg d' = checkpoint_of cfg d"
proof (induction ps arbitrary: d)
  case (Cons p ps)
  obtain d1 x where t: "in_transaction (pl_fate p) (\<lambda>d. fetch_replay_control (stream_name cfg)
      (replay_events_per_second cfg) (pl_now p) d) (pl_others p d) = (d1, x)" by fastforce
  have "checkpoint_of cfg d1 = checkpoint_of cfg (pl_others p d)"
    by (rule transaction_checkpoint [OF _ t]) (auto dest: fetch_checkpoint)
  then have "checkpoint_of cfg d1 = checkpoint_of cfg d"
    using Cons.prems(2) by (simp add: leaves_checkpoint_def)
  then show ?case using Cons.prems t Cons.IH [of d1]
    by (auto split: sum.splits prod.splits if_splits)
qed simp

lemma dataset_batch_step:
  "checked valid_graph_batch (batch_event rt cfg env k t b) = Inr ev \<Longrightarrow>
     sent_step (batch_message rt cfg ev) = t \<and> sent_offset (batch_message rt cfg ev) = k \<and>
     event_id (msg_value (batch_message rt cfg ev)) = batch_event_id rt cfg t"
  by (auto simp: sent_step_def sent_offset_def batch_message_def batch_event_def)

text \<open>Nothing new; sent without its checkpoint, when the run ends; or sent and noted.\<close>

lemma produce_cases:
  assumes "produce_step rt cfg ds k t env st = (st', fin)"
    and "\<forall>p \<in> set (rx_polls env). leaves_checkpoint cfg (pl_others p)"
  obtains (idle) "ry_sent st' = ry_sent st" "checkpoint_of cfg (ry_db st') = checkpoint_of cfg (ry_db st)"
      "fin \<noteq> None"
  | (sent) m where "ry_sent st' = ry_sent st @ [m]" "sent_step m = t" "sent_offset m = k"
      "event_id (msg_value m) = batch_event_id rt cfg t"
      "checkpoint_of cfg (ry_db st') = checkpoint_of cfg (ry_db st)" "fin \<noteq> None"
  | (noted) m where "ry_sent st' = ry_sent st @ [m]" "sent_step m = t" "sent_offset m = k"
      "event_id (msg_value m) = batch_event_id rt cfg t" "checkpoint_of cfg (ry_db st') = (t, k)"
proof (cases "rx_stop env")
  case True
  then show thesis using assms(1) by (intro idle) (auto simp: produce_step_def)
next
  case go: False
  obtain d w where w: "await_running cfg (rx_polls env) (ry_db st) = (d, w)" by fastforce
  note cp = await_checkpoint [OF w assms(2)]
  show thesis
  proof (cases "\<exists>rate. w = Inr rate \<and> \<not> rx_stop_after env")
    case False
    then show thesis using assms(1) go w cp
      by (intro idle) (auto simp: produce_step_def Let_def split: sum.splits if_splits)
  next
    case True
    then obtain rate where rate: "w = Inr rate" "\<not> rx_stop_after env" by blast
    let ?ev = "rbind (dataset_batch ds t) (\<lambda>batch.
        checked valid_graph_batch (batch_event rt cfg env k t batch))"
    show thesis
    proof (cases ?ev)
      case (Inl x)
      then show thesis using assms(1) go w cp rate
        by (intro idle) (auto simp: produce_step_def Let_def)
    next
      case (Inr ev)
      then obtain b where "checked valid_graph_batch (batch_event rt cfg env k t b) = Inr ev"
        by (auto simp: result_simps)
      note m = dataset_batch_step [OF this]
      let ?m = "batch_message rt cfg ev"
      show thesis
      proof (cases "rx_send env")
        case (Some y)
        obtain x delivered where y: "y = (x, delivered)" by (cases y)
        show thesis
        proof (cases delivered)
          case True
          then show thesis using assms(1) go w cp rate Inr Some y m
            by (intro sent [of ?m]) (auto simp: produce_step_def Let_def)
        next
          case False
          then show thesis using assms(1) go w cp rate Inr Some y
            by (intro idle) (auto simp: produce_step_def Let_def)
        qed
      next
        case None
        let ?save = "save_producer_checkpoint (stream_name cfg) t k (rx_now env)"
        obtain d2 r where s: "in_transaction (rx_save env) ?save d = (d2, r)" by fastforce
        have st': "ry_sent st' = ry_sent st @ [?m]" "ry_db st' = d2" "(fin = None) = (\<exists>u. r = Inr u)"
          using assms(1) go w rate Inr None s
          by (auto simp: produce_step_def Let_def split: sum.splits)
        have "checkpoint_of cfg d2 = (t, k) \<or> d2 = d \<and> (\<exists>x. r = Inl x)"
          using s by (auto simp: in_transaction_def dest: save_checkpoint split: db_fate.splits sum.splits)
        then show thesis using st' m cp by (auto intro: sent [of ?m] noted [of ?m])
      qed
    qed
  qed
qed

subsection \<open>The invariant of the producer\<close>

definition replay_inv :: "runtime \<Rightarrow> settings \<Rightarrow> elliptic_dataset \<Rightarrow> replay \<Rightarrow> bool" where
  "replay_inv rt cfg ds st \<longleftrightarrow>
     (let ts = time_steps ds; (c, k) = checkpoint_of cfg (ry_db st); sent = ry_sent st in
      0 \<le> c \<and> k + 1 = rank ts c \<and>
      (\<forall>t \<in> set ts. 0 < t \<and> t \<le> c \<longrightarrow> t \<in> sent_step ` set sent) \<and>
      sorted (map sent_step sent) \<and>
      (\<forall>m \<in> set sent. sent_step m \<in> set ts \<and> 0 < sent_step m \<and>
         sent_offset m = rank ts (sent_step m) - 1 \<and>
         event_id (msg_value m) = batch_event_id rt cfg (sent_step m) \<and>
         (\<forall>t \<in> set ts. t < sent_step m \<longrightarrow> t \<le> c)))"

lemma replay_inv_cong:
  "replay_inv rt cfg ds st \<Longrightarrow> ry_sent st' = ry_sent st \<Longrightarrow>
     checkpoint_of cfg (ry_db st') = checkpoint_of cfg (ry_db st) \<Longrightarrow> replay_inv rt cfg ds st'"
  by (simp add: replay_inv_def)

lemma replay_inv_sent:
  assumes "replay_inv rt cfg ds st" and "checkpoint_of cfg (ry_db st) = (c, k)"
    and "filter (\<lambda>s. c < s) (time_steps ds) = t # rest"
    and "ry_sent st' = ry_sent st @ [m]" and "sent_step m = t" and "sent_offset m = k + 1"
    and "event_id (msg_value m) = batch_event_id rt cfg t"
    and "checkpoint_of cfg (ry_db st') = (c, k) \<or> checkpoint_of cfg (ry_db st') = (t, k + 1)"
  shows "replay_inv rt cfg ds st'"
proof -
  have c: "0 \<le> c" "k + 1 = rank (time_steps ds) c" using assms(1,2) by (simp_all add: replay_inv_def Let_def)
  note n = time_step_next [OF assms(3) time_steps_sorted c(1)]
  have le: "sent_step x \<le> t" if "x \<in> set (ry_sent st)" for x
  proof (rule ccontr)
    assume "\<not> sent_step x \<le> t"
    then have "t \<le> c" using assms(1,2) that n(1) by (auto simp: replay_inv_def Let_def)
    with n(2) show False by simp
  qed
  have old: "\<forall>s \<in> set (time_steps ds). s < sent_step x \<longrightarrow> s \<le> c" if "x \<in> set (ry_sent st)" for x
    using assms(1,2) that by (auto simp: replay_inv_def Let_def)
  have past: "\<forall>s \<in> set (time_steps ds). 0 < s \<and> s \<le> c \<longrightarrow> s \<in> sent_step ` set (ry_sent st)"
    using assms(1,2) by (auto simp: replay_inv_def Let_def)
  from assms(8) show ?thesis
  proof
    assume cp: "checkpoint_of cfg (ry_db st') = (c, k)"
    show ?thesis using assms(1,2) assms(4-7) cp c n le
      by (auto simp: replay_inv_def Let_def sorted_append)
  next
    assume cp: "checkpoint_of cfg (ry_db st') = (t, k + 1)"
    have up: "s \<le> c \<or> s = t" if "s \<in> set (time_steps ds)" "s \<le> t" for s
      using n(3) that by (cases "s = t") auto
    have "\<forall>s \<in> set (time_steps ds). 0 < s \<and> s \<le> t \<longrightarrow> s \<in> sent_step ` set (ry_sent st')"
      using past up assms(4,5) by fastforce
    moreover have "\<forall>x \<in> set (ry_sent st'). \<forall>s \<in> set (time_steps ds). s < sent_step x \<longrightarrow> s \<le> t"
      using le assms(4,5) by fastforce
    moreover have "sorted (map sent_step (ry_sent st'))"
      using assms(1,2,4,5) le by (auto simp: replay_inv_def Let_def sorted_append)
    moreover have "\<forall>x \<in> set (ry_sent st'). sent_step x \<in> set (time_steps ds) \<and> 0 < sent_step x \<and>
        sent_offset x = rank (time_steps ds) (sent_step x) - 1 \<and>
        event_id (msg_value x) = batch_event_id rt cfg (sent_step x)"
      using assms(1,2,4-7) c n by (auto simp: replay_inv_def Let_def)
    ultimately show ?thesis using c n(2,5) cp by (auto simp: replay_inv_def Let_def)
  qed
qed

lemma replay_loop_inv:
  assumes "replay_loop rt cfg ds envs (k + 1) steps st = (st', fin)" and "replay_inv rt cfg ds st"
    and "checkpoint_of cfg (ry_db st) = (c, k)" and "steps = filter (\<lambda>s. c < s) (time_steps ds)"
    and "others_leave cfg envs"
  shows "replay_inv rt cfg ds st'"
  using assms
proof (induction envs arbitrary: steps st c k)
  case Nil
  have "st' = st" using Nil.prems(1) by (cases steps) auto
  then show ?case using Nil.prems(2) by simp
next
  case (Cons env envs)
  show ?case
  proof (cases steps)
    case Nil
    then show ?thesis using Cons.prems by simp
  next
    case (Cons t rest)
    obtain st1 x where p: "produce_step rt cfg ds (k + 1) t env st = (st1, x)" by fastforce
    have leave: "\<forall>p \<in> set (rx_polls env). leaves_checkpoint cfg (pl_others p)" "others_leave cfg envs"
      using Cons.prems(5) by (simp_all add: others_leave_def)
    have steps: "filter (\<lambda>s. c < s) (time_steps ds) = t # rest" using Cons Cons.prems(4) by simp
    have c: "0 \<le> c" using Cons.prems(2,3) by (simp add: replay_inv_def Let_def)
    from p leave(1) show ?thesis
    proof (cases rule: produce_cases)
      case idle
      then show ?thesis using Cons Cons.prems(1,2) p replay_inv_cong by auto
    next
      case (sent m)
      have "replay_inv rt cfg ds st1"
        by (rule replay_inv_sent [OF Cons.prems(2,3) steps sent(1-4)]) (simp add: sent(5) Cons.prems(3))
      then show ?thesis using Cons Cons.prems(1) p sent(6) by auto
    next
      case (noted m)
      have inv: "replay_inv rt cfg ds st1"
        by (rule replay_inv_sent [OF Cons.prems(2,3) steps noted(1-4)]) (simp add: noted(5))
      show ?thesis
      proof (cases x)
        case None
        then have "replay_loop rt cfg ds envs (k + 1 + 1) rest st1 = (st', fin)"
          using Cons Cons.prems(1) p by simp
        from Cons.IH [OF this inv noted(5) time_step_next(4) [OF steps time_steps_sorted c] leave(2)]
        show ?thesis .
      next
        case (Some y)
        then show ?thesis using Cons Cons.prems(1) p inv by auto
      qed
    qed
  qed
qed

lemma replay_run_inv:
  assumes "replay_inv rt cfg ds st" and "others_leave cfg (ru_steps env)"
  shows "replay_inv rt cfg ds (fst (replay_run rt cfg ds env st))"
proof -
  obtain c k where cp: "checkpoint_of cfg (ry_db st) = (c, k)" by fastforce
  obtain st1 fin where l: "replay_loop rt cfg ds (ru_steps env) (k + 1)
      (filter (\<lambda>s. c < s) (time_steps ds)) st = (st1, fin)" by fastforce
  have inv: "replay_inv rt cfg ds st1" by (rule replay_loop_inv [OF l assms(1) cp refl assms(2)])
  obtain d r where t: "in_transaction (ru_fate env) (\<lambda>d.
      rbind (update_replay_control (stream_name cfg) (Some ''completed'') None (ru_now env) d)
        (\<lambda>d. Inr (d, ()))) (ry_db st1) = (d, r)" by fastforce
  have "checkpoint_of cfg d = checkpoint_of cfg (ry_db st1)"
    by (rule transaction_checkpoint [OF _ t]) (auto simp: result_simps dest: update_checkpoint)
  then have "replay_inv rt cfg ds (st1\<lparr>ry_db := d\<rparr>)" by (intro replay_inv_cong [OF inv]) simp_all
  moreover have "fst (replay_run rt cfg ds env st) \<in> {st1, st1\<lparr>ry_db := d\<rparr>}"
    using cp l t by (auto simp: replay_run_def checkpoint_of_def finish_replay_def split: sum.splits)
  ultimately show ?thesis using inv by auto
qed

lemma replay_runs_inv:
  "replay_inv rt cfg ds st \<Longrightarrow> (\<And>env. env \<in> set envs \<Longrightarrow> others_leave cfg (ru_steps env)) \<Longrightarrow>
     replay_inv rt cfg ds (replay_runs rt cfg ds envs st)"
  by (induction envs arbitrary: st) (simp_all add: replay_run_inv)

definition fresh_replay :: "db \<Rightarrow> replay" where
  "fresh_replay d = \<lparr>ry_db = d, ry_sent = [], ry_slept = []\<rparr>"

lemma fresh_inv: "checkpoint_of cfg d = (0, -1) \<Longrightarrow> replay_inv rt cfg ds (fresh_replay d)"
  by (auto simp: replay_inv_def fresh_replay_def rank_def)

text \<open>
  C15. The replay skips no time step and reorders none. Over any number of runs, stopped, paused or
  crashed at any point, with checkpoints that fail or whose acknowledgement is lost, the steps of the
  batches sent never go back, every earlier (positive) step of the dataset was sent before, and a
  batch sent twice has the same event id and source offset, so the inbox drops the second.
\<close>

theorem replay_in_order_without_gap:
  assumes "\<And>env. env \<in> set envs \<Longrightarrow> others_leave cfg (ru_steps env)"
    and "checkpoint_of cfg d = (0, -1)"
    and "st = replay_runs rt cfg ds envs (fresh_replay d)"
  shows "sorted (map sent_step (ry_sent st)) \<and>
    (\<forall>m \<in> set (ry_sent st).
       sent_step m \<in> set (time_steps ds) \<and> event_id (msg_value m) = batch_event_id rt cfg (sent_step m) \<and>
       sent_offset m = rank (time_steps ds) (sent_step m) - 1 \<and>
       (\<forall>t \<in> set (time_steps ds). 0 < t \<and> t < sent_step m \<longrightarrow> t \<in> sent_step ` set (ry_sent st)))"
proof -
  have "replay_inv rt cfg ds st"
    unfolding assms(3) by (rule replay_runs_inv [OF fresh_inv [OF assms(2)] assms(1)])
  then obtain c k where "checkpoint_of cfg (ry_db st) = (c, k)" and inv:
    "\<forall>t \<in> set (time_steps ds). 0 < t \<and> t \<le> c \<longrightarrow> t \<in> sent_step ` set (ry_sent st)"
    "sorted (map sent_step (ry_sent st))"
    "\<forall>m \<in> set (ry_sent st). sent_step m \<in> set (time_steps ds) \<and>
       sent_offset m = rank (time_steps ds) (sent_step m) - 1 \<and>
       event_id (msg_value m) = batch_event_id rt cfg (sent_step m) \<and>
       (\<forall>t \<in> set (time_steps ds). t < sent_step m \<longrightarrow> t \<le> c)"
    by (auto simp: replay_inv_def Let_def split: prod.splits)
  then show ?thesis by blast
qed

subsection \<open>Witnesses\<close>

definition zero_features :: "rat list" where
  "zero_features = replicate 165 0"

lemma length_zero_features: "length zero_features = 165"
  by (simp add: zero_features_def)

definition pair_dataset :: elliptic_dataset where
  "pair_dataset =
     \<lparr>ds_nodes = [\<lparr>nf_txId = 1, nf_time_step = 1, nf_features = zero_features\<rparr>,
                 \<lparr>nf_txId = 2, nf_time_step = 1, nf_features = zero_features\<rparr>],
      ds_edges = [(1, 2), (1, 1), (2, 3)]\<rparr>"

lemma short_ids: "str_int 1 = ''1''" "str_int 2 = ''2''"
  by code_simp+

lemma pair_batch:
  "dataset_batch pair_dataset 1 =
     Inr (map (batch_node 1) (ds_nodes pair_dataset), [\<lparr>source_tx_id = ''1'', destination_tx_id = ''2''\<rparr>])"
  by (simp add: dataset_batch_def pair_dataset_def Let_def batch_node_def batch_edge_def short_ids
      valid_node_def valid_edge_def len_in_def checked_def length_zero_features)

theorem batch_matches_simulator_witness:
  "\<exists>nodes edges. dataset_batch pair_dataset 1 = Inr (nodes, edges) \<and> length edges = 1 \<and>
     length nodes = length (sv_nodes (event_at (ds_nodes pair_dataset) (ds_edges pair_dataset) 1))"
proof -
  note same = batch_matches_simulator [OF pair_batch, THEN conjunct2, THEN conjunct1, THEN arg_cong [of _ _ length],
      unfolded length_map]
  show ?thesis by (intro exI conjI) (rule pair_batch, simp, simp add: same)
qed

definition calm :: replay_env where
  "calm = \<lparr>rx_stop = False, rx_polls = [\<lparr>pl_others = id, pl_fate = DbCommits, pl_now = 0, pl_stop = False\<rparr>],
     rx_stop_after = False, rx_now = 0, rx_span = Some (replicate 32 (CHR ''a'')), rx_send = None,
     rx_save = DbCommits\<rparr>"

lemma calm_simps: "\<not> rx_stop calm" "\<not> rx_stop_after calm" "rx_send calm = None"
  by (simp_all add: calm_def)

lemma pair_event_valid:
  "valid_graph_batch (batch_event sample_runtime (default_settings ''replay'' ''h'') calm 0 1
     (map (batch_node 1) (ds_nodes pair_dataset), [\<lparr>source_tx_id = ''1'', destination_tx_id = ''2''\<rparr>]))"
proof -
  let ?cfg = "default_settings ''replay'' ''h''"
  have cfg: "stream_name ?cfg = ''elliptic-replay''" "service_name ?cfg = ''replay''"
    "cfg_feature_schema_version ?cfg = ''elliptic-165-v1''"
    by (simp_all add: default_settings_def)
  show ?thesis
    by (simp add: valid_graph_batch_def valid_envelope_def valid_batch_payload_def batch_event_def cfg
        batch_event_id_def deterministic_event_id_def sample_runtime_def calm_def event_time_def
        current_traceparent_def len_in_def valid_edge_def valid_node_def batch_node_def pair_dataset_def
        short_ids length_zero_features)
qed

lemma calm_sends:
  "\<exists>st' fin. produce_step sample_runtime (default_settings ''replay'' ''h'') pair_dataset 0 1 calm
     (fresh_replay empty_db) = (st', fin) \<and> length (ry_sent st') = 1"
proof -
  let ?cfg = "default_settings ''replay'' ''h''"
  have rate: "replay_events_per_second ?cfg = 20" by (simp add: default_settings_def)
  obtain d where "await_running ?cfg (rx_polls calm) (ry_db (fresh_replay empty_db)) = (d, Inr 20)"
    by (simp add: calm_def fresh_replay_def in_transaction_def fetch_replay_control_def Let_def
        replay_row_ok_def empty_db_def insert_nothing_def rate)
  then show ?thesis
    by (simp add: produce_step_def pair_batch pair_event_valid calm_simps fresh_replay_def checked_def
        Let_def split: prod.splits sum.splits)
qed

lemma finish_sent [simp]: "ry_sent (fst (finish_replay cfg fate now stop r)) = ry_sent (fst r)"
  by (auto simp: finish_replay_def split: prod.splits sum.splits)

theorem replay_in_order_without_gap_witness:
  "\<exists>env st. st = replay_runs sample_runtime (default_settings ''replay'' ''h'') pair_dataset [env]
       (fresh_replay empty_db) \<and> length (ry_sent st) = 1 \<and>
     (\<forall>m \<in> set (ry_sent st). sent_step m \<in> set (time_steps pair_dataset))"
proof -
  let ?cfg = "default_settings ''replay'' ''h''"
  let ?env = "\<lparr>ru_steps = [calm], ru_fate = DbCommits, ru_now = 0, ru_stop = False\<rparr>"
  let ?st = "replay_runs sample_runtime ?cfg pair_dataset [?env] (fresh_replay empty_db)"
  obtain st' fin where p: "produce_step sample_runtime ?cfg pair_dataset 0 1 calm (fresh_replay empty_db) = (st', fin)"
    "length (ry_sent st') = 1" using calm_sends by blast
  have cp: "checkpoint_of ?cfg empty_db = (0, -1)"
    by (simp add: checkpoint_of_def producer_checkpoint_def empty_db_def)
  then have "producer_checkpoint (stream_name ?cfg) (ry_db (fresh_replay empty_db)) = (0, -1)"
    by (simp add: checkpoint_of_def fresh_replay_def)
  moreover have "time_steps pair_dataset = [1]" by (simp add: time_steps_def pair_dataset_def)
  ultimately have "ry_sent ?st = ry_sent st'"
    using p(1) by (cases fin) (simp_all add: replay_run_def)
  moreover have "others_leave ?cfg (ru_steps env)" if "env \<in> set [?env]" for env
    using that by (simp add: others_leave_def leaves_checkpoint_def calm_def)
  ultimately show ?thesis
    using replay_in_order_without_gap [OF _ cp refl, of "[?env]" sample_runtime pair_dataset] p(2)
    by (intro exI [of _ ?env] exI [of _ ?st]) simp
qed

end
