(* ===== verification/Compatibility.thy ===== *)
theory Compatibility
  imports Prelude "HOL-Library.Multiset"
begin

text \<open>
  \<open>shared/contracts/compatibility.py\<close>: the structural comparison of two JSON schemas that guards the
  committed event contracts. A schema is the part of a JSON Schema document the module reads.
\<close>

text \<open>
  \<open>type\<close> may be one name or a list of names; a Python dict keeps its keys in order of insertion and
  has each once.
\<close>

datatype json_type = OneType string | TypeList "string list"

datatype schema = Schema
  (sc_ref: "string option")
  (sc_type: "json_type option")
  (sc_any_of: "schema list option")
  (sc_const: "string option")
  (sc_enum: "string list")
  (sc_required: "string list")
  (sc_properties: "(string \<times> schema) list")

definition empty_schema :: schema where
  "empty_schema = Schema None None None None [] [] []"

record document =
  dc_root :: schema
  dc_defs :: "(string \<times> schema) list"

subsection \<open>Type signatures\<close>

text \<open>\<open>repr\<close> of a string, as \<open>str\<close> of a tuple or a list shows it.\<close>

fun repr_char :: "char \<Rightarrow> string" where
  "repr_char c =
     (if c = CHR 0x5C then [CHR 0x5C, CHR 0x5C] else if c = CHR 0x0A then [CHR 0x5C, CHR ''n'']
      else if c = CHR 0x0D then [CHR 0x5C, CHR ''r''] else if c = CHR 0x09 then [CHR 0x5C, CHR ''t''] else [c])"

definition py_repr :: "string \<Rightarrow> string" where
  "py_repr s =
     (let quote = (if CHR 0x27 \<in> set s \<and> CHR 0x22 \<notin> set s then CHR 0x22 else CHR 0x27)
      in quote # concat (map (\<lambda>c. if c = quote then [CHR 0x5C, c] else repr_char c) s) @ [quote])"

fun py_join :: "string list \<Rightarrow> string" where
  "py_join [] = []"
| "py_join [s] = s"
| "py_join (s # t # rest) = s @ '', '' @ py_join (t # rest)"

definition py_tuple :: "string list \<Rightarrow> string" where
  "py_tuple ss = ''('' @ py_join ss @ (if length ss = 1 then '','' else []) @ '')''"

datatype signature = RefSignature string | TypeSignature json_type | UnionSignature "string list"
  | NoSignature

fun signature_str :: "signature \<Rightarrow> string" where
  "signature_str (RefSignature r) = py_tuple [py_repr ''ref'', py_repr r]"
| "signature_str (TypeSignature (OneType t)) = t"
| "signature_str (TypeSignature (TypeList ts)) = ''['' @ py_join (map py_repr ts) @ '']''"
| "signature_str (UnionSignature ss) = py_tuple (map py_repr ss)"
| "signature_str NoSignature = ''None''"

fun type_signature :: "schema \<Rightarrow> signature" where
  "type_signature (Schema ref ty any const enum req props) =
     (case ref of Some r \<Rightarrow> RefSignature r
      | None \<Rightarrow> (case ty of Some t \<Rightarrow> TypeSignature t
      | None \<Rightarrow> (case any of Some ss \<Rightarrow>
          UnionSignature (sort (map (\<lambda>s. signature_str (type_signature s)) ss))
      | None \<Rightarrow> NoSignature)))"

subsection \<open>The comparison\<close>

definition at_path :: "string \<Rightarrow> string \<Rightarrow> string" where
  "at_path path field = (if path = [] then field else path @ ''.'' @ field)"

definition required_errors :: "string \<Rightarrow> schema \<Rightarrow> schema \<Rightarrow> string list" where
  "required_errors path old new =
     map (\<lambda>field. (if path = [] then ''$'' else path) @ ''.'' @ field @ '' is no longer required'')
       (sorted_list_of_set (set (sc_required old) - set (sc_required new)))"

fun compare_object :: "string \<Rightarrow> schema \<Rightarrow> schema \<Rightarrow> string list" where
  "compare_object path (Schema ref ty any const enum req props) new =
     required_errors path (Schema ref ty any const enum req props) new @
     concat (map (\<lambda>(field, old_field).
       case map_of (sc_properties new) field of
         None \<Rightarrow> [at_path path field @ '' was removed'']
       | Some new_field \<Rightarrow>
           (if type_signature old_field \<noteq> type_signature new_field
            then [at_path path field @ '' changed type''] else []) @
           compare_object (at_path path field) old_field new_field) props)"

definition schema_version_of :: "schema \<Rightarrow> string option" where
  "schema_version_of s =
     (let version = (case map_of (sc_properties s) ''schema_version'' of
        None \<Rightarrow> empty_schema | Some v \<Rightarrow> v)
      in case sc_const version of
           Some c \<Rightarrow> Some c
         | None \<Rightarrow> if length (sc_enum version) = 1 then Some (sc_enum version ! 0) else None)"

definition backward_compatibility_errors :: "document \<Rightarrow> document \<Rightarrow> string list" where
  "backward_compatibility_errors baseline candidate =
     (if schema_version_of (dc_root baseline) \<noteq> schema_version_of (dc_root candidate) then []
      else compare_object [] (dc_root baseline) (dc_root candidate) @
        concat (map (\<lambda>(name, old).
          case map_of (dc_defs candidate) name of
            None \<Rightarrow> [''$defs.'' @ name @ '' was removed'']
          | Some new \<Rightarrow> compare_object (''$defs.'' @ name) old new) (dc_defs baseline)))"

subsection \<open>What it decides\<close>

text \<open>
  When a schema still describes values of the same type, said without signatures: it refers to the
  same definition, or names the same type, or, where neither has a type of its own, its branches
  are those of the other in some order, each of the same type; or both leave the type open.
\<close>

inductive same_type :: "schema \<Rightarrow> schema \<Rightarrow> bool" where
  same_ref: "sc_ref a = Some r \<Longrightarrow> sc_ref b = Some r \<Longrightarrow> same_type a b"
| same_name: "sc_ref a = None \<Longrightarrow> sc_ref b = None \<Longrightarrow> sc_type a = Some t \<Longrightarrow> sc_type b = Some t \<Longrightarrow>
     same_type a b"
| same_branches: "sc_ref a = None \<Longrightarrow> sc_ref b = None \<Longrightarrow> sc_type a = None \<Longrightarrow> sc_type b = None \<Longrightarrow>
     sc_any_of a = Some xs \<Longrightarrow> sc_any_of b = Some ys \<Longrightarrow> list_all2 same_type xs zs \<Longrightarrow>
     mset zs = mset ys \<Longrightarrow> same_type a b"
| both_open: "sc_ref a = None \<Longrightarrow> sc_ref b = None \<Longrightarrow> sc_type a = None \<Longrightarrow> sc_type b = None \<Longrightarrow>
     sc_any_of a = None \<Longrightarrow> sc_any_of b = None \<Longrightarrow> same_type a b"
monos list_all2_mono

text \<open>The names of types in JSON Schema are words of lower-case letters.\<close>

definition type_word :: "string \<Rightarrow> bool" where
  "type_word t \<longleftrightarrow> t \<noteq> [] \<and> (\<forall>c \<in> set t. 97 \<le> (of_char c :: nat) \<and> (of_char c :: nat) \<le> 122) \<and> t \<noteq> ''ref''"

definition type_words :: "json_type \<Rightarrow> bool" where
  "type_words t = (case t of OneType w \<Rightarrow> type_word w | TypeList ws \<Rightarrow> list_all type_word ws)"

fun plain :: "schema \<Rightarrow> bool" where
  "plain (Schema ref ty any const enum req props) \<longleftrightarrow>
     (case ty of None \<Rightarrow> True | Some t \<Rightarrow> type_words t) \<and>
     (case any of None \<Rightarrow> True | Some ss \<Rightarrow> (\<forall>s \<in> set ss. plain s)) \<and>
     (\<forall>(field, s) \<in> set props. plain s)"

text \<open>
  The relation the module is after: the new schema still requires what the old one required and has
  every property of it, of the same type, in the same relation.
\<close>

inductive keeps_structure :: "schema \<Rightarrow> schema \<Rightarrow> bool" where
  keeps: "set (sc_required old) \<subseteq> set (sc_required new) \<Longrightarrow>
     (\<And>field old_field. (field, old_field) \<in> set (sc_properties old) \<Longrightarrow>
        \<exists>new_field. map_of (sc_properties new) field = Some new_field \<and>
          same_type old_field new_field \<and> keeps_structure old_field new_field) \<Longrightarrow>
     keeps_structure old new"

inductive_simps keeps_structure_iff: "keeps_structure old new"

definition keeps_document :: "document \<Rightarrow> document \<Rightarrow> bool" where
  "keeps_document old new \<longleftrightarrow> keeps_structure (dc_root old) (dc_root new) \<and>
     (\<forall>(name, s) \<in> set (dc_defs old). \<exists>t. map_of (dc_defs new) name = Some t \<and> keeps_structure s t)"

definition plain_document :: "document \<Rightarrow> bool" where
  "plain_document d \<longleftrightarrow> plain (dc_root d) \<and> (\<forall>(name, s) \<in> set (dc_defs d). plain s)"

subsection \<open>Signatures tell types apart\<close>

text \<open>The quoted form of a string ends where its closing quote is.\<close>

definition esc :: "char \<Rightarrow> char \<Rightarrow> string" where
  "esc q c = (if c = q then [CHR 0x5C, c] else repr_char c)"

lemma esc_inj:
  assumes "q = CHR 0x27 \<or> q = CHR 0x22" and "esc q c @ x = esc q d @ y"
  shows "c = d \<and> x = y"
  using assms by (auto simp: esc_def split: if_splits)

lemma esc_quote: "q = CHR 0x27 \<or> q = CHR 0x22 \<Longrightarrow> esc q c @ x \<noteq> q # y"
  by (auto simp: esc_def)

lemma quoted_inj:
  assumes q: "q = CHR 0x27 \<or> q = CHR 0x22"
  shows "concat (map (esc q) s) @ q # x = concat (map (esc q) t) @ q # y \<Longrightarrow> s = t \<and> x = y"
proof (induction s arbitrary: t)
  case Nil
  then show ?case using esc_quote [OF q] by (cases t) (auto dest: sym)
next
  case (Cons c s)
  show ?case
  proof (cases t)
    case Nil
    with Cons.prems esc_quote [OF q] show ?thesis by auto
  next
    case (Cons d t')
    with Cons.prems have "esc q c @ concat (map (esc q) s) @ q # x =
        esc q d @ concat (map (esc q) t') @ q # y" by simp
    from esc_inj [OF q this] Cons.IH [of t'] show ?thesis by (simp add: local.Cons)
  qed
qed

lemma py_repr_inj:
  assumes "py_repr s @ x = py_repr t @ y"
  shows "s = t \<and> x = y"
proof -
  define q where "q = (\<lambda>s :: string. if CHR 0x27 \<in> set s \<and> CHR 0x22 \<notin> set s then CHR 0x22 else CHR 0x27)"
  have r: "py_repr s = q s # concat (map (esc (q s)) s) @ [q s]" for s
    by (simp add: py_repr_def Let_def q_def esc_def [abs_def])
  have "q s = q t" using assms by (simp add: r)
  moreover have "q s = CHR 0x27 \<or> q s = CHR 0x22" by (simp add: q_def)
  ultimately show ?thesis using assms quoted_inj [of "q s" s x t y] by (simp add: r)
qed

lemma py_repr_start: "\<exists>q r. py_repr s = q # r \<and> (q = CHR 0x27 \<or> q = CHR 0x22)"
  by (simp add: py_repr_def Let_def)


lemma py_join_inj:
  assumes c: "c \<notin> {CHR '','', CHR 0x27, CHR 0x22}"
  shows "py_join (map py_repr ss) @ c # x = py_join (map py_repr ts) @ c # y \<Longrightarrow> ss = ts"
proof (induction ss arbitrary: ts)
  case Nil
  obtain t ts' where "ts = [] \<or> ts = t # ts'" by (cases ts) auto
  then show ?case using Nil c py_repr_start [of t] by (cases ts') auto
next
  case (Cons s ss)
  show ?case
  proof (cases ts)
    case Nil
    then show ?thesis using Cons.prems c py_repr_start [of s] by (cases ss) auto
  next
    case ts: (Cons t ts')
    let ?rest = "\<lambda>us z. (if us = [] then c # z else '', '' @ py_join (map py_repr us) @ c # z)"
    have split: "py_join (map py_repr (u # us)) @ c # z = py_repr u @ ?rest us z" for u us z
      by (cases us) auto
    have "py_repr s @ ?rest ss x = py_repr t @ ?rest ts' y"
      using Cons.prems unfolding ts split .
    from py_repr_inj [OF this] have "s = t" "?rest ss x = ?rest ts' y" by simp_all
    with Cons.IH [of ts'] c ts show ?thesis by (auto split: if_splits)
  qed
qed

lemma py_tuple_inj: "py_tuple (map py_repr ss) = py_tuple (map py_repr ts) \<Longrightarrow> ss = ts"
proof -
  assume eq: "py_tuple (map py_repr ss) = py_tuple (map py_repr ts)"
  have one: "us = [u]" if e: "py_repr u @ '',)'' = py_join (map py_repr us) @ '')''" "length us \<noteq> 1" for u us
  proof (cases us)
    case Nil
    with e py_repr_start [of u] show ?thesis by auto
  next
    case (Cons v vs)
    with e(2) obtain w ws where "vs = w # ws" by (cases vs) auto
    with e(1) Cons have "py_repr u @ '',)'' = py_repr v @ '', '' @ py_join (map py_repr vs) @ '')''" by simp
    from py_repr_inj [OF this] show ?thesis by simp
  qed
  show ?thesis
  proof (cases "length ss = 1")
    case True
    then obtain u where u: "ss = [u]" by (auto simp: length_Suc_conv)
    show ?thesis
    proof (cases "length ts = 1")
      case True
      then obtain v where "ts = [v]" by (auto simp: length_Suc_conv)
      with eq u show ?thesis using py_repr_inj [of u "'',)''" v "'',)''"] by (simp add: py_tuple_def)
    next
      case False
      with eq u one [of u ts] show ?thesis by (simp add: py_tuple_def)
    qed
  next
    case False
    show ?thesis
    proof (cases "length ts = 1")
      case True
      then obtain v where "ts = [v]" by (auto simp: length_Suc_conv)
      with eq False one [of v ss] show ?thesis by (simp add: py_tuple_def)
    next
      case ts: False
      with eq False show ?thesis using py_join_inj [of "CHR '')''" ss "[]" ts "[]"] by (simp add: py_tuple_def)
    qed
  qed
qed

lemma plain_iff: "plain s \<longleftrightarrow>
    (case sc_type s of None \<Rightarrow> True | Some t \<Rightarrow> type_words t) \<and>
    (case sc_any_of s of None \<Rightarrow> True | Some ss \<Rightarrow> (\<forall>b \<in> set ss. plain b)) \<and>
    (\<forall>(field, p) \<in> set (sc_properties s). plain p)"
  by (cases s) simp

lemma signature_start:
  "plain s \<Longrightarrow> (case type_signature s of
      RefSignature r \<Rightarrow> hd (signature_str (type_signature s)) = CHR ''(''
    | TypeSignature (OneType t) \<Rightarrow> type_word t
    | TypeSignature (TypeList ts) \<Rightarrow> hd (signature_str (type_signature s)) = CHR ''[''
    | UnionSignature ss \<Rightarrow> hd (signature_str (type_signature s)) = CHR ''(''
    | NoSignature \<Rightarrow> True)"
  by (cases s) (auto simp: py_tuple_def type_words_def split: option.splits json_type.splits signature.splits)

lemma type_word_hd: "type_word t \<Longrightarrow> hd t \<noteq> CHR ''('' \<and> hd t \<noteq> CHR ''['' \<and> hd t \<noteq> CHR ''N'' \<and> t \<noteq> ''ref''"
  by (cases t) (auto simp: type_word_def)

lemma signature_not_ref: "plain s \<Longrightarrow> signature_str (type_signature s) \<noteq> ''ref''"
  using signature_start [of s] type_word_hd
  by (cases "type_signature s") (auto split: json_type.splits)


lemma signature_str_inj:
  assumes "plain a" and "plain b" and "signature_str (type_signature a) = signature_str (type_signature b)"
  shows "type_signature a = type_signature b"
proof -
  have word: "type_word t \<Longrightarrow> \<exists>c r. t = c # r \<and> c \<notin> {CHR ''('', CHR ''['', CHR ''N''}" for t
    using type_word_hd [of t] by (cases t) (auto simp: type_word_def)
  have ref: "UnionSignature ss \<noteq> type_signature x" if "plain x" "ss = [''ref'', r]" for x ss r
  proof
    assume "UnionSignature ss = type_signature x"
    then have "''ref'' \<notin> set ss"
      using that(1) by (cases x) (auto dest: signature_not_ref sym split: option.splits)
    with that(2) show False by simp
  qed
  have tuple: "py_tuple [py_repr ''ref'', py_repr r] = py_tuple (map py_repr [''ref'', r])" for r by simp
  have listed: "ts = us" if "py_join (map py_repr ts) = py_join (map py_repr us)" for ts us
    using py_join_inj [of "CHR '']''" ts "[]" us "[]"] that by simp
  show ?thesis
    using assms(3) signature_start [OF assms(1)] signature_start [OF assms(2)]
      ref [OF assms(1)] ref [OF assms(2)]
    by (cases "type_signature a" rule: signature_str.cases; cases "type_signature b" rule: signature_str.cases)
      (auto simp: tuple simp del: list.map dest!: py_tuple_inj listed word, auto simp: py_tuple_def dest!: word)
qed


lemma match_images: "mset (map f xs) = mset (map f ys) \<Longrightarrow> \<exists>zs. mset zs = mset ys \<and> map f zs = map f xs"
proof (induction xs arbitrary: ys)
  case (Cons x xs)
  then have "f x \<in> f ` set ys" by (metis list.set_intros(1) list.set_map list.simps(9) mset_eq_setD)
  then obtain y where y: "y \<in> set ys" "f x = f y" by blast
  then have ys: "mset ys = add_mset y (mset (remove1 y ys))" by simp
  with Cons.prems y(2) have "mset (map f xs) = mset (map f (remove1 y ys))"
    by (metis add_mset_add_mset_same_iff image_mset_add_mset list.simps(9) mset.simps(2) mset_map)
  from Cons.IH [OF this] obtain zs where "mset zs = mset (remove1 y ys)" "map f zs = map f xs" by blast
  with ys y(2) show ?case by (intro exI [of _ "y # zs"]) simp
qed auto

lemma signature_same_type:
  "plain a \<Longrightarrow> plain b \<Longrightarrow> type_signature a = type_signature b \<Longrightarrow> same_type a b"
proof (induction a arbitrary: b rule: type_signature.induct)
  case (1 ref ty any const enum req props)
  obtain ref' ty' any' const' enum' req' props' where
    b: "b = Schema ref' ty' any' const' enum' req' props'" by (cases b)
  show ?case
  proof (cases "ref = None \<and> ty = None \<and> any \<noteq> None")
    case False
    with 1(4) show ?thesis unfolding b
      by (auto intro: same_type.intros split: option.splits)
  next
    case True
    then obtain xs where xs: "ref = None" "ty = None" "any = Some xs" by auto
    with 1(4) b obtain ys where ys: "ref' = None" "ty' = None" "any' = Some ys"
      by (auto split: option.splits)
    let ?f = "\<lambda>s. signature_str (type_signature s)"
    have "sort (map ?f xs) = sort (map ?f ys)" using 1(4) b xs ys by simp
    then have "mset (map ?f xs) = mset (map ?f ys)" by (metis mset_sort)
    from match_images [OF this] obtain zs where zs: "mset zs = mset ys" "map ?f zs = map ?f xs" by blast
    have plains: "\<forall>x \<in> set xs. plain x" "\<forall>y \<in> set zs. plain y"
      using 1(2,3) b xs ys mset_eq_setD [OF zs(1)] by auto
    have "list_all2 same_type xs zs"
    proof (rule list_all2_all_nthI)
      show len: "length xs = length zs" using zs(2) by (metis length_map)
      fix n
      assume n: "n < length xs"
      have "?f (xs ! n) = ?f (zs ! n)" using zs(2) n len by (metis nth_map)
      moreover have p: "plain (xs ! n)" "plain (zs ! n)" using plains n len by auto
      ultimately have "type_signature (xs ! n) = type_signature (zs ! n)"
        by (intro signature_str_inj)
      with 1(1) [OF xs(1,2,3)] p n show "same_type (xs ! n) (zs ! n)" by auto
    qed
    with zs(1) show ?thesis unfolding b xs ys
      by (intro same_branches [where xs = xs and ys = ys and zs = zs]) simp_all
  qed
qed

lemma same_type_signature: "same_type a b \<Longrightarrow> type_signature a = type_signature b"
proof (induction rule: same_type.induct)
  case (same_branches a b xs ys zs)
  let ?f = "\<lambda>s. signature_str (type_signature s)"
  have "map ?f xs = map ?f zs"
    using same_branches.IH by (induction rule: list_all2_induct) simp_all
  then have "mset (map ?f xs) = mset (map ?f ys)" using same_branches.hyps by (metis mset_map)
  then have "sort (map ?f xs) = sort (map ?f ys)" by (metis sorted_list_of_multiset_mset)
  with same_branches show ?case by (cases a; cases b) simp
next
  case (same_ref a r b)
  then show ?case by (cases a; cases b) simp
next
  case (same_name a b t)
  then show ?case by (cases a; cases b) simp
next
  case (both_open a b)
  then show ?case by (cases a; cases b) simp
qed

lemma same_type_iff: "plain a \<Longrightarrow> plain b \<Longrightarrow> type_signature a = type_signature b \<longleftrightarrow> same_type a b"
  using signature_same_type same_type_signature by blast

subsection \<open>The guard\<close>

lemma no_required_errors: "required_errors path old new = [] \<longleftrightarrow> set (sc_required old) \<subseteq> set (sc_required new)"
  by (simp add: required_errors_def)

lemma concat_map_Nil: "concat (map f xs) = [] \<longleftrightarrow> (\<forall>x \<in> set xs. f x = [])"
  by auto

lemma compare_object_iff:
  "plain old \<Longrightarrow> plain new \<Longrightarrow> compare_object path old new = [] \<longleftrightarrow> keeps_structure old new"
proof (induction path old new rule: compare_object.induct)
  case (1 path ref ty any const enum req props new)
  have "(case map_of (sc_properties new) field of
         None \<Rightarrow> [at_path path field @ '' was removed'']
       | Some new_field \<Rightarrow>
           (if type_signature old_field \<noteq> type_signature new_field
            then [at_path path field @ '' changed type''] else []) @
           compare_object (at_path path field) old_field new_field) = [] \<longleftrightarrow>
     (\<exists>new_field. map_of (sc_properties new) field = Some new_field \<and>
        same_type old_field new_field \<and> keeps_structure old_field new_field)"
    if mem: "(field, old_field) \<in> set props" for field old_field
  proof (cases "map_of (sc_properties new) field")
    case (Some new_field)
    have "plain old_field" "plain new_field"
      using 1(2,3) mem map_of_SomeD [OF Some] by (auto simp: plain_iff [of new])
    with 1(1) [OF mem refl Some] Some show ?thesis by (simp add: same_type_iff)
  qed simp
  then show ?case
    by (subst keeps_structure_iff) (auto simp: concat_map_Nil no_required_errors)
qed

text \<open>
  C36. The contract guard reports nothing exactly when the schema version was changed or the new
  document keeps the structure of the old one: every required field of an object is still required,
  and every property is still there with the same type, for the properties of the root, of the
  definitions and of nested properties. Same type means the same reference, or the same name, or
  branches of \<open>anyOf\<close> that are the same up to their order; it says nothing of the items of an array
  nor of the properties inside a branch, which the guard does not look at.
\<close>

theorem compatibility_exact:
  assumes "plain_document old" and "plain_document new"
  shows "backward_compatibility_errors old new = [] \<longleftrightarrow>
    schema_version_of (dc_root old) \<noteq> schema_version_of (dc_root new) \<or> keeps_document old new"
proof -
  have "(case map_of (dc_defs new) name of
          None \<Rightarrow> [''$defs.'' @ name @ '' was removed'']
        | Some t \<Rightarrow> compare_object (''$defs.'' @ name) s t) = [] \<longleftrightarrow>
      (\<exists>t. map_of (dc_defs new) name = Some t \<and> keeps_structure s t)"
    if "(name, s) \<in> set (dc_defs old)" for name s
  proof (cases "map_of (dc_defs new) name")
    case (Some t)
    have "plain s" "plain t"
      using assms that map_of_SomeD [OF Some] by (auto simp: plain_document_def)
    with Some show ?thesis by (simp add: compare_object_iff)
  qed simp
  moreover have "plain (dc_root old)" "plain (dc_root new)"
    using assms by (simp_all add: plain_document_def)
  ultimately show ?thesis
    by (auto simp: backward_compatibility_errors_def keeps_document_def compare_object_iff concat_map_Nil)
qed

text \<open>Steps that each keep the structure keep it together, so checking against the last one is enough.\<close>

lemma keeps_structure_trans:
  "keeps_structure a b \<Longrightarrow> keeps_structure b c \<Longrightarrow> plain a \<Longrightarrow> plain b \<Longrightarrow> plain c \<Longrightarrow> keeps_structure a c"
proof (induction arbitrary: c rule: keeps_structure.induct)
  case (keeps old new)
  from keeps.prems(1) have req: "set (sc_required new) \<subseteq> set (sc_required c)"
    and props: "\<And>field s. (field, s) \<in> set (sc_properties new) \<Longrightarrow>
      \<exists>t. map_of (sc_properties c) field = Some t \<and> same_type s t \<and> keeps_structure s t"
    by (auto simp: keeps_structure_iff [of new c])
  show ?case
  proof (rule keeps_structure.keeps)
    show "set (sc_required old) \<subseteq> set (sc_required c)" using keeps.hyps req by blast
    fix field s
    assume mem: "(field, s) \<in> set (sc_properties old)"
    with keeps.IH obtain t where t: "map_of (sc_properties new) field = Some t" "same_type s t"
      "\<And>d. keeps_structure t d \<Longrightarrow> plain s \<Longrightarrow> plain t \<Longrightarrow> plain d \<Longrightarrow> keeps_structure s d" by meson
    from props [OF map_of_SomeD [OF t(1)]] obtain u where
      u: "map_of (sc_properties c) field = Some u" "same_type t u" "keeps_structure t u" by blast
    have "plain s" "plain t" "plain u"
      using keeps.prems(2-4) mem map_of_SomeD [OF t(1)] map_of_SomeD [OF u(1)]
      by (auto simp: plain_iff [of old] plain_iff [of new] plain_iff [of c])
    with t u show "\<exists>u. map_of (sc_properties c) field = Some u \<and> same_type s u \<and> keeps_structure s u"
      using same_type_iff [of s t] same_type_iff [of t u] same_type_iff [of s u] by auto
  qed
qed

text \<open>
  What the guard does not see: a field that becomes required, the constraints on a value, and what an
  array holds.
\<close>

lemma new_requirement_unnoticed:
  "backward_compatibility_errors
     \<lparr>dc_root = Schema None None None None [] [] [(''event_id'', empty_schema)], dc_defs = []\<rparr>
     \<lparr>dc_root = Schema None None None None [] [''event_id'', ''tenant'']
        [(''event_id'', empty_schema), (''tenant'', empty_schema)], dc_defs = []\<rparr> = []"
  by (simp add: backward_compatibility_errors_def schema_version_of_def empty_schema_def
      required_errors_def at_path_def)

text \<open>Dropping a property is reported within a version and allowed with a new one.\<close>

definition versioned :: "string \<Rightarrow> (string \<times> schema) list \<Rightarrow> document" where
  "versioned v props = \<lparr>dc_root = Schema None None None None [] []
     ((''schema_version'', Schema None None None (Some v) [] [] []) # props), dc_defs = []\<rparr>"

theorem compatibility_exact_witness:
  "backward_compatibility_errors (versioned ''1.0'' [(''amount'', empty_schema)]) (versioned ''1.0'' []) \<noteq> [] \<and>
   backward_compatibility_errors (versioned ''1.0'' [(''amount'', empty_schema)]) (versioned ''2.0'' []) = []"
proof -
  have "\<not> keeps_document (versioned ''1.0'' [(''amount'', empty_schema)]) (versioned ''1.0'' [])"
    by (simp add: keeps_document_def versioned_def keeps_structure_iff [of "Schema _ _ _ _ _ _ _"]) blast
  moreover have "schema_version_of (dc_root (versioned v props)) = Some v" for v props
    by (simp add: versioned_def schema_version_of_def)
  moreover have "plain_document (versioned v [(''amount'', empty_schema)])" "plain_document (versioned v [])" for v
    by (simp_all add: plain_document_def versioned_def empty_schema_def)
  ultimately show ?thesis by (simp add: compatibility_exact)
qed

text \<open>An optional value whose branch changes is a change of type, branches in another order are not.\<close>

lemma branches_compared:
  "same_type (Schema None None (Some [Schema None (Some (OneType ''string'')) None None [] [] [],
       Schema None (Some (OneType ''null'')) None None [] [] []]) None [] [] [])
     (Schema None None (Some [Schema None (Some (OneType ''null'')) None None [] [] [],
       Schema None (Some (OneType ''string'')) None None [] [] []]) None [] [] [])"
  "\<not> same_type (Schema None None (Some [Schema None (Some (OneType ''string'')) None None [] [] [],
       Schema None (Some (OneType ''null'')) None None [] [] []]) None [] [] [])
     (Schema None None (Some [Schema None (Some (OneType ''number'')) None None [] [] [],
       Schema None (Some (OneType ''null'')) None None [] [] []]) None [] [] [])"
  by (subst same_type_iff [symmetric]; simp add: type_words_def type_word_def)+

end
