(* ===== verification/Dlq_Replay.thy ===== *)
theory Dlq_Replay
  imports Dlq
begin

text \<open>
  \<open>scripts/replay_dlq.py\<close>: the tool that shows one record of the dead-letter topic and, when asked,
  sends its original payload again under a new event id. JSON output and text encoding are
  parameters.
\<close>

record replay_args =
  ra_partition :: int
  ra_offset :: int
  ra_replay :: bool
  ra_initiated_by :: "string option"

record dlq_tool =
  dt_dumps :: "json \<Rightarrow> bytes"
  dt_encode :: "string \<Rightarrow> bytes"
  dt_str :: "json \<Rightarrow> string"

subsection \<open>Fetching the record\<close>

text \<open>
  \<open>seek\<close> and \<open>getone\<close> on a partition whose log starts at \<open>start\<close>: at the end the wait times out, and
  an offset outside of the log is reset to the earliest one.
\<close>

definition getone_at :: "int \<Rightarrow> 'r list \<Rightarrow> int \<Rightarrow> 'r result" where
  "getone_at start records offset =
     (let offset = (if start \<le> offset \<and> offset \<le> start + int (length records) then offset else start)
      in if offset < start + int (length records) then Inr (records ! nat (offset - start))
         else Inl TimeoutError)"

subsection \<open>The replayed payload\<close>

text \<open>Assignment to a key of a dict keeps the place of the key, or appends it.\<close>

fun dict_set :: "'k \<Rightarrow> 'v \<Rightarrow> ('k \<times> 'v) list \<Rightarrow> ('k \<times> 'v) list" where
  "dict_set k v [] = [(k, v)]"
| "dict_set k v ((k', v') # rest) = (if k' = k then (k, v) # rest else (k', v') # dict_set k v rest)"

fun json_truthy :: "json \<Rightarrow> bool" where
  "json_truthy JNull = False"
| "json_truthy (JBool b) = b"
| "json_truthy (JNum n) = (n \<noteq> 0)"
| "json_truthy (JStr s) = (s \<noteq> [])"
| "json_truthy (JArr xs) = (xs \<noteq> [])"
| "json_truthy (JObj xs) = (xs \<noteq> [])"

definition causation_of :: "(string \<times> json) list \<Rightarrow> dead_letter \<Rightarrow> json" where
  "causation_of obj letter =
     (case map_of obj ''event_id'' of
        None \<Rightarrow> JStr (event_id letter)
      | Some v \<Rightarrow> if json_truthy v then v else JStr (event_id letter))"

definition replayed_payload ::
  "string \<Rightarrow> string \<Rightarrow> (string \<times> json) list \<Rightarrow> dead_letter \<Rightarrow> (string \<times> json) list"
where
  "replayed_payload uuid by obj letter =
     dict_set ''producer'' (JStr (take 64 (''dlq-replay:'' @ by)))
       (dict_set ''causation_id'' (causation_of obj letter)
         (dict_set ''event_id'' (JStr uuid) obj))"

definition replay_message ::
  "dlq_tool \<Rightarrow> string \<Rightarrow> string \<Rightarrow> (string \<times> json) list \<Rightarrow> dead_letter \<Rightarrow> bytes message"
where
  "replay_message tool uuid by obj letter =
     (let p = replayed_payload uuid by obj letter
      in \<lparr>msg_topic = dl_original_topic (payload letter),
          msg_key = dt_encode tool (text_or (dl_original_key (payload letter)) []),
          msg_value = dt_dumps tool (JObj p),
          msg_headers =
            [(''event_id'', dt_encode tool uuid),
             (''schema_version'', dt_encode tool (case map_of p ''schema_version'' of
                None \<Rightarrow> [] | Some v \<Rightarrow> dt_str tool v)),
             (''causation_id'', dt_encode tool (dt_str tool (causation_of obj letter))),
             (''replayed_by'', dt_encode tool by)]\<rparr>)"

definition replay_dead_letter ::
  "dlq_tool \<Rightarrow> string \<Rightarrow> replay_args \<Rightarrow> dead_letter \<Rightarrow> bytes message option result"
where
  "replay_dead_letter tool uuid args letter =
     (if \<not> ra_replay args then Inr None
      else case ra_initiated_by args of
        None \<Rightarrow> Inl (RuntimeError ''--initiated-by is required with --replay'')
      | Some by \<Rightarrow>
          if by = [] then Inl (RuntimeError ''--initiated-by is required with --replay'')
          else case dl_original_payload (payload letter) of
            TextPayload _ \<Rightarrow>
              Inl (RuntimeError ''selected DLQ payload is not a replayable event object'')
          | ObjectPayload obj \<Rightarrow> Inr (Some (replay_message tool uuid by obj letter)))"

text \<open>The whole tool: \<open>letters\<close> is the partition of the dead-letter topic, \<open>send\<close> what the send raises.\<close>

definition replay_tool ::
  "dlq_tool \<Rightarrow> string \<Rightarrow> replay_args \<Rightarrow> int \<Rightarrow> dead_letter list \<Rightarrow> exn option
     \<Rightarrow> bytes message list \<times> exn option"
where
  "replay_tool tool uuid args start letters send =
     (case rbind (getone_at start letters (ra_offset args)) (\<lambda>letter.
             rbind (checked valid_dead_letter letter) (replay_dead_letter tool uuid args)) of
        Inl x \<Rightarrow> ([], Some x)
      | Inr None \<Rightarrow> ([], None)
      | Inr (Some m) \<Rightarrow> (case send of None \<Rightarrow> ([m], None) | Some x \<Rightarrow> ([], Some x)))"

subsection \<open>A dead letter replayed\<close>

lemma map_of_dict_set: "map_of (dict_set k v xs) k' = (if k' = k then Some v else map_of xs k')"
  by (induction k v xs rule: dict_set.induct) auto

lemma keys_dict_set: "map fst (dict_set k v xs) = map fst xs @ (if k \<in> fst ` set xs then [] else [k])"
  by (induction k v xs rule: dict_set.induct) auto

lemma map_of_replayed:
  "map_of (replayed_payload uuid by obj letter) k =
     (if k = ''producer'' then Some (JStr (take 64 (''dlq-replay:'' @ by)))
      else if k = ''causation_id'' then Some (causation_of obj letter)
      else if k = ''event_id'' then Some (JStr uuid) else map_of obj k)"
  by (simp add: replayed_payload_def map_of_dict_set)

lemma published_letter:
  assumes "publish_dead_letter rt cfg rec stage x n first now = Inr m"
  shows "valid_dead_letter (msg_value m)" and "dl_original_topic (payload (msg_value m)) = kr_topic rec"
    and "kr_key rec = Some k \<Longrightarrow> k \<noteq> [] \<Longrightarrow> dl_original_key (payload (msg_value m)) = Some (rt_decode rt k)"
    and "kr_value rec = Some v \<Longrightarrow> rt_json_loads rt v = Some (JObj obj) \<Longrightarrow>
      dl_original_payload (payload (msg_value m)) = ObjectPayload obj"
  using assms
  by (auto simp: publish_dead_letter_def result_simps dead_letter_event_def Let_def safe_original_payload_def)

text \<open>
  C37. A dead letter can be sent again as it came. Take a record whose value is a JSON object and
  whose dead letter was published and is selected by its offset: the tool sends one message, to the
  topic and under the key the record came with, whose object has the fields of the original except
  a new event id, the original id as its cause (if it had one), and a producer that names the
  operator; no other field is changed, added or dropped.
\<close>

theorem dlq_replay_faithful:
  assumes letter: "publish_dead_letter rt cfg rec stage x n first now = Inr m"
    and v: "kr_value rec = Some v" and obj: "rt_json_loads rt v = Some (JObj obj)"
    and key: "kr_key rec = Some k" "k \<noteq> []" "dt_encode tool (rt_decode rt k) = k" "rt_decode rt k \<noteq> []"
    and sel: "i < length letters" "letters ! i = msg_value m" "0 \<le> start"
    and args: "args = \<lparr>ra_partition = p, ra_offset = start + int i, ra_replay = True, ra_initiated_by = Some by\<rparr>"
      "by \<noteq> []"
  shows "\<exists>sent fields. replay_tool tool uuid args start letters None = ([sent], None) \<and>
    msg_topic sent = kr_topic rec \<and> msg_key sent = k \<and> msg_value sent = dt_dumps tool (JObj fields) \<and>
    map_of fields ''event_id'' = Some (JStr uuid) \<and>
    (\<forall>old. map_of obj ''event_id'' = Some old \<longrightarrow> json_truthy old \<longrightarrow>
       map_of fields ''causation_id'' = Some old) \<and>
    map_of fields ''producer'' = Some (JStr (take 64 (''dlq-replay:'' @ by))) \<and>
    (\<forall>f. f \<notin> {''event_id'', ''causation_id'', ''producer''} \<longrightarrow> map_of fields f = map_of obj f) \<and>
    fst ` set fields = fst ` set obj \<union> {''event_id'', ''causation_id'', ''producer''}"
proof -
  note l = published_letter [OF letter]
  let ?fields = "replayed_payload uuid by obj (msg_value m)"
  let ?sent = "replay_message tool uuid by obj (msg_value m)"
  have "getone_at start letters (ra_offset args) = Inr (msg_value m)"
    using sel args by (simp add: getone_at_def Let_def)
  then have run: "replay_tool tool uuid args start letters None = ([?sent], None)"
    using l(1) l(4) [OF v obj] args by (simp add: replay_tool_def checked_def replay_dead_letter_def)
  have "fst ` set ?fields = fst ` set obj \<union> {''event_id'', ''causation_id'', ''producer''}"
  proof -
    have "set (map fst (dict_set c w xs)) = insert c (fst ` set xs)" for c :: string and w :: json and xs
      by (auto simp: keys_dict_set)
    then have "fst ` set (dict_set c w xs) = insert c (fst ` set xs)" for c :: string and w :: json and xs
      by simp
    then show ?thesis by (simp add: replayed_payload_def) blast
  qed
  moreover have "msg_key ?sent = k"
    using l(3) [OF key(1,2)] key(3,4) by (simp add: replay_message_def Let_def text_or_def)
  ultimately show ?thesis
    using run l(2)
    by (intro exI [of _ ?sent] exI [of _ ?fields])
      (auto simp: replay_message_def Let_def map_of_replayed causation_of_def)
qed

text \<open>
  The offset is not checked against the record: one that retention has removed selects the earliest
  dead letter still there, whatever it is.
\<close>

lemma expired_offset_selects_earliest:
  assumes "offset < start" and "letters \<noteq> []"
  shows "getone_at start letters offset = Inr (letters ! 0)"
  using assms by (simp add: getone_at_def)

definition ascii_tool :: dlq_tool where
  "ascii_tool = \<lparr>dt_dumps = (\<lambda>_. []), dt_encode = id, dt_str = (\<lambda>_. [])\<rparr>"

theorem dlq_replay_faithful_witness:
  "\<exists>m sent. publish_dead_letter (sample_runtime\<lparr>rt_json_loads := \<lambda>_. Some (JObj [(''event_id'', JStr ''e'')])\<rparr>)
      (default_settings ''worker'' ''h'') (sample_record 7 ''{}'' [(''trace_id'', replicate 32 (CHR ''a''))])
      ''scoring_contract_validation'' (ValueError ''bad'') 1 None 20 = Inr m \<and>
    replay_tool ascii_tool (replicate 36 (CHR ''9''))
      \<lparr>ra_partition = 0, ra_offset = 3, ra_replay = True, ra_initiated_by = Some ''ops''\<rparr> 3 [msg_value m] None =
      ([sent], None) \<and> msg_key sent = ''a''"
proof -
  let ?rt = "sample_runtime\<lparr>rt_json_loads := \<lambda>_. Some (JObj [(''event_id'', JStr ''e'')])\<rparr>"
  let ?rec = "sample_record 7 ''{}'' [(''trace_id'', replicate 32 (CHR ''a''))]"
  let ?cfg = "default_settings ''worker'' ''h''"
  have "record_describable ?rt ?rec"
    using sample_describable [of 7] by (simp add: record_describable_def trace_of_def sample_runtime_def sample_record_def)
  then obtain m where m: "publish_dead_letter ?rt ?cfg ?rec ''scoring_contract_validation''
      (ValueError ''bad'') 1 None 20 = Inr m"
    using publish_iff [of ?rt ?cfg "''scoring_contract_validation''" "ValueError ''bad''" 1 ?rec None 20]
    by (auto simp: sample_runtime_def len_in_def default_settings_def)
  from dlq_replay_faithful [OF m, of "''{}''" "[(''event_id'', JStr ''e'')]" "''a''" ascii_tool 0
      "[msg_value m]" 3 _ 0 "''ops''" "replicate 36 (CHR ''9'')"] m
  show ?thesis
    by (fastforce simp: sample_record_def sample_runtime_def ascii_tool_def)
qed

end
