(* ===== verification/Fixture.thy ===== *)
theory Fixture
  imports Replay_Props Redis_Outbox Graph_Props
begin

text \<open>
  \<open>scripts/generate_fixture.py\<close>: the deterministic dataset that CI and local development replay. The
  random generator, the scaler and the CSV files are parameters: what is written is what
  \<open>EllipticDataset\<close> reads. The theorem follows the fixture through the replay producer into the
  graph store.
\<close>

definition NODES_PER_TIME_STEP :: nat where "NODES_PER_TIME_STEP = 96"

definition EDGE_OFFSETS :: "nat list" where "EDGE_OFFSETS = [1, 2, 3, 5, 8]"

definition CALIBRATED_GROUP_INDICES :: "nat list" where
  "CALIBRATED_GROUP_INDICES = [80, 209, 313, 239]"

definition fixture_nodes :: "nat \<Rightarrow> (int \<times> int) list" where
  "fixture_nodes node_count =
     map (\<lambda>i. (1001 + int i, 1 + int i div int NODES_PER_TIME_STEP)) [0..<node_count]"

text \<open>\<open>range(0, n, step)\<close>.\<close>

definition range_step :: "nat \<Rightarrow> nat \<Rightarrow> nat list" where
  "range_step n step = map (\<lambda>k. k * step) [0..<(n + step - 1) div step]"

definition step_edges :: "nat \<Rightarrow> nat \<Rightarrow> (int \<times> int) list" where
  "step_edges step_start step_size =
     concat (map (\<lambda>local_index.
       map (\<lambda>off. (1001 + int step_start + int local_index, 1001 + int step_start + int local_index - int off))
         (filter (\<lambda>off. off \<le> local_index) EDGE_OFFSETS)) [0..<step_size])"

definition fixture_edges :: "nat \<Rightarrow> (int \<times> int) list" where
  "fixture_edges node_count =
     concat (map (\<lambda>start. step_edges start (min NODES_PER_TIME_STEP (node_count - start)))
       (range_step node_count NODES_PER_TIME_STEP))"

text \<open>
  \<open>rows[start:end] = pattern[:end - start] * 2.5\<close> for every 24th row; \<open>pool\<close> has a pattern of three
  rows per index.
\<close>

definition assign_slice :: "nat \<Rightarrow> nat \<Rightarrow> 'a list \<Rightarrow> 'a list \<Rightarrow> 'a list" where
  "assign_slice start stop new rows = take start rows @ take (stop - start) new @ drop stop rows"

definition calibrate :: "rat list list list \<Rightarrow> nat \<Rightarrow> nat \<Rightarrow> rat list list \<Rightarrow> rat list list" where
  "calibrate pool group_number start rows =
     (let stop = min (start + 3) (length rows);
          pattern = pool ! (CALIBRATED_GROUP_INDICES ! (group_number mod length CALIBRATED_GROUP_INDICES))
      in assign_slice start stop (map (map (\<lambda>v. v * (5 / 2))) (take (stop - start) pattern)) rows)"

definition calibrated_rows :: "rat list list list \<Rightarrow> rat list list \<Rightarrow> rat list list" where
  "calibrated_rows pool rows =
     fold (\<lambda>(g, start). calibrate pool g start)
       (zip [0..<length (range_step (length rows) 24)] (range_step (length rows) 24)) rows"

definition feature_rows ::
  "(rat list list \<Rightarrow> rat list list) \<Rightarrow> rat list list list \<Rightarrow> rat list list \<Rightarrow> (int \<times> int) list
     \<Rightarrow> (int \<times> rat list) list"
where
  "feature_rows inverse_transform pool standardized nodes =
     zip (map fst nodes)
       (map (map (\<lambda>v. py_round v 8)) (inverse_transform (calibrated_rows pool standardized)))"

text \<open>The features and edge files of \<open>generate\<close>, as the producer's dataset.\<close>

definition fixture_dataset :: "nat \<Rightarrow> (int \<times> rat list) list \<Rightarrow> elliptic_dataset" where
  "fixture_dataset node_count rows =
     \<lparr>ds_nodes = map (\<lambda>(t, s). \<lparr>nf_txId = t, nf_time_step = s,
        nf_features = (case map_of rows t of Some f \<Rightarrow> f | None \<Rightarrow> [])\<rparr>) (fixture_nodes node_count),
      ds_edges = fixture_edges node_count\<rparr>"

subsection \<open>Shapes\<close>

lemma length_calibrate:
  assumes "\<forall>i \<in> set CALIBRATED_GROUP_INDICES. i < length pool \<and> length (pool ! i) = 3"
    and "start < length rows"
  shows "length (calibrate pool g start rows) = length rows"
proof -
  let ?i = "CALIBRATED_GROUP_INDICES ! (g mod length CALIBRATED_GROUP_INDICES)"
  have "?i \<in> set CALIBRATED_GROUP_INDICES"
    by (rule nth_mem) (simp add: CALIBRATED_GROUP_INDICES_def)
  with assms(1) have "length (pool ! ?i) = 3" by blast
  with assms(2) show ?thesis by (auto simp: calibrate_def assign_slice_def Let_def min_def)
qed

lemma length_calibrated:
  assumes "\<forall>i \<in> set CALIBRATED_GROUP_INDICES. i < length pool \<and> length (pool ! i) = 3"
    and "\<forall>(g, start) \<in> set gs. start < length rows"
  shows "length (fold (\<lambda>(g, start). calibrate pool g start) gs rows) = length rows"
  using assms(2)
proof (induction gs arbitrary: rows)
  case (Cons e gs)
  then show ?case using length_calibrate [OF assms(1)] by (auto split: prod.splits)
qed simp

lemma range_step_less: "0 < step \<Longrightarrow> x \<in> set (range_step n step) \<Longrightarrow> x < n \<and> step dvd x"
proof -
  assume s: "0 < step" and "x \<in> set (range_step n step)"
  then obtain k where k: "k < (n + step - 1) div step" "x = k * step" by (auto simp: range_step_def)
  then have "Suc k \<le> (n + step - 1) div step" by simp
  then have "Suc k * step \<le> n + step - 1"
    by (meson div_times_less_eq_dividend le_trans mult_le_mono1)
  with s k show ?thesis by simp
qed

lemma feature_rows_length:
  assumes "\<forall>i \<in> set CALIBRATED_GROUP_INDICES. i < length pool \<and> length (pool ! i) = 3"
    and "length standardized = length nodes"
    and "\<And>X. length (inverse_transform X) = length X"
  shows "map fst (feature_rows inverse_transform pool standardized nodes) = map fst nodes"
proof -
  have "\<forall>(g, start) \<in> set (zip [0..<length (range_step (length standardized) 24)]
      (range_step (length standardized) 24)). start < length standardized"
    using range_step_less [of 24] by (auto dest!: set_zip_rightD)
  from length_calibrated [OF assms(1) this] assms(2,3) show ?thesis
    by (simp add: feature_rows_def calibrated_rows_def)
qed

subsection \<open>The edges stay within a time step\<close>

definition step_of :: "int \<Rightarrow> int" where
  "step_of t = 1 + (t - 1001) div 96"

lemma fixture_edge:
  assumes "(s, t) \<in> set (fixture_edges n)"
  shows "t < s" and "1001 \<le> t" and "s < 1001 + int n" and "step_of t = step_of s"
proof -
  from assms obtain start i off where start: "start \<in> set (range_step n 96)"
    and i: "i < min 96 (n - start)" and off: "off \<in> set EDGE_OFFSETS" "off \<le> i"
    and e: "s = 1001 + int start + int i" "t = 1001 + int start + int i - int off"
    by (auto simp: fixture_edges_def step_edges_def NODES_PER_TIME_STEP_def)
  have st: "start < n" "96 dvd start" using range_step_less [of 96] start by auto
  then obtain k where k: "start = 96 * k" by (auto simp: dvd_def)
  have "0 < off" using off by (auto simp: EDGE_OFFSETS_def)
  then show "t < s" "1001 \<le> t" "s < 1001 + int n" using e off i st by auto
  have a: "step_of (1001 + int start + int j) = 1 + int k" if "j < 96" for j :: nat
    using that by (simp add: step_of_def k)
  have "t = 1001 + int start + int (i - off)" using e off by simp
  moreover have "i - off < 96" "i < 96" using i by auto
  ultimately show "step_of t = step_of s" using a [of "i - off"] a [of i] e(1) by simp
qed

lemma fixture_step_of: "(t, s) \<in> set (fixture_nodes n) \<Longrightarrow> s = step_of t \<and> 1001 \<le> t \<and> t < 1001 + int n"
  by (auto simp: fixture_nodes_def step_of_def NODES_PER_TIME_STEP_def)

lemma in_fixture: "1001 \<le> t \<Longrightarrow> t < 1001 + int n \<Longrightarrow> (t, step_of t) \<in> set (fixture_nodes n)"
  by (auto simp: fixture_nodes_def step_of_def NODES_PER_TIME_STEP_def intro!: image_eqI [of _ _ "nat (t - 1001)"])

lemma distinct_fixture: "distinct (map fst (fixture_nodes n))"
  by (simp add: fixture_nodes_def comp_def distinct_map inj_on_def)

text \<open>Decimal numerals are as short as they should be.\<close>

lemma length_str_nat: "m < 10 ^ d \<Longrightarrow> 0 < d \<Longrightarrow> length (str_nat m) \<le> d"
proof (induction m arbitrary: d rule: str_nat.induct)
  case (1 m)
  show ?case
  proof (cases "m < 10")
    case True
    with 1(3) show ?thesis by (simp add: str_nat.simps [of m])
  next
    case False
    with 1(2,3) obtain e where d: "d = Suc e" "0 < e" by (cases d; cases "d - 1") auto
    have "m div 10 < 10 ^ e" using 1(2) by (simp add: d(1) less_mult_imp_div_less)
    from 1(1) [OF False this d(2)] False show ?thesis by (simp add: str_nat.simps [of m] d(1))
  qed
qed

lemma str_nat_nonempty: "str_nat m \<noteq> []"
  by (subst str_nat.simps) simp

lemma fixture_id: "1001 \<le> t \<Longrightarrow> t < 1000000000000 \<Longrightarrow> len_in 1 64 (str_int t)"
  using length_str_nat [of "nat t" 12] str_nat_nonempty [of "nat t"] nat_less_iff [of t "10 ^ 12"]
  by (simp add: str_int_def len_in_def Suc_le_eq)

text \<open>A step has at most 96 transactions, and so few edges that both inserts can be bound.\<close>

lemma fixture_step_size: "length (filter (\<lambda>(t, s). s = k) (fixture_nodes n)) \<le> 96"
proof -
  let ?ns = "filter (\<lambda>(t, s). s = k) (fixture_nodes n)"
  have "set (map fst ?ns) \<subseteq> {1001 + 96 * (k - 1) ..< 1001 + 96 * (k - 1) + 96}"
    using fixture_step_of [of _ _ n] by (fastforce simp: step_of_def)
  then have "card (set (map fst ?ns)) \<le> 96"
    using card_mono [of "{1001 + 96 * (k - 1) ..< 1001 + 96 * (k - 1) + 96}" "set (map fst ?ns)"]
    by simp
  moreover have "distinct (map fst ?ns)"
    using distinct_fixture by (rule distinct_map_filter)
  ultimately show ?thesis by (metis distinct_card length_map)
qed

subsection \<open>Replaying the fixture\<close>

definition complete_rows :: "nat \<Rightarrow> (int \<times> rat list) list \<Rightarrow> bool" where
  "complete_rows n rows \<longleftrightarrow>
     (\<forall>(t, s) \<in> set (fixture_nodes n). \<exists>f. map_of rows t = Some f \<and> length f = 165)"

lemma fixture_batch:
  assumes "complete_rows n rows" and "n < 100000000000" and "1 \<le> k"
  shows "\<exists>nodes. dataset_batch (fixture_dataset n rows) k =
      Inr (nodes, map batch_edge (filter (\<lambda>(s, t). step_of s = k) (fixture_edges n))) \<and>
    map node_tx_id nodes = map (str_int \<circ> fst) (filter (\<lambda>(t, s). s = k) (fixture_nodes n)) \<and>
    (\<forall>nd \<in> set nodes. node_time_step nd = k)"
proof -
  let ?ds = "fixture_dataset n rows"
  let ?rows = "filter (\<lambda>r. nf_time_step r = k) (ds_nodes ?ds)"
  let ?nodes = "map (batch_node k) ?rows" and ?es = "filter (\<lambda>(s, t). step_of s = k) (fixture_edges n)"
  have rows: "?rows = map (\<lambda>(t, s). \<lparr>nf_txId = t, nf_time_step = s,
      nf_features = (case map_of rows t of Some f \<Rightarrow> f | None \<Rightarrow> [])\<rparr>) (filter (\<lambda>(t, s). s = k) (fixture_nodes n))"
    by (auto simp: fixture_dataset_def filter_map comp_def case_prod_beta intro!: filter_cong arg_cong [of _ _ "map _"])
  have ids: "nf_txId ` set ?rows = {t. step_of t = k \<and> 1001 \<le> t \<and> t < 1001 + int n}" (is "_ = ?ids")
  proof -
    have "nf_txId ` set ?rows = fst ` set (filter (\<lambda>(t, s). s = k) (fixture_nodes n))"
      unfolding rows by (simp add: image_image case_prod_beta)
    also have "\<dots> = ?ids"
    proof (intro equalityI subsetI)
      fix t assume "t \<in> fst ` set (filter (\<lambda>(t, s). s = k) (fixture_nodes n))"
      then have "(t, k) \<in> set (fixture_nodes n)" by auto
      then show "t \<in> ?ids" using fixture_step_of [of t k n] by simp
    next
      fix t assume "t \<in> ?ids"
      then have "(t, k) \<in> set (fixture_nodes n)" using in_fixture [of t n] by simp
      then show "t \<in> fst ` set (filter (\<lambda>(t, s). s = k) (fixture_nodes n))"
        by (intro image_eqI [of _ fst "(t, k)"]) auto
    qed
    finally show ?thesis .
  qed
  have both: "filter (\<lambda>(s, t). s \<in> ?ids \<and> t \<in> ?ids) (fixture_edges n) = ?es"
  proof (rule filter_cong [OF refl])
    fix e assume e: "e \<in> set (fixture_edges n)"
    then have "step_of (snd e) = step_of (fst e)" "1001 \<le> snd e" "snd e < fst e" "fst e < 1001 + int n"
      using fixture_edge [of "fst e" "snd e" n] by simp_all
    then show "(case e of (s, t) \<Rightarrow> s \<in> ?ids \<and> t \<in> ?ids) = (case e of (s, t) \<Rightarrow> step_of s = k)"
      by (cases e) auto
  qed
  have no_loops: "filter (\<lambda>(s, t). s \<noteq> t) ?es = ?es"
    by (rule filter_True) (auto dest: fixture_edge(1))
  have id: "len_in 1 64 (str_int t)" if "1001 \<le> t" "t < 1001 + int n" for t
    using fixture_id [of t] that assms(2) by simp
  have nodes_ok: "list_all valid_node ?nodes"
    using assms(1,3) id fixture_step_of [of _ _ n]
    by (fastforce simp: rows list_all_iff valid_node_def batch_node_def complete_rows_def)
  have edges_ok: "list_all valid_edge (map batch_edge ?es)"
    using fixture_edge [of _ _ n] id
    by (fastforce simp: list_all_iff valid_edge_def batch_edge_def)
  have edges: "filter (\<lambda>(s, t). s \<noteq> t) (filter (\<lambda>(s, t). s \<in> nf_txId ` set ?rows \<and> t \<in> nf_txId ` set ?rows)
      (ds_edges ?ds)) = ?es"
    unfolding ids by (simp only: fixture_dataset_def elliptic_dataset.select_convs both no_loops)
  have "dataset_batch ?ds k = Inr (?nodes, map batch_edge ?es)"
    unfolding dataset_batch_def Let_def edges
      all_valid_Inr [THEN iffD2, OF conjI [OF nodes_ok refl]]
      all_valid_Inr [THEN iffD2, OF conjI [OF edges_ok refl]] rbind_Inr by (rule refl)
  moreover have "map node_tx_id ?nodes = map (str_int \<circ> fst) (filter (\<lambda>(t, s). s = k) (fixture_nodes n))"
    by (simp add: rows batch_node_def comp_def case_prod_beta)
  ultimately show ?thesis by (auto simp: batch_node_def)
qed

text \<open>
  C38. The fixture can be replayed to the end, whatever its size and its random features. For every
  time step the producer reads a valid batch, whose edges are precisely the generated edges of the
  step, so that no edge is lost between steps; and the materializer accepts an event with that batch
  in every database that has not applied it: no self edges, no repeated transaction, no edge to a
  transaction outside of the batch.
\<close>

theorem fixture_replayable:
  assumes rows: "complete_rows n rows" "n < 100000000000" and k: "1 \<le> k" "int4 k"
  shows "\<exists>nodes edges. dataset_batch (fixture_dataset n rows) k = Inr (nodes, edges) \<and>
    edges = map batch_edge (filter (\<lambda>(s, t). step_of s = k) (fixture_edges n)) \<and>
    (\<forall>uuid5 topic c env ev d. valid_graph_batch ev \<longrightarrow> batch_nodes (payload ev) = nodes \<longrightarrow>
       batch_edges (payload ev) = edges \<longrightarrow> batch_time_step (payload ev) = k \<longrightarrow>
       int8 (batch_source_offset (payload ev)) \<longrightarrow> \<not> inbox_claimed c d (event_id ev) \<longrightarrow>
       (\<forall>s. length (uuid5 s) = 36) \<longrightarrow> opt_ok valid_traceparent (env_traceparent env) \<longrightarrow>
       (\<exists>d' r. materialize_graph_batch uuid5 topic c env ev d = Inr (d', r)))"
proof -
  let ?es = "filter (\<lambda>(s, t). step_of s = k) (fixture_edges n)"
  let ?ns = "filter (\<lambda>(t, s). s = k) (fixture_nodes n)"
  obtain nodes where batch: "dataset_batch (fixture_dataset n rows) k = Inr (nodes, map batch_edge ?es)"
    and ids: "map node_tx_id nodes = map (str_int \<circ> fst) ?ns" and steps: "\<forall>nd \<in> set nodes. node_time_step nd = k"
    using fixture_batch [OF rows k(1)] by blast
  have pos: "0 \<le> t" if "(t, s) \<in> set ?ns" for t s using fixture_step_of [of t s n] that by auto
  have dist: "distinct (map node_tx_id nodes)"
  proof -
    have "distinct (map fst ?ns)" using distinct_fixture by (rule distinct_map_filter)
    moreover have "inj_on str_int (set (map fst ?ns))"
      using pos by (auto simp: inj_on_def dest: str_int_inj)
    ultimately have "distinct (map str_int (map fst ?ns))" by (simp only: distinct_map)
    then show ?thesis by (simp add: ids)
  qed
  have acc: "batch_acceptable ev d"
    if "batch_nodes (payload ev) = nodes" "batch_edges (payload ev) = map batch_edge ?es"
      "batch_time_step (payload ev) = k" "int8 (batch_source_offset (payload ev))" for ev d
  proof -
    have edge: "a \<noteq> b \<and> a \<in> set (map node_tx_id nodes) \<and> b \<in> set (map node_tx_id nodes)"
      if ab: "(a, b) \<in> set (edge_pairs (map batch_edge ?es))" for a b
    proof -
      from ab obtain s t where st: "(s, t) \<in> set (fixture_edges n)" "step_of s = k" "a = str_int s" "b = str_int t"
        by (auto simp: edge_pairs_def batch_edge_def)
      note e = fixture_edge [OF st(1)]
      have "(s, k) \<in> set ?ns" "(t, k) \<in> set ?ns"
        using in_fixture [of s n] in_fixture [of t n] e st(2) by auto
      then have "a \<in> set (map node_tx_id nodes)" "b \<in> set (map node_tx_id nodes)"
        unfolding ids st(3,4) by force+
      moreover have "a \<noteq> b" using str_int_inj [of s t] e st(3,4) by auto
      ultimately show ?thesis by simp
    qed
    moreover have few: "length nodes \<le> 96"
      using ids fixture_step_size [of k n] by (metis length_map)
    moreover have "2 * card (set (edge_pairs (map batch_edge ?es))) \<le> max_bind_args"
    proof -
      let ?I = "set (map node_tx_id nodes)"
      have "set (edge_pairs (map batch_edge ?es)) \<subseteq> ?I \<times> ?I" using edge by auto
      then have "card (set (edge_pairs (map batch_edge ?es))) \<le> card ?I * card ?I"
        using card_mono [of "?I \<times> ?I"] by (simp add: card_cartesian_product)
      also have "\<dots> \<le> 96 * 96"
        using few card_length [of "map node_tx_id nodes"] by (intro mult_le_mono) simp_all
      finally show ?thesis by (simp add: max_bind_args_def)
    qed
    moreover have "7 * length nodes \<le> max_bind_args" using few by (simp add: max_bind_args_def)
    ultimately show ?thesis
      using that steps k(2) by (fastforce simp: batch_acceptable_def endpoints_known_def node_ids_def)
  qed
  have "\<exists>d' r. materialize_graph_batch uuid5 topic c env ev d = Inr (d', r)"
    if "valid_graph_batch ev" "batch_nodes (payload ev) = nodes" "batch_edges (payload ev) = map batch_edge ?es"
      "batch_time_step (payload ev) = k" "int8 (batch_source_offset (payload ev))"
      "\<not> inbox_claimed c d (event_id ev)" "\<forall>s. length (uuid5 s) = 36"
      "opt_ok valid_traceparent (env_traceparent env)" for uuid5 topic c env ev d
    using materialize_total [OF that(1) _ _ that(8,6) acc [OF that(2-5)], of uuid5] that(7) dist
    by (simp add: node_ids_def that(2))
  with batch show ?thesis by blast
qed

subsection \<open>Witness\<close>

definition three_rows :: "(int \<times> rat list) list" where
  "three_rows = map (\<lambda>t. (t, zero_features)) [1001, 1002, 1003]"

lemma three_nodes: "fixture_nodes 3 = [(1001, 1), (1002, 1), (1003, 1)]"
  by code_simp

lemma three_edges: "fixture_edges 3 = [(1002, 1001), (1003, 1002), (1003, 1001)]"
  by code_simp

theorem fixture_replayable_witness:
  "\<exists>nodes edges d' r. dataset_batch (fixture_dataset 3 three_rows) 1 = Inr (nodes, edges) \<and>
     length nodes = 3 \<and> length edges = 3 \<and>
     materialize_graph_batch sample_uuid5 ''requests'' ''graph-materializer'' (sample_env 1)
       (sample_batch (CHR ''1'') 1 nodes edges) empty_db = Inr (d', r)"
proof -
  have rows: "complete_rows 3 three_rows"
    by (simp add: complete_rows_def three_nodes three_rows_def length_zero_features)
  have "length (filter (\<lambda>(s, t). step_of s = 1) (fixture_edges 3)) = 3"
    by (simp add: three_edges step_of_def)
  with fixture_replayable [OF rows, of 1] obtain nodes edges where
    b: "dataset_batch (fixture_dataset 3 three_rows) 1 = Inr (nodes, edges)" "length edges = 3" and
    mat: "valid_graph_batch (sample_batch (CHR ''1'') 1 nodes edges) \<Longrightarrow>
      \<exists>d' r. materialize_graph_batch sample_uuid5 ''requests'' ''graph-materializer'' (sample_env 1)
        (sample_batch (CHR ''1'') 1 nodes edges) empty_db = Inr (d', r)"
    by (fastforce simp: sample_batch_def sample_env_def empty_db_def inbox_claimed_def int4_def int8_def)
  have n: "nodes = map (batch_node 1) (ds_nodes (fixture_dataset 3 three_rows))" "list_all valid_node nodes"
    "list_all valid_edge edges"
    using b(1) by (auto simp: dataset_batch_def Let_def fixture_dataset_def three_nodes result_simps)
  then have "length nodes = 3" by (simp add: fixture_dataset_def three_nodes)
  moreover have "valid_graph_batch (sample_batch (CHR ''1'') 1 nodes edges)"
    using n(2,3) b(2) calculation
    by (simp add: sample_batch_def sample_event_id_def valid_graph_batch_def valid_envelope_def SCHEMA_VERSION_V1_def
        valid_batch_payload_def len_in_def)
  ultimately show ?thesis using b mat by blast
qed

end
