(* ===== verification/Benchmark.thy ===== *)
theory Benchmark
  imports Redis_Outbox Subgraph
begin

text \<open>
  \<open>scripts/benchmark.py\<close>: the load that is published, what is observed of it in the database, in Redis
  and on a WebSocket, and the verdict. Clocks, database answers and received messages are inputs;
  floating point numbers are rationals.
\<close>

subsection \<open>Statistics\<close>

record latency_distribution =
  di_samples :: nat
  di_p50 :: "rat option"
  di_p95 :: "rat option"
  di_p99 :: "rat option"
  di_max :: "rat option"

definition percentile :: "rat list \<Rightarrow> rat \<Rightarrow> rat" where
  "percentile ordered v =
     (let index = min (\<lceil>of_nat (length ordered) * v\<rceil> - 1) (int (length ordered) - 1)
      in py_round (ordered ! nat index) 3)"

definition distribution :: "rat list \<Rightarrow> latency_distribution" where
  "distribution values =
     (let ordered = sort values in
      if ordered = [] then \<lparr>di_samples = 0, di_p50 = None, di_p95 = None, di_p99 = None, di_max = None\<rparr>
      else \<lparr>di_samples = length ordered, di_p50 = Some (percentile ordered (1 / 2)),
             di_p95 = Some (percentile ordered (95 / 100)), di_p99 = Some (percentile ordered (99 / 100)),
             di_max = Some (py_round (last ordered) 3)\<rparr>)"

text \<open>Two timestamps in microseconds, as aggregates that are NULL over no rows.\<close>

definition throughput :: "nat \<Rightarrow> int option \<Rightarrow> int option \<Rightarrow> rat option" where
  "throughput n started ended =
     (if n < 2 then None
      else case (started, ended) of
        (Some s, Some e) \<Rightarrow>
          if e \<le> s then None
          else Some (py_round (of_nat (n - 1) / (of_int (e - s) / 1000000)) 3)
      | _ \<Rightarrow> None)"

subsection \<open>Query latency\<close>

text \<open>An iteration has the database it reads and the seconds it takes.\<close>

fun query_benchmark ::
  "(string \<Rightarrow> string) \<Rightarrow> (score_entry list \<Rightarrow> score_entry list) \<Rightarrow> settings \<Rightarrow> string \<Rightarrow> nat
     \<Rightarrow> (db \<times> rat) list \<Rightarrow> rat list result"
where
  "query_benchmark collate scan cfg tx_id hops [] = Inr []"
| "query_benchmark collate scan cfg tx_id hops ((d, seconds) # runs) =
     (case get_bounded_subgraph collate scan tx_id hops (nat (graph_max_nodes cfg))
             (nat (graph_max_edges cfg)) (Some (cfg_model_version cfg)) d of
        None \<Rightarrow> Inl (RuntimeError (''benchmark transaction '' @ tx_id @ '' disappeared''))
      | Some _ \<Rightarrow>
          rbind (query_benchmark collate scan cfg tx_id hops runs) (\<lambda>samples.
          Inr (seconds * 1000 # samples)))"

subsection \<open>The WebSocket observer\<close>

text \<open>What the observer reads of a message; an absent field is \<open>None\<close>.\<close>

record observed_message =
  om_type :: "string option"
  om_mode :: "string option"
  om_tx_id :: "string option"
  om_redis_latency :: "rat option"
  om_end_to_end :: "rat option"

datatype received = Received observed_message | NothingYet | ConnectionLost

record observation =
  os_seen :: "string set"
  os_redis :: "rat list"
  os_ingest :: "rat list"
  os_ready :: bool

definition is_sample :: "string set \<Rightarrow> observed_message \<Rightarrow> bool" where
  "is_sample expected m \<longleftrightarrow>
     om_type m = Some ''transaction'' \<and> om_mode m = Some ''live'' \<and>
     (\<exists>t \<in> expected. om_tx_id m = Some t) \<and> om_redis_latency m \<noteq> None"

definition take_sample :: "observed_message \<Rightarrow> observation \<Rightarrow> observation" where
  "take_sample m st =
     (let t = the (om_tx_id m) in
      if t \<in> os_seen st then st
      else st\<lparr>os_seen := insert t (os_seen st),
              os_redis := os_redis st @ [the (om_redis_latency m)],
              os_ingest := os_ingest st @ (case om_end_to_end m of None \<Rightarrow> [] | Some v \<Rightarrow> [v])\<rparr>)"

text \<open>
  The loop: each turn begins with the comparison to the deadline. A known transaction goes on with
  the next turn, only a new sample is followed by the test for completeness.
\<close>

fun observe :: "string set \<Rightarrow> (bool \<times> received) list \<Rightarrow> observation \<Rightarrow> observation" where
  "observe expected [] st = st"
| "observe expected ((in_time, r) # rs) st =
     (if \<not> in_time then st
      else case r of
        NothingYet \<Rightarrow> observe expected rs st
      | ConnectionLost \<Rightarrow> st
      | Received m \<Rightarrow>
          if om_type m = Some ''connected'' then observe expected rs (st\<lparr>os_ready := True\<rparr>)
          else if is_sample expected m \<and> the (om_tx_id m) \<notin> os_seen st then
            (let st1 = take_sample m st in
             if os_seen st1 = expected then st1 else observe expected rs st1)
          else observe expected rs st)"

definition websocket_samples :: "string set \<Rightarrow> (bool \<times> received) list \<Rightarrow> observation" where
  "websocket_samples expected rs =
     observe expected rs \<lparr>os_seen = {}, os_redis = [], os_ingest = [], os_ready = False\<rparr>
       \<lparr>os_ready := True\<rparr>"

subsection \<open>The load\<close>

text \<open>What one message of the load reads: times of the loop's clock, the wall clock, a trace id, the send.\<close>

record load_env =
  lo_scheduled :: rat
  lo_started :: rat
  lo_acknowledged :: rat
  lo_checked :: rat
  lo_now :: int
  lo_trace :: string
  lo_send :: "exn option"

definition load_event ::
  "runtime \<Rightarrow> settings \<Rightarrow> string \<Rightarrow> rat list \<Rightarrow> int \<Rightarrow> int \<Rightarrow> int \<Rightarrow> string \<Rightarrow> load_env \<Rightarrow> graph_batch_event"
where
  "load_event rt cfg run_id features graph_watermark source_offset index tx_id env =
     \<lparr>event_id = deterministic_event_id (rt_uuid5 rt) ''risk.graph-batch.observed.v1''
        [SPart run_id, IPart index],
      event_type = ''risk.graph-batch.observed.v1'', schema_version = SCHEMA_VERSION_V1,
      occurred_at = Aware (lo_now env), produced_at = Aware (lo_now env),
      producer = ''benchmark-harness'', trace_id = lo_trace env, traceparent = None,
      correlation_id = ''benchmark:'' @ run_id, causation_id = None,
      payload =
        \<lparr>batch_stream_name = stream_name cfg, batch_time_step = graph_watermark + index,
         batch_sequence = graph_watermark + index, batch_source_offset = source_offset + index,
         batch_feature_schema_version = cfg_feature_schema_version cfg,
         batch_nodes = [\<lparr>node_tx_id = tx_id, node_time_step = graph_watermark + index,
           node_features = features\<rparr>],
         batch_edges = []\<rparr>\<rparr>"

record published_load =
  pb_events :: "graph_batch_event list"
  pb_ack_ms :: "rat list"
  pb_pauses :: "rat list"
  pb_first :: "rat option"
  pb_last :: "rat option"

text \<open>The loop over the transactions from \<open>index\<close> on, of \<open>target\<close>.\<close>

fun publish_load ::
  "runtime \<Rightarrow> settings \<Rightarrow> string \<Rightarrow> rat list \<Rightarrow> int \<Rightarrow> int \<Rightarrow> rat \<Rightarrow> nat \<Rightarrow> nat \<Rightarrow> (string \<times> load_env) list
     \<Rightarrow> published_load \<Rightarrow> published_load \<times> exn option"
where
  "publish_load rt cfg run_id features wm off rate target index [] st = (st, None)"
| "publish_load rt cfg run_id features wm off rate target index ((tx_id, env) # rest) st =
     (case checked valid_graph_batch (load_event rt cfg run_id features wm off (int index) tx_id env) of
        Inl x \<Rightarrow> (st, Some x)
      | Inr ev \<Rightarrow>
          let st = st\<lparr>pb_first := (case pb_first st of None \<Rightarrow> Some (lo_started env) | Some t \<Rightarrow>
                 if t = 0 then Some (lo_started env) else Some t)\<rparr> in
          (case lo_send env of
             Some x \<Rightarrow> (st, Some x)
           | None \<Rightarrow>
               let remaining = 1 / rate - (lo_checked env - lo_scheduled env);
                   pause = (if 0 < remaining \<and> index < target then [remaining] else [])
               in publish_load rt cfg run_id features wm off rate target (Suc index) rest
                    (st\<lparr>pb_events := pb_events st @ [ev], pb_last := Some (lo_acknowledged env),
                       pb_ack_ms := pb_ack_ms st @ [(lo_acknowledged env - lo_started env) * 1000],
                       pb_pauses := pb_pauses st @ pause\<rparr>)))"

text \<open>The three queries before the load, then the load and its rate; \<open>txs\<close> are the ids with their environments.\<close>

definition load_template :: "(string \<Rightarrow> string) \<Rightarrow> db \<Rightarrow> rat list option" where
  "load_template collate d =
     (case sort_key (\<lambda>(t, row). (tx_created_at row, collate t))
             (filter (\<lambda>(_, row). length (tx_features row) = 165) (transactions d)) of
        [] \<Rightarrow> None | (_, row) # _ \<Rightarrow> Some (tx_features row))"

definition max_or :: "int \<Rightarrow> int list \<Rightarrow> int" where
  "max_or z xs = (case xs of [] \<Rightarrow> z | x # xs \<Rightarrow> fold max xs x)"

definition publish_benchmark_workload ::
  "runtime \<Rightarrow> (string \<Rightarrow> string) \<Rightarrow> settings \<Rightarrow> db \<Rightarrow> string \<Rightarrow> (string \<times> load_env) list \<Rightarrow> rat
     \<Rightarrow> published_load \<times> (rat option) result"
where
  "publish_benchmark_workload rt collate cfg d run_id txs rate =
     (let none = \<lparr>pb_events = [], pb_ack_ms = [], pb_pauses = [], pb_first = None, pb_last = None\<rparr> in
      case load_template collate d of
        None \<Rightarrow> (none, Inl (RuntimeError ''benchmark requires one materialized 165-feature transaction''))
      | Some features \<Rightarrow>
          let wm = max_or 0 (map (\<lambda>(_, row). tx_graph_watermark row) (transactions d));
              off = max_or (- 1) (map (\<lambda>(_, row). cp_source_offset row)
                (filter (\<lambda>(s, _). s = stream_name cfg) (stream_checkpoints d)))
          in case publish_load rt cfg run_id features wm off rate (length txs) 1 txs none of
               (st, Some x) \<Rightarrow> (st, Inl x)
             | (st, None) \<Rightarrow>
                 let seconds = (case (pb_first st, pb_last st) of (Some a, Some b) \<Rightarrow> b - a | _ \<Rightarrow> 0)
                 in (st, Inr (if 0 < seconds \<and> 1 < length txs
                       then Some (py_round (of_nat (length txs - 1) / seconds) 3) else None)))"

subsection \<open>Waiting for the scores\<close>

text \<open>Each poll begins with the comparison to the deadline; the last rows are returned after it.\<close>

definition score_rows :: "(string \<Rightarrow> string) \<Rightarrow> string list \<Rightarrow> db \<Rightarrow> score_entry list" where
  "score_rows collate tx_ids d =
     sort_key (\<lambda>((t, _), r). (instant (sc_scored_at r), collate t))
       (filter (\<lambda>((t, _), _). t \<in> set tx_ids) (risk_scores d))"

fun wait_for_scores ::
  "(string \<Rightarrow> string) \<Rightarrow> string list \<Rightarrow> (bool \<times> db) list \<Rightarrow> score_entry list result \<Rightarrow> score_entry list result"
where
  "wait_for_scores collate tx_ids [] rows = rows"
| "wait_for_scores collate tx_ids ((in_time, d) # polls) rows =
     (if \<not> in_time then rows
      else let rows = score_rows collate tx_ids d in
        if length rows = length tx_ids then Inr rows
        else wait_for_scores collate tx_ids polls (Inr rows))"

definition no_rows :: "score_entry list result" where
  "no_rows = Inl (OtherError ''UnboundLocalError'' ''rows'')"

subsection \<open>The verdict\<close>

text \<open>The Redis entries after the cursor, as the fields read of their JSON.\<close>

record redis_sample =
  rs_tx_id :: string
  rs_publication :: "rat option"
  rs_ingest :: "rat option"

definition redis_step ::
  "string set \<Rightarrow> redis_sample \<Rightarrow> string set \<times> rat list \<times> rat list \<Rightarrow> string set \<times> rat list \<times> rat list"
where
  "redis_step expected s st =
     (case st of (seen, publication, ingest) \<Rightarrow>
        if rs_tx_id s \<notin> expected \<or> rs_tx_id s \<in> seen then st
        else (insert (rs_tx_id s) seen,
              publication @ (case rs_publication s of None \<Rightarrow> [] | Some v \<Rightarrow> [v]),
              ingest @ (case rs_ingest s of None \<Rightarrow> [] | Some v \<Rightarrow> [v])))"

definition redis_samples :: "string set \<Rightarrow> redis_sample list \<Rightarrow> string set \<times> rat list \<times> rat list" where
  "redis_samples expected entries = fold (redis_step expected) entries ({}, [], [])"

definition error_count :: "string list \<Rightarrow> db \<Rightarrow> nat" where
  "error_count tx_ids d =
     length (filter (\<lambda>(_, row). ob_aggregate_id row \<in> set tx_ids \<and> ob_last_error row \<noteq> None) (outbox_events d))"

record verdict =
  ve_missing_scores :: int
  ve_missing_redis :: int
  ve_missing_websocket :: int
  ve_complete :: bool
  ve_actual_ms :: "rat option"
  ve_met :: bool

definition evaluate ::
  "string list \<Rightarrow> score_entry list \<Rightarrow> redis_sample list \<Rightarrow> observation \<Rightarrow> nat \<Rightarrow> verdict"
where
  "evaluate tx_ids rows entries websocket errors =
     (let redis_ids = fst (redis_samples (set tx_ids) entries);
          missing_scores = int (length tx_ids) - int (length rows);
          missing_redis = int (length tx_ids) - int (card redis_ids);
          missing_websocket = int (length tx_ids) - int (length (os_ingest websocket));
          actual = di_p95 (distribution (os_ingest websocket));
          complete = (missing_scores = 0 \<and> missing_redis = 0 \<and> missing_websocket = 0)
      in \<lparr>ve_missing_scores = missing_scores, ve_missing_redis = missing_redis,
          ve_missing_websocket = missing_websocket, ve_complete = (complete \<and> errors = 0),
          ve_actual_ms = actual,
          ve_met = (complete \<and> errors = 0 \<and> (case actual of None \<Rightarrow> False | Some v \<Rightarrow> v < 270))\<rparr>)"

subsection \<open>Nearest rank\<close>

lemma floor_le_round: "\<lfloor>y\<rfloor> \<le> round_half_even y"
  by (simp add: round_half_even_def Let_def)

lemma py_round_ge: "of_int k \<le> x \<Longrightarrow> of_int k \<le> py_round x n"
proof -
  assume "of_int k \<le> x"
  then have "of_int (k * 10 ^ n) \<le> x * 10 ^ n" by (simp add: mult_right_mono)
  then have "k * 10 ^ n \<le> round_half_even (x * 10 ^ n)"
    using floor_le_round [of "x * 10 ^ n"] by (meson le_floor_iff order_trans)
  then have "(of_int (k * 10 ^ n) :: rat) \<le> of_int (round_half_even (x * 10 ^ n))"
    by (simp only: of_int_le_iff)
  then show ?thesis by (simp add: py_round_def le_divide_eq)
qed

lemma round_below: "py_round x n < of_int k \<Longrightarrow> x < of_int k"
  using py_round_ge [of k x n] by linarith

text \<open>At least the fraction \<open>q\<close> of the values lies below a bound that the percentile is below.\<close>

lemma percentile_below:
  assumes "values \<noteq> []" and q: "0 < q" "q \<le> 1" and below: "percentile (sort values) q < of_int k"
  shows "of_nat (length values) * q \<le> of_nat (length (filter (\<lambda>v. v < of_int k) values))"
proof -
  let ?xs = "sort values" and ?n = "length values"
  define r where "r = \<lceil>of_nat ?n * q\<rceil>"
  have n: "0 < ?n" using assms(1) by simp
  have r: "1 \<le> r" "r \<le> int ?n" "of_nat ?n * q \<le> of_int r"
  proof -
    have "0 < of_nat ?n * q" using n q(1) by simp
    then show "1 \<le> r" unfolding r_def by (simp add: one_le_ceiling)
    have "of_nat ?n * q \<le> of_int (int ?n)" using q(2) by (simp add: mult_left_le)
    then show "r \<le> int ?n" unfolding r_def by (simp add: ceiling_le_iff)
    show "of_nat ?n * q \<le> of_int r" unfolding r_def by (rule le_of_int_ceiling)
  qed
  define i where "i = nat (r - 1)"
  have i: "i < ?n" "int i = r - 1" using r(1,2) n by (auto simp: i_def)
  have "percentile ?xs q = py_round (?xs ! i) 3"
    using r(2) by (simp add: percentile_def Let_def i_def flip: r_def)
  with below have "?xs ! i < of_int k" using round_below by simp
  then have "\<forall>v \<in> set (take (Suc i) ?xs). v < of_int k"
  proof -
    assume x: "?xs ! i < of_int k"
    show ?thesis
    proof
      fix v assume "v \<in> set (take (Suc i) ?xs)"
      then obtain j where j: "j < Suc i" "j < ?n" "v = ?xs ! j" by (auto simp: in_set_conv_nth)
      then have "v \<le> ?xs ! i" using i(1) by (simp add: sorted_nth_mono)
      with x show "v < of_int k" by simp
    qed
  qed
  then have "filter (\<lambda>v. v < of_int k) (take (Suc i) ?xs) = take (Suc i) ?xs" by (rule filter_True [OF ballI [OF bspec]])
  moreover have "length (filter (\<lambda>v. v < of_int k) (take (Suc i) ?xs)) \<le> length (filter (\<lambda>v. v < of_int k) ?xs)"
    by (metis append_take_drop_id filter_append le_add1 length_append)
  ultimately have "Suc i \<le> length (filter (\<lambda>v. v < of_int k) ?xs)" using i(1) by simp
  also have "\<dots> = length (filter (\<lambda>v. v < of_int k) values)"
    by (simp add: filter_sort)
  finally have "int (Suc i) \<le> int (length (filter (\<lambda>v. v < of_int k) values))" by simp
  then have "r \<le> int (length (filter (\<lambda>v. v < of_int k) values))" using i(2) by simp
  then have "(of_int r :: rat) \<le> of_nat (length (filter (\<lambda>v. v < of_int k) values))"
    by (metis of_int_le_iff of_int_of_nat_eq)
  with r(3) show ?thesis by linarith
qed

subsection \<open>What is observed\<close>

definition observed_ok :: "string set \<Rightarrow> observation \<Rightarrow> bool" where
  "observed_ok expected st \<longleftrightarrow> os_seen st \<subseteq> expected \<and> length (os_ingest st) \<le> card (os_seen st)"

lemma take_sample_ok:
  assumes "finite expected" and "observed_ok expected st" and "is_sample expected m"
  shows "observed_ok expected (take_sample m st)"
proof -
  have "finite (os_seen st)" using assms(1,2) finite_subset by (auto simp: observed_ok_def)
  with assms(2,3) show ?thesis
    by (auto simp: observed_ok_def take_sample_def is_sample_def Let_def split: option.splits)
qed

lemma observe_ok:
  "finite expected \<Longrightarrow> observed_ok expected st \<Longrightarrow> observed_ok expected (observe expected rs st)"
proof (induction expected rs st rule: observe.induct)
  case (2 expected in_time r rs st)
  show ?case
  proof (cases "in_time")
    case True
    show ?thesis
    proof (cases r)
      case (Received m)
      show ?thesis
      proof (cases "om_type m = Some ''connected''")
        case conn: True
        have "observed_ok expected (st\<lparr>os_ready := True\<rparr>)" using 2 by (simp add: observed_ok_def)
        with 2 True Received conn show ?thesis by simp
      next
        case False
        with 2 True Received take_sample_ok [of expected st m] show ?thesis by (simp add: Let_def)
      qed
    qed (use 2 True in simp_all)
  qed (use 2 in simp)
qed simp

lemma redis_step_sub: "fst st \<subseteq> expected \<Longrightarrow> fst (redis_step expected s st) \<subseteq> expected"
  by (auto simp: redis_step_def split: prod.splits if_splits)

lemma redis_samples_sub: "fst (redis_samples expected entries) \<subseteq> expected"
proof -
  have "fst st \<subseteq> expected \<Longrightarrow> fst (fold (redis_step expected) entries st) \<subseteq> expected" for st
  proof (induction entries arbitrary: st)
    case (Cons s entries)
    from Cons.IH [OF redis_step_sub [OF Cons.prems]] show ?case by simp
  qed simp
  then show ?thesis by (simp add: redis_samples_def)
qed

text \<open>
  What a met target says. If the benchmark reports its target as met, then there are as many
  canonical scores as requested transactions, every one of them was found in Redis, every one was
  received live on the WebSocket with its latency, no outbox row of them has an error, and at least
  95 of 100 of these latencies are below 270 ms: neither the rounding nor the rank flatter them.
\<close>

theorem benchmark_met_sound:
  assumes "distinct tx_ids" and "tx_ids \<noteq> []"
    and met: "ve_met (evaluate tx_ids rows entries (websocket_samples (set tx_ids) rs) errors)"
  defines "latencies \<equiv> os_ingest (websocket_samples (set tx_ids) rs)"
  shows "length rows = length tx_ids \<and> fst (redis_samples (set tx_ids) entries) = set tx_ids \<and>
    os_seen (websocket_samples (set tx_ids) rs) = set tx_ids \<and> length latencies = length tx_ids \<and>
    errors = 0 \<and> 95 * length tx_ids \<le> 100 * length (filter (\<lambda>v. v < 270) latencies)"
proof -
  let ?ws = "websocket_samples (set tx_ids) rs"
  have n: "card (set tx_ids) = length tx_ids" using assms(1) by (rule distinct_card)
  have ws: "observed_ok (set tx_ids) ?ws"
    using observe_ok [of "set tx_ids" "\<lparr>os_seen = {}, os_redis = [], os_ingest = [], os_ready = False\<rparr>" rs]
    by (simp add: websocket_samples_def observed_ok_def)
  from met obtain v where v: "di_p95 (distribution latencies) = Some v" "v < 270"
    and counts: "length rows = length tx_ids" "card (fst (redis_samples (set tx_ids) entries)) = length tx_ids"
      "length latencies = length tx_ids" "errors = 0"
    by (auto simp: evaluate_def Let_def latencies_def split: option.splits)
  have "fst (redis_samples (set tx_ids) entries) = set tx_ids"
    using card_subset_eq [OF finite_set redis_samples_sub] counts(2) n by metis
  moreover have "os_seen ?ws = set tx_ids"
  proof (rule card_seteq)
    show "card (set tx_ids) \<le> card (os_seen ?ws)" using ws counts(3) n by (simp add: observed_ok_def latencies_def)
  qed (use ws in \<open>simp_all add: observed_ok_def\<close>)
  moreover have "95 * length tx_ids \<le> 100 * length (filter (\<lambda>v. v < 270) latencies)"
  proof -
    have ne: "latencies \<noteq> []" using counts(3) assms(2) by auto
    then have "percentile (sort latencies) (95 / 100) = v"
      using v(1) by (auto simp: distribution_def Let_def split: if_splits)
    with percentile_below [OF ne, of "95 / 100" 270] v(2)
    have "(of_nat (length latencies) :: rat) * (95 / 100) \<le> of_nat (length (filter (\<lambda>v. v < 270) latencies))"
      by simp
    then have "(of_nat (95 * length latencies) :: rat) \<le> of_nat (100 * length (filter (\<lambda>v. v < 270) latencies))"
      by simp
    then show ?thesis unfolding of_nat_le_iff counts(3) .
  qed
  ultimately show ?thesis using counts by simp
qed

text \<open>Two transactions, both received, one of them twice and one late message of another one.\<close>

definition live_message :: "string \<Rightarrow> rat \<Rightarrow> observed_message" where
  "live_message t ms = \<lparr>om_type = Some ''transaction'', om_mode = Some ''live'', om_tx_id = Some t,
     om_redis_latency = Some 1, om_end_to_end = Some ms\<rparr>"

lemma two_samples:
  "os_ingest (websocket_samples {''a'', ''b''} [(True, Received (live_message ''a'' 100)), (True, NothingYet),
     (True, Received (live_message ''a'' 400)), (True, Received (live_message ''b'' 200))]) = [100, 200]"
  by (simp add: websocket_samples_def is_sample_def take_sample_def live_message_def Let_def)

theorem benchmark_met_sound_witness:
  "os_seen (websocket_samples (set [''a'', ''b'']) [(True, Received (live_message ''a'' 100)), (True, NothingYet),
     (True, Received (live_message ''a'' 400)), (True, Received (live_message ''b'' 200))]) = set [''a'', ''b'']"
proof -
  let ?rs = "[(True, Received (live_message ''a'' 100)), (True, NothingYet),
     (True, Received (live_message ''a'' 400)), (True, Received (live_message ''b'' 200))]"
  let ?entry = "\<lambda>t. \<lparr>rs_tx_id = t, rs_publication = None, rs_ingest = None\<rparr>"
  have "\<lceil>19 / 10 :: rat\<rceil> = 2" by (rule ceiling_unique) simp_all
  then have p: "percentile [100, 200] (95 / 100) = 200"
    by (simp add: percentile_def Let_def py_round_def round_half_even_def)
  have "ve_met (evaluate [''a'', ''b''] [x, y] [?entry ''a'', ?entry ''b'']
      (websocket_samples (set [''a'', ''b'']) ?rs) 0)" for x y
    using two_samples p
    by (simp add: evaluate_def Let_def redis_samples_def redis_step_def distribution_def)
  from benchmark_met_sound [OF _ _ this] show ?thesis by simp
qed

end
