(* ===== verification/Benchmark_Run.thy ===== *)
theory Benchmark_Run
  imports Benchmark Samples
begin

text \<open>
  \<open>main\<close> and \<open>benchmark\<close> of \<open>scripts/benchmark.py\<close>: the checks of the arguments, the order of the
  measurements, the report and the exit status.
\<close>

subsection \<open>Arguments\<close>

record bench_args =
  ba_load_samples :: int
  ba_load_rate :: rat
  ba_query_iterations :: int
  ba_websocket_duration :: rat
  ba_pipeline_timeout :: rat
  ba_worker_count :: int
  ba_require_target :: bool

definition args_error :: "bench_args \<Rightarrow> string option" where
  "args_error args =
     (if ba_load_samples args < 2 then Some ''--load-samples must be at least 2''
      else if ba_load_rate args \<le> 0 then Some ''--load-rate must be greater than 0''
      else if ba_query_iterations args < 1 then Some ''--query-iterations must be at least 1''
      else if ba_websocket_duration args \<le> 0 then Some ''--websocket-duration must be greater than 0''
      else if ba_pipeline_timeout args \<le> 0 then Some ''--pipeline-timeout must be greater than 0''
      else if ba_worker_count args < 1 then Some ''--worker-count must be at least 1''
      else None)"

subsection \<open>The run\<close>

text \<open>\<open>f"{index:04d}"\<close>\<close>

definition zero_padded :: "nat \<Rightarrow> string" where
  "zero_padded n = replicate (4 - length (str_nat n)) (CHR ''0'') @ str_nat n"

definition bench_tx_ids :: "string \<Rightarrow> int \<Rightarrow> string list" where
  "bench_tx_ids run_id samples =
     map (\<lambda>n. ''bench-'' @ run_id @ ''-'' @ zero_padded n) [1..<Suc (nat samples)]"

text \<open>The transaction with most edges; of those, the first of the collation.\<close>

definition busiest_tx :: "(string \<Rightarrow> string) \<Rightarrow> db \<Rightarrow> string option" where
  "busiest_tx collate d =
     (case sort_key (\<lambda>t. (- int (length (filter (\<lambda>((s, t'), _). s = t \<or> t' = t) (transaction_edges d))), collate t))
             (map fst (transactions d)) of
        [] \<Rightarrow> None | t # _ \<Rightarrow> Some t)"

text \<open>
  What the run reads: the database at each query, the newest stream id, whether the WebSocket became
  ready in time, what it received, the polls for scores, the two query loops and the stream entries.
\<close>

record bench_env =
  be_run_id :: string
  be_start :: db
  be_latest :: "string option"
  be_ready :: bool
  be_received :: "(bool \<times> received) list"
  be_load_db :: db
  be_load :: "nat \<Rightarrow> load_env"
  be_polls :: "(bool \<times> db) list"
  be_one_hop :: "nat \<Rightarrow> db \<times> rat"
  be_two_hop :: "nat \<Rightarrow> db \<times> rat"
  be_entries :: "string \<Rightarrow> redis_sample list"
  be_end :: db

definition min_of :: "'a :: linorder list \<Rightarrow> 'a option" where
  "min_of xs = (case xs of [] \<Rightarrow> None | x # xs \<Rightarrow> Some (fold min xs x))"

definition max_of :: "'a :: linorder list \<Rightarrow> 'a option" where
  "max_of xs = (case xs of [] \<Rightarrow> None | x # xs \<Rightarrow> Some (fold max xs x))"

text \<open>The join of the summary query.\<close>

definition summary_rows :: "string list \<Rightarrow> db \<Rightarrow> (transaction_row \<times> score_row) list" where
  "summary_rows tx_ids d =
     concat (map (\<lambda>(t, row). map (\<lambda>(_, r). (row, r)) (filter (\<lambda>((t', _), _). t' = t) (risk_scores d)))
       (filter (\<lambda>(t, _). t \<in> set tx_ids) (transactions d)))"

record bench_report =
  br_canonical_scores :: "rat option"
  br_result_persistence :: "rat option"
  br_graph_materialization :: "rat option"
  br_kafka_ingestion :: "rat option"
  br_acknowledgement :: latency_distribution
  br_one_hop :: latency_distribution
  br_two_hop :: latency_distribution
  br_queue_delay :: latency_distribution
  br_inference :: latency_distribution
  br_scoring :: latency_distribution
  br_persistence :: latency_distribution
  br_redis_publication :: latency_distribution
  br_ingest_to_redis :: latency_distribution
  br_redis_to_websocket :: latency_distribution
  br_ingest_to_websocket :: latency_distribution
  br_requested :: nat
  br_scores_observed :: nat
  br_redis_observed :: nat
  br_websocket_observed :: nat
  br_outbox_errors :: nat
  br_verdict :: verdict

text \<open>The report over what was measured.\<close>

definition bench_report_of ::
  "string list \<Rightarrow> published_load \<Rightarrow> rat option \<Rightarrow> score_entry list \<Rightarrow> observation \<Rightarrow> rat list \<Rightarrow> rat list
     \<Rightarrow> redis_sample list \<Rightarrow> db \<Rightarrow> bench_report"
where
  "bench_report_of tx_ids load ingestion rows websocket one_hop two_hop entries d =
     (let completed = length rows; summary = summary_rows tx_ids d;
          scored = map (\<lambda>(_, r). instant (sc_scored_at r)) summary;
          persisted = map (\<lambda>(_, r). sc_persisted_at r) summary;
          created = map (\<lambda>(row, _). tx_created_at row) summary;
          (redis_ids, publication, ingest) = redis_samples (set tx_ids) entries;
          errors = error_count tx_ids d
      in \<lparr>br_canonical_scores = throughput completed (min_of scored) (max_of scored),
          br_result_persistence = throughput completed (min_of persisted) (max_of persisted),
          br_graph_materialization = throughput completed (min_of created) (max_of created),
          br_kafka_ingestion = ingestion,
          br_acknowledgement = distribution (pb_ack_ms load),
          br_one_hop = distribution one_hop, br_two_hop = distribution two_hop,
          br_queue_delay = distribution (map (\<lambda>(_, r). sc_queue_delay_ms r) rows),
          br_inference = distribution (map (\<lambda>(_, r). sc_inference_latency_ms r) rows),
          br_scoring = distribution (map (\<lambda>(_, r). sc_end_to_end_latency_ms r) rows),
          br_persistence = distribution
            (map (\<lambda>(_, r). of_int (sc_persisted_at r - instant (sc_scored_at r)) / 1000) rows),
          br_redis_publication = distribution publication, br_ingest_to_redis = distribution ingest,
          br_redis_to_websocket = distribution (os_redis websocket),
          br_ingest_to_websocket = distribution (os_ingest websocket),
          br_requested = length tx_ids, br_scores_observed = completed,
          br_redis_observed = card redis_ids, br_websocket_observed = length (os_ingest websocket),
          br_outbox_errors = errors, br_verdict = evaluate tx_ids rows entries websocket errors\<rparr>)"

text \<open>The events that the run sent to Kafka, whatever comes after them, with the report.\<close>

definition benchmark ::
  "runtime \<Rightarrow> (string \<Rightarrow> string) \<Rightarrow> (score_entry list \<Rightarrow> score_entry list) \<Rightarrow> settings \<Rightarrow> bench_args
     \<Rightarrow> bench_env \<Rightarrow> graph_batch_event list \<times> bench_report result"
where
  "benchmark rt collate scan cfg args env =
     (if risk_scores (be_start env) = []
      then ([], Inl (RuntimeError ''benchmark requires at least one real canonical score''))
      else case busiest_tx collate (be_start env) of
        None \<Rightarrow> ([], Inl (RuntimeError ''benchmark requires a queryable transaction''))
      | Some query_tx_id \<Rightarrow>
          let tx_ids = bench_tx_ids (be_run_id env) (ba_load_samples args);
              cursor = (case be_latest env of None \<Rightarrow> ''0-0'' | Some i \<Rightarrow> i);
              iterations = [0..<nat (ba_query_iterations args)];
              loads = map (\<lambda>i. (tx_ids ! i, be_load env i)) [0..<length tx_ids]
          in if \<not> be_ready env then ([], Inl TimeoutError)
             else case publish_benchmark_workload rt collate cfg (be_load_db env) (be_run_id env) loads
                    (ba_load_rate args) of (load, kafka_ingestion) \<Rightarrow>
               (pb_events load, rbind kafka_ingestion (\<lambda>ingestion.
               rbind (wait_for_scores collate tx_ids (be_polls env) no_rows) (\<lambda>rows.
               let websocket = websocket_samples (set tx_ids) (be_received env) in
               rbind (query_benchmark collate scan cfg query_tx_id 1 (map (be_one_hop env) iterations)) (\<lambda>one_hop.
               rbind (query_benchmark collate scan cfg query_tx_id 2 (map (be_two_hop env) iterations)) (\<lambda>two_hop.
               Inr (bench_report_of tx_ids load ingestion rows websocket one_hop two_hop
                      (be_entries env cursor) (be_end env))))))))"

text \<open>What was sent, the exit status, and the report that is printed. An exception that escapes exits with 1.\<close>

definition bench_main ::
  "runtime \<Rightarrow> (string \<Rightarrow> string) \<Rightarrow> (score_entry list \<Rightarrow> score_entry list) \<Rightarrow> settings \<Rightarrow> bench_args
     \<Rightarrow> bench_env \<Rightarrow> graph_batch_event list \<times> int \<times> bench_report option"
where
  "bench_main rt collate scan cfg args env =
     (case args_error args of
        Some _ \<Rightarrow> ([], 2, None)
      | None \<Rightarrow>
          (case benchmark rt collate scan cfg args env of
             (sent, Inl _) \<Rightarrow> (sent, 1, None)
           | (sent, Inr report) \<Rightarrow>
               (sent, if ba_require_target args \<and> \<not> ve_met (br_verdict report) then 1 else 0, Some report)))"

subsection \<open>The transactions of a run\<close>

lemma str_nat_first: "0 < n \<Longrightarrow> \<exists>c s. str_nat n = c # s \<and> c \<noteq> CHR ''0''"
proof (induction n rule: str_nat.induct)
  case (1 n)
  show ?case
  proof (cases "n < 10")
    case True
    have "digit_val (CHR ''0'') = 0" by (simp add: digit_val_def)
    then have "digit_val (digit_char n) \<noteq> digit_val (CHR ''0'')"
      using 1(2) True by (simp only: digit_val_char)
    then have "digit_char n \<noteq> CHR ''0''" by (rule contrapos_nn) (rule arg_cong)
    with True show ?thesis by (simp add: str_nat.simps [of n])
  next
    case False
    then have "0 < n div 10" by simp
    from 1(1) [OF False this] obtain c s where "str_nat (n div 10) = c # s" "c \<noteq> CHR ''0''" by blast
    with False show ?thesis by (simp add: str_nat.simps [of n])
  qed
qed

lemma zero_padded_inj: "0 < m \<Longrightarrow> 0 < n \<Longrightarrow> zero_padded m = zero_padded n \<Longrightarrow> m = n"
proof -
  have "dropWhile (\<lambda>c. c = CHR ''0'') (zero_padded k) = str_nat k" if "0 < k" for k
  proof -
    from str_nat_first [OF that] obtain c s where "str_nat k = c # s" "c \<noteq> CHR ''0''" by blast
    then show ?thesis by (simp add: zero_padded_def dropWhile_append)
  qed
  then show "0 < m \<Longrightarrow> 0 < n \<Longrightarrow> zero_padded m = zero_padded n \<Longrightarrow> m = n" by (metis str_nat_inj)
qed

lemma bench_tx_ids_distinct: "distinct (bench_tx_ids run_id samples)"
  unfolding bench_tx_ids_def distinct_map
proof (intro conjI inj_onI)
  fix m n
  assume "m \<in> set [1..<Suc (nat samples)]" "n \<in> set [1..<Suc (nat samples)]"
    and "''bench-'' @ run_id @ ''-'' @ zero_padded m = ''bench-'' @ run_id @ ''-'' @ zero_padded n"
  then show "m = n" by (intro zero_padded_inj) auto
qed simp

lemma length_bench_tx_ids: "length (bench_tx_ids run_id samples) = nat samples"
  by (simp add: bench_tx_ids_def)

lemma report_verdict:
  "br_verdict (bench_report_of tx_ids load ingestion rows websocket one_hop two_hop entries d) =
     evaluate tx_ids rows entries websocket (error_count tx_ids d)"
  by (cases "redis_samples (set tx_ids) entries") (simp add: bench_report_of_def Let_def)

lemma wait_rows:
  "wait_for_scores collate tx_ids polls rows0 = Inr rows \<Longrightarrow>
     rows0 = Inr rows \<or> (\<exists>d. (True, d) \<in> set polls \<and> rows = score_rows collate tx_ids d)"
proof (induction collate tx_ids polls rows0 rule: wait_for_scores.induct)
  case (2 collate tx_ids in_time d polls rows0)
  show ?case
  proof (cases "in_time \<and> length (score_rows collate tx_ids d) \<noteq> length tx_ids")
    case True
    with 2(2) have "wait_for_scores collate tx_ids polls (Inr (score_rows collate tx_ids d)) = Inr rows"
      by (simp add: Let_def)
    from 2(1) [OF _ refl _ this] True show ?thesis by auto
  next
    case False
    with 2(2) show ?thesis by (cases in_time) (auto simp: Let_def)
  qed
qed simp

text \<open>The load, when it is published to its end: one valid batch per transaction, in order.\<close>

lemma publish_load_events:
  "publish_load rt cfg run_id features wm off rate target k txs st = (st', None) \<Longrightarrow>
     pb_events st' = pb_events st @ map2 (\<lambda>i (t, e). load_event rt cfg run_id features wm off (int i) t e)
       [k..<k + length txs] txs \<and>
     (\<forall>ev \<in> set (pb_events st') - set (pb_events st). valid_graph_batch ev)"
proof (induction rt cfg run_id features wm off rate target k txs st rule: publish_load.induct)
  case (2 rt cfg run_id features wm off rate target k tx_id env rest st)
  let ?ev = "load_event rt cfg run_id features wm off (int k) tx_id env"
  have valid: "valid_graph_batch ?ev" and send: "lo_send env = None"
    using 2(2) by (auto simp: checked_def Let_def split: if_splits option.splits)
  have "[k..<k + length ((tx_id, env) # rest)] = k # [Suc k..<Suc k + length rest]"
    by (simp add: upt_rec)
  with 2(1) [OF _ refl send refl refl] 2(2) valid send show ?case
    by (fastforce simp: checked_def Let_def)
qed simp

definition sent_for :: "int \<Rightarrow> nat \<Rightarrow> string \<Rightarrow> graph_batch_event \<Rightarrow> bool" where
  "sent_for wm i t ev \<longleftrightarrow> valid_graph_batch ev \<and> map node_tx_id (batch_nodes (payload ev)) = [t] \<and>
     batch_edges (payload ev) = [] \<and> batch_time_step (payload ev) = wm + int i + 1"

lemma workload_events:
  assumes "publish_benchmark_workload rt collate cfg d run_id txs rate = (load, Inr x)"
  shows "length (pb_events load) = length txs \<and>
    (\<forall>i < length txs. sent_for (max_or 0 (map (\<lambda>(_, row). tx_graph_watermark row) (transactions d))) i
      (fst (txs ! i)) (pb_events load ! i))"
proof -
  let ?wm = "max_or 0 (map (\<lambda>(_, row). tx_graph_watermark row) (transactions d))"
  obtain features off where run: "publish_load rt cfg run_id features ?wm off rate (length txs) 1 txs
      \<lparr>pb_events = [], pb_ack_ms = [], pb_pauses = [], pb_first = None, pb_last = None\<rparr> = (load, None)"
    using assms by (auto simp: publish_benchmark_workload_def Let_def split: option.splits prod.splits)
  from publish_load_events [OF run] have events: "pb_events load =
      map2 (\<lambda>i (t, e). load_event rt cfg run_id features ?wm off (int i) t e) [1..<1 + length txs] txs"
    and valid: "\<forall>ev \<in> set (pb_events load). valid_graph_batch ev" by simp_all
  have "sent_for ?wm i (fst (txs ! i)) (pb_events load ! i)" if i: "i < length txs" for i
  proof -
    obtain t e where t: "txs ! i = (t, e)" by (cases "txs ! i")
    then have "pb_events load ! i = load_event rt cfg run_id features ?wm off (int (Suc i)) t e"
      using i by (simp add: events del: upt_Suc)
    moreover have "pb_events load ! i \<in> set (pb_events load)"
      by (rule nth_mem) (use i in \<open>simp add: events del: upt_Suc\<close>)
    ultimately show ?thesis using valid t by (simp add: sent_for_def load_event_def)
  qed
  moreover have "length (pb_events load) = length txs" by (simp add: events del: upt_Suc)
  ultimately show ?thesis by blast
qed

text \<open>
  C39. What the exit status of the benchmark says. If a run with \<open>--require-target\<close> exits with 0, then
  it sent one valid batch for each of its transactions, in order, each of that transaction alone and
  one time step after the last, at least two and all different, and in one poll in time the database
  had as many canonical scores for them; every one of them was found in Redis, every one was received live on the
  WebSocket with its latency, no outbox row of them has an error, and at least 95 of 100 of these
  latencies are below 270 ms: neither the rounding nor the rank flatter them.
\<close>

theorem benchmark_exit_sound:
  assumes main: "bench_main rt collate scan cfg args env = (sent, 0, Some report)" and "ba_require_target args"
  defines "tx_ids \<equiv> bench_tx_ids (be_run_id env) (ba_load_samples args)"
    and "entries \<equiv> be_entries env (case be_latest env of None \<Rightarrow> ''0-0'' | Some i \<Rightarrow> i)"
  defines "ws \<equiv> websocket_samples (set tx_ids) (be_received env)"
    and "wm \<equiv> max_or 0 (map (\<lambda>(_, row). tx_graph_watermark row) (transactions (be_load_db env)))"
  shows "2 \<le> length tx_ids \<and> int (length tx_ids) = ba_load_samples args \<and> distinct tx_ids \<and>
    length sent = length tx_ids \<and>
    (\<forall>i < length tx_ids. valid_graph_batch (sent ! i) \<and>
       map node_tx_id (batch_nodes (payload (sent ! i))) = [tx_ids ! i] \<and>
       batch_edges (payload (sent ! i)) = [] \<and> batch_time_step (payload (sent ! i)) = wm + int i + 1) \<and>
    (\<exists>d. (True, d) \<in> set (be_polls env) \<and> length (score_rows collate tx_ids d) = length tx_ids) \<and>
    fst (redis_samples (set tx_ids) entries) = set tx_ids \<and> os_seen ws = set tx_ids \<and>
    length (os_ingest ws) = length tx_ids \<and> error_count tx_ids (be_end env) = 0 \<and>
    95 * length tx_ids \<le> 100 * length (filter (\<lambda>v. v < 270) (os_ingest ws))"
proof -
  from main assms(2) have args: "args_error args = None"
    and run: "benchmark rt collate scan cfg args env = (sent, Inr report)" and met: "ve_met (br_verdict report)"
    by (auto simp: bench_main_def split: option.splits prod.splits sum.splits if_splits)
  have size: "2 \<le> ba_load_samples args" using args by (auto simp: args_error_def split: if_splits)
  then have len: "2 \<le> length tx_ids" "int (length tx_ids) = ba_load_samples args" "tx_ids \<noteq> []"
    using length_bench_tx_ids [of "be_run_id env" "ba_load_samples args"]
    by (auto simp: tx_ids_def simp flip: length_greater_0_conv)
  from run obtain load ingestion where load: "publish_benchmark_workload rt collate cfg (be_load_db env)
      (be_run_id env) (map (\<lambda>i. (tx_ids ! i, be_load env i)) [0..<length tx_ids]) (ba_load_rate args) =
        (load, Inr ingestion)" "sent = pb_events load"
    unfolding benchmark_def Let_def tx_ids_def
    by (auto simp: result_simps split: if_splits option.split_asm prod.split_asm)
  from workload_events [OF load(1)] load(2) have sent: "length sent = length tx_ids"
    "\<forall>i < length tx_ids. sent_for wm i (tx_ids ! i) (sent ! i)"
    by (simp_all add: wm_def)
  from run obtain rows where rows: "wait_for_scores collate tx_ids (be_polls env) no_rows = Inr rows"
    and report: "br_verdict report = evaluate tx_ids rows entries ws (error_count tx_ids (be_end env))"
    unfolding benchmark_def Let_def ws_def entries_def tx_ids_def
    by (auto simp: result_simps report_verdict split: if_splits option.split_asm prod.split_asm)
  have dist: "distinct tx_ids" unfolding tx_ids_def by (rule bench_tx_ids_distinct)
  note sound = benchmark_met_sound [OF dist len(3) met [unfolded report ws_def], folded ws_def]
  moreover from wait_rows [OF rows] obtain d where "(True, d) \<in> set (be_polls env)"
    "rows = score_rows collate tx_ids d" by (auto simp: no_rows_def)
  ultimately show ?thesis using len dist sent unfolding sent_for_def by blast
qed

text \<open>
  The wait counts rows, not transactions: two models that scored one transaction make it return while
  another has no score at all.
\<close>

lemma two_models_count_twice:
  "wait_for_scores id [''a'', ''b'']
     [(True, db_ab\<lparr>risk_scores := [((''a'', ''m1''), row), ((''a'', ''m2''), row)]\<rparr>)] no_rows =
   Inr [((''a'', ''m1''), row), ((''a'', ''m2''), row)]"
  by (simp add: score_rows_def Let_def)

text \<open>A run of two transactions.\<close>

definition bench_sample_args :: bench_args where
  "bench_sample_args = \<lparr>ba_load_samples = 2, ba_load_rate = 10, ba_query_iterations = 1,
     ba_websocket_duration = 15, ba_pipeline_timeout = 30, ba_worker_count = 1, ba_require_target = True\<rparr>"

definition bench_db :: db where
  "bench_db = db_ab\<lparr>risk_scores := map (\<lambda>t. ((t, ''m''),
     score_of 0 (sample_result (CHR ''1'') t (1 / 2) 1 4))) (bench_tx_ids ''r'' 2)\<rparr>"

definition bench_sample_env :: bench_env where
  "bench_sample_env =
     (let ids = bench_tx_ids ''r'' 2 in
     \<lparr>be_run_id = ''r'', be_start = bench_db, be_latest = None, be_ready = True,
      be_received = [(True, Received (live_message (ids ! 0) 100)), (True, NothingYet),
        (True, Received (live_message (ids ! 0) 400)), (True, Received (live_message (ids ! 1) 200))],
      be_load_db = bench_db,
      be_load = (\<lambda>_. \<lparr>lo_scheduled = 0, lo_started = 1, lo_acknowledged = 2, lo_checked = 2, lo_now = 5,
        lo_trace = replicate 32 (CHR ''a''), lo_send = None\<rparr>),
      be_polls = [(True, bench_db)],
      be_one_hop = (\<lambda>_. (bench_db, 1)), be_two_hop = (\<lambda>_. (bench_db, 1)),
      be_entries = (\<lambda>_. map (\<lambda>t. \<lparr>rs_tx_id = t, rs_publication = None, rs_ingest = None\<rparr>) ids),
      be_end = bench_db\<rparr>)"

lemma bench_sample_ids: "bench_tx_ids ''r'' 2 = [''bench-r-0001'', ''bench-r-0002'']"
  by code_simp

abbreviation "bench_cfg \<equiv> default_settings ''b'' ''h''"

lemma bench_busiest: "busiest_tx id bench_db = Some ''a''"
  by (simp add: busiest_tx_def bench_db_def db_ab_def)

lemma bench_query: "query_benchmark id id bench_cfg ''a'' h [(bench_db, 1)] = Inr [1000]"
  by (simp add: get_bounded_subgraph_def bench_db_def db_ab_def Let_def)

lemma bench_event_valid:
  assumes "wm \<in> {0..9}" and "off \<in> {-1..9}" and "i \<in> {1..2}" and "t \<in> set (bench_tx_ids ''r'' 2)"
  shows "valid_graph_batch (load_event sample_runtime bench_cfg ''r'' (replicate 165 0) wm off i t
    (be_load bench_sample_env n))"
  using assms
  by (auto simp: load_event_def bench_sample_env_def Let_def valid_graph_batch_def valid_envelope_def
      valid_batch_payload_def valid_node_def len_in_def SCHEMA_VERSION_V1_def deterministic_event_id_def
      sample_runtime_def bench_sample_ids default_settings_def hex_lower_def)

lemma bench_load:
  obtains load ingestion where "publish_benchmark_workload sample_runtime id bench_cfg bench_db ''r''
    (map (\<lambda>i. (bench_tx_ids ''r'' 2 ! i, be_load bench_sample_env i)) [0..<2]) 10 = (load, Inr ingestion)"
proof -
  let ?load = "publish_benchmark_workload sample_runtime id bench_cfg bench_db ''r''
    (map (\<lambda>i. (bench_tx_ids ''r'' 2 ! i, be_load bench_sample_env i)) [0..<2]) 10"
  have template: "load_template id bench_db = Some (replicate 165 0)"
    by (simp add: load_template_def bench_db_def db_ab_def sample_tx_def)
  have wm: "max_or 0 (map (\<lambda>(_, row). tx_graph_watermark row) (transactions bench_db)) = 1"
    and off: "max_or (- 1) (map (\<lambda>(_, row). cp_source_offset row)
      (filter (\<lambda>(s, _). s = stream_name bench_cfg) (stream_checkpoints bench_db))) = - 1"
    by (simp_all add: max_or_def bench_db_def db_ab_def sample_tx_def empty_db_def)
  have upt: "[0..<2] = [0, 1 :: nat]" by (simp add: upt_rec)
  have send: "lo_send (be_load bench_sample_env n) = None" for n
    by (simp add: bench_sample_env_def Let_def)
  have ids: "bench_tx_ids ''r'' 2 ! 0 \<in> set (bench_tx_ids ''r'' 2)" "bench_tx_ids ''r'' 2 ! 1 \<in> set (bench_tx_ids ''r'' 2)"
    by (simp_all add: bench_sample_ids)
  have "\<exists>load ingestion. ?load = (load, Inr ingestion)"
    using bench_event_valid [of 1 "- 1" 1, OF _ _ _ ids(1), of 0] bench_event_valid [of 1 "- 1" 2, OF _ _ _ ids(2), of 1]
    by (simp add: publish_benchmark_workload_def template wm off upt send checked_def Let_def)
  then show thesis using that by blast
qed

lemma bench_met:
  assumes "length rows = 2"
  shows "ve_met (evaluate (bench_tx_ids ''r'' 2) rows (be_entries bench_sample_env i)
    (websocket_samples (set (bench_tx_ids ''r'' 2)) (be_received bench_sample_env)) 0)"
proof -
  let ?rs = "be_received bench_sample_env"
  have ws: "os_ingest (websocket_samples (set (bench_tx_ids ''r'' 2)) ?rs) = [100, 200]"
    by (simp add: bench_sample_env_def Let_def bench_sample_ids websocket_samples_def is_sample_def
        take_sample_def live_message_def)
  have entries: "fst (redis_samples (set (bench_tx_ids ''r'' 2)) (be_entries bench_sample_env i)) =
      set (bench_tx_ids ''r'' 2)"
    by (auto simp: bench_sample_env_def Let_def bench_sample_ids redis_samples_def redis_step_def)
  have "\<lceil>19 / 10 :: rat\<rceil> = 2" by (rule ceiling_unique) simp_all
  then have "percentile [100, 200] (95 / 100) = 200"
    by (simp add: percentile_def Let_def py_round_def round_half_even_def)
  then show ?thesis
    using assms by (simp add: evaluate_def Let_def entries ws distribution_def) (simp add: bench_sample_ids)
qed

theorem benchmark_exit_sound_witness:
  "\<exists>sent report. bench_main sample_runtime id id bench_cfg bench_sample_args bench_sample_env = (sent, 0, Some report) \<and>
     length sent = 2 \<and>
     os_seen (websocket_samples (set (bench_tx_ids ''r'' 2)) (be_received bench_sample_env)) =
       set (bench_tx_ids ''r'' 2)"
proof -
  let ?ids = "bench_tx_ids ''r'' 2"
  have len: "length ?ids = 2" by (simp add: bench_sample_ids)
  obtain load ingestion where load: "publish_benchmark_workload sample_runtime id bench_cfg bench_db ''r''
    (map (\<lambda>i. (?ids ! i, be_load bench_sample_env i)) [0..<2]) 10 = (load, Inr ingestion)"
    by (rule bench_load)
  let ?rows = "score_rows id ?ids bench_db"
  have rows: "length ?rows = 2" by (simp add: score_rows_def bench_db_def bench_sample_ids)
  have errors: "error_count ?ids bench_db = 0" by (simp add: error_count_def bench_db_def db_ab_def empty_db_def)
  have env: "be_run_id bench_sample_env = ''r''" "be_start bench_sample_env = bench_db"
    "be_latest bench_sample_env = None" "be_ready bench_sample_env" "be_load_db bench_sample_env = bench_db"
    "be_polls bench_sample_env = [(True, bench_db)]" "be_one_hop bench_sample_env 0 = (bench_db, 1)"
    "be_two_hop bench_sample_env 0 = (bench_db, 1)" "be_end bench_sample_env = bench_db"
    by (simp_all add: bench_sample_env_def Let_def)
  have args: "args_error bench_sample_args = None" "ba_load_samples bench_sample_args = 2"
    "ba_load_rate bench_sample_args = 10" "ba_query_iterations bench_sample_args = 1"
    "ba_require_target bench_sample_args"
    by (simp_all add: bench_sample_args_def args_error_def)
  have "risk_scores bench_db \<noteq> []" by (simp add: bench_db_def bench_sample_ids)
  then obtain report where run: "benchmark sample_runtime id id bench_cfg bench_sample_args bench_sample_env = (pb_events load, Inr report)"
    and verdict: "br_verdict report =
      evaluate ?ids ?rows (be_entries bench_sample_env ''0-0'')
        (websocket_samples (set ?ids) (be_received bench_sample_env)) 0"
    by (simp add: benchmark_def env args bench_busiest len load rows bench_query report_verdict errors
        Let_def del: query_benchmark.simps)
  have "bench_main sample_runtime id id bench_cfg bench_sample_args bench_sample_env =
      (pb_events load, 0, Some report)"
    using bench_met [OF rows, of "''0-0''"] by (simp add: bench_main_def args run verdict)
  with benchmark_exit_sound [OF this args(5)] show ?thesis by (simp add: env args len)
qed

end
