(* ===== verification/Baseline.thy ===== *)
theory Baseline
  imports Training_Props
begin

text \<open>
  \<open>notebooks/02_baseline.ipynb\<close>: the gradient boosting baseline, up to the calls of the library, and
  how its split compares with that of the network. A class that the join did not find is \<open>None\<close>, the
  NaN of the data frame.
\<close>

record 'id classed_row = "'id feature_row" +
  cr_class :: "string option"

definition classed :: "'id feature_row \<Rightarrow> string option \<Rightarrow> 'id classed_row" where
  "classed f c = \<lparr>fr_txId = fr_txId f, fr_time_step = fr_time_step f, fr_features = fr_features f,
     cr_class = c\<rparr>"

definition baseline_table ::
  "'id feature_row list \<Rightarrow> ('id \<times> string) list \<Rightarrow> 'id classed_row list"
where
  "baseline_table features classes =
     concat (map (\<lambda>f. map (classed f) (left_join (fr_txId f) classes)) features)"

text \<open>NaN differs from every string, so a row without a class is kept, with a NaN label.\<close>

definition preprocess_data ::
  "'id classed_row list \<Rightarrow> matrix \<times> int option list \<times> int list"
where
  "preprocess_data nodes =
     (let labelled = filter (\<lambda>n. cr_class n \<noteq> Some ''unknown'') nodes
      in (map fr_features labelled, map (\<lambda>n. Option.bind (cr_class n) label_map) labelled,
          map fr_time_step labelled))"

definition train_split :: "int list \<Rightarrow> bool list" where
  "train_split time_step = map (\<lambda>t. t \<le> 34) time_step"

definition val_split :: "int list \<Rightarrow> bool list" where
  "val_split time_step = map (\<lambda>t. 35 \<le> t \<and> t \<le> 41) time_step"

definition test_split :: "int list \<Rightarrow> bool list" where
  "test_split time_step = map (\<lambda>t. 42 \<le> t) time_step"

record 'm baseline_report =
  br_sizes :: "nat \<times> nat \<times> nat"
  br_test :: "int option list"
  br_predicted :: "int list"
  br_model :: 'm

definition train_xgboost ::
  "(matrix \<Rightarrow> int option list \<Rightarrow> 'm result) \<Rightarrow> ('m \<Rightarrow> matrix \<Rightarrow> int list) \<Rightarrow> matrix \<Rightarrow> int option list
     \<Rightarrow> int list \<Rightarrow> 'm baseline_report result"
where
  "train_xgboost fit predict X y time_step =
     (let X_train = masked (train_split time_step) X; y_train = masked (train_split time_step) y;
          X_val = masked (val_split time_step) X;
          X_test = masked (test_split time_step) X; y_test = masked (test_split time_step) y
      in rbind (fit X_train y_train) (\<lambda>model.
         Inr \<lparr>br_sizes = (length X_train, length X_val, length X_test), br_test = y_test,
              br_predicted = predict model X_test, br_model = model\<rparr>))"

definition baseline_main ::
  "(matrix \<Rightarrow> int option list \<Rightarrow> 'm result) \<Rightarrow> ('m \<Rightarrow> matrix \<Rightarrow> int list) \<Rightarrow> 'id feature_row list
     \<Rightarrow> ('id \<times> string) list \<Rightarrow> 'm baseline_report result"
where
  "baseline_main fit predict features classes =
     (case preprocess_data (baseline_table features classes) of
        (X, y, time_step) \<Rightarrow> train_xgboost fit predict X y time_step)"

subsection \<open>The same rows\<close>

lemma masked_map: "masked (map P xs) (map f xs) = map f (filter P xs)"
  by (induction xs) (auto simp: masked_def)

text \<open>Every transaction has a class, one of the three of the data set.\<close>

definition classes_complete :: "'id feature_row list \<Rightarrow> ('id \<times> string) list \<Rightarrow> bool" where
  "classes_complete features classes \<longleftrightarrow>
     (\<forall>f \<in> set features. fr_txId f \<in> fst ` set classes) \<and>
     (\<forall>c \<in> snd ` set classes. c = ''1'' \<or> c = ''2'' \<or> c = ''unknown'')"

definition entry_of :: "'id classed_row \<Rightarrow> 'id node_entry" where
  "entry_of r = \<lparr>fr_txId = fr_txId r, fr_time_step = fr_time_step r, fr_features = fr_features r,
     ne_label = fillna (- 1) (Option.bind (cr_class r) label_map)\<rparr>"

lemma same_table: "build_node_table features classes = map entry_of (baseline_table features classes)"
proof -
  have "labelled f (fillna (- 1) (Option.bind (map_option label_map c) id)) = entry_of (classed f c)"
    for f :: "'a feature_row" and c
    by (cases c) (simp_all add: labelled_def entry_of_def classed_def)
  then show ?thesis
    by (simp add: build_node_table_def baseline_table_def left_join_map map_concat o_def)
qed

lemma complete_class:
  assumes "classes_complete features classes" and "r \<in> set (baseline_table features classes)"
  shows "cr_class r = Some ''1'' \<or> cr_class r = Some ''2'' \<or> cr_class r = Some ''unknown''"
proof -
  from assms(2) obtain f x where f: "f \<in> set features" "x \<in> set (left_join (fr_txId f) classes)" "cr_class r = x"
    by (auto simp: baseline_table_def classed_def)
  have "filter (\<lambda>(t, _). t = fr_txId f) classes \<noteq> []"
    using assms(1) f(1) by (fastforce simp: classes_complete_def filter_empty_conv)
  then have "left_join (fr_txId f) classes = map (\<lambda>(_, v). Some v) (filter (\<lambda>(t, _). t = fr_txId f) classes)"
    by (simp add: left_join_def split: list.splits)
  with f(2) obtain t c where "(t, c) \<in> set classes" "x = Some c" by auto
  then show ?thesis using assms(1) f(3) by (force simp: classes_complete_def)
qed

lemma kept_iff:
  assumes "classes_complete features classes" and "r \<in> set (baseline_table features classes)"
  shows "cr_class r \<noteq> Some ''unknown'' \<longleftrightarrow> has_label (entry_of r)"
  using complete_class [OF assms] by (auto simp: has_label_def entry_of_def label_map_def fillna_def)

lemma filter_kept:
  assumes "classes_complete features classes"
  shows "filter P (filter (\<lambda>n. cr_class n \<noteq> Some ''unknown'') (baseline_table features classes)) =
    filter (\<lambda>r. P r \<and> has_label (entry_of r)) (baseline_table features classes)"
  unfolding filter_filter using kept_iff [OF assms] by (intro filter_cong [OF refl]) blast

text \<open>
  Where every transaction has a class the baseline is fitted on exactly the rows the scaler of the
  network is fitted on, and tested on the labels the network is tested on.
\<close>

theorem baseline_same_rows:
  assumes "classes_complete features classes" and "nodes = build_node_table features classes"
    and pre: "preprocess_data (baseline_table features classes) = (X, y, ts)"
  shows "masked (train_split ts) X = fitted_rows nodes \<and>
    masked (test_split ts) y = map Some (masked (snd (snd (temporal_masks nodes))) (map ne_label nodes))"
proof -
  let ?rows = "baseline_table features classes" and ?keep = "\<lambda>n. cr_class n \<noteq> Some ''unknown''"
  have n: "nodes = map entry_of ?rows" by (simp add: assms(2) same_table)
  have p: "X = map fr_features (filter ?keep ?rows)" "ts = map fr_time_step (filter ?keep ?rows)"
    "y = map (\<lambda>n. Option.bind (cr_class n) label_map) (filter ?keep ?rows)"
    using pre by (auto simp: preprocess_data_def Let_def)
  have sel: "fr_time_step (entry_of r) = fr_time_step r" "fr_features (entry_of r) = fr_features r" for r :: "'a classed_row"
    by (simp_all add: entry_of_def)
  have "masked (train_split ts) X = map fr_features (filter (\<lambda>r. fr_time_step r \<le> 34) (filter ?keep ?rows))"
    by (simp add: p train_split_def masked_map o_def)
  also have "\<dots> = map fr_features (filter (\<lambda>r. fr_time_step r \<le> 34 \<and> has_label (entry_of r)) ?rows)"
    unfolding filter_kept [OF assms(1)] ..
  also have "\<dots> = fitted_rows nodes"
    by (simp add: fitted_rows_def n masked_map o_def filter_map sel)
  finally have train: "masked (train_split ts) X = fitted_rows nodes" .
  have "masked (test_split ts) y = map (\<lambda>n. Option.bind (cr_class n) label_map)
      (filter (\<lambda>r. 42 \<le> fr_time_step r) (filter ?keep ?rows))"
    by (simp add: p test_split_def masked_map o_def)
  also have "\<dots> = map (\<lambda>n. Option.bind (cr_class n) label_map)
      (filter (\<lambda>r. 42 \<le> fr_time_step r \<and> has_label (entry_of r)) ?rows)"
    unfolding filter_kept [OF assms(1)] ..
  also have "\<dots> = map (\<lambda>r. Some (ne_label (entry_of r)))
      (filter (\<lambda>r. 42 \<le> fr_time_step r \<and> has_label (entry_of r)) ?rows)"
    by (rule map_cong [OF refl])
      (auto simp: has_label_def entry_of_def fillna_def split: option.splits)
  also have "\<dots> = map Some (masked (snd (snd (temporal_masks nodes))) (map ne_label nodes))"
    by (simp add: temporal_masks_def n masked_map o_def filter_map sel)
  finally show ?thesis using train by simp
qed

text \<open>A transaction without a class row is not dropped as unlabelled: it is kept with a missing label.\<close>

lemma unmatched_kept:
  "preprocess_data (baseline_table [\<lparr>fr_txId = (7 :: nat), fr_time_step = 1, fr_features = [0]\<rparr>] []) =
     ([[0]], [None], [1])"
  by (simp add: preprocess_data_def baseline_table_def left_join_def classed_def)

end
