(* ===== verification/Live_Tools.thy ===== *)
theory Live_Tools
  imports Score_Props Worker_Props
begin

text \<open>
  The scripts that are run against a live system: \<open>scripts/bootstrap_topics.py\<close>,
  \<open>scripts/failure_probe.py\<close> and \<open>scripts/verify_pipeline.py\<close>. What the broker, the database, Redis
  and the gateway answer is input.
\<close>

subsection \<open>Topics\<close>

record topic_spec =
  tp_name :: string
  tp_partitions :: int
  tp_replication :: int
  tp_configs :: "(string \<times> string) list"

definition new_topic :: "settings \<Rightarrow> string \<Rightarrow> int \<Rightarrow> string \<Rightarrow> topic_spec" where
  "new_topic cfg topic partitions retention =
     \<lparr>tp_name = topic, tp_partitions = partitions, tp_replication = 1,
      tp_configs = [(''retention.ms'', retention),
        (''max.message.bytes'', str_int (kafka_max_message_bytes cfg))]\<rparr>"

definition pipeline_topics :: "settings \<Rightarrow> topic_spec list" where
  "pipeline_topics cfg =
     [new_topic cfg (graph_batch_topic cfg) (graph_batch_partitions cfg) ''604800000'',
      new_topic cfg (scoring_request_topic cfg) (scoring_request_partitions cfg) ''604800000'',
      new_topic cfg (scoring_result_topic cfg) (scoring_result_partitions cfg) ''604800000'',
      new_topic cfg (scoring_dlq_topic cfg) (scoring_dlq_partitions cfg) ''2592000000'']"

definition is_topic_exists :: "exn \<Rightarrow> bool" where
  "is_topic_exists x = (case x of OtherError name _ \<Rightarrow> name = ''TopicAlreadyExistsError'' | _ \<Rightarrow> False)"

text \<open>The names that are missing make it fail, otherwise all are printed, sorted.\<close>

definition topics_ready :: "string list \<Rightarrow> string list \<Rightarrow> (string list) result" where
  "topics_ready existing wanted =
     (let missing = sort (filter (\<lambda>t. t \<notin> set existing) wanted) in
      if missing \<noteq> [] then Inl (RuntimeError ''Kafka topic bootstrap incomplete'')
      else Inr (sort wanted))"

text \<open>\<open>create\<close> is what the admin client does, with what it raises; \<open>topics_of\<close> lists the topics.\<close>

definition bootstrap ::
  "(topic_spec list \<Rightarrow> 'b \<Rightarrow> 'b \<times> exn option) \<Rightarrow> ('b \<Rightarrow> string list) \<Rightarrow> settings \<Rightarrow> 'b
     \<Rightarrow> 'b \<times> (string list) result"
where
  "bootstrap create topics_of cfg b =
     (case create (pipeline_topics cfg) b of
        (b1, ex) \<Rightarrow>
          (b1, case ex of
             Some x \<Rightarrow> if is_topic_exists x then topics_ready (topics_of b1) (map tp_name (pipeline_topics cfg)) else Inl x
           | None \<Rightarrow> topics_ready (topics_of b1) (map tp_name (pipeline_topics cfg))))"

text \<open>When the tool reports success, every topic the services name exists.\<close>

lemma bootstrap_ready:
  assumes "bootstrap create topics_of cfg b = (b1, Inr names)"
  shows "{graph_batch_topic cfg, scoring_request_topic cfg, scoring_result_topic cfg,
      scoring_dlq_topic cfg} \<subseteq> set (topics_of b1)"
  using assms
  by (auto simp: bootstrap_def topics_ready_def pipeline_topics_def new_topic_def Let_def
      split: prod.splits option.splits if_splits)

text \<open>A topic takes every message the producers of the services are allowed to send.\<close>

lemma topics_take_messages:
  assumes "t \<in> set (pipeline_topics cfg)"
  shows "\<exists>n. (''max.message.bytes'', str_int n) \<in> set (tp_configs t) \<and>
    (''max_request_size'', KInt n) \<in> set (build_producer cfg client)"
  using assms by (auto simp: pipeline_topics_def new_topic_def build_producer_def)

subsection \<open>The failure probe\<close>

record probe_env =
  pv_event_id :: string
  pv_trace :: string
  pv_occurred :: int
  pv_produced :: int
  pv_ingested :: int
  pv_requested :: int
  pv_send :: "exn option"

definition probe_request :: "settings \<Rightarrow> string \<Rightarrow> transaction_row \<Rightarrow> probe_env \<Rightarrow> scoring_requested" where
  "probe_request cfg tx row env =
     \<lparr>event_id = pv_event_id env, event_type = ''risk.scoring.requested.v1'',
      schema_version = SCHEMA_VERSION_V1, occurred_at = Aware (pv_occurred env),
      produced_at = Aware (pv_produced env), producer = ''failure-probe'', trace_id = pv_trace env,
      traceparent = None, correlation_id = ''failure-probe:'' @ pv_event_id env, causation_id = None,
      payload =
        \<lparr>req_tx_id = tx, req_graph_watermark = tx_graph_watermark row,
         req_source_time_step = tx_time_step row, req_event_sequence = 999999,
         req_feature_schema_version = cfg_feature_schema_version cfg,
         req_source_ingested_at = Aware (pv_ingested env), req_requested_at = Aware (pv_requested env)\<rparr>\<rparr>"

definition probe_result_id :: "runtime \<Rightarrow> settings \<Rightarrow> probe_env \<Rightarrow> string" where
  "probe_result_id rt cfg env =
     deterministic_event_id (rt_uuid5 rt) ''risk.scoring.completed.v1''
       [SPart (pv_event_id env), SPart (cfg_model_version cfg)]"

text \<open>\<open>issue\<close>: the oldest transaction (\<open>scan\<close> breaks ties), the message it sends and the id it prints.\<close>

definition issue ::
  "runtime \<Rightarrow> ((string \<times> transaction_row) list \<Rightarrow> (string \<times> transaction_row) list) \<Rightarrow> settings
     \<Rightarrow> probe_env \<Rightarrow> db \<Rightarrow> (scoring_requested message \<times> string) result"
where
  "issue rt scan cfg env d =
     (case sort_key (\<lambda>(_, row). tx_created_at row) (scan (transactions d)) of
        [] \<Rightarrow> Inl (RuntimeError ''failure probe requires a materialized transaction'')
      | (tx, row) # _ \<Rightarrow>
          rbind (checked valid_scoring_requested (probe_request cfg tx row env)) (\<lambda>ev.
          case pv_send env of
            Some x \<Rightarrow> Inl x
          | None \<Rightarrow> Inr (\<lparr>msg_topic = scoring_request_topic cfg, msg_key = tx, msg_value = ev,
              msg_headers = kafka_headers ev\<rparr>, probe_result_id rt cfg env)))"

text \<open>\<open>verify\<close>: polls until the deadline for a score with the id.\<close>

definition scored_by :: "string \<Rightarrow> db \<Rightarrow> bool" where
  "scored_by i d \<longleftrightarrow> list_ex (\<lambda>(_, r). sc_source_event_id r = i) (risk_scores d)"

fun probe_verify :: "string \<Rightarrow> (bool \<times> db) list \<Rightarrow> unit result" where
  "probe_verify i [] = Inl (RuntimeError ''worker restart did not produce the accepted scoring request'')"
| "probe_verify i ((in_time, d) # polls) =
     (if \<not> in_time then Inl (RuntimeError ''worker restart did not produce the accepted scoring request'')
      else if scored_by i d then Inr () else probe_verify i polls)"

lemma probe_verify_iff:
  "probe_verify i polls = Inr () \<longleftrightarrow>
     (\<exists>d. (True, d) \<in> set (takeWhile fst polls) \<and> scored_by i d)"
  by (induction i polls rule: probe_verify.induct) auto

text \<open>
  The probe recognises recovery. If a worker of the same model version publishes a result for the
  probe's request and the projector makes it canonical, the verification that looks at that database
  in time succeeds; and it succeeds in no other way than by a score with the id of that result.
\<close>

theorem probe_recognises_recovery:
  assumes "issue rt scan cfg env d = Inr (m, i)"
    and "decode_value parse valid_scoring_requested (kr_value rec) = Inr (msg_value m)"
    and "mr_model_version model = cfg_model_version cfg"
    and "process_record rt rds wcfg model parse rec renv = (es, out)" and "ResultSent r \<in> set es"
    and "project_scoring_result topic c now (msg_value r) d1 = Inr (d2, True)"
    and "(True, d2) \<in> set (takeWhile fst polls)"
  shows "event_id (msg_value r) = i \<and> probe_verify i polls = Inr ()"
proof -
  from process_sends [OF assms(4,5)] obtain ev k res where
    ev: "decode_value parse valid_scoring_requested (kr_value rec) = Inr ev"
    and res: "publishable rt (rds k) wcfg model ev res" "r = result_message rt wcfg res" by blast
  have "msg_value m = ev" using ev assms(2) by simp
  with assms(1) have ids: "event_id ev = pv_event_id env" "i = probe_result_id rt cfg env"
    by (auto simp: issue_def checked_def probe_request_def split: list.splits option.splits if_splits)
  have "event_id (msg_value r) = result_id rt model ev"
    using publishable_result [OF res(1)] res(2) by (auto simp: result_message_def)
  then have i: "event_id (msg_value r) = i"
    by (simp add: ids result_id_def probe_result_id_def assms(3))
  from assms(6) have "d2 = projected topic c now (msg_value r) d1" "supersedes (msg_value r) d1"
    by (cases rule: project_cases; simp)+
  then have "map_of (risk_scores d2) (score_key (msg_value r)) =
      Some (upserted score_wins score_merge (score_of now (msg_value r))
        (map_of (risk_scores d1) (score_key (msg_value r))))"
    and win: "opt_ok (\<lambda>old. score_wins (score_of now (msg_value r)) old)
      (map_of (risk_scores d1) (score_key (msg_value r)))"
    by (simp_all add: projected_def map_of_upsert supersedes_def score_wins_now [of now])
  moreover have "sc_source_event_id (upserted score_wins score_merge (score_of now (msg_value r))
      (map_of (risk_scores d1) (score_key (msg_value r)))) = event_id (msg_value r)"
    using win by (cases "map_of (risk_scores d1) (score_key (msg_value r))")
      (simp_all add: upserted_def score_merge_def, simp_all add: score_of_def Let_def)
  ultimately obtain row where "map_of (risk_scores d2) (score_key (msg_value r)) = Some row"
    "sc_source_event_id row = event_id (msg_value r)" by blast
  then have "scored_by i d2" using i by (auto simp: scored_by_def list_ex_iff dest: map_of_SomeD)
  with assms(7) i show ?thesis by (auto simp: probe_verify_iff)
qed

subsection \<open>Verification of the pipeline\<close>

text \<open>The latest score; the first loop ends with the last row it read.\<close>

definition latest_score :: "(score_entry list \<Rightarrow> score_entry list) \<Rightarrow> db \<Rightarrow> score_entry option" where
  "latest_score scan d =
     (case sort_key (\<lambda>(_, r). - instant (sc_scored_at r)) (scan (risk_scores d)) of
        [] \<Rightarrow> None | e # _ \<Rightarrow> Some e)"

fun await_score ::
  "(score_entry list \<Rightarrow> score_entry list) \<Rightarrow> (bool \<times> db \<times> nat) list \<Rightarrow> score_entry option
     \<Rightarrow> score_entry option"
where
  "await_score scan [] row = row"
| "await_score scan ((in_time, d, xlen) # polls) row =
     (if \<not> in_time then row
      else let row = latest_score scan d in
        if row \<noteq> None \<and> 0 < xlen then row else await_score scan polls row)"

text \<open>The health body, or nothing when the request fails.\<close>

fun await_ready :: "(bool \<times> string option) list \<Rightarrow> string option \<Rightarrow> string option" where
  "await_ready [] health = health"
| "await_ready ((in_time, answer) # polls) health =
     (if \<not> in_time then health
      else if answer = Some ''ready'' then answer else await_ready polls answer)"

text \<open>Messages until the first transaction: its type and stream id; no more messages is a timeout.\<close>

fun await_transaction :: "(string option \<times> string option) list \<Rightarrow> string result" where
  "await_transaction [] = Inl TimeoutError"
| "await_transaction ((ty, stream_id) # ms) =
     (if ty = Some ''transaction'' then
        (case stream_id of
           None \<Rightarrow> Inl (RuntimeError ''WebSocket event has no Redis Stream cursor'')
         | Some i \<Rightarrow> if i = [] then Inl (RuntimeError ''WebSocket event has no Redis Stream cursor'')
                     else Inr i)
      else await_transaction ms)"

definition verify_pipeline ::
  "(score_entry list \<Rightarrow> score_entry list) \<Rightarrow> (bool \<times> db \<times> nat) list \<Rightarrow> nat \<Rightarrow> (bool \<times> string option) list
     \<Rightarrow> (string \<Rightarrow> string option result) \<Rightarrow> (string option \<times> string option) list
     \<Rightarrow> (string \<times> string \<times> string) result"
where
  "verify_pipeline scan polls xlen healths entity_model messages =
     (case await_score scan polls None of
        None \<Rightarrow> Inl (RuntimeError ''no canonical risk score reached PostgreSQL'')
      | Some ((tx, model), _) \<Rightarrow>
          if xlen = 0 then Inl (RuntimeError ''no result reached the Redis Stream'')
          else if await_ready healths None \<noteq> Some ''ready''
          then Inl (RuntimeError ''gateway did not become ready'')
          else rbind (entity_model tx) (\<lambda>answer.
            if answer \<noteq> Some model
            then Inl (RuntimeError ''REST entity response does not match canonical score'')
            else rbind (await_transaction messages) (\<lambda>stream_id. Inr (tx, model, stream_id))))"

lemma latest_score_stored:
  assumes "\<And>xs. set (scan xs) = set xs" and "latest_score scan d = Some e"
  shows "e \<in> set (risk_scores d) \<and> (\<forall>f \<in> set (risk_scores d). instant (sc_scored_at (snd f)) \<le> instant (sc_scored_at (snd e)))"
proof -
  let ?key = "\<lambda>(_, r). - instant (sc_scored_at r)"
  from assms(2) obtain es where es: "sort_key ?key (scan (risk_scores d)) = e # es"
    by (auto simp: latest_score_def split: list.splits)
  have s: "sorted (map ?key (e # es))" unfolding es [symmetric] by (rule sorted_sort_key)
  have m: "set (e # es) = set (risk_scores d)" unfolding es [symmetric] by (simp add: assms(1))
  have "\<forall>f \<in> set (e # es). ?key e \<le> ?key f" using s by auto
  then show ?thesis using m by (auto simp: case_prod_beta)
qed

lemma await_score_read:
  "await_score scan polls row = Some e \<Longrightarrow>
     row = Some e \<or> (\<exists>d n. (True, d, n) \<in> set polls \<and> latest_score scan d = Some e)"
proof (induction scan polls row rule: await_score.induct)
  case (2 scan in_time d xlen polls row)
  then show ?case by (cases "in_time") (auto simp: Let_def split: if_splits)
qed simp

lemma await_transaction_sound:
  "await_transaction ms = Inr i \<Longrightarrow> i \<noteq> [] \<and> (Some ''transaction'', Some i) \<in> set ms"
  by (induction ms rule: await_transaction.induct) (auto split: if_splits option.splits)

text \<open>What a verified pipeline has shown.\<close>

theorem verified_sound:
  assumes "\<And>xs. set (scan xs) = set xs"
    and "verify_pipeline scan polls xlen healths entity_model messages = Inr (tx, model, i)"
  shows "(\<exists>d n r. (True, d, n) \<in> set polls \<and> ((tx, model), r) \<in> set (risk_scores d)) \<and> 0 < xlen \<and>
    entity_model tx = Inr (Some model) \<and> (Some ''transaction'', Some i) \<in> set messages"
proof -
  from assms(2) obtain r where r: "await_score scan polls None = Some ((tx, model), r)"
    and rest: "0 < xlen" "entity_model tx = Inr (Some model)" "await_transaction messages = Inr i"
    by (auto simp: verify_pipeline_def result_simps split: option.splits if_splits)
  from await_score_read [OF r] latest_score_stored [OF assms(1)] have
    "\<exists>d n. (True, d, n) \<in> set polls \<and> ((tx, model), r) \<in> set (risk_scores d)" by blast
  with rest await_transaction_sound [OF rest(3)] show ?thesis by blast
qed

end
