(* ===== verification/Process_Setup.thy ===== *)
theory Process_Setup
  imports Settings Events
begin

text \<open>
  What every service does around its loop: \<open>initialize_service\<close> of \<open>shared/runtime.py\<close> with
  \<open>shared/observability\<close>, the engine of \<open>shared/database/session.py\<close>, the lag gauge of
  \<open>shared/kafka/metrics.py\<close>, and the schema files of \<open>scripts/generate_schemas.py\<close>. What the libraries do
  with the arguments is theirs; here are the arguments, and that validated settings give good ones.
  The environment label of logs and traces is left out.
\<close>

subsection \<open>Start\<close>

text \<open>\<open>getattr(logging, settings.log_level)\<close>, for the level names of the module.\<close>

definition logging_levels :: "(string \<times> int) list" where
  "logging_levels = [(''CRITICAL'', 50), (''FATAL'', 50), (''ERROR'', 40), (''WARN'', 30), (''WARNING'', 30),
     (''INFO'', 20), (''DEBUG'', 10), (''NOTSET'', 0)]"

datatype setup_call =
    ConfigureLogging int string
  | ConfigureTracing string string
  | StartMetricsServer int
  | HandleSignal string

definition configure_logging :: "settings \<Rightarrow> (setup_call list) result" where
  "configure_logging cfg =
     (case map_of logging_levels (log_level cfg) of
        None \<Rightarrow> Inl (OtherError ''AttributeError'' (''module logging has no attribute '' @ log_level cfg))
      | Some level \<Rightarrow> Inr [ConfigureLogging level (service_name cfg)])"

text \<open>Without an endpoint, or with an empty one, no tracer is set.\<close>

definition configure_tracing :: "settings \<Rightarrow> setup_call list" where
  "configure_tracing cfg =
     (case otel_exporter_endpoint cfg of
        None \<Rightarrow> []
      | Some url \<Rightarrow> if url = [] then [] else [ConfigureTracing (service_name cfg) url])"

text \<open>The calls in order; the stop event starts unset.\<close>

definition initialize_service :: "settings \<Rightarrow> (setup_call list \<times> bool) result" where
  "initialize_service cfg =
     rbind (configure_logging cfg) (\<lambda>calls.
     Inr (calls @ configure_tracing cfg @ [StartMetricsServer (metrics_port cfg)] @
            map HandleSignal [''SIGINT'', ''SIGTERM''], False))"

text \<open>A handled signal sets the stop event, nothing clears it.\<close>

definition deliver_signal :: "setup_call list \<Rightarrow> string \<Rightarrow> bool \<Rightarrow> bool" where
  "deliver_signal calls sig stop = (stop \<or> HandleSignal sig \<in> set calls)"

subsection \<open>The database engine\<close>

record engine_options =
  en_pool_size :: int
  en_max_overflow :: int
  en_pool_pre_ping :: bool
  en_pool_recycle :: int
  en_connect_timeout :: rat
  en_statement_timeout :: string

definition engine_options_of :: "settings \<Rightarrow> engine_options" where
  "engine_options_of cfg =
     \<lparr>en_pool_size = database_pool_size cfg, en_max_overflow = database_max_overflow cfg,
      en_pool_pre_ping = True, en_pool_recycle = 1800,
      en_connect_timeout = of_int (query_timeout_ms cfg) / 1000,
      en_statement_timeout = str_int (query_timeout_ms cfg)\<rparr>"

subsection \<open>The lag gauge\<close>

type_synonym partition = "string \<times> int"
type_synonym gauge = "string \<times> string \<times> string \<Rightarrow> int option"

definition lag_label :: "string \<Rightarrow> partition \<Rightarrow> string \<times> string \<times> string" where
  "lag_label grp p = (grp, fst p, str_int (snd p))"

text \<open>The loop over the assignment; \<open>position\<close> may raise, which ends it.\<close>

fun observe_consumer_lag ::
  "(partition \<Rightarrow> int option) \<Rightarrow> (partition \<Rightarrow> int result) \<Rightarrow> string \<Rightarrow> partition list \<Rightarrow> gauge
     \<Rightarrow> gauge \<times> exn option"
where
  "observe_consumer_lag highwater position grp [] g = (g, None)"
| "observe_consumer_lag highwater position grp (p # ps) g =
     (case highwater p of
        None \<Rightarrow> observe_consumer_lag highwater position grp ps g
      | Some high \<Rightarrow>
          (case position p of
             Inl x \<Rightarrow> (g, Some x)
           | Inr pos \<Rightarrow> observe_consumer_lag highwater position grp ps
                         (g(lag_label grp p \<mapsto> max (high - pos) 0))))"

subsection \<open>Service metrics\<close>

datatype metric_kind = Counter | Gauge | Histogram "rat list"

record metric =
  mt_kind :: metric_kind
  mt_name :: string
  mt_labels :: "string list"

definition metric_prefix :: "string \<Rightarrow> string" where
  "metric_prefix service = map (\<lambda>c. if c = CHR ''-'' then CHR ''_'' else c) service"

definition build_service_metrics :: "string \<Rightarrow> metric list" where
  "build_service_metrics service =
     (let named = (\<lambda>suffix. metric_prefix service @ suffix) in
      [\<lparr>mt_kind = Counter, mt_name = named ''_events_total'', mt_labels = [''operation'', ''outcome'']\<rparr>,
       \<lparr>mt_kind = Counter, mt_name = named ''_failures_total'', mt_labels = [''stage'', ''exception'']\<rparr>,
       \<lparr>mt_kind = Counter, mt_name = named ''_duplicates_total'', mt_labels = [''operation'']\<rparr>,
       \<lparr>mt_kind = Counter, mt_name = named ''_retries_total'', mt_labels = [''operation'']\<rparr>,
       \<lparr>mt_kind = Histogram [1/1000, 5/1000, 1/100, 25/1000, 5/100, 1/10, 27/100, 1/2, 1, 2, 5],
        mt_name = named ''_duration_seconds'', mt_labels = [''operation'']\<rparr>,
       \<lparr>mt_kind = Histogram [1/1000, 5/1000, 1/100, 25/1000, 5/100, 1/10, 27/100, 1/2, 1, 5, 30],
        mt_name = named ''_queue_delay_seconds'', mt_labels = []\<rparr>,
       \<lparr>mt_kind = Histogram [5/1000, 1/100, 25/1000, 5/100, 1/10, 27/100, 1/2, 1, 2, 5, 30],
        mt_name = named ''_end_to_end_seconds'', mt_labels = []\<rparr>,
       \<lparr>mt_kind = Gauge, mt_name = named ''_in_flight'', mt_labels = []\<rparr>,
       \<lparr>mt_kind = Gauge, mt_name = named ''_backlog'', mt_labels = [''queue'']\<rparr>])"

subsection \<open>Schema files\<close>

definition EVENT_MODELS :: "string list" where
  "EVENT_MODELS = [''risk.graph-batch.observed.v1'', ''risk.scoring.requested.v1'',
     ''risk.scoring.completed.v1'', ''risk.scoring.failed.v1'', ''risk.dead-lettered.v1'']"

definition schema_file :: "string \<Rightarrow> string" where
  "schema_file ty = ty @ ''.schema.json''"

text \<open>The files that are written, of the type they describe, and the entries of \<open>index.json\<close>.\<close>

definition generate_schemas :: "(string \<times> string) list \<times> (string \<times> string) list" where
  "generate_schemas =
     (map (\<lambda>ty. (schema_file ty, ty)) EVENT_MODELS, map (\<lambda>ty. (ty, schema_file ty)) EVENT_MODELS)"

subsection \<open>Properties\<close>

text \<open>
  Settings that load start a service: the log level is one the logging module has, the metrics port
  is a registered one, and either signal stops it.
\<close>

theorem loaded_settings_start:
  assumes "load_settings raw = Inr cfg"
  shows "\<exists>calls. initialize_service cfg = Inr (calls, False) \<and>
    StartMetricsServer (metrics_port cfg) \<in> set calls \<and> 1024 \<le> metrics_port cfg \<and>
    deliver_signal calls ''SIGTERM'' False \<and> deliver_signal calls ''SIGINT'' False"
proof -
  from assms have level: "log_level cfg \<in> {''DEBUG'', ''INFO'', ''WARNING'', ''ERROR'', ''CRITICAL''}"
    and port: "1024 \<le> metrics_port cfg"
    by (auto simp: load_settings_def result_simps normalize_log_level_def validate_kafka_credentials_def
        gateway_bounds_def in_range_def Let_def split: if_splits)
  from level obtain calls where "configure_logging cfg = Inr calls"
    by (auto simp: configure_logging_def logging_levels_def)
  with port show ?thesis by (auto simp: initialize_service_def deliver_signal_def)
qed

text \<open>Loaded settings bound the connections of a process and give a positive timeout.\<close>

theorem engine_bounded:
  assumes "load_settings raw = Inr cfg"
  shows "1 \<le> en_pool_size (engine_options_of cfg) \<and>
    en_pool_size (engine_options_of cfg) + en_max_overflow (engine_options_of cfg) \<le> 200 \<and>
    1 / 10 \<le> en_connect_timeout (engine_options_of cfg) \<and> en_connect_timeout (engine_options_of cfg) \<le> 30"
  using assms
  by (auto simp: load_settings_def result_simps validate_kafka_credentials_def store_bounds_def
      in_range_def engine_options_of_def Let_def split: if_splits)

lemma lag_label_inj: "lag_label grp p = lag_label grp q \<Longrightarrow> p = q"
  by (cases p; cases q) (auto simp: lag_label_def dest: str_int_inj)

text \<open>
  The gauge of each assigned partition with a known end is its distance to the position, never
  negative; all other values stay.
\<close>

theorem lag_exact:
  assumes "distinct ps" and "observe_consumer_lag highwater position grp ps g = (g', None)"
  shows "g' l = (case find (\<lambda>p. lag_label grp p = l \<and> highwater p \<noteq> None) ps of
      None \<Rightarrow> g l
    | Some p \<Rightarrow> (case position p of Inl _ \<Rightarrow> None | Inr pos \<Rightarrow> Some (max (the (highwater p) - pos) 0)))"
  using assms
proof (induction ps arbitrary: g)
  case (Cons p ps)
  show ?case
  proof (cases "highwater p")
    case None
    with Cons show ?thesis by simp
  next
    case (Some high)
    with Cons.prems obtain pos where pos: "position p = Inr pos" by (cases "position p") auto
    let ?g = "g(lag_label grp p \<mapsto> max (high - pos) 0)"
    have rec: "observe_consumer_lag highwater position grp ps ?g = (g', None)"
      using Cons.prems Some pos by simp
    note IH = Cons.IH [OF _ rec]
    have other: "find (\<lambda>q. lag_label grp q = l \<and> highwater q \<noteq> None) ps = None" if "lag_label grp p = l"
    proof -
      have "q \<noteq> p" if "q \<in> set ps" for q using Cons.prems(1) that by auto
      then show ?thesis
        unfolding find_None_iff by (auto simp: that [symmetric] dest!: lag_label_inj)
    qed
    have keep: "?g l = g l" if "lag_label grp p \<noteq> l" using that by auto
    show ?thesis
    proof (cases "lag_label grp p = l")
      case True
      then show ?thesis using IH Cons.prems(1) Some pos other [OF True] by simp
    next
      case False
      then show ?thesis using IH Cons.prems(1) by (simp only: keep [OF False] distinct.simps find.simps simp_thms if_False)
    qed
  qed
qed simp

text \<open>Every metric of a service has its own name.\<close>

lemma metric_names_distinct: "distinct (map mt_name (build_service_metrics service))"
  by (simp add: build_service_metrics_def Let_def)

text \<open>Every contract has a schema file of its own, and the index finds it.\<close>

lemma schema_files_distinct: "distinct (map fst (fst generate_schemas))"
  by (simp add: generate_schemas_def EVENT_MODELS_def schema_file_def)

lemma index_complete:
  "valid_graph_batch b \<Longrightarrow> map_of (snd generate_schemas) (event_type b) = Some (schema_file (event_type b))"
  "valid_scoring_requested q \<Longrightarrow> map_of (snd generate_schemas) (event_type q) = Some (schema_file (event_type q))"
  "valid_scoring_completed r \<Longrightarrow> map_of (snd generate_schemas) (event_type r) = Some (schema_file (event_type r))"
  "valid_scoring_failed f \<Longrightarrow> map_of (snd generate_schemas) (event_type f) = Some (schema_file (event_type f))"
  "valid_dead_letter x \<Longrightarrow> map_of (snd generate_schemas) (event_type x) = Some (schema_file (event_type x))"
  by (simp_all add: valid_graph_batch_def valid_scoring_requested_def valid_scoring_completed_def
      valid_scoring_failed_def valid_dead_letter_def valid_envelope_def generate_schemas_def EVENT_MODELS_def)

end
