(* ===== verification/Pipeline.thy ===== *)
theory Pipeline
  imports Graph_Props Score_Props Redis_Props Worker_Props Network_Props
begin

text \<open>
  The way of one transaction through the services: the graph batch that brings it, the outbox relay,
  the inference worker, the result projector and the message for the gateways. Each lemma is one
  stage without faults, over the operations of its component.
\<close>

subsection \<open>The graph stage\<close>

lemma batch_request_row:
  assumes ok: "materialize_graph_batch uuid5 topic c env ev d = Inr (d', r)"
    and fresh: "\<not> inbox_claimed c d (event_id ev)"
    and ids: "distinct (node_ids ev)" and inj: "inj_on uuid5 (request_identities ev)"
    and i: "i < length (batch_nodes (payload ev))" "n = batch_nodes (payload ev) ! i"
    and unused: "map_of (outbox_events d) (request_id uuid5 ev (node_tx_id n)) = None"
  shows "map_of (outbox_events d') (request_id uuid5 ev (node_tx_id n)) =
    Some (snd (outbox_entry topic (env_now env) (scoring_request uuid5 ev env i n)))"
  using ok
proof (cases rule: materialize_shape)
  case (2 t erows orows)
  then show ?thesis using unused map_of_request_rows [OF ids inj i] by (simp add: applied_outbox)
qed (use fresh in \<open>simp add: inbox_claimed_def\<close>)

text \<open>The stored watermark of a transaction is at least the time step of its batch.\<close>

definition known_at :: "int \<Rightarrow> string \<Rightarrow> db \<Rightarrow> bool" where
  "known_at w t d \<longleftrightarrow> (\<exists>row. map_of (transactions d) t = Some row \<and> w \<le> tx_graph_watermark row)"

lemma batch_seen:
  assumes ok: "materialize_graph_batch uuid5 topic c env ev d = Inr (d', r)"
    and fresh: "\<not> inbox_claimed c d (event_id ev)"
    and ids: "distinct (node_ids ev)" and n: "n \<in> set (batch_nodes (payload ev))"
  shows "known_at (batch_time_step (payload ev)) (node_tx_id n) d'"
  using ok
proof (cases rule: materialize_shape)
  case (2 t erows orows)
  obtain row where row: "node_row ev (env_now env) n = (node_tx_id n, row)"
    "tx_graph_watermark row = batch_time_step (payload ev)"
    by (simp add: node_row_def)
  then have "(node_tx_id n, row) \<in> set (node_rows_of ev env)" using n by (force simp: image_iff)
  from upsert_rows_lookup [OF 2(2) _ this] ids
  have "map_of t (node_tx_id n) =
      Some (upserted node_wins node_merge row (map_of (transactions d) (node_tx_id n)))"
    by (simp only: keys_node_rows)
  then show ?thesis
    by (auto simp: 2(6) applied_def known_at_def upserted_def node_wins_def node_merge_def row(2) [symmetric]
        split: option.splits)
qed (use fresh in \<open>simp add: inbox_claimed_def\<close>)

text \<open>A later database: no transaction is gone and no watermark went back.\<close>

definition grown :: "db \<Rightarrow> db \<Rightarrow> bool" where
  "grown d d' \<longleftrightarrow> rows_le (\<lambda>old new. tx_graph_watermark old \<le> tx_graph_watermark new)
     (transactions d) (transactions d')"

lemma grown_refl: "grown d d"
  by (simp add: grown_def rows_le_refl)

lemma graph_le_grown: "graph_le d d' \<Longrightarrow> grown d d'"
  by (simp add: grown_def graph_le_def)

lemma seen_later: "known_at w t d \<Longrightarrow> grown d d' \<Longrightarrow> known_at w t d'"
  by (fastforce simp: known_at_def grown_def dest: rows_leD)

lemma seen_has_tx: "known_at w t d \<Longrightarrow> has_tx d t"
  by (auto simp: known_at_def has_tx_def)

subsection \<open>The relay stage\<close>

lemma relay_run_step:
  "table_ok (outbox_events (rl_db st)) \<Longrightarrow> relay_run rt collate cfg envs st = (st', ex) \<Longrightarrow>
     \<exists>ms. relay_step ms (rl_db st) (rl_db st') \<and> rl_sent st' = rl_sent st @ ms"
proof (induction envs arbitrary: st)
  case Nil
  then show ?case using relay_step_refl by fastforce
next
  case (Cons env envs)
  obtain st1 ex1 where t: "relay_turn rt collate cfg env st = (st1, ex1)" by fastforce
  obtain ms where ms: "relay_step ms (rl_db st) (rl_db st1)" "rl_sent st1 = rl_sent st @ ms"
    using relay_turn_step [OF Cons.prems(1) t] by blast
  show ?case
  proof (cases ex1)
    case (Some x)
    with t Cons.prems(2) ms show ?thesis by auto
  next
    case None
    with t Cons.prems(2) have "relay_run rt collate cfg envs st1 = (st', ex)" by simp
    from Cons.IH [OF _ this] relay_step_table_ok [OF ms(1)] Cons.prems(1) obtain ms2 where
      "relay_step ms2 (rl_db st1) (rl_db st')" "rl_sent st' = rl_sent st1 @ ms2" by blast
    with relay_step_trans [OF ms(1)] ms(2) show ?thesis by (metis append.assoc)
  qed
qed

lemma relay_delivers:
  assumes ok: "table_ok (outbox_events (rl_db st))" and quiet: "\<forall>env \<in> set envs. quiet env"
    and room: "relay_backlog (rl_db st) \<le> length envs * nat (outbox_batch_size cfg)"
    and row: "map_of (outbox_events (rl_db st)) k = Some row" "pending row"
    and run: "relay_run rt collate cfg envs st = (st', ex)" and none: "rl_sent st = []"
  shows "ex = None \<and> sent_row (rl_sent st') row"
proof -
  from quiet_run [OF ok quiet, of rt collate cfg] run room
  have ex: "ex = None" "relay_backlog (rl_db st') = 0" by auto
  from relay_run_step [OF ok run] none obtain ms where
    ms: "relay_step ms (rl_db st) (rl_db st')" "rl_sent st' = ms" by auto
  from ms(1) row(1) obtain new where new: "map_of (outbox_events (rl_db st')) k = Some new" "relayed row new"
    "ob_published_at row = None \<and> ob_published_at new \<noteq> None \<longrightarrow> sent_row ms row"
    unfolding relay_step_def by blast
  from ex(2) map_of_SomeD [OF new(1)] have "\<not> pending new"
    by (auto simp: relay_backlog_def filter_empty_conv)
  with new(2) row(2) have "ob_published_at new \<noteq> None" by (auto simp: pending_def relayed_def)
  with new(3) row(2) ms(2) ex(1) show ?thesis by (simp add: pending_def)
qed

subsection \<open>The worker stage\<close>

text \<open>An attempt in which nothing fails, and a worker that was configured and loaded as it should be.\<close>

definition calm_attempt :: "attempt_env \<Rightarrow> bool" where
  "calm_attempt env \<longleftrightarrow> at_database env = None \<and> \<not> at_times_out env \<and> at_send env = SendOk \<and>
     at_commit env = None \<and> at_lag env = None \<and> 0 \<le> at_inference_ms env"

definition worker_deployed :: "runtime \<Rightarrow> settings \<Rightarrow> model_runtime \<Rightarrow> bool" where
  "worker_deployed rt cfg model \<longleftrightarrow>
     (\<forall>s. length (rt_uuid5 rt s) = 36) \<and> opt_ok valid_traceparent (current_traceparent rt) \<and>
     1 \<le> retry_max_attempts cfg \<and> 1 \<le> graph_max_nodes cfg \<and> len_in 2 64 (service_name cfg) \<and>
     len_in 1 128 (mr_model_version model) \<and> valid_checksum (mr_model_checksum model) \<and>
     len_in 1 64 (mr_feature_schema_version model)"

lemma member_le_fold_max: "(w :: int) \<in> set ws \<or> w \<le> m \<Longrightarrow> w \<le> fold max ws m"
proof (induction ws arbitrary: m)
  case (Cons v ws)
  from Cons.prems consider "w \<in> set ws" | "w \<le> max v m" by auto
  then show ?case
  proof cases
    case 2
    then show ?thesis using fold_max_ge [of w "max v m" ws] by simp
  qed (use Cons.IH in simp)
qed simp

lemma watermark_ge:
  assumes g: "get_bounded_subgraph collate scan t n M K mv d = Some g" and "db_ok d" and "1 \<le> M"
    and w: "known_at w t d"
  shows "w \<le> sg_graph_watermark g"
proof -
  define nodes where "nodes = sort_key (\<lambda>(t, _). collate t)
    (filter (\<lambda>(u, _). u \<in> se_visited (search_rounds collate d M K t n)) (transactions d))"
  have g': "sg_graph_watermark g = (case map (\<lambda>(_, node). tx_graph_watermark node) nodes of
      [] \<Rightarrow> 0 | w # ws \<Rightarrow> fold max ws w)"
    using g by (auto simp: get_bounded_subgraph_def Let_def nodes_def split: if_splits)
  from w obtain row where row: "map_of (transactions d) t = Some row" "w \<le> tx_graph_watermark row"
    by (auto simp: known_at_def)
  have "t \<in> se_visited (search_rounds collate d M K t n)"
    using reached_rounds [of d M K t n collate] assms(2,3) by (auto simp: reached_def db_ok_def)
  with map_of_SomeD [OF row(1)] have "(t, row) \<in> set nodes" by (simp add: nodes_def)
  then have "tx_graph_watermark row \<in> set (map (\<lambda>(_, node). tx_graph_watermark node) nodes)" by force
  then have "tx_graph_watermark row \<le> sg_graph_watermark g"
    unfolding g' by (auto split: list.splits intro!: member_le_fold_max)
  with row(2) show ?thesis by simp
qed

lemma request_scored:
  assumes w: "worker_deployed rt cfg model" and calm: "calm_attempt (rc_attempt env 1)"
    and net: "torch_ok ops" "loaded_for_elliptic B gi" "mr_infer model = gnn_infer ops gi"
    and db: "db_ok (rd_db (rds 1))" "features_all (row_within B) (rd_db (rds 1))"
    and req: "valid_scoring_requested ev" "is_aware (req_requested_at (payload ev))"
      "is_aware (req_source_ingested_at (payload ev))"
      "req_feature_schema_version (payload ev) = mr_feature_schema_version model"
      "known_at (req_graph_watermark (payload ev)) (req_tx_id (payload ev)) (rd_db (rds 1))"
    and rec: "kr_value rec = Some raw" "parse raw = Some ev"
  shows "\<exists>res g p. process_record rt rds cfg model parse rec env =
      ([ResultSent (result_message rt cfg res), Committed (kr_offset rec + 1)], None) \<and>
    scoring_subgraph (rds 1) cfg ev = Some g \<and> model_predict model g = Inr p \<and> 0 \<le> p \<and> p \<le> 1 \<and>
    res_illicit_probability (payload res) = p \<and> valid_scoring_completed res \<and>
    event_id res = result_id rt model ev \<and> res_tx_id (payload res) = req_tx_id (payload ev) \<and>
    res_model_version (payload res) = mr_model_version model \<and>
    res_graph_watermark (payload res) = req_graph_watermark (payload ev) \<and>
    is_aware (res_scored_at (payload res)) \<and> is_aware (res_source_ingested_at (payload res))"
proof -
  define e1 where "e1 = rc_attempt env 1"
  have calm1: "calm_attempt e1" using calm by (simp add: e1_def)
  from req(5) have "has_tx (rd_db (rds 1)) (req_tx_id (payload ev))" by (auto simp: known_at_def has_tx_def)
  then obtain g where g: "scoring_subgraph (rds 1) cfg ev = Some g"
    using subgraph_exists by (fastforce simp: scoring_subgraph_def)
  have M: "1 \<le> nat (graph_max_nodes cfg)" using w by (simp add: worker_deployed_def Suc_le_eq)
  have mark: "req_graph_watermark (payload ev) \<le> sg_graph_watermark g"
    by (rule watermark_ge [OF g [unfolded scoring_subgraph_def] db(1) M req(5)])
  have fetch: "fetch_subgraph (rds 1) cfg model ev e1 = Inr g"
    using calm1 g mark req(4) by (simp add: fetch_subgraph_def Let_def calm_attempt_def)
  have "\<forall>nd \<in> set (sg_nodes g). row_within B (sn_features nd)"
    by (rule subgraph_features [OF g [unfolded scoring_subgraph_def] db(2)])
  then obtain p where p: "model_predict model g = Inr p" "0 \<le> p" "p \<le> 1"
    using gnn_predict_in_range [OF net(1,2), of "sg_nodes g"] unfolding model_predict_def net(3) by blast
  have run: "run_inference model g e1 = Inr p"
    using calm1 p by (simp add: run_inference_def calm_attempt_def)
  obtain q where q: "dt_sub (Aware (at_started e1)) (req_requested_at (payload ev)) = Inr q"
    using dt_sub_aware [of "Aware (at_started e1)"] req(2) by auto
  obtain e where e: "dt_sub (Aware (at_scored e1)) (req_source_ingested_at (payload ev)) = Inr e"
    using dt_sub_aware [of "Aware (at_scored e1)"] req(3) by auto
  let ?res = "scoring_result rt cfg model ev e1 p q e"
  have valid: "valid_scoring_completed ?res"
    using w calm1 p req(1) or_else_valid [of "current_traceparent rt" "traceparent ev"]
    by (auto simp: valid_scoring_completed_def valid_scoring_requested_def valid_envelope_def
        valid_completed_payload_def valid_requested_payload_def scoring_result_def worker_deployed_def
        calm_attempt_def result_id_def deterministic_event_id_def)
  have "build_result rt (rds 1) cfg model ev e1 = Inr ?res"
    by (simp add: build_result_def fetch [unfolded One_nat_def] run q e checked_def valid)
  then have once: "attempt_once rt (rds 1) cfg model rec ev e1 =
      ([ResultSent (result_message rt cfg ?res), Committed (kr_offset rec + 1)], None)"
    using calm1 by (simp add: attempt_once_def score_and_publish_def calm_attempt_def)
  from w obtain left where left: "nat (retry_max_attempts cfg) = Suc left"
    by (cases "nat (retry_max_attempts cfg)") (auto simp: worker_deployed_def)
  have decoded: "decode_value parse valid_scoring_requested (kr_value rec) = Inr ev"
    using rec req(1) by (simp add: decode_value_def)
  have "attempt_loop rt rds cfg model rec ev (rc_attempt env) (Suc left) 1 None =
      ([ResultSent (result_message rt cfg ?res), Committed (kr_offset rec + 1)], None)"
    using once by (simp add: e1_def)
  then have "process_record rt rds cfg model parse rec env =
      ([ResultSent (result_message rt cfg ?res), Committed (kr_offset rec + 1)], None)"
    by (simp only: process_record_def decoded left sum.case prod.case option.case)
  with g p valid req(3) show ?thesis by (intro exI conjI) (auto simp: scoring_result_def)
qed

subsection \<open>The projection stage\<close>

definition unscored :: "string \<times> string \<Rightarrow> string \<Rightarrow> db \<Rightarrow> bool" where
  "unscored k i d \<longleftrightarrow> map_of (risk_scores d) k = None \<and> source_event_free i k d \<and>
     map_of (outbox_events d) (''redis:'' @ i) = None"

lemma result_projected:
  assumes "has_tx d (res_tx_id (payload res))" and "int4 (res_graph_watermark (payload res))"
    and "0 \<le> res_illicit_probability (payload res)" "res_illicit_probability (payload res) \<le> 1"
    and "\<not> inbox_claimed c d (event_id res)"
    and "unscored (res_tx_id (payload res), res_model_version (payload res)) (event_id res) d"
  shows "\<exists>d'. project_scoring_result topic c now res d = Inr (d', True) \<and>
    map_of (risk_scores d') (res_tx_id (payload res), res_model_version (payload res)) =
      Some (score_of now res) \<and>
    map_of (outbox_events d') (''redis:'' @ event_id res) = Some (redis_outbox_entry topic now res) \<and>
    transactions d' = transactions d"
  using assms
  by (auto simp: project_eq supersedes_def unscored_def score_key_def projected_def claimed_by_def
      map_of_upsert upserted_def map_of_insert_nothing redis_outbox_id_def)

end
