(* ===== verification/Spec2Isabelle.thy ===== *)
theory Spec2Isabelle
  imports Prelude Tables Ids Delivery Events Schema Graph_Store Graph_Lemmas Graph_Props
    Graph_Spec Score_Store Score_Props Score_Spec Subgraph Subgraph_Props Settings Retry Sanitize Dlq
    Consumers Consumer_Props Materializer_Service Relay Relay_Props Worker Worker_Props Flow Worker_Queue
    Worker_Service Worker_Service_Props Network Network_Props Training Training_Props Streaming
    Streaming_Props Redis_Stream Redis_Outbox Redis_Props
    Projector_Service Projector_Service_Props Broadcaster Broadcaster_Props
    Gateway_Socket Gateway_World Gateway_Props Gateway_Gap Gateway_Runs Gateway_Control
    Gateway_Rest Gateway_Rest_Props Replay Replay_Props Compatibility Dlq_Replay Fixture Benchmark
    Benchmark_Run Baseline Live_Tools Process_Setup Samples Pipeline
begin

text \<open>
  A verification library for the transaction risk scorer: a pipeline that replays bitcoin
  transactions into a stored graph, scores each with a graph attention network on its neighbourhood,
  and shows the scores live.

  \<^bold>\<open>The program.\<close> The replay producer (\<open>services/replay_producer\<close>) sends one graph batch per time
  step to Kafka. The graph materializer (\<open>services/graph_materializer\<close>) applies a batch in one
  transaction (\<open>materialize_graph_batch\<close> of \<open>shared/database/queries.py\<close>) with one scoring request
  per transaction in an outbox, which the outbox relay (\<open>services/outbox_relay\<close>) sends to Kafka. The
  inference worker (\<open>services/inference_worker\<close>) reads the bounded subgraph around the requested
  transaction, runs the model (\<open>shared/model\<close>, \<open>gnn_inference.py\<close>) and publishes a result or a dead
  letter (\<open>shared/kafka\<close>). The result projector (\<open>services/result_projector\<close>) stores the canonical
  score and, from a second outbox, appends it to a Redis stream (\<open>shared/redis\<close>). The gateway
  (\<open>services/api_gateway\<close>) replays and broadcasts that stream over WebSockets, answers queries over
  REST and writes the control row of the replay. Events are contracts of \<open>shared/contracts\<close>,
  settings those of \<open>shared/config\<close>. Beside it stand the older in-memory demo (\<open>streaming\<close>), the
  training notebook with \<open>prepare_model.py\<close>, and the tools of \<open>scripts\<close>.

  \<^bold>\<open>Theories\<close>, in the order of their imports; \<open>X_Props\<close> holds the properties of \<open>X\<close>.
  \<^item> \<open>Prelude\<close>, \<open>Tables\<close>: results with exceptions, datetimes, decimal text; tables as association
    lists with the laws of inserts, updates and conditional upserts (locale \<open>versioned_upsert\<close>).
  \<^item> \<open>Ids\<close>, \<open>Events\<close>, \<open>Schema\<close>, \<open>Settings\<close>: deterministic identifiers, the event contracts with
    every field constraint, the tables with their constraints as the invariant \<open>db_ok\<close>, settings
    with their validators and the Kafka client arguments.
  \<^item> \<open>Delivery\<close>: histories of at-least-once deliveries (locale \<open>inbox_consumer\<close>, interpreted for
    graph batches and for results).
  \<^item> \<open>Graph_Store\<close>, \<open>Graph_Lemmas\<close>, \<open>Graph_Props\<close>, \<open>Graph_Spec\<close>: \<open>materialize_graph_batch\<close> statement
    by statement; constraints, redelivery, convergence, the outbox, and the refinement of the
    abstract function \<open>absorb\<close>.
  \<^item> \<open>Score_Store\<close>, \<open>Score_Props\<close>, \<open>Score_Spec\<close>: \<open>project_scoring_result\<close>, the entity read, and the
    refinement of the abstract ledger \<open>absorb_result\<close> by any history of results.
  \<^item> \<open>Subgraph\<close>, \<open>Subgraph_Props\<close>: the bounded breadth-first search, compared with the neighbourhood
    \<open>ball\<close> of the stored edges.
  \<^item> \<open>Retry\<close>, \<open>Sanitize\<close>, \<open>Dlq\<close>: backoff, the two regular expressions of \<open>sanitize_error\<close> as
    functions, dead letters.
  \<^item> \<open>Consumers\<close>, \<open>Consumer_Props\<close>: the consumer loops of materializer and projector (locale
    \<open>kafka_consumer\<close>). \<open>Materializer_Service\<close>: the materializer as a process that dies, also inside a
    record, and restarts, as the step relation \<open>materializer_step\<close>.
  \<^item> \<open>Relay\<close>, \<open>Relay_Props\<close>: the outbox relay.
  \<^item> \<open>Worker\<close>, \<open>Worker_Props\<close>, \<open>Flow\<close>, \<open>Worker_Queue\<close>: one request with its attempts, and the local
    queue with backpressure (locale \<open>fifo_channel\<close>). \<open>Worker_Service\<close>, \<open>Worker_Service_Props\<close>: the
    whole service as the step relation \<open>worker_step\<close>, with stops, crashes and restarts.
  \<^item> \<open>Network\<close>, \<open>Network_Props\<close>: the attention network, its checkpoint and prediction.
    \<open>Training\<close>, \<open>Training_Props\<close>: the notebook and \<open>prepare_model.py\<close>; \<open>Baseline\<close>: the baseline.
  \<^item> \<open>Redis_Stream\<close>, \<open>Redis_Outbox\<close>, \<open>Redis_Props\<close>: the idempotent append and its publisher.
    \<open>Projector_Service\<close>, \<open>Projector_Service_Props\<close>: the projector process, its consumer and its
    publisher on one database, as the step relation \<open>projector_step\<close>.
  \<^item> \<open>Broadcaster\<close>, \<open>Broadcaster_Props\<close>, \<open>Gateway_Socket\<close>, \<open>Gateway_World\<close>, \<open>Gateway_Props\<close>,
    \<open>Gateway_Gap\<close>, \<open>Gateway_Runs\<close>, \<open>Gateway_Control\<close>, \<open>Gateway_Rest\<close>, \<open>Gateway_Rest_Props\<close>: fan-out,
    connections as the step relation \<open>ws_step\<close>, with the tail before and after its first entry and
    other sessions that write the control row; delivery in order and without gaps, the runs in which an
    entry is lost, control messages (locale \<open>control_relation\<close>), and the cached REST answers.
  \<^item> \<open>Replay\<close>, \<open>Replay_Props\<close>: the producer with pauses and restarts. \<open>Streaming\<close>, \<open>Streaming_Props\<close>:
    the in-memory demo.
  \<^item> \<open>Compatibility\<close>, \<open>Dlq_Replay\<close>, \<open>Fixture\<close>, \<open>Benchmark\<close>, \<open>Benchmark_Run\<close>, \<open>Live_Tools\<close>: the
    contract guard and the tools; \<open>Live_Tools\<close> has the topics, the failure probe and the pipeline check.
  \<^item> \<open>Process_Setup\<close>: the start of a service, the engine of the database, the lag gauge, the metrics and
    the schema files.
  \<^item> \<open>Samples\<close>: concrete events for the witnesses. \<open>Pipeline\<close>: one lemma per stage, from which the
    theorem of this theory follows one transaction through the services.

  \<^bold>\<open>How code and model correspond.\<close> A class or row is a record, an exception a value of \<open>exn\<close> in a
  sum, a loop a recursion over the list of what its turns read from outside: each turn has a record
  (\<open>relay_env\<close>, \<open>record_env\<close>, \<open>replay_env\<close> and others) with the clock readings and the fate of every call
  that can fail. So no fuel is chosen: a run of a service has as many turns as its list, and a property
  of every list is one of every run. Loops that end by themselves have their proofs: the search in
  \<open>Streaming\<close> by a measure, the one in \<open>Subgraph\<close> by its hop count, the attempts by the retry bound.
  Python integers are \<open>int\<close>; the widths of columns are checked as PostgreSQL does (\<open>int4\<close>, \<open>int8\<close>).
  One statement binds at most 32767 arguments, as asyncpg has it (\<open>bind_rows\<close>). Floating point numbers
  are rationals, so rounding of arithmetic is not modelled, only \<open>round\<close>; that a feature is too large
  for the 32-bit float the network takes is (\<open>float32\<close>), overflow inside the layers is not.

  \<^bold>\<open>Parameters.\<close> Not in the repository and therefore arguments of the definitions: \<open>uuid5\<close>, the JSON
  and text codecs, the collation and scan order of the database, the Redis server (laws \<open>redis_ok\<close>),
  torch with its layers (laws \<open>torch_ok\<close>, for edges that join rows), the scaler (\<open>loaded_for_elliptic\<close>:
  good up to a bound, and refusing an infinity), the metrics of scikit-learn, the optimiser
  step, the random numbers of the fixture. Each property with such a law has a witness with an
  instance of it.

  \<^bold>\<open>Limits.\<close> A database transaction is one step: the interleaving of statements of two transactions
  is not modelled, except for the read and the write of the control row, between which other sessions
  commit. Each attempt of the worker reads the database anew. The worker service has no rebalance
  while it lives. The properties about gaps assume that the Redis stream is not trimmed
  between two reads, those about duplicates that the deduplication markers have not expired. Metrics,
  logs and traces are left out, and are taken not to fail.

  \<^bold>\<open>Not modelled.\<close> The TypeScript front end and the infrastructure files, which are not Python; the
  migration environment; what SQLAlchemy, structlog, OpenTelemetry and Prometheus do with the
  arguments that \<open>Process_Setup\<close> gives them; the exploration notebook, which is plots; \<open>api/main.py\<close> and
  the fake stream of the demo; and the rendering of the schemas, which pydantic does.
\<close>

text \<open>
  C1. A transaction that arrives is scored. Take a valid batch that the materializer applies to a
  sound database and one of its transactions. Then, as long as nothing fails: the relay sends its
  scoring request; a worker that gets the request, on that database or any later one, publishes a
  result whose probability is the answer of the network on the bounded subgraph around it, and
  commits, if the stored features are within what its scaler takes; and the projector, on that database or any later one that has no score of it yet, stores
  that probability as its score and the intent to show it, from which the message for the gateways
  can be built.
\<close>

theorem transaction_is_scored:
  fixes uuid5 ev env i
  defines "n \<equiv> batch_nodes (payload ev) ! i" and "req \<equiv> scoring_request uuid5 ev env i (batch_nodes (payload ev) ! i)"
  assumes batch: "materialize_graph_batch uuid5 (scoring_request_topic cfg) c env ev d = Inr (d1, r)"
      "\<not> inbox_claimed c d (event_id ev)" "valid_graph_batch ev" "distinct (node_ids ev)" "db_ok d"
      "i < length (batch_nodes (payload ev))"
    and ids: "\<And>s. length (uuid5 s) = 36" "inj_on uuid5 (request_identities ev)"
      "map_of (outbox_events d) (event_id req) = None" "opt_ok valid_traceparent (env_traceparent env)"
    and relay: "\<forall>env \<in> set envs. quiet env" "\<not> is_redis_topic (scoring_request_topic cfg)"
      "relay_backlog d1 \<le> length envs * nat (outbox_batch_size cfg)"
      "relay_run rt collate cfg envs \<lparr>rl_db = d1, rl_sent = [], rl_attempt = 0\<rparr> = (st, ex)"
    and worker: "worker_deployed rt cfg model" "calm_attempt (rc_attempt wenv 1)"
      "torch_ok ops" "loaded_for_elliptic B gi" "mr_infer model = gnn_infer ops gi"
      "mr_feature_schema_version model = batch_feature_schema_version (payload ev)"
      "grown d1 (rd_db (rds 1))" "db_ok (rd_db (rds 1))" "features_all (row_within B) (rd_db (rds 1))"
      "kr_value rec = Some raw" "parse raw = Some req"
    and projector: "grown d1 d2" "\<not> inbox_claimed c2 d2 (result_id rt model req)"
      "unscored (node_tx_id n, mr_model_version model) (result_id rt model req) d2"
  shows "(\<exists>m \<in> set (rl_sent st). msg_topic m = scoring_request_topic cfg \<and> msg_value m = Requested req) \<and>
    (\<exists>res g p d3 row m.
       process_record rt rds cfg model parse rec wenv =
         ([ResultSent (result_message rt cfg res), Committed (kr_offset rec + 1)], None) \<and>
       scoring_subgraph (rds 1) cfg req = Some g \<and> model_predict model g = Inr p \<and>
       project_scoring_result topic c2 now res d2 = Inr (d3, True) \<and>
       map_of (risk_scores d3) (node_tx_id n, mr_model_version model) = Some row \<and>
       sc_illicit_probability row = p \<and> sc_source_event_id row = result_id rt model req \<and>
       map_of (outbox_events d3) (redis_outbox_id res) = Some (redis_outbox_entry topic now res) \<and>
       redis_payload isof scan cfg published (redis_outbox_entry topic now res) d3 = Inr m \<and>
       rm_tx_id (rj_data m) = node_tx_id n \<and> rm_illicit_probability (rj_data m) = py_round p 6)"
proof -
  have mem: "n \<in> set (batch_nodes (payload ev))" using batch(6) by (simp add: n_def)
  have req: "event_id req = request_id uuid5 ev (node_tx_id n)" "req_tx_id (payload req) = node_tx_id n"
    "req_graph_watermark (payload req) = batch_time_step (payload ev)"
    "req_feature_schema_version (payload req) = mr_feature_schema_version model"
    "is_aware (req_requested_at (payload req))" "is_aware (req_source_ingested_at (payload req))"
    using batch(3) worker(6)
    by (simp_all add: req_def n_def scoring_request_def valid_graph_batch_def valid_envelope_def)
  have valid: "valid_scoring_requested req"
    using scoring_request_valid [OF batch(3) mem ids(1,4)] by (simp add: req_def n_def)
  have row: "map_of (outbox_events d1) (event_id req) =
      Some (snd (outbox_entry (scoring_request_topic cfg) (env_now env) req))"
    using batch_request_row [OF batch(1,2,4) ids(2) batch(6) n_def [THEN meta_eq_to_obj_eq]] ids(3) req(1)
    by (simp add: req_def n_def)
  let ?row = "snd (outbox_entry (scoring_request_topic cfg) (env_now env) req)"
  have "table_ok (outbox_events d1)"
    using materialize_db_ok [OF batch(1,5)] by (simp add: db_ok_def keys_ok_def)
  then have "sent_row (rl_sent st) ?row"
    using relay_delivers [of "\<lparr>rl_db = d1, rl_sent = [], rl_attempt = 0\<rparr>" envs cfg "event_id req" ?row]
      relay row by (simp add: pending_def outbox_entry_def)
  then have sent: "\<exists>m \<in> set (rl_sent st). msg_topic m = scoring_request_topic cfg \<and> msg_value m = Requested req"
    by (auto simp: sent_row_def outbox_entry_def)
  have seen: "known_at (batch_time_step (payload ev)) (node_tx_id n) d1"
    by (rule batch_seen [OF batch(1,2,4) mem])
  have later: "known_at (req_graph_watermark (payload req)) (req_tx_id (payload req)) (rd_db (rds 1))"
    unfolding req(2,3) by (rule seen_later [OF seen worker(7)])
  from request_scored [where env = wenv and parse = parse and raw = raw and rds = rds,
      OF worker(1-5,8,9) valid req(5,6,4) later worker(10,11)] obtain res g p where run: "process_record rt rds cfg model parse rec wenv =
      ([ResultSent (result_message rt cfg res), Committed (kr_offset rec + 1)], None)"
    and g: "scoring_subgraph (rds 1) cfg req = Some g" "model_predict model g = Inr p" "0 \<le> p" "p \<le> 1"
    and res: "res_illicit_probability (payload res) = p" "valid_scoring_completed res"
      "event_id res = result_id rt model req" "res_tx_id (payload res) = node_tx_id n"
      "res_model_version (payload res) = mr_model_version model"
      "res_graph_watermark (payload res) = batch_time_step (payload ev)"
      "is_aware (res_scored_at (payload res))" "is_aware (res_source_ingested_at (payload res))"
    unfolding req(2,3) by auto
  have "int4 (batch_time_step (payload ev))"
    by (rule materialize_fresh [OF batch(1)]) (use batch(2) in \<open>simp_all add: inbox_claimed_def\<close>)
  with result_projected [of d2 res c2 topic now] seen_has_tx [OF seen_later [OF seen projector(1)]] g(3,4)
    projector(2,3) res obtain d3 where d3: "project_scoring_result topic c2 now res d2 = Inr (d3, True)"
    "map_of (risk_scores d3) (node_tx_id n, mr_model_version model) = Some (score_of now res)"
    "map_of (outbox_events d3) (redis_outbox_id res) = Some (redis_outbox_entry topic now res)"
    "transactions d3 = transactions d2"
    by (auto simp: redis_outbox_id_def)
  then have "has_tx d3 (res_tx_id (payload res))"
    using seen_has_tx [OF seen_later [OF seen projector(1)]] by (simp add: has_tx_def res(4))
  from result_publishable [OF res(2,7,8) this, of isof scan cfg published topic now] obtain m where
    "redis_payload isof scan cfg published (redis_outbox_entry topic now res) d3 = Inr m"
    "rm_tx_id (rj_data m) = node_tx_id n" "rm_illicit_probability (rj_data m) = py_round p 6"
    by (auto simp: res)
  with sent run g d3 res(1,3) show ?thesis by (auto simp: score_of_def Let_def)
qed

text \<open>The second transaction of the sample batch, through a network of zeros.\<close>

definition zero_model :: model_runtime where
  "zero_model = sample_model\<lparr>mr_infer := gnn_infer zero_ops zero_inference\<rparr>"

abbreviation request_b :: scoring_requested where
  "request_b \<equiv> scoring_request sample_uuid5 batch_ab (sample_env 5) 1 (batch_nodes (payload batch_ab) ! 1)"

lemma zero_model_deployed: "worker_deployed sample_runtime (default_settings ''worker'' ''h'') zero_model"
  by (simp add: worker_deployed_def sample_runtime_def current_traceparent_def default_settings_def
      zero_model_def sample_model_def len_in_def valid_checksum_def hex_lower_def list_all_iff)

lemma calm_sample: "calm_attempt (rc_attempt (sample_record_env False None) 1)"
  by (simp add: calm_attempt_def sample_attempt_def)

lemma result_ids_fresh:
  assumes "materialize_graph_batch sample_uuid5 topic c env batch_ab empty_db = Inr (d, r)"
  shows "unscored k (result_id sample_runtime model req) d"
  using assms
proof (cases rule: materialize_shape)
  case (2 t erows orows)
  have "length (result_id sample_runtime model req) = 36"
    by (simp add: result_id_def deterministic_event_id_def sample_runtime_def)
  then have "''redis:'' @ result_id sample_runtime model req \<noteq> request_id sample_uuid5 batch_ab t" for t
    by (auto simp: request_id_def deterministic_event_id_def dest!: arg_cong [of _ _ length])
  then have "''redis:'' @ result_id sample_runtime model req \<notin> set (map fst orows)"
    unfolding 2(5) keys_request_rows by auto
  then have "map_of orows (''redis:'' @ result_id sample_runtime model req) = None"
    by (simp add: map_of_eq_None_iff)
  then show ?thesis using 2(6)
    by (simp add: unscored_def source_event_free_def applied_outbox) (simp add: applied_def empty_db_def)
qed (simp add: empty_db_def)

theorem transaction_is_scored_witness:
  "\<exists>d r envs st ex res d' row.
     materialize_graph_batch sample_uuid5 (scoring_request_topic (default_settings ''worker'' ''h'')) ''g''
       (sample_env 5) batch_ab empty_db = Inr (d, r) \<and>
     relay_run sample_runtime id (default_settings ''worker'' ''h'') envs
       \<lparr>rl_db = d, rl_sent = [], rl_attempt = 0\<rparr> = (st, ex) \<and>
     (\<exists>m \<in> set (rl_sent st). msg_value m = Requested request_b) \<and>
     process_record sample_runtime (\<lambda>_. \<lparr>rd_db = d, rd_collate = id, rd_scan = id\<rparr>) (default_settings ''worker'' ''h'')
       zero_model (\<lambda>_. Some request_b) sample_request_record (sample_record_env False None) =
         ([ResultSent (result_message sample_runtime (default_settings ''worker'' ''h'') res), Committed 8], None) \<and>
     project_scoring_result ''redis:results'' ''p'' 9 res d = Inr (d', True) \<and>
     map_of (risk_scores d') (''b'', ''gnn-v1'') = Some row"
proof -
  let ?cfg = "default_settings ''worker'' ''h''"
  obtain d r where m: "materialize_graph_batch sample_uuid5 (scoring_request_topic ?cfg) ''g'' (sample_env 5)
      batch_ab empty_db = Inr (d, r)"
    by (rule accepts_ab [OF empty_unclaimed])
  let ?envs = "replicate (relay_backlog d) quiet_env"
  obtain st ex where run: "relay_run sample_runtime id ?cfg ?envs
      \<lparr>rl_db = d, rl_sent = [], rl_attempt = 0\<rparr> = (st, ex)" by fastforce
  have two: "length (batch_nodes (payload batch_ab)) = 2" "node_tx_id (batch_nodes (payload batch_ab) ! 1) = ''b''"
    "batch_feature_schema_version (payload batch_ab) = ''elliptic-165-v1''"
    by (simp_all add: sample_defs)
  have inj: "inj_on sample_uuid5 (request_identities batch_ab)"
    by (simp add: request_identities_def sample_defs node_ids_def event_identity_def
        str_int_def str_nat.simps digit_char_def sample_uuid5_def)
  have db: "db_ok d" "features_all (row_within 1000) d"
    using materialize_db_ok [OF m] materialize_features [OF m batch_ab_within] by simp_all
  have claims: "\<not> inbox_claimed ''p'' d x" for x
    using m by (cases rule: materialize_shape) (simp_all add: applied_inbox empty_unclaimed)
  let ?rds = "\<lambda>_ :: nat. \<lparr>rd_db = d, rd_collate = id, rd_scan = id\<rparr>"
  have rd: "grown d (rd_db (?rds 1))" "db_ok (rd_db (?rds 1))" "features_all (row_within 1000) (rd_db (?rds 1))"
    using db by (simp_all add: grown_refl)
  have i: "1 < length (batch_nodes (payload batch_ab))" using two by simp
  have free: "map_of (outbox_events empty_db) (event_id request_b) = None" by (simp add: empty_db_def)
  have calm: "\<forall>env \<in> set ?envs. quiet env" "\<not> is_redis_topic (scoring_request_topic ?cfg)"
    "relay_backlog d \<le> length ?envs * nat (outbox_batch_size ?cfg)"
    by (simp_all add: quiet_env_def quiet_def is_redis_topic_def default_settings_def)
  have model: "mr_infer zero_model = gnn_infer zero_ops zero_inference"
    "mr_feature_schema_version zero_model = batch_feature_schema_version (payload batch_ab)"
    using two by (simp_all add: zero_model_def sample_model_def)
  have raw: "kr_value sample_request_record = Some ''{}''"
    by (simp add: sample_request_record_def sample_record_def)
  have names: "mr_model_version zero_model = ''gnn-v1''" by (simp add: zero_model_def sample_model_def)
  from transaction_is_scored [where i = 1 and topic = "''redis:results''" and now = 9 and scan = id
      and rds = ?rds and isof = "\<lambda>_. []" and published = 9 and parse = "\<lambda>_. Some request_b",
      OF m empty_unclaimed valid_batch_ab samples_acceptable(3) db_ok_empty i length_sample_uuid5 inj free
      samples_acceptable(5) calm run zero_model_deployed calm_sample zero_ops_ok zero_inference_ok model rd raw
      refl grown_refl claims result_ids_fresh [OF m], unfolded two(2) names]
  show ?thesis using m run by fastforce
qed

end
